(* ===== verification/Prelude.thy ===== *)
theory Prelude
  imports Main "HOL-Library.Word"
begin

text \<open>
  Shared foundations of the SoroCron development: Rust's fixed-width integers, the
  outcome of a contract call, the state-passing actions every contract is written in,
  their weakest preconditions, and sums over maps.
\<close>

section \<open>Fixed-width integers\<close>

type_synonym u8 = "8 word"
type_synonym u32 = "32 word"
type_synonym u64 = "64 word"

text \<open>
  Rust's \<open>saturating_add\<close>, \<open>saturating_sub\<close>, \<open>saturating_mul\<close>, \<open>checked_mul\<close> and
  \<open>checked_div\<close> on an unsigned type; \<open>-1\<close> is the type's largest value.
\<close>

definition sat_add :: "'a::len word \<Rightarrow> 'a word \<Rightarrow> 'a word" where
  "sat_add a b = (if unat a + unat b < 2 ^ LENGTH('a) then a + b else - 1)"

definition sat_sub :: "'a::len word \<Rightarrow> 'a word \<Rightarrow> 'a word" where
  "sat_sub a b = (if b \<le> a then a - b else 0)"

definition sat_mul :: "'a::len word \<Rightarrow> 'a word \<Rightarrow> 'a word" where
  "sat_mul a b = (if unat a * unat b < 2 ^ LENGTH('a) then a * b else - 1)"

definition checked_mul :: "'a::len word \<Rightarrow> 'a word \<Rightarrow> 'a word option" where
  "checked_mul a b = (if unat a * unat b < 2 ^ LENGTH('a) then Some (a * b) else None)"

definition checked_add :: "'a::len word \<Rightarrow> 'a word \<Rightarrow> 'a word option" where
  "checked_add a b = (if unat a + unat b < 2 ^ LENGTH('a) then Some (a + b) else None)"

definition checked_div :: "'a::len word \<Rightarrow> 'a word \<Rightarrow> 'a word option" where
  "checked_div a b = (if b = 0 then None else Some (a div b))"

lemma unat_max_word: "unat (- 1 :: 'a::len word) = 2 ^ LENGTH('a) - 1"
  by (simp add: unsigned_minus_1_eq_mask mask_eq_exp_minus_1)

lemma unat_sat_add:
  "unat (sat_add a b) = min (unat a + unat b) (2 ^ LENGTH('a) - 1)" for a b :: "'a::len word"
  by (auto simp: sat_add_def unat_max_word unat_word_ariths)

lemma unat_sat_sub: "unat (sat_sub a b) = unat a - unat b"
  by (auto simp: sat_sub_def unat_sub word_le_nat_alt)

lemma unat_sat_mul:
  "unat (sat_mul a b) = min (unat a * unat b) (2 ^ LENGTH('a) - 1)" for a b :: "'a::len word"
  by (auto simp: sat_mul_def unat_max_word unat_word_ariths)

lemma sat_add_ge1: "a \<le> sat_add a b"
proof -
  have "unat a < 2 ^ LENGTH('a)"
    by (rule unsigned_less)
  then have "unat a \<le> 2 ^ LENGTH('a) - Suc 0" by linarith
  then show ?thesis by (auto simp: word_le_nat_alt unat_sat_add)
qed

lemma sat_add_mono: "a \<le> a' \<Longrightarrow> b \<le> b' \<Longrightarrow> sat_add a b \<le> sat_add a' b'"
  by (auto simp: word_le_nat_alt unat_sat_add)

lemma sat_add_0 [simp]: "sat_add a 0 = a"
  by (simp add: sat_add_def)

lemma checked_mul_Some_iff:
  "checked_mul a b = Some c \<longleftrightarrow> unat a * unat b < 2 ^ LENGTH('a) \<and> unat c = unat a * unat b"
  for a b c :: "'a::len word"
  by (auto simp: checked_mul_def unat_word_ariths word_unat_eq_iff)

lemma unat_lt_two_power [simp]: "unat (a :: 'a::len word) < 2 ^ LENGTH('a)"
  by (rule unsigned_less)

lemma unat_u64_bound: "unat (a :: u64) \<le> 18446744073709551615"
  using unat_lt_two_power [of a] by simp

lemma unat_u32_bound: "unat (a :: u32) \<le> 4294967295"
  using unat_lt_two_power [of a] by simp

text \<open>The range \<open>0..n\<close> of a \<open>u64\<close>, as Rust iterates over it.\<close>

lemma distinct_u64s: "distinct (map (of_nat :: nat \<Rightarrow> u64) [0..<unat (n :: u64)])"
proof -
  have "inj_on (of_nat :: nat \<Rightarrow> u64) {0..<unat n}"
    using unat_u64_bound [of n]
    by (auto intro!: inj_onI dest!: arg_cong [where f = unat] simp: unat_of_nat)
  then show ?thesis by (simp add: distinct_map)
qed

lemma set_u64s: "set (map (of_nat :: nat \<Rightarrow> u64) [0..<unat (n :: u64)]) = {..<n}"
proof -
  have "j \<in> of_nat ` {0..<unat n}" if "j < n" for j :: u64
    using that by (intro image_eqI [of _ _ "unat j"]) (simp_all add: word_less_nat_alt)
  moreover have "(of_nat i :: u64) < n" if "i < unat n" for i
    using that unat_u64_bound [of n] by (simp add: word_less_nat_alt unat_of_nat)
  ultimately show ?thesis by auto
qed

lemma uint_pos: "x \<noteq> 0 \<Longrightarrow> 0 < uint x" for x :: "'a::len word"
  by (metis less_le uint_ge_0 uint_0_iff)

section \<open>Token amounts\<close>

text \<open>
  Amounts are \<open>i128\<close> in the source. The model computes them on \<open>int\<close> and writes out the
  width at every unguarded \<open>+\<close> and \<open>-\<close>: the contracts are compiled with
  \<open>overflow-checks = true\<close>, so leaving the range is a panic.
\<close>

definition in_i128 :: "int \<Rightarrow> bool" where
  "in_i128 n \<longleftrightarrow> - (2 ^ 127) \<le> n \<and> n < 2 ^ 127"

text \<open>Rust's division and remainder of signed integers truncate towards zero.\<close>

definition trunc_div :: "int \<Rightarrow> int \<Rightarrow> int" where
  "trunc_div a b = sgn a * sgn b * (\<bar>a\<bar> div \<bar>b\<bar>)"

definition trunc_mod :: "int \<Rightarrow> int \<Rightarrow> int" where
  "trunc_mod a b = a - b * trunc_div a b"

lemma trunc_div_nonneg: "0 \<le> a \<Longrightarrow> 0 < b \<Longrightarrow> trunc_div a b = a div b"
  by (cases "a = 0") (simp_all add: trunc_div_def)

lemma trunc_mod_nonneg: "0 \<le> a \<Longrightarrow> 0 < b \<Longrightarrow> trunc_mod a b = a mod b"
  by (simp add: trunc_mod_def trunc_div_nonneg minus_mult_div_eq_mod)

section \<open>Outcomes and actions\<close>

text \<open>
  What a Rust function of a contract does: it returns \<open>Ok\<close>, it returns \<open>Err\<close> with a
  contract error (what it wrote before stays visible to its caller inside the same
  transaction), or it panics, which no caller inside the contract can catch.
\<close>

datatype ('e, 'a) outcome = Ok 'a | Err 'e | Trap

type_synonym ('s, 'e, 'a) act = "'s \<Rightarrow> ('e, 'a) outcome \<times> 's"

definition ok :: "'a \<Rightarrow> ('s, 'e, 'a) act" where
  "ok x s = (Ok x, s)"

definition err :: "'e \<Rightarrow> ('s, 'e, 'a) act" where
  "err e s = (Err e, s)"

definition trap :: "('s, 'e, 'a) act" where
  "trap s = (Trap, s)"

definition bind :: "('s, 'e, 'a) act \<Rightarrow> ('a \<Rightarrow> ('s, 'e, 'b) act) \<Rightarrow> ('s, 'e, 'b) act" where
  "bind m f s =
     (case m s of
        (Ok x, t) \<Rightarrow> f x t
      | (Err e, t) \<Rightarrow> (Err e, t)
      | (Trap, t) \<Rightarrow> (Trap, t))"

definition andthen :: "('s, 'e, 'a) act \<Rightarrow> ('s, 'e, 'b) act \<Rightarrow> ('s, 'e, 'b) act" where
  "andthen m k = bind m (\<lambda>_. k)"

definition gets :: "('s \<Rightarrow> 'a) \<Rightarrow> ('s, 'e, 'a) act" where
  "gets f s = (Ok (f s), s)"

definition modify :: "('s \<Rightarrow> 's) \<Rightarrow> ('s, 'e, unit) act" where
  "modify f s = (Ok (), f s)"

text \<open>\<open>if c { return Err(e) }\<close>, an assertion that panics, \<open>ok_or(e)?\<close> and \<open>unwrap\<close>.\<close>

definition fail_if :: "bool \<Rightarrow> 'e \<Rightarrow> ('s, 'e, unit) act" where
  "fail_if c e = (if c then err e else ok ())"

definition require :: "bool \<Rightarrow> ('s, 'e, unit) act" where
  "require c = (if c then ok () else trap)"

definition ok_or :: "'a option \<Rightarrow> 'e \<Rightarrow> ('s, 'e, 'a) act" where
  "ok_or x e = (case x of None \<Rightarrow> err e | Some v \<Rightarrow> ok v)"

definition unwrap :: "'a option \<Rightarrow> ('s, 'e, 'a) act" where
  "unwrap x = (case x of None \<Rightarrow> trap | Some v \<Rightarrow> ok v)"

definition lift_result :: "'e + 'a \<Rightarrow> ('s, 'e, 'a) act" where
  "lift_result r = (case r of Inl e \<Rightarrow> err e | Inr v \<Rightarrow> ok v)"

text \<open>An unguarded \<open>i128\<close> result: panics outside the type.\<close>

definition i128 :: "int \<Rightarrow> ('s, 'e, int) act" where
  "i128 n = (if in_i128 n then ok n else trap)"

text \<open>Looking at a \<open>Result\<close> without returning it: errors become values, panics do not.\<close>

definition attempt :: "('s, 'e, 'a) act \<Rightarrow> ('s, 'f, 'e + 'a) act" where
  "attempt m s =
     (case m s of
        (Ok x, t) \<Rightarrow> (Ok (Inr x), t)
      | (Err e, t) \<Rightarrow> (Ok (Inl e), t)
      | (Trap, t) \<Rightarrow> (Trap, t))"

definition only_if :: "bool \<Rightarrow> ('s, 'e, unit) act \<Rightarrow> ('s, 'e, unit) act" where
  "only_if c m = (if c then m else ok ())"

text \<open>A \<open>for\<close> loop that pushes one result per element.\<close>

fun collect :: "('a \<Rightarrow> ('s, 'e, 'b) act) \<Rightarrow> 'a list \<Rightarrow> ('s, 'e, 'b list) act" where
  "collect f [] = ok []"
| "collect f (x # xs) =
     bind (f x) (\<lambda>y. bind (collect f xs) (\<lambda>ys. ok (y # ys)))"

text \<open>
  A transaction: on an error or a panic the host discards everything the call wrote.
\<close>

definition transact :: "('s, 'e, 'a) act \<Rightarrow> ('s, 'e, 'a) act" where
  "transact m s = (case m s of (Ok x, t) \<Rightarrow> (Ok x, t) | (r, _) \<Rightarrow> (r, s))"

lemma transact_Ok_iff [simp]: "transact m s = (Ok x, t) \<longleftrightarrow> m s = (Ok x, t)"
  by (auto simp: transact_def split: prod.splits outcome.splits)

lemma transact_not_Ok: "transact m s = (r, t) \<Longrightarrow> (\<And>x. r \<noteq> Ok x) \<Longrightarrow> t = s"
  by (auto simp: transact_def split: prod.splits outcome.splits)

section \<open>Weakest preconditions\<close>

text \<open>
  \<open>wp m Q E T s\<close>: run from \<open>s\<close>, action \<open>m\<close> ends with \<open>Q\<close> on success, with \<open>E\<close> on a
  contract error, and panics only if \<open>T\<close> allows it. The rules are equations, so the
  simplifier turns the \<open>wp\<close> of a whole handler into a condition on the start state.
\<close>

definition wp ::
  "('s, 'e, 'a) act \<Rightarrow> ('a \<Rightarrow> 's \<Rightarrow> bool) \<Rightarrow> ('e \<Rightarrow> 's \<Rightarrow> bool) \<Rightarrow> bool \<Rightarrow> 's \<Rightarrow> bool" where
  "wp m Q E T s =
     (case m s of (Ok x, t) \<Rightarrow> Q x t | (Err e, t) \<Rightarrow> E e t | (Trap, _) \<Rightarrow> T)"

named_theorems wps "weakest preconditions, as equations"

lemma wp_ok [wps]: "wp (ok x) Q E T s = Q x s"
  by (simp add: wp_def ok_def)

lemma wp_err [wps]: "wp (err e) Q E T s = E e s"
  by (simp add: wp_def err_def)

lemma wp_trap [wps]: "wp trap Q E T s = T"
  by (simp add: wp_def trap_def)

lemma wp_bind [wps]: "wp (bind m f) Q E T s = wp m (\<lambda>x. wp (f x) Q E T) E T s"
  by (simp add: wp_def bind_def split: prod.splits outcome.splits)

lemma wp_andthen [wps]: "wp (andthen m k) Q E T s = wp m (\<lambda>_. wp k Q E T) E T s"
  by (simp add: andthen_def wp_bind)

lemma wp_gets [wps]: "wp (gets f) Q E T s = Q (f s) s"
  by (simp add: wp_def gets_def)

lemma wp_modify [wps]: "wp (modify f) Q E T s = Q () (f s)"
  by (simp add: wp_def modify_def)

lemma wp_fail_if [wps]: "wp (fail_if c e) Q E T s = (if c then E e s else Q () s)"
  by (simp add: fail_if_def wps)

lemma wp_require [wps]: "wp (require c) Q E T s = (if c then Q () s else T)"
  by (simp add: require_def wps)

lemma wp_ok_or [wps]:
  "wp (ok_or x e) Q E T s = (case x of None \<Rightarrow> E e s | Some v \<Rightarrow> Q v s)"
  by (simp add: ok_or_def wps split: option.split)

lemma wp_unwrap [wps]:
  "wp (unwrap x) Q E T s = (case x of None \<Rightarrow> T | Some v \<Rightarrow> Q v s)"
  by (simp add: unwrap_def wps split: option.split)

lemma wp_lift_result [wps]:
  "wp (lift_result r) Q E T s = (case r of Inl e \<Rightarrow> E e s | Inr v \<Rightarrow> Q v s)"
  by (simp add: lift_result_def wps split: sum.split)

lemma wp_i128 [wps]: "wp (i128 n) Q E T s = (if in_i128 n then Q n s else T)"
  by (simp add: i128_def wps)

lemma wp_attempt [wps]:
  "wp (attempt m) Q E T s = wp m (\<lambda>x. Q (Inr x)) (\<lambda>e. Q (Inl e)) T s"
  by (simp add: wp_def attempt_def split: prod.splits outcome.splits)

lemma wp_only_if [wps]: "wp (only_if c m) Q E T s = (if c then wp m Q E T s else Q () s)"
  by (simp add: only_if_def wps)

lemma wp_if [wps]:
  "wp (if c then m else k) Q E T s = (if c then wp m Q E T s else wp k Q E T s)"
  by simp

lemma wp_case_option [wps]:
  "wp (case x of None \<Rightarrow> m | Some v \<Rightarrow> k v) Q E T s =
     (case x of None \<Rightarrow> wp m Q E T s | Some v \<Rightarrow> wp (k v) Q E T s)"
  by (simp split: option.split)

lemma wp_case_prod [wps]:
  "wp (case p of (x, y) \<Rightarrow> k x y) Q E T s = (case p of (x, y) \<Rightarrow> wp (k x y) Q E T s)"
  by (simp split: prod.split)

lemma wp_case_sum [wps]:
  "wp (case r of Inl x \<Rightarrow> m x | Inr y \<Rightarrow> k y) Q E T s =
     (case r of Inl x \<Rightarrow> wp (m x) Q E T s | Inr y \<Rightarrow> wp (k y) Q E T s)"
  by (simp split: sum.split)

text \<open>Between runs and weakest preconditions.\<close>

lemma wpI:
  "(\<And>x t. m s = (Ok x, t) \<Longrightarrow> Q x t) \<Longrightarrow> (\<And>e t. m s = (Err e, t) \<Longrightarrow> E e t) \<Longrightarrow>
   (\<And>t. m s = (Trap, t) \<Longrightarrow> T) \<Longrightarrow> wp m Q E T s"
  by (cases "m s") (auto simp: wp_def split: outcome.split)

lemma wp_OkD: "wp m Q E T s \<Longrightarrow> m s = (Ok x, t) \<Longrightarrow> Q x t"
  by (simp add: wp_def)

lemma wp_ErrD: "wp m Q E T s \<Longrightarrow> m s = (Err e, t) \<Longrightarrow> E e t"
  by (simp add: wp_def)

lemma wp_TrapD: "wp m Q E T s \<Longrightarrow> m s = (Trap, t) \<Longrightarrow> T"
  by (simp add: wp_def)

lemma wp_returns: "wp m Q (\<lambda>_ _. False) False s \<Longrightarrow> \<exists>x t. m s = (Ok x, t) \<and> Q x t"
  by (auto simp: wp_def split: prod.splits outcome.splits)

lemma wp_mono:
  "wp m Q E T s \<Longrightarrow> (\<And>x t. Q x t \<Longrightarrow> Q' x t) \<Longrightarrow> (\<And>e t. E e t \<Longrightarrow> E' e t) \<Longrightarrow> (T \<Longrightarrow> T') \<Longrightarrow>
   wp m Q' E' T' s"
  by (auto simp: wp_def split: prod.splits outcome.splits)

lemma wp_conj:
  "wp m Q E T s \<Longrightarrow> wp m Q' E' T' s \<Longrightarrow>
   wp m (\<lambda>x t. Q x t \<and> Q' x t) (\<lambda>e t. E e t \<and> E' e t) (T \<and> T') s"
  by (auto simp: wp_def split: prod.splits outcome.splits)

text \<open>A loop keeps what its body keeps.\<close>

lemma wp_collect:
  assumes "\<And>x s. x \<in> set xs \<Longrightarrow> I s \<Longrightarrow> wp (f x) (\<lambda>_. I) (\<lambda>_. I) T s" and "I s"
  shows "wp (collect f xs) (\<lambda>_. I) (\<lambda>_. I) T s"
  using assms
proof (induction xs arbitrary: s)
  case Nil
  then show ?case by (simp add: wps)
next
  case (Cons x xs)
  have "wp (f x) (\<lambda>_. I) (\<lambda>_. I) T s"
    by (rule Cons.prems) (simp_all add: Cons.prems)
  then show ?case
    unfolding collect.simps wp_bind
    by (rule wp_mono) (auto simp: wp_ok [abs_def] intro!: Cons.IH Cons.prems(1))
qed

lemma collect_length: "collect f xs s = (Ok ys, t) \<Longrightarrow> length ys = length xs"
  by (induction xs arbitrary: s ys)
    (auto simp: ok_def bind_def split: prod.splits outcome.splits)

section \<open>Sums over maps\<close>

definition total :: "('v \<Rightarrow> int) \<Rightarrow> ('k \<rightharpoonup> 'v) \<Rightarrow> int" where
  "total f m = (\<Sum>k \<in> dom m. f (the (m k)))"

definition at_key :: "('v \<Rightarrow> int) \<Rightarrow> ('k \<rightharpoonup> 'v) \<Rightarrow> 'k \<Rightarrow> int" where
  "at_key f m k = (case m k of None \<Rightarrow> 0 | Some v \<Rightarrow> f v)"

lemma total_empty [simp]: "total f Map.empty = 0"
  by (simp add: total_def)

lemma total_remove:
  assumes "finite (dom m)"
  shows "total f (m(k := None)) = total f m - at_key f m k"
proof (cases "m k")
  case None
  then show ?thesis by (simp add: fun_upd_idem at_key_def)
next
  case (Some v)
  then have "k \<in> dom m" by blast
  then have "total f m = f (the (m k)) + (\<Sum>j \<in> dom m - {k}. f (the (m j)))"
    unfolding total_def using assms by (rule sum.remove [rotated])
  moreover have "total f (m(k := None)) = (\<Sum>j \<in> dom m - {k}. f (the (m j)))"
    unfolding total_def by (rule sum.cong) auto
  ultimately show ?thesis using Some by (simp add: at_key_def)
qed

lemma total_update:
  assumes "finite (dom m)"
  shows "total f (m(k \<mapsto> v)) = total f m - at_key f m k + f v"
proof -
  have fin: "finite (dom (m(k \<mapsto> v)))" using assms by simp
  have "total f ((m(k \<mapsto> v))(k := None)) = total f (m(k \<mapsto> v)) - at_key f (m(k \<mapsto> v)) k"
    by (rule total_remove) (rule fin)
  moreover have "(m(k \<mapsto> v))(k := None) = m(k := None)" by simp
  ultimately show ?thesis using total_remove [OF assms] by (simp add: at_key_def)
qed

lemma total_nonneg: "(\<And>k v. m k = Some v \<Longrightarrow> 0 \<le> f v) \<Longrightarrow> 0 \<le> total f m"
  unfolding total_def by (rule sum_nonneg) auto

lemma total_ge_at:
  assumes "finite (dom m)" and "m k = Some v" and "\<And>k v. m k = Some v \<Longrightarrow> 0 \<le> f v"
  shows "f v \<le> total f m"
proof -
  have "0 \<le> total f (m(k := None))"
    by (rule total_nonneg) (use assms(3) in \<open>auto split: if_splits\<close>)
  then show ?thesis using assms(2) by (simp add: total_remove [OF assms(1)] at_key_def)
qed

section \<open>Lists without repetition\<close>

text \<open>
  The registry keeps several lists of identifiers (an owner's jobs, the keeper rotation)
  with two operations: append at the end, and remove the first occurrence. The interface
  below is what their users rely on.
\<close>

locale id_list =
  fixes ids :: "'s \<Rightarrow> 'a list"
    and push :: "'a \<Rightarrow> 's \<Rightarrow> 's"
    and drop_id :: "'a \<Rightarrow> 's \<Rightarrow> 's"
  assumes ids_push: "x \<notin> set (ids s) \<Longrightarrow> ids (push x s) = ids s @ [x] \<or> push x s = s"
    and ids_drop: "ids (drop_id x s) = remove1 x (ids s)"
begin

lemma distinct_push: "distinct (ids s) \<Longrightarrow> x \<notin> set (ids s) \<Longrightarrow> distinct (ids (push x s))"
  using ids_push by fastforce

lemma distinct_drop: "distinct (ids s) \<Longrightarrow> distinct (ids (drop_id x s))"
  by (simp add: ids_drop)

lemma drop_gone: "distinct (ids s) \<Longrightarrow> x \<notin> set (ids (drop_id x s))"
  by (simp add: ids_drop)

lemma drop_keeps: "y \<noteq> x \<Longrightarrow> y \<in> set (ids (drop_id x s)) \<longleftrightarrow> y \<in> set (ids s)"
  by (simp add: ids_drop)

lemma push_keeps: "x \<notin> set (ids s) \<Longrightarrow> y \<in> set (ids s) \<Longrightarrow> y \<in> set (ids (push x s))"
  using ids_push by fastforce

end

end
