(* ===== verification/Types.thy ===== *)
theory Types
  imports Prelude
begin

text \<open>
  The registry's data: \<open>contracts/registry/src/types.rs\<close>, \<open>errors.rs\<close> and
  \<open>events.rs\<close>. Structs are records (fields carry a prefix where two structs share a
  name), enums are datatypes. Host values that the contracts only pass on are named by
  the cases the sources look at.
\<close>

section \<open>Host values\<close>

datatype address = Address nat

type_synonym symbol = string

type_synonym bytes = "u8 list"

text \<open>\<open>Val\<close> (and \<open>ScVal\<close> in the keeper): the cases the sources build or inspect.\<close>

datatype val =
    ValVoid
  | ValBool bool
  | ValU32 u32
  | ValU64 u64
  | ValI128 int
  | ValSymbol symbol
  | ValAddress address
  | ValBytes bytes
  | ValVec "val list"
  | ValMap "(val \<times> val) list"
  | ValOther u64

type_synonym sdk_error = u64

section \<open>Errors\<close>

datatype error =
    Paused
  | JobNotFound
  | InvalidInterval
  | InvalidFee
  | InvalidAmount
  | ForbiddenTarget
  | JobNotDue
  | InsufficientJobBalance
  | MaxRunsReached
  | ResolverRejected
  | KeeperNotFound
  | InsufficientStake
  | KeeperUnbonding
  | UnbondingNotStarted
  | UnbondingNotFinished
  | ExecutorNotSet
  | ExecutorAlreadySet
  | NoPendingAdmin
  | JobPaused
  | JobExpired
  | IntervalTooShort
  | TooManyArgs
  | TargetFailed
  | InvalidBatchSize
  | LengthMismatch
  | KeeperNotAllowed
  | NotAssignedKeeper
  | TargetHalted
  | InvalidCalendar
  | InvalidSetting
  | TooManyKeepers
  | AwaitingDependency
  | NoPendingUpgrade
  | UpgradeNotReady
  | NoPendingOwner

fun error_code :: "error \<Rightarrow> nat" where
  "error_code Paused = 1"
| "error_code JobNotFound = 2"
| "error_code InvalidInterval = 3"
| "error_code InvalidFee = 4"
| "error_code InvalidAmount = 5"
| "error_code ForbiddenTarget = 6"
| "error_code JobNotDue = 7"
| "error_code InsufficientJobBalance = 8"
| "error_code MaxRunsReached = 9"
| "error_code ResolverRejected = 10"
| "error_code KeeperNotFound = 11"
| "error_code InsufficientStake = 12"
| "error_code KeeperUnbonding = 13"
| "error_code UnbondingNotStarted = 14"
| "error_code UnbondingNotFinished = 15"
| "error_code ExecutorNotSet = 16"
| "error_code ExecutorAlreadySet = 17"
| "error_code NoPendingAdmin = 18"
| "error_code JobPaused = 19"
| "error_code JobExpired = 20"
| "error_code IntervalTooShort = 21"
| "error_code TooManyArgs = 22"
| "error_code TargetFailed = 23"
| "error_code InvalidBatchSize = 24"
| "error_code LengthMismatch = 25"
| "error_code KeeperNotAllowed = 26"
| "error_code NotAssignedKeeper = 27"
| "error_code TargetHalted = 28"
| "error_code InvalidCalendar = 29"
| "error_code InvalidSetting = 30"
| "error_code TooManyKeepers = 31"
| "error_code AwaitingDependency = 32"
| "error_code NoPendingUpgrade = 33"
| "error_code UpgradeNotReady = 34"
| "error_code NoPendingOwner = 35"

text \<open>\<open>#[derive(PartialOrd, Ord)]\<close> orders the errors by their codes.\<close>

lemma error_code_inject: "error_code a = error_code b \<longleftrightarrow> a = b"
  by (cases a; cases b) simp_all

instantiation error :: linorder
begin

definition less_eq_error :: "error \<Rightarrow> error \<Rightarrow> bool" where
  "less_eq_error a b \<longleftrightarrow> error_code a \<le> error_code b"

definition less_error :: "error \<Rightarrow> error \<Rightarrow> bool" where
  "less_error a b \<longleftrightarrow> error_code a < error_code b"

instance
  by standard (auto simp: less_eq_error_def less_error_def error_code_inject)

end

section \<open>Configuration, schedules and jobs\<close>

record config =
  admin :: address
  fee_token :: address
  stake_token :: address
  min_stake :: int
  unbonding_period :: u64
  paused :: bool
  executor :: "address option"
  min_interval :: u64
  max_args :: u32
  protocol_fee_bps :: u32
  treasury :: "address option"
  max_failures :: u32
  grace_period :: u64
  slash_bps :: u32
  unbonding_epoch :: u64

datatype schedule =
    Interval
  | Daily u32 u32
  | Weekly u32 u32 u32

record job_params =
  p_target :: address
  p_function :: symbol
  p_args :: "val list"
  p_interval :: u64
  p_schedule :: schedule
  p_start_at :: u64
  p_fee_per_run :: int
  p_max_fee_per_run :: int
  p_max_runs :: u32
  p_end_at :: u64
  p_resolver :: "address option"
  p_keepers :: "address list option"
  p_after :: "u64 option"

record job_update =
  u_function :: symbol
  u_args :: "val list"
  u_interval :: u64
  u_schedule :: schedule
  u_fee_per_run :: int
  u_max_fee_per_run :: int
  u_max_runs :: u32
  u_end_at :: u64
  u_resolver :: "address option"
  u_keepers :: "address list option"
  u_after :: "u64 option"

record job =
  j_id :: u64
  j_owner :: address
  j_target :: address
  j_function :: symbol
  j_args :: "val list"
  j_interval :: u64
  j_schedule :: schedule
  j_next_run :: u64
  j_fee_per_run :: int
  j_max_fee_per_run :: int
  j_balance :: int
  j_max_runs :: u32
  j_runs :: u32
  j_end_at :: u64
  j_resolver :: "address option"
  j_keepers :: "address list option"
  j_after :: "u64 option"
  j_active :: bool
  j_failures :: u32

record job_spec =
  owner :: address
  target :: address
  function_name :: symbol
  args :: "val list"
  interval :: u64
  schedule :: schedule
  fee_per_run :: int
  max_fee_per_run :: int
  max_runs :: u32
  end_at :: u64
  resolver :: "address option"
  keepers :: "address list option"
  after :: "u64 option"

record job_state =
  next_run :: u64
  balance :: int
  runs :: u32
  failures :: u32
  active :: bool
  leader_runs :: u32

section \<open>Keepers and upgrades\<close>

record keeper =
  stake :: int
  unbonding_at :: "u64 option"
  executions :: u32
  total_lateness :: u64
  missed :: u32
  slashed :: int

record keeper_stats =
  ks_stake :: int
  ks_executions :: u32
  ks_average_lateness :: u64
  ks_missed :: u32
  ks_slashed :: int
  ks_eligible :: bool
  ks_recent_lateness :: u64
  ks_recent_miss_bps :: u32

record keeper_recent =
  lateness :: u64
  misses :: u64

record pending_upgrade =
  wasm_hash :: bytes
  proposed_at :: u64
  available_at :: u64

datatype data_key =
    KConfig
  | KNextJobId
  | KJob u64
  | KKeeper address
  | KPendingAdmin
  | KOwnerJobs address
  | KJobState u64
  | KActiveKeepers
  | KHaltedTarget address
  | KUpgradeDelay
  | KPendingUpgrade
  | KPendingJobOwner u64
  | KKeeperRecent address
  | KJobTouched u64
  | KTargetResumed address
  | KRegistryResumed

section \<open>Events\<close>

text \<open>Job, keeper and administration events, with the fields of each struct in order.\<close>

datatype job_event =
    JobCreated u64 address address u64 int int
  | JobFunded u64 address int int
  | JobExecuted u64 address bool int int u32 u64 u64 u32 bytes
  | JobDeactivated u64 u32
  | KeeperMissedWindow address u64 address
  | JobExhausted u64 int
  | JobCancelled u64 int
  | JobWithdrawn u64 int int
  | JobActiveSet u64 bool

datatype keeper_event =
    KeeperStaked address int int
  | KeeperUnbondingStarted address u64
  | KeeperWithdrawn address int

datatype admin_event =
    AdminProposed address address
  | AdminProposalCancelled address address
  | AdminChanged address address
  | ExecutorSet address
  | PausedSet bool
  | MinStakeSet int
  | MinIntervalSet u64
  | MaxArgsSet u32

datatype late_event =
    JobUpdated u64 u64 int u32 u64
  | Upgraded bytes u32
  | UpgradeProposed bytes u64
  | UpgradeCancelled bytes
  | UpgradeDelaySet u64
  | JobOwnerProposed u64 address address
  | JobOwnerChanged u64 address address
  | TargetHaltSet address bool
  | ProtocolFeeSet u32 "address option"
  | MaxFailuresSet u32
  | KeeperWindowsSet u64
  | UnbondingEpochSet u64

datatype event =
    JobEvent job_event
  | KeeperEvent keeper_event
  | AdminEvent admin_event
  | LateEvent late_event

section \<open>The invocation environment\<close>

text \<open>
  What the host tells a contract about the call: the ledger timestamp and sequence
  number, the contract's own address, and which addresses authorized the call (signed it,
  or are the direct invoker). \<open>require_auth\<close> panics for any other address.
\<close>

record env =
  now :: u64
  ledger :: u32
  me :: address
  authorized :: "address \<Rightarrow> bool"

definition require_auth :: "env \<Rightarrow> address \<Rightarrow> ('s, 'e, unit) act" where
  "require_auth e a = require (authorized e a)"

lemma wp_require_auth [wps]:
  "wp (require_auth e a) Q E T s = (if authorized e a then Q () s else T)"
  by (simp add: require_auth_def wps)

end
