(* ===== verification/Schedule.thy ===== *)
theory Schedule
  imports Types
begin

text \<open>
  \<open>contracts/registry/src/schedule.rs\<close>: the pure schedule and fee arithmetic. Timestamps
  are \<open>u64\<close> words; a result of type \<open>option\<close> is \<open>None\<close> where the compiled code panics on
  overflow. The lemmas say what each function computes, as a statement about numbers.
\<close>

section \<open>Definitions\<close>

definition DAY :: u64 where
  "DAY = 86400"

definition WEEK :: u64 where
  "WEEK = 7 * DAY"

definition FIRST_MONDAY_OFFSET_DAYS :: u64 where
  "FIRST_MONDAY_OFFSET_DAYS = 4"

fun schedule_is_valid :: "schedule \<Rightarrow> bool" where
  "schedule_is_valid Interval = True"
| "schedule_is_valid (Daily hour minute) = (hour < 24 \<and> minute < 60)"
| "schedule_is_valid (Weekly weekday hour minute) = (weekday < 7 \<and> hour < 24 \<and> minute < 60)"

fun calendar_period :: "schedule \<Rightarrow> u64 option" where
  "calendar_period Interval = None"
| "calendar_period (Daily _ _) = Some DAY"
| "calendar_period (Weekly _ _ _) = Some WEEK"

fun calendar_offset :: "schedule \<Rightarrow> u64" where
  "calendar_offset Interval = 0"
| "calendar_offset (Daily hour minute) = ucast hour * 3600 + ucast minute * 60"
| "calendar_offset (Weekly weekday hour minute) =
     ((ucast weekday + FIRST_MONDAY_OFFSET_DAYS) mod 7) * DAY + ucast hour * 3600
       + ucast minute * 60"

definition first_calendar_run :: "schedule \<Rightarrow> u64 \<Rightarrow> u64" where
  "first_calendar_run sch start =
     (case calendar_period sch of
        None \<Rightarrow> start
      | Some period \<Rightarrow>
          (let offset = calendar_offset sch;
               into_period = start mod period;
               period_start = start - into_period
           in if into_period \<le> offset then sat_add period_start offset
              else sat_add (sat_add period_start period) offset))"

definition next_run_after :: "u64 \<Rightarrow> u64 \<Rightarrow> u64 \<Rightarrow> u64 option" where
  "next_run_after scheduled period at =
     (if period = 0 then Some (max scheduled at)
      else
        (let elapsed = sat_sub at scheduled
         in case checked_add (elapsed div period) 1 of
              None \<Rightarrow> None
            | Some steps \<Rightarrow>
                (case checked_mul steps period of
                   Some delta \<Rightarrow> Some (sat_add scheduled delta)
                 | None \<Rightarrow> Some (- 1))))"

definition ramped_fee :: "job_spec \<Rightarrow> job_state \<Rightarrow> u64 \<Rightarrow> int option" where
  "ramped_fee spec state at =
     (let base = fee_per_run spec
      in if max_fee_per_run spec \<le> base \<or> interval spec = 0 then Some (min base (balance state))
         else
           (let late = sat_sub at (next_run state);
                span = max_fee_per_run spec - base
            in if \<not> in_i128 span then None
               else if interval spec \<le> late then Some (min (max_fee_per_run spec) (balance state))
               else
                 (let extra = (if in_i128 (span * uint late)
                               then trunc_div (span * uint late) (uint (interval spec))
                               else span)
                  in if in_i128 (base + extra) then Some (min (base + extra) (balance state))
                     else None)))"

definition split_fee :: "int \<Rightarrow> u32 \<Rightarrow> (int \<times> int) option" where
  "split_fee amount bps =
     (if amount \<le> 0 \<or> bps = 0 then Some (amount, 0)
      else
        (let b = uint bps;
             whole = trunc_div amount 10000 * b;
             part = trunc_div (trunc_mod amount 10000 * b) 10000;
             share = whole + part
         in if in_i128 whole \<and> in_i128 share \<and> in_i128 (amount - share)
            then Some (amount - share, share) else None))"

definition smooth :: "u64 \<Rightarrow> u64 \<Rightarrow> u64" where
  "smooth scaled sample = sat_add (scaled - scaled div 8) sample"

definition unbonding_release :: "u64 \<Rightarrow> u64 \<Rightarrow> u64 \<Rightarrow> u64" where
  "unbonding_release at period epoch =
     (let start = (case checked_div at epoch of
                     None \<Rightarrow> at
                   | Some epochs \<Rightarrow> sat_mul (sat_add epochs 1) epoch)
      in sat_add start period)"

section \<open>Calendars\<close>

text \<open>
  What a calendar means, independently of the code: a daily time is a second of the day,
  a weekly time also fixes the day of the week, counted from Monday (1970-01-01 was a
  Thursday, so day \<open>n\<close> of the epoch is weekday \<open>(n + 3) mod 7\<close>).
\<close>

fun calendar_match :: "schedule \<Rightarrow> nat \<Rightarrow> bool" where
  "calendar_match Interval t = True"
| "calendar_match (Daily h m) t = (t mod 86400 = unat h * 3600 + unat m * 60)"
| "calendar_match (Weekly d h m) t =
     (t mod 86400 = unat h * 3600 + unat m * 60 \<and> (t div 86400 + 3) mod 7 = unat d)"

text \<open>The same, relative to the start of a period counted from the epoch.\<close>

fun period_nat :: "schedule \<Rightarrow> nat" where
  "period_nat Interval = 1"
| "period_nat (Daily _ _) = 86400"
| "period_nat (Weekly _ _ _) = 604800"

fun offset_nat :: "schedule \<Rightarrow> nat" where
  "offset_nat Interval = 0"
| "offset_nat (Daily h m) = unat h * 3600 + unat m * 60"
| "offset_nat (Weekly d h m) = ((unat d + 4) mod 7) * 86400 + unat h * 3600 + unat m * 60"

lemma period_nat_pos [simp]: "0 < period_nat sch"
  by (cases sch) simp_all

lemma unat_DAY [simp]: "unat DAY = 86400"
  by (simp add: DAY_def)

lemma unat_WEEK [simp]: "unat WEEK = 604800"
  by (simp add: WEEK_def DAY_def)

lemma unat_ucast_u32 [simp]: "unat (ucast x :: u64) = unat (x :: u32)"
  using unat_u32_bound [of x] by (simp add: unsigned_ucast_eq take_bit_nat_eq_self)

lemma offset_lt_period:
  assumes "schedule_is_valid sch"
  shows "offset_nat sch < period_nat sch"
proof (cases sch)
  case (Daily h m)
  then have "unat h < 24" "unat m < 60" using assms by (simp_all add: word_less_nat_alt)
  then show ?thesis using Daily by simp
next
  case (Weekly d h m)
  have "(unat d + 4) mod 7 \<le> 6" using mod_less_divisor [of 7 "unat d + 4"] by simp
  moreover have "unat h < 24" "unat m < 60"
    using assms Weekly by (simp_all add: word_less_nat_alt)
  ultimately show ?thesis using Weekly by simp
qed simp

lemma unat_calendar_offset:
  assumes "schedule_is_valid sch"
  shows "unat (calendar_offset sch) = offset_nat sch"
proof (cases sch)
  case (Daily h m)
  then have "unat h < 24" "unat m < 60" using assms by (simp_all add: word_less_nat_alt)
  then show ?thesis using Daily by (simp add: unat_word_ariths)
next
  case (Weekly d h m)
  then have "unat d < 7" "unat h < 24" "unat m < 60"
    using assms by (simp_all add: word_less_nat_alt)
  moreover have "(unat d + 4) mod 7 \<le> 6" using mod_less_divisor [of 7 "unat d + 4"] by simp
  ultimately show ?thesis using Weekly
    by (simp add: unat_word_ariths unat_mod FIRST_MONDAY_OFFSET_DAYS_def)
qed simp

lemma day_digits:
  "r < 86400 \<Longrightarrow> x < 86400 \<Longrightarrow> 86400 * a + r = b * 86400 + x \<longleftrightarrow> a = b \<and> r = x"
  for a b r x :: nat
proof -
  assume r: "r < 86400" and x: "x < 86400"
  have "(86400 * a + r) div 86400 = a" and "(b * 86400 + x) div 86400 = b"
    using r x by simp_all
  then have "86400 * a + r = b * 86400 + x \<Longrightarrow> a = b" by metis
  then show ?thesis by auto
qed

lemma weekday_shift:
  assumes "d < (7::nat)"
  shows "(q + 3) mod 7 = d \<longleftrightarrow> q mod 7 = (d + 4) mod 7"
proof -
  define e where "e = q mod 7"
  have e: "e < 7" by (simp add: e_def)
  have "(q + 3) mod 7 = (e + 3) mod 7" by (simp add: e_def mod_simps)
  also have "\<dots> = (if e < 4 then e + 3 else e - 4)" using e by (auto simp: mod_if)
  finally have q: "(q + 3) mod 7 = (if e < 4 then e + 3 else e - 4)" .
  have "(d + 4) mod 7 = (if d < 3 then d + 4 else d - 3)" using assms by (auto simp: mod_if)
  then show ?thesis using q e assms unfolding e_def [symmetric] by auto
qed

lemma calendar_match_iff:
  assumes "schedule_is_valid sch" and "calendar_period sch \<noteq> None"
  shows "calendar_match sch t \<longleftrightarrow> t mod period_nat sch = offset_nat sch"
proof (cases sch)
  case (Weekly d h m)
  then have b: "unat d < 7" "unat h < 24" "unat m < 60"
    using assms by (simp_all add: word_less_nat_alt)
  define q where "q = t div 86400"
  define r where "r = t mod 86400"
  have t: "t mod 604800 = 86400 * (q mod 7) + r"
    using mod_mult2_eq [of t 86400 7] by (simp add: q_def r_def)
  have r: "r < 86400" by (simp add: r_def)
  have "(q + 3) mod 7 = unat d \<longleftrightarrow> q mod 7 = (unat d + 4) mod 7"
    using b(1) by (rule weekday_shift)
  moreover have "86400 * (q mod 7) + r = ((unat d + 4) mod 7) * 86400 + unat h * 3600 + unat m * 60
      \<longleftrightarrow> q mod 7 = (unat d + 4) mod 7 \<and> r = unat h * 3600 + unat m * 60"
  proof -
    have "unat h * 3600 + unat m * 60 < 86400" using b by linarith
    then show ?thesis unfolding add.assoc by (rule day_digits [OF r])
  qed
  ultimately show ?thesis using Weekly t by (auto simp: q_def r_def)
qed (use assms in auto)

text \<open>The arithmetic behind it: the least point of a grid at or after a given one.\<close>

lemma grid_next_nat:
  fixes f p off :: nat
  assumes "off < p"
  defines "t \<equiv> f - f mod p + (if f mod p \<le> off then off else p + off)"
  shows "t mod p = off" and "f \<le> t" and "t < f + p"
    and "\<And>u. f \<le> u \<Longrightarrow> u < t \<Longrightarrow> u mod p \<noteq> off"
proof -
  define q where "q = f div p"
  define r where "r = f mod p"
  have f: "f = q * p + r" and r: "r < p"
    using assms(1) by (simp_all add: q_def r_def)
  have t: "t = q * p + (if r \<le> off then off else p + off)"
    unfolding t_def r_def [symmetric] by (simp add: f)
  show "t mod p = off" using assms(1) t by simp
  show "f \<le> t" "t < f + p" using f t r assms(1) by (simp_all split: if_splits)
  show "u mod p \<noteq> off" if "f \<le> u" "u < t" for u
  proof
    assume m: "u mod p = off"
    define k where "k = u div p"
    have u: "u = k * p + off" using m by (metis div_mult_mod_eq k_def)
    show False
    proof (cases "r \<le> off")
      case True
      then have "k * p < q * p" using that t u by simp
      then have "Suc k \<le> q" by simp
      then have "Suc k * p \<le> q * p" by (rule mult_le_mono1)
      then show False using that u f assms(1) by simp
    next
      case False
      then have "k * p < Suc q * p" using that t u by simp
      then have "k < Suc q" by (metis mult_less_cancel2)
      then have "k \<le> q" by simp
      then have "k * p \<le> q * p" by (rule mult_le_mono1)
      then show False using that(1) u f False by linarith
    qed
  qed
qed

lemma calendar_period_nat: "calendar_period sch = Some p \<Longrightarrow> unat p = period_nat sch"
  by (cases sch) auto

lemma unat_first_calendar_run:
  assumes "schedule_is_valid sch" and p: "calendar_period sch = Some p"
    and fits: "unat from + 2 * period_nat sch < 2 ^ 64"
  shows "unat (first_calendar_run sch from) =
    unat from - unat from mod period_nat sch +
      (if unat from mod period_nat sch \<le> offset_nat sch then offset_nat sch
       else period_nat sch + offset_nat sch)"
proof -
  note n = calendar_period_nat [OF p] unat_calendar_offset [OF assms(1)]
    offset_lt_period [OF assms(1)]
  have start: "unat (from - from mod p) = unat from - unat from mod period_nat sch"
    by (simp add: unat_sub word_le_nat_alt unat_mod n)
  define r where "r = unat from mod period_nat sch"
  have r: "r \<le> unat from" by (simp add: r_def)
  show ?thesis
    unfolding first_calendar_run_def p option.case Let_def word_le_nat_alt unat_mod n
      r_def [symmetric]
    using fits n(3) r
    by (simp add: unat_sat_add start r_def [symmetric] n(1,2) min_def) linarith
qed

lemma first_calendar_run_next:
  assumes "schedule_is_valid sch" and "calendar_period sch \<noteq> None"
    and "unat from + 2 * period_nat sch < 2 ^ 64"
  shows "from \<le> first_calendar_run sch from
    \<and> unat (first_calendar_run sch from) < unat from + period_nat sch
    \<and> calendar_match sch (unat (first_calendar_run sch from))
    \<and> (\<forall>u. unat from \<le> u \<and> u < unat (first_calendar_run sch from) \<longrightarrow> \<not> calendar_match sch u)"
proof -
  obtain p where p: "calendar_period sch = Some p" using assms(2) by auto
  note g = grid_next_nat [OF offset_lt_period [OF assms(1)], of "unat from"]
  show ?thesis
    unfolding word_le_nat_alt unat_first_calendar_run [OF assms(1) p assms(3)]
      calendar_match_iff [OF assms(1,2)]
    using g by blast
qed

section \<open>The run grid\<close>

lemma unat_next_run_after:
  assumes "period \<noteq> 0"
  shows "next_run_after scheduled period at =
    (let steps = (unat at - unat scheduled) div unat period + 1
     in if 2 ^ 64 \<le> steps then None
        else Some (of_nat (min (unat scheduled + steps * unat period) (2 ^ 64 - 1))))"
proof -
  define e where "e = (unat at - unat scheduled) div unat period"
  have e: "unat (sat_sub at scheduled div period) = e"
    by (simp add: e_def unat_div unat_sat_sub)
  show ?thesis
  proof (cases "e + 1 < 2 ^ 64")
    case True
    define w where "w = sat_sub at scheduled div period + 1"
    have w: "unat w = e + 1"
      using True unfolding w_def unat_word_ariths(1) e by simp
    have ca: "checked_add (sat_sub at scheduled div period) 1 = Some w"
      using True by (simp add: checked_add_def e w_def)
    show ?thesis
    proof (cases "(e + 1) * unat period < 2 ^ 64")
      case small: True
      have "unat (w * period) = (e + 1) * unat period"
        using small w by (simp add: unat_word_ariths)
      moreover have "checked_mul w period = Some (w * period)"
        using small by (simp add: checked_mul_def w)
      ultimately show ?thesis
        using assms True ca
        by (simp add: next_run_after_def Let_def e_def [symmetric] word_unat_eq_iff unat_sat_add
            unat_of_nat)
    next
      case False
      have "checked_mul w period = None" using False by (simp add: checked_mul_def w)
      then show ?thesis
        using assms True ca False
        by (simp add: next_run_after_def Let_def e_def [symmetric] word_unat_eq_iff
            unat_max_word unat_of_nat min_def)
    qed
  next
    case False
    then show ?thesis
      using assms by (simp add: next_run_after_def checked_add_def e Let_def e_def [symmetric])
  qed
qed

lemma next_run_after_None_iff:
  "next_run_after scheduled period at = None \<longleftrightarrow> scheduled = 0 \<and> period = 1 \<and> at = - 1"
proof (cases "period = 0")
  case True
  then show ?thesis by (simp add: next_run_after_def)
next
  case False
  then have p: "1 \<le> unat period" by (simp add: Suc_leI unat_gt_0)
  define d where "d = unat at - unat scheduled"
  have d: "d \<le> 2 ^ 64 - 1" using unat_u64_bound [of at] by (simp add: d_def)
  have "next_run_after scheduled period at = None \<longleftrightarrow> 2 ^ 64 - 1 \<le> d div unat period"
    using False by (auto simp: unat_next_run_after Let_def d_def)
  also have "\<dots> \<longleftrightarrow> d = 2 ^ 64 - 1 \<and> unat period = 1"
  proof
    assume big: "2 ^ 64 - 1 \<le> d div unat period"
    have "unat period = 1"
    proof (rule ccontr)
      assume "unat period \<noteq> 1"
      then have "2 \<le> unat period" using p by linarith
      then have "d div unat period \<le> d div 2" by (rule div_le_mono2 [rotated]) simp
      then show False using big d by simp
    qed
    then show "d = 2 ^ 64 - 1 \<and> unat period = 1" using big d by simp
  qed simp
  also have "\<dots> \<longleftrightarrow> scheduled = 0 \<and> period = 1 \<and> at = - 1"
    using unat_u64_bound [of at] unat_u64_bound [of scheduled]
    by (auto simp: d_def word_unat_eq_iff unat_max_word)
  finally show ?thesis .
qed

text \<open>The grid of a job: the points \<open>scheduled + k * period\<close>.\<close>

lemma next_run_after_grid:
  assumes "period \<noteq> 0" and "next_run_after scheduled period at = Some r" and "r \<noteq> - 1"
  shows "at < r \<and> scheduled < r
    \<and> (\<exists>k. unat r = unat scheduled + Suc k * unat period)
    \<and> unat r \<le> max (unat scheduled) (unat at) + unat period"
proof -
  define d where "d = unat at - unat scheduled"
  define k where "k = d div unat period"
  have p: "0 < unat period" using assms(1) by (simp add: unat_gt_0)
  define x where "x = unat scheduled + (k + 1) * unat period"
  have r: "r = of_nat (min x (2 ^ 64 - 1))"
    using assms(2) by (simp add: unat_next_run_after [OF assms(1)] Let_def d_def k_def x_def
        split: if_splits)
  have "min x (2 ^ 64 - 1) < 2 ^ 64" by simp
  then have ur: "unat r = min x (2 ^ 64 - 1)" unfolding r by (simp add: unat_of_nat)
  moreover have "unat r \<noteq> 2 ^ 64 - 1"
    using assms(3) by (simp add: word_unat_eq_iff unat_max_word)
  ultimately have rx: "unat r = x" by (simp add: min_def split: if_splits)
  have dk: "d = k * unat period + d mod unat period" by (simp add: k_def)
  have dm: "d mod unat period < unat period" using p by simp
  have "unat at < x" and "x \<le> max (unat scheduled) (unat at) + unat period"
    using dk dm by (auto simp: x_def d_def)
  moreover have "unat scheduled < x" using p by (simp add: x_def)
  ultimately show ?thesis
    using rx by (auto simp: word_less_nat_alt x_def intro!: exI [of _ k])
qed

lemma next_run_after_ge:
  assumes "next_run_after scheduled period at = Some r"
  shows "scheduled \<le> r \<and> at \<le> r"
proof (cases "period = 0")
  case True
  then show ?thesis using assms by (auto simp: next_run_after_def)
next
  case False
  show ?thesis
  proof (cases "r = - 1")
    case True
    then show ?thesis by (simp add: word_order.extremum)
  next
    case r: False
    show ?thesis using next_run_after_grid [OF False assms r] by (auto intro: less_imp_le)
  qed
qed

section \<open>Fees\<close>

text \<open>The increase over the base fee, as a number: linear, rounded down, then the ceiling.\<close>

definition fee_extra :: "job_spec \<Rightarrow> nat \<Rightarrow> int" where
  "fee_extra spec late =
     (let span = max_fee_per_run spec - fee_per_run spec
      in if max_fee_per_run spec \<le> fee_per_run spec \<or> interval spec = 0 then 0
         else if unat (interval spec) \<le> late \<or> \<not> in_i128 (span * int late) then span
         else span * int late div uint (interval spec))"

lemma fee_extra_bounds:
  "0 \<le> fee_extra spec late \<and>
   fee_extra spec late \<le> max 0 (max_fee_per_run spec - fee_per_run spec)"
proof (cases "max_fee_per_run spec \<le> fee_per_run spec \<or> interval spec = 0
    \<or> unat (interval spec) \<le> late
    \<or> \<not> in_i128 ((max_fee_per_run spec - fee_per_run spec) * int late)")
  case True
  then show ?thesis by (auto simp: fee_extra_def Let_def)
next
  case False
  define span where "span = max_fee_per_run spec - fee_per_run spec"
  define p where "p = uint (interval spec)"
  have p: "p = int (unat (interval spec))" by (simp add: p_def)
  have sp: "0 < span" using False by (auto simp: span_def)
  have "late < unat (interval spec)" using False by simp
  then have lp: "int late < p" unfolding p by (simp only: of_nat_less_iff)
  then have p0: "0 < p" by linarith
  have "span * int late \<le> span * p" using sp lp by (simp add: mult_left_mono)
  then have "span * int late div p \<le> span * p div p" by (rule zdiv_mono1) (rule p0)
  moreover have "0 \<le> span * int late div p" using sp p0 by (simp add: pos_imp_zdiv_nonneg_iff)
  ultimately show ?thesis
    using False p0 by (simp add: fee_extra_def Let_def span_def [symmetric] p_def [symmetric])
qed

lemma fee_extra_mono:
  assumes "l \<le> l'"
  shows "fee_extra spec l \<le> fee_extra spec l'"
proof -
  define span where "span = max_fee_per_run spec - fee_per_run spec"
  define p where "p = uint (interval spec)"
  consider "max_fee_per_run spec \<le> fee_per_run spec \<or> interval spec = 0"
    | "\<not> (max_fee_per_run spec \<le> fee_per_run spec \<or> interval spec = 0)"
      "unat (interval spec) \<le> l' \<or> \<not> in_i128 (span * int l')"
    | "\<not> (max_fee_per_run spec \<le> fee_per_run spec \<or> interval spec = 0)"
      "\<not> unat (interval spec) \<le> l'" "in_i128 (span * int l')" by blast
  then show ?thesis
  proof cases
    case 1
    then show ?thesis by (auto simp: fee_extra_def Let_def)
  next
    case 2
    then have "fee_extra spec l' = max 0 span"
      by (auto simp: fee_extra_def Let_def span_def)
    then show ?thesis using fee_extra_bounds [of spec l] by (simp add: span_def)
  next
    case 3
    have s: "0 < span" using 3(1) by (auto simp: span_def)
    have p: "0 < p" using 3(1) by (simp add: p_def uint_pos)
    have le: "span * int l \<le> span * int l'" using assms s by (simp add: mult_left_mono)
    have "0 \<le> span * int l" using s by simp
    with le 3(3) have "in_i128 (span * int l)" unfolding in_i128_def by linarith
    moreover have "span * int l div p \<le> span * int l' div p" using le p by (rule zdiv_mono1)
    ultimately show ?thesis
      using 3 assms by (simp add: fee_extra_def Let_def span_def [symmetric] p_def [symmetric])
  qed
qed

lemma ramped_fee_eq:
  assumes "0 < fee_per_run spec" and "in_i128 (max_fee_per_run spec)"
    and "in_i128 (fee_per_run spec)"
  shows "ramped_fee spec st at =
    Some (min (fee_per_run spec + fee_extra spec (unat at - unat (next_run st))) (balance st))"
proof -
  define base where "base = fee_per_run spec"
  define top where "top = max_fee_per_run spec"
  define late where "late = unat at - unat (next_run st)"
  have "int (unat (sat_sub at (next_run st))) = int late"
    by (simp only: unat_sat_sub late_def)
  then have late: "uint (sat_sub at (next_run st)) = int late" by simp
  have late_le: "interval spec \<le> sat_sub at (next_run st) \<longleftrightarrow> unat (interval spec) \<le> late"
    by (simp add: word_le_nat_alt unat_sat_sub late_def)
  show ?thesis
  proof (cases "top \<le> base \<or> interval spec = 0")
    case True
    then show ?thesis
      by (auto simp: ramped_fee_def fee_extra_def Let_def top_def base_def)
  next
    case False
    have span: "in_i128 (top - base)"
      using assms False by (auto simp: in_i128_def top_def base_def)
    have ext: "in_i128 (base + fee_extra spec late)"
      using fee_extra_bounds [of spec late] assms False
      by (auto simp: in_i128_def top_def base_def)
    have "0 < uint (interval spec)" using False by (simp add: uint_pos)
    then have "trunc_div ((top - base) * int late) (uint (interval spec))
        = (top - base) * int late div uint (interval spec)"
      using False by (intro trunc_div_nonneg) auto
    then show ?thesis
      using False span ext unfolding late_def [symmetric]
      by (auto simp: ramped_fee_def Let_def late late_le fee_extra_def top_def base_def
          split: if_splits)
  qed
qed

lemma ramped_fee_bounds:
  assumes "0 < fee_per_run spec" and "in_i128 (max_fee_per_run spec)"
    and "in_i128 (fee_per_run spec)" and "fee_per_run spec \<le> balance st" and "at \<le> later"
  shows "\<exists>f g. ramped_fee spec st at = Some f \<and> ramped_fee spec st later = Some g
    \<and> fee_per_run spec \<le> f \<and> f \<le> g \<and> g \<le> balance st
    \<and> g \<le> max (fee_per_run spec) (max_fee_per_run spec)"
proof -
  have "unat at - unat (next_run st) \<le> unat later - unat (next_run st)"
    using assms(5) by (simp add: word_le_nat_alt diff_le_mono)
  note m = fee_extra_mono [OF this, of spec]
  show ?thesis
    using m fee_extra_bounds [of spec "unat at - unat (next_run st)"]
      fee_extra_bounds [of spec "unat later - unat (next_run st)"] assms(4)
    by (auto simp: ramped_fee_eq [OF assms(1-3)])
qed

lemma ramped_fee_le_balance: "ramped_fee spec st at = Some f \<Longrightarrow> f \<le> balance st"
  by (auto simp: ramped_fee_def Let_def split: if_splits)

lemma split_fee_eq:
  assumes "0 \<le> amount" and "in_i128 amount" and "bps \<le> 10000"
  shows "split_fee amount bps =
    Some (amount - amount * uint bps div 10000, amount * uint bps div 10000)"
proof -
  define b where "b = uint bps"
  have b: "0 \<le> b" "b \<le> 10000"
    using assms(3) by (simp_all add: b_def word_le_def)
  define q where "q = amount div 10000"
  define r where "r = amount mod 10000"
  have am: "amount = q * 10000 + r" and r: "0 \<le> r" "r < 10000" and q: "0 \<le> q"
    using assms(1) by (simp_all add: q_def r_def pos_imp_zdiv_nonneg_iff)
  have "amount * b = r * b + (q * b) * 10000" by (simp add: am algebra_simps)
  then have share: "q * b + r * b div 10000 = amount * b div 10000" by simp
  have rb: "0 \<le> r * b div 10000" using r b by (simp add: pos_imp_zdiv_nonneg_iff)
  then have "q * b \<le> amount * b div 10000" using share by linarith
  moreover have "amount * b div 10000 \<le> amount"
  proof -
    have "amount * b \<le> amount * 10000" using assms(1) b by (simp add: mult_left_mono)
    then have "amount * b div 10000 \<le> amount * 10000 div 10000" by (rule zdiv_mono1) simp
    then show ?thesis by simp
  qed
  moreover have "0 \<le> q * b" using q b by simp
  moreover have "0 \<le> amount * b div 10000"
    using assms(1) b by (simp add: pos_imp_zdiv_nonneg_iff)
  ultimately have "in_i128 (q * b)" "in_i128 (amount * b div 10000)"
    "in_i128 (amount - amount * b div 10000)"
    using assms(1,2) unfolding in_i128_def by linarith+
  moreover have "trunc_div amount 10000 = q" "trunc_mod amount 10000 = r"
    using assms(1) by (simp_all add: trunc_div_nonneg trunc_mod_nonneg q_def r_def)
  moreover have "trunc_div (r * b) 10000 = r * b div 10000"
    using r b by (simp add: trunc_div_nonneg)
  ultimately show ?thesis
    using share assms(1)
    by (auto simp: split_fee_def Let_def b_def [symmetric]) (simp add: b_def)
qed

section \<open>Smoothing and unbonding\<close>

lemma unat_smooth:
  "unat (smooth scaled sample) =
     min (unat scaled - unat scaled div 8 + unat sample) (2 ^ 64 - 1)"
proof -
  have "scaled div 8 \<le> scaled" by (simp add: word_le_nat_alt unat_div)
  then show ?thesis by (simp add: smooth_def unat_sat_add unat_sub unat_div)
qed

lemma smooth_le:
  assumes "unat scaled \<le> 8 * b" and "unat sample \<le> b"
  shows "unat (smooth scaled sample) \<le> 8 * b \<and> unat (smooth scaled sample) div 8 \<le> b"
proof -
  have "unat scaled - unat scaled div 8 \<le> 8 * b - b" using assms(1) by linarith
  then have "unat (smooth scaled sample) \<le> 8 * b" using assms(2) by (simp add: unat_smooth)
  then show ?thesis by simp
qed

lemma smooth_settles:
  assumes "8 * unat sample < 2 ^ 64" and "unat scaled = 8 * unat sample"
  shows "smooth scaled sample = scaled"
  using assms by (simp add: word_unat_eq_iff unat_smooth)

lemma unat_unbonding_release:
  "unat (unbonding_release at period epoch) =
     min (2 ^ 64 - 1)
       ((if epoch = 0 then unat at
         else min (2 ^ 64 - 1) ((unat at div unat epoch + 1) * unat epoch)) + unat period)"
proof (cases "epoch = 0")
  case True
  then show ?thesis by (simp add: unbonding_release_def checked_div_def unat_sat_add min.commute)
next
  case False
  then have e: "1 \<le> unat epoch" by (simp add: Suc_leI unat_gt_0)
  define d where "d = unat at div unat epoch"
  have "d \<le> unat at" by (simp add: d_def)
  then have d: "d \<le> 2 ^ 64 - 1" using unat_u64_bound [of at] by simp
  have "min (min (d + 1) (2 ^ 64 - 1) * unat epoch) (2 ^ 64 - 1)
      = min (2 ^ 64 - 1) ((d + 1) * unat epoch)"
  proof (cases "d + 1 \<le> 2 ^ 64 - 1")
    case True
    then show ?thesis by (simp add: min.commute)
  next
    case False
    then have "d = 2 ^ 64 - 1" using d by linarith
    moreover have "2 ^ 64 - 1 \<le> (2 ^ 64 - 1) * unat epoch" using e by simp
    ultimately show ?thesis using e by (simp add: min_def)
  qed
  then show ?thesis
    using False
    by (simp add: unbonding_release_def checked_div_def unat_sat_add unat_sat_mul unat_div
        d_def [symmetric] min.commute)
qed

lemma unbonding_release_epoch:
  assumes "epoch \<noteq> 0" and "unat a div unat epoch = unat b div unat epoch"
  shows "unbonding_release a period epoch = unbonding_release b period epoch
    \<and> min (2 ^ 64 - 1) (unat a + unat period) \<le> unat (unbonding_release a period epoch)"
proof -
  have "unat a < (unat a div unat epoch + 1) * unat epoch"
    using assms(1) by (metis add.commute dividend_less_div_times mult.commute mult_Suc
        plus_1_eq_Suc unat_gt_0)
  then have "min (2 ^ 64 - 1) (unat a) \<le> min (2 ^ 64 - 1) ((unat a div unat epoch + 1) * unat epoch)"
    by (intro min.mono) simp_all
  then show ?thesis
    using assms by (auto simp: word_unat_eq_iff unat_unbonding_release)
qed

text \<open>The other side: nobody waits longer than one epoch and one period.\<close>

lemma unbonding_release_upper:
  "unat (unbonding_release at period epoch) \<le> unat at + unat epoch + unat period"
proof (cases "epoch = 0")
  case False
  have "(unat at div unat epoch + 1) * unat epoch \<le> unat at + unat epoch" by simp
  then show ?thesis using False by (simp add: unat_unbonding_release min_le_iff_disj)
qed (simp add: unat_unbonding_release)

section \<open>The schedule's properties\<close>

text \<open>
  C21. A calendar job is next due at the next match of its calendar: for a valid daily or
  weekly schedule (and a start below the end of the clock), \<open>first_calendar_run\<close> is the
  least time at or after the start that is the given second of the day, on the given day of
  the week for a weekly one. The calendar is the independent definition
  \<open>calendar_match\<close>, with weekdays counted from Monday.
\<close>

theorem calendar_run_is_the_next_match:
  assumes "schedule_is_valid sch" and "calendar_period sch \<noteq> None"
    and "unat start + 2 * period_nat sch < 2 ^ 64"
  shows "start \<le> first_calendar_run sch start
    \<and> unat (first_calendar_run sch start) < unat start + period_nat sch
    \<and> calendar_match sch (unat (first_calendar_run sch start))
    \<and> (\<forall>u. unat start \<le> u \<and> u < unat (first_calendar_run sch start) \<longrightarrow> \<not> calendar_match sch u)"
  using first_calendar_run_next [OF assms] .

theorem calendar_run_is_the_next_match_witness:
  "calendar_match (Weekly 0 9 30) (unat (first_calendar_run (Weekly 0 9 30) 1000000))"
proof -
  have "schedule_is_valid (Weekly 0 9 30)" "calendar_period (Weekly 0 9 30) \<noteq> None"
    "unat (1000000 :: u64) + 2 * period_nat (Weekly 0 9 30) < 2 ^ 64"
    by simp_all
  from calendar_run_is_the_next_match [OF this] show ?thesis by blast
qed

text \<open>
  C22. The next run is the first point of the job's grid after now: for a non-zero interval,
  unless the clock ran out (the result is then the largest time), the next run is the old
  time plus a positive whole number of intervals, strictly after both the old time and now,
  and one interval earlier would not be after both. So missed runs are skipped, not piled
  up, and lateness does not shift the grid.
\<close>

theorem next_run_is_the_next_grid_point:
  assumes "period \<noteq> 0" and "next_run_after scheduled period at = Some r" and "r \<noteq> - 1"
  shows "at < r \<and> scheduled < r
    \<and> (\<exists>k. unat r = unat scheduled + Suc k * unat period)
    \<and> unat r \<le> max (unat scheduled) (unat at) + unat period"
  using next_run_after_grid [OF assms] .

theorem next_run_is_the_next_grid_point_witness: "next_run_after 100 60 250 = Some 280 \<and> (250 :: u64) < 280"
proof -
  have "next_run_after 100 60 250 = Some 280"
    by (simp add: next_run_after_def sat_sub_def checked_add_def checked_mul_def sat_add_def)
  moreover from next_run_is_the_next_grid_point [OF _ this] have "(250 :: u64) < 280" by simp
  ultimately show ?thesis by blast
qed

text \<open>
  The fee only ever ramps up, between the owner's two limits: for a job with valid fees
  and a balance of at least the base fee, the fee is defined (the arithmetic does not
  overflow), is at least the base fee and at most the ceiling and the balance, and is no
  lower at a later time.
\<close>

theorem fee_ramp_is_bounded_and_monotone:
  assumes "0 < fee_per_run spec" and "in_i128 (max_fee_per_run spec)"
    and "in_i128 (fee_per_run spec)" and "fee_per_run spec \<le> balance st" and "at \<le> later"
  shows "\<exists>f g. ramped_fee spec st at = Some f \<and> ramped_fee spec st later = Some g
    \<and> fee_per_run spec \<le> f \<and> f \<le> g \<and> g \<le> balance st
    \<and> g \<le> max (fee_per_run spec) (max_fee_per_run spec)"
  using ramped_fee_bounds [OF assms] .

definition sample_spec :: job_spec where
  "sample_spec =
     \<lparr>owner = Address 0, target = Address 1, function_name = [], args = [], interval = 60,
      schedule = Interval, fee_per_run = 10, max_fee_per_run = 40, max_runs = 0, end_at = 0,
      resolver = None, keepers = None, after = None\<rparr>"

definition sample_state :: job_state where
  "sample_state =
     \<lparr>next_run = 100, balance = 1000, runs = 0, failures = 0, active = True, leader_runs = 0\<rparr>"

theorem fee_ramp_is_bounded_and_monotone_witness:
  "\<exists>f g. ramped_fee sample_spec sample_state 120 = Some f \<and> ramped_fee sample_spec sample_state 150 = Some g
     \<and> f \<le> g \<and> g \<le> 40"
  using fee_ramp_is_bounded_and_monotone [of sample_spec sample_state 120 150]
  by (auto simp: sample_spec_def sample_state_def in_i128_def)

text \<open>
  The protocol's share is its rate, rounded down, and nothing is lost: splitting a fee
  gives the treasury \<open>amount * bps / 10000\<close> and the keeper all the rest, without overflow
  for any \<open>i128\<close> amount and any rate up to 100%, although the code never multiplies the
  whole amount.
\<close>

theorem fee_split_is_exact:
  assumes "0 \<le> amount" and "in_i128 amount" and "bps \<le> 10000"
  shows "split_fee amount bps =
    Some (amount - amount * uint bps div 10000, amount * uint bps div 10000)"
  using split_fee_eq [OF assms] .

theorem fee_split_is_exact_witness: "split_fee (2 ^ 127 - 1) 500 = Some (2 ^ 127 - 1 - (2 ^ 127 - 1) div 20, (2 ^ 127 - 1) div 20)"
  using fee_split_is_exact [of "2 ^ 127 - 1" 500] by (simp add: in_i128_def)

text \<open>
  Unbonding takes the whole period and at most one epoch more, and everybody who leaves
  in the same epoch is released at the same moment (all up to the end of the clock).
\<close>

theorem unbonding_takes_period_plus_at_most_an_epoch:
  assumes "epoch \<noteq> 0" and "unat a div unat epoch = unat b div unat epoch"
  shows "unbonding_release a period epoch = unbonding_release b period epoch
    \<and> min (2 ^ 64 - 1) (unat a + unat period) \<le> unat (unbonding_release a period epoch)
    \<and> unat (unbonding_release a period epoch) \<le> unat a + unat epoch + unat period"
  using unbonding_release_epoch [OF assms] unbonding_release_upper [of a period epoch] by blast

theorem unbonding_takes_period_plus_at_most_an_epoch_witness:
  "unbonding_release 1000 50 300 = unbonding_release 1100 50 300 \<and> unat (unbonding_release 1100 50 300) \<le> 1350"
proof -
  have "(300 :: u64) \<noteq> 0" "unat (1000 :: u64) div unat (300 :: u64) = unat (1100 :: u64) div unat (300 :: u64)"
    by simp_all
  note law = unbonding_takes_period_plus_at_most_an_epoch [OF this, of 50]
  from law [THEN conjunct2, THEN conjunct2] have "unat (unbonding_release 1000 50 300) \<le> 1350" by simp
  with law show ?thesis by metis
qed

end
