(* ===== verification/Host.thy ===== *)
theory Host
  imports Types
begin

text \<open>
  The Soroban host as the contracts see it. What is not in the repository (token
  contracts, job targets, resolvers, the hash function) is a parameter: a record of
  functions on an abstract world. The documented behaviour a theorem relies on is a named
  predicate on that record, and a concrete host that satisfies all of them shows that the
  predicates can hold. A contract's own state is the storage it keeps, the events it
  published and the TTL extensions it asked for; since contract re-entry is forbidden, a
  call to another contract changes the world and never that state.
\<close>

section \<open>The state of a contract under a host\<close>

datatype 'k extension =
    ExtendInstance u32 u32
  | ExtendPersistent 'k u32 u32
  | ExtendTemporary 'k u32 u32

record ('d, 'w, 'v, 'k) ctx =
  storage :: 'd
  world :: 'w
  published :: "'v list"
  extensions :: "'k extension list"

text \<open>Requests to extend a TTL are effects of reads and writes; \<open>noted\<close> records one.\<close>

definition noted ::
  "bool \<Rightarrow> 'k extension \<Rightarrow> ('d, 'w, 'v, 'k) ctx \<Rightarrow> ('d, 'w, 'v, 'k) ctx" where
  "noted b x s = (if b then s\<lparr>extensions := extensions s @ [x]\<rparr> else s)"

lemma noted_simps [simp]:
  "storage (noted b x s) = storage s"
  "world (noted b x s) = world s"
  "published (noted b x s) = published s"
  "noted False x s = s"
  by (simp_all add: noted_def)

lemma noted_updates [simp]:
  "(noted b x s)\<lparr>storage := d\<rparr> = noted b x (s\<lparr>storage := d\<rparr>)"
  "(noted b x s)\<lparr>world := w\<rparr> = noted b x (s\<lparr>world := w\<rparr>)"
  "(noted b x s)\<lparr>published := v\<rparr> = noted b x (s\<lparr>published := v\<rparr>)"
  by (simp_all add: noted_def)

lemma extensions_noted:
  "extensions (noted b x s) = extensions s @ (if b then [x] else [])"
  by (simp add: noted_def)

definition extend_ttl :: "'k extension \<Rightarrow> (('d, 'w, 'v, 'k) ctx, 'e, unit) act" where
  "extend_ttl x = modify (noted True x)"

definition publish :: "'v \<Rightarrow> (('d, 'w, 'v, 'k) ctx, 'e, unit) act" where
  "publish v = modify (\<lambda>s. s\<lparr>published := published s @ [v]\<rparr>)"

definition load :: "('d \<Rightarrow> 'a) \<Rightarrow> (('d, 'w, 'v, 'k) ctx, 'e, 'a) act" where
  "load f = gets (\<lambda>s. f (storage s))"

definition save :: "('d \<Rightarrow> 'd) \<Rightarrow> (('d, 'w, 'v, 'k) ctx, 'e, unit) act" where
  "save f = modify (\<lambda>s. s\<lparr>storage := f (storage s)\<rparr>)"

lemma wp_extend_ttl [wps]: "wp (extend_ttl x) Q E T s = Q () (noted True x s)"
  by (simp add: extend_ttl_def wps)

lemma wp_publish [wps]:
  "wp (publish v) Q E T s = Q () (s\<lparr>published := published s @ [v]\<rparr>)"
  by (simp add: publish_def wps)

lemma wp_load [wps]: "wp (load f) Q E T s = Q (f (storage s)) s"
  by (simp add: load_def wps)

lemma wp_save [wps]: "wp (save f) Q E T s = Q () (s\<lparr>storage := f (storage s)\<rparr>)"
  by (simp add: save_def wps)

section \<open>The host\<close>

text \<open>
  What \<open>try_invoke_contract\<close> reports: the returned value, a contract error, or an abort
  (panic, missing function, re-entry). Exhausting the transaction's budget or footprint
  is not recoverable, so then there is no result at all.
\<close>

datatype call_result = Returned val | Failed sdk_error | Aborted

record 'w host =
  token_balance :: "'w \<Rightarrow> address \<Rightarrow> address \<Rightarrow> int"
  token_transfer :: "address \<Rightarrow> address \<Rightarrow> address \<Rightarrow> int \<Rightarrow> 'w \<Rightarrow> 'w option"
  call_contract ::
    "address \<Rightarrow> address \<Rightarrow> symbol \<Rightarrow> val list \<Rightarrow> 'w \<Rightarrow> (call_result \<times> 'w) option"
  install_code :: "bytes \<Rightarrow> 'w \<Rightarrow> 'w"
  sha256 :: "bytes \<Rightarrow> bytes"
  val_xdr :: "val \<Rightarrow> bytes"
  error_xdr :: "sdk_error \<Rightarrow> bytes"

definition transfer ::
  "'w host \<Rightarrow> address \<Rightarrow> address \<Rightarrow> address \<Rightarrow> int \<Rightarrow> (('d, 'w, 'v, 'k) ctx, 'e, unit) act"
  where
  "transfer h token sender receiver amount s =
     (case token_transfer h token sender receiver amount (world s) of
        None \<Rightarrow> (Trap, s)
      | Some w \<Rightarrow> (Ok (), s\<lparr>world := w\<rparr>))"

definition try_call ::
  "'w host \<Rightarrow> address \<Rightarrow> address \<Rightarrow> symbol \<Rightarrow> val list \<Rightarrow>
   (('d, 'w, 'v, 'k) ctx, 'e, call_result) act" where
  "try_call h caller callee f xs s =
     (case call_contract h caller callee f xs (world s) of
        None \<Rightarrow> (Trap, s)
      | Some (r, w) \<Rightarrow> (Ok r, s\<lparr>world := w\<rparr>))"

definition balance_of ::
  "'w host \<Rightarrow> address \<Rightarrow> address \<Rightarrow> (('d, 'w, 'v, 'k) ctx, 'e, int) act" where
  "balance_of h token holder = gets (\<lambda>s. token_balance h (world s) token holder)"

lemma wp_transfer [wps]:
  "wp (transfer h token a b n) Q E T s =
     (case token_transfer h token a b n (world s) of
        None \<Rightarrow> T | Some w \<Rightarrow> Q () (s\<lparr>world := w\<rparr>))"
  by (simp add: transfer_def wp_def split: option.splits)

lemma wp_try_call [wps]:
  "wp (try_call h a c f xs) Q E T s =
     (case call_contract h a c f xs (world s) of
        None \<Rightarrow> T | Some (r, w) \<Rightarrow> Q r (s\<lparr>world := w\<rparr>))"
  by (simp add: try_call_def wp_def split: option.splits prod.splits)

lemma wp_balance_of [wps]:
  "wp (balance_of h token a) Q E T s = Q (token_balance h (world s) token a) s"
  by (simp add: balance_of_def wps)

section \<open>Documented behaviour\<close>

text \<open>
  SEP-41 tokens: a transfer moves exactly the amount and nothing else, is never negative,
  and balances are non-negative \<open>i128\<close> values.
\<close>

definition token_laws :: "'w host \<Rightarrow> bool" where
  "token_laws h \<longleftrightarrow>
     (\<forall>token a b n w w'. token_transfer h token a b n w = Some w' \<longrightarrow>
        0 \<le> n \<and>
        (\<forall>u x. token_balance h w' u x =
           token_balance h w u x - (if u = token \<and> x = a then n else 0)
             + (if u = token \<and> x = b then n else 0))) \<and>
     (\<forall>w u x. 0 \<le> token_balance h w u x \<and> in_i128 (token_balance h w u x))"

text \<open>
  Authorization: only the holder moves its tokens. A contract called from \<open>holder\<close> is not
  the holder, so whatever it does cannot lower the holder's balances (it can raise them:
  anyone may send tokens to anyone).
\<close>

definition calls_keep_funds :: "'w host \<Rightarrow> address \<Rightarrow> bool" where
  "calls_keep_funds h holder \<longleftrightarrow>
     (\<forall>caller callee f xs w r w'. call_contract h caller callee f xs w = Some (r, w') \<longrightarrow>
        (\<forall>u. token_balance h w u holder \<le> token_balance h w' u holder))"

text \<open>Stronger: called contracts leave the holder's balances alone (nobody donates).\<close>

definition calls_ignore_funds :: "'w host \<Rightarrow> address \<Rightarrow> bool" where
  "calls_ignore_funds h holder \<longleftrightarrow>
     (\<forall>caller callee f xs w r w'. call_contract h caller callee f xs w = Some (r, w') \<longrightarrow>
        (\<forall>u. token_balance h w' u holder = token_balance h w u holder))"

text \<open>Installing code does not move tokens.\<close>

definition install_keeps_funds :: "'w host \<Rightarrow> bool" where
  "install_keeps_funds h \<longleftrightarrow>
     (\<forall>c w u x. token_balance h (install_code h c w) u x = token_balance h w u x)"

lemma calls_ignore_imp_keep: "calls_ignore_funds h a \<Longrightarrow> calls_keep_funds h a"
  by (simp add: calls_ignore_funds_def calls_keep_funds_def)

lemma transfer_balance:
  assumes "token_laws h" and "token_transfer h token a b n w = Some w'"
  shows "token_balance h w' u x =
    token_balance h w u x - (if u = token \<and> x = a then n else 0)
      + (if u = token \<and> x = b then n else 0)"
  using assms unfolding token_laws_def by blast

lemma transfer_nonneg:
  "token_laws h \<Longrightarrow> token_transfer h token a b n w = Some w' \<Longrightarrow> 0 \<le> n"
  unfolding token_laws_def by blast

lemma balance_range:
  "token_laws h \<Longrightarrow> 0 \<le> token_balance h w u x \<and> token_balance h w u x < 2 ^ 127"
  unfolding token_laws_def in_i128_def by blast

section \<open>A concrete host\<close>

text \<open>
  A ledger of balances. A transfer needs a non-negative amount, a sufficient sender and a
  receiver with room; called contracts answer by a given table and move nothing. The
  world also records the installed code.
\<close>

type_synonym ledger = "(address \<Rightarrow> address \<Rightarrow> int) \<times> bytes"

definition ledger_balance :: "ledger \<Rightarrow> address \<Rightarrow> address \<Rightarrow> int" where
  "ledger_balance w token holder = max 0 (min (2 ^ 127 - 1) (fst w token holder))"

definition ledger_set :: "address \<Rightarrow> address \<Rightarrow> int \<Rightarrow> ledger \<Rightarrow> ledger" where
  "ledger_set token holder n w = ((fst w)(token := (fst w token)(holder := n)), snd w)"

definition ledger_transfer ::
  "address \<Rightarrow> address \<Rightarrow> address \<Rightarrow> int \<Rightarrow> ledger \<Rightarrow> ledger option" where
  "ledger_transfer token a b n w =
     (if 0 \<le> n \<and> n \<le> ledger_balance w token a
         \<and> (a = b \<or> ledger_balance w token b + n < 2 ^ 127)
      then if a = b then Some w
           else Some (ledger_set token b (ledger_balance w token b + n)
                  (ledger_set token a (ledger_balance w token a - n) w))
      else None)"

definition ledger_host ::
  "(address \<Rightarrow> symbol \<Rightarrow> val list \<Rightarrow> call_result option) \<Rightarrow> ledger host" where
  "ledger_host answers =
     \<lparr>token_balance = ledger_balance,
      token_transfer = ledger_transfer,
      call_contract =
        (\<lambda>caller callee f xs w. case answers callee f xs of
            None \<Rightarrow> None | Some r \<Rightarrow> Some (r, w)),
      install_code = (\<lambda>c w. (fst w, c)),
      sha256 = (\<lambda>b. b),
      val_xdr = (\<lambda>v. [0]),
      error_xdr = (\<lambda>x. [1])\<rparr>"

lemma ledger_balance_set:
  "0 \<le> n \<Longrightarrow> n < 2 ^ 127 \<Longrightarrow>
   ledger_balance (ledger_set t a n w) u x =
     (if u = t \<and> x = a then n else ledger_balance w u x)"
  by (auto simp: ledger_balance_def ledger_set_def)

lemma ledger_balance_range: "0 \<le> ledger_balance w u x \<and> ledger_balance w u x < 2 ^ 127"
  by (simp add: ledger_balance_def)

lemma ledger_transfer_balance:
  assumes "ledger_transfer t a b n w = Some w'"
  shows "ledger_balance w' u x =
    ledger_balance w u x - (if u = t \<and> x = a then n else 0) + (if u = t \<and> x = b then n else 0)"
proof (cases "a = b")
  case True
  then show ?thesis using assms by (auto simp: ledger_transfer_def split: if_splits)
next
  case False
  have n: "0 \<le> n" "n \<le> ledger_balance w t a" "ledger_balance w t b + n < 2 ^ 127"
    and w': "w' = ledger_set t b (ledger_balance w t b + n)
                  (ledger_set t a (ledger_balance w t a - n) w)"
    using assms False by (auto simp: ledger_transfer_def split: if_splits)
  have "0 \<le> ledger_balance w t b + n" "0 \<le> ledger_balance w t a - n"
    "ledger_balance w t a - n < 2 ^ 127"
    using n ledger_balance_range [of w t a] ledger_balance_range [of w t b] by linarith+
  then show ?thesis
    using False n unfolding w' by (auto simp: ledger_balance_set)
qed

lemma ledger_transfer_nonneg: "ledger_transfer t a b n w = Some w' \<Longrightarrow> 0 \<le> n"
  by (simp add: ledger_transfer_def split: if_splits)

lemma ledger_host_sel [simp]:
  "token_balance (ledger_host answers) = ledger_balance"
  "token_transfer (ledger_host answers) = ledger_transfer"
  by (simp_all add: ledger_host_def)

lemma ledger_token_laws: "token_laws (ledger_host answers)"
  unfolding token_laws_def ledger_host_sel
proof (intro conjI allI impI)
  fix t a b n w w' u x
  assume *: "ledger_transfer t a b n w = Some w'"
  show "0 \<le> n" by (rule ledger_transfer_nonneg [OF *])
  show "ledger_balance w' u x = ledger_balance w u x - (if u = t \<and> x = a then n else 0)
      + (if u = t \<and> x = b then n else 0)"
    by (rule ledger_transfer_balance [OF *])
next
  fix w u x
  show "0 \<le> ledger_balance w u x" by (simp add: ledger_balance_def)
  show "in_i128 (ledger_balance w u x)"
    using ledger_balance_range [of w u x] by (auto simp: in_i128_def intro: order_trans [of _ 0])
qed

lemma ledger_calls_ignore_funds: "calls_ignore_funds (ledger_host answers) a"
  by (auto simp: calls_ignore_funds_def ledger_host_def split: option.splits)

lemma ledger_install_keeps_funds: "install_keeps_funds (ledger_host answers)"
  by (simp add: install_keeps_funds_def ledger_host_def ledger_balance_def)

end
