(* ===== verification/Storage.thy ===== *)
theory Storage
  imports Host
begin

text \<open>
  The registry's storage: \<open>contracts/registry/src/storage.rs\<close>. Each \<open>DataKey\<close> is a field
  or a map of \<open>reg_store\<close>; a missing entry is \<open>None\<close>. Temporary entries carry the last
  ledger they are readable in. Every helper is an action of the same name, with its
  weakest precondition as an equation.
\<close>

section \<open>Entries\<close>

record reg_store =
  s_config :: "config option"
  s_next_job_id :: "u64 option"
  s_specs :: "u64 \<rightharpoonup> job_spec"
  s_states :: "u64 \<rightharpoonup> job_state"
  s_keepers :: "address \<rightharpoonup> keeper"
  s_pending_admin :: "address option"
  s_owner_jobs :: "address \<rightharpoonup> u64 list"
  s_active_keepers :: "address list option"
  s_halted :: "address \<rightharpoonup> bool"
  s_upgrade_delay :: "u64 option"
  s_pending_upgrade :: "pending_upgrade option"
  s_pending_owners :: "u64 \<rightharpoonup> address"
  s_recents :: "address \<rightharpoonup> keeper_recent"
  s_touched :: "u64 \<rightharpoonup> u64 \<times> u32"
  s_resumed :: "address \<rightharpoonup> u64 \<times> u32"
  s_windows_reset :: "u64 option"

type_synonym 'w registry = "(reg_store, 'w, event, data_key) ctx"

type_synonym ('w, 'a) reg = "('w registry, error, 'a) act"

definition empty_store :: reg_store where
  "empty_store =
     \<lparr>s_config = None, s_next_job_id = None, s_specs = Map.empty, s_states = Map.empty,
      s_keepers = Map.empty, s_pending_admin = None, s_owner_jobs = Map.empty,
      s_active_keepers = None, s_halted = Map.empty, s_upgrade_delay = None,
      s_pending_upgrade = None, s_pending_owners = Map.empty, s_recents = Map.empty,
      s_touched = Map.empty, s_resumed = Map.empty, s_windows_reset = None\<rparr>"

definition DAY_IN_LEDGERS :: u32 where "DAY_IN_LEDGERS = 17280"

definition INSTANCE_EXTEND_TO :: u32 where "INSTANCE_EXTEND_TO = 7 * DAY_IN_LEDGERS"

definition INSTANCE_THRESHOLD :: u32 where
  "INSTANCE_THRESHOLD = INSTANCE_EXTEND_TO - DAY_IN_LEDGERS"

definition PERSISTENT_EXTEND_TO :: u32 where "PERSISTENT_EXTEND_TO = 30 * DAY_IN_LEDGERS"

definition PERSISTENT_THRESHOLD :: u32 where
  "PERSISTENT_THRESHOLD = PERSISTENT_EXTEND_TO - DAY_IN_LEDGERS"

definition TEMPORARY_EXTEND_TO :: u32 where "TEMPORARY_EXTEND_TO = 2 * DAY_IN_LEDGERS"

section \<open>Temporary entries\<close>

text \<open>
  \<open>temporary().set\<close> followed by \<open>extend_ttl(key, T, T)\<close> leaves the entry readable for
  \<open>T\<close> more ledgers. A temporary entry past its last ledger does not exist.
\<close>

definition set_timestamp ::
  "env \<Rightarrow> (u64 \<times> u32 \<Rightarrow> reg_store \<Rightarrow> reg_store) \<Rightarrow> data_key \<Rightarrow> u64 \<Rightarrow> ('w, unit) reg" where
  "set_timestamp e put key at =
     andthen (save (put (at, sat_add (ledger e) TEMPORARY_EXTEND_TO)))
       (extend_ttl (ExtendTemporary key TEMPORARY_EXTEND_TO TEMPORARY_EXTEND_TO))"

definition timestamp :: "env \<Rightarrow> (u64 \<times> u32) option \<Rightarrow> u64" where
  "timestamp e entry =
     (case entry of None \<Rightarrow> 0 | Some (at, live_until) \<Rightarrow> if ledger e \<le> live_until then at else 0)"

definition job_touched :: "env \<Rightarrow> u64 \<Rightarrow> ('w, u64) reg" where
  "job_touched e jid = load (\<lambda>d. timestamp e (s_touched d jid))"

definition touch_job :: "env \<Rightarrow> u64 \<Rightarrow> u64 \<Rightarrow> ('w, unit) reg" where
  "touch_job e jid at =
     set_timestamp e (\<lambda>x. s_touched_update (\<lambda>m. m(jid \<mapsto> x))) (KJobTouched jid) at"

definition target_resumed :: "env \<Rightarrow> address \<Rightarrow> ('w, u64) reg" where
  "target_resumed e a = load (\<lambda>d. timestamp e (s_resumed d a))"

definition set_target_resumed :: "env \<Rightarrow> address \<Rightarrow> u64 \<Rightarrow> ('w, unit) reg" where
  "set_target_resumed e a at =
     set_timestamp e (\<lambda>x. s_resumed_update (\<lambda>m. m(a \<mapsto> x))) (KTargetResumed a) at"

definition windows_reset :: "('w, u64) reg" where
  "windows_reset = load (\<lambda>d. case s_windows_reset d of None \<Rightarrow> 0 | Some at \<Rightarrow> at)"

definition reset_windows :: "env \<Rightarrow> ('w, unit) reg" where
  "reset_windows e = save (s_windows_reset_update (\<lambda>_. Some (now e)))"

lemma wp_timestamps [wps]:
  "wp (job_touched e jid) Q E T s = Q (timestamp e (s_touched (storage s) jid)) s"
  "wp (target_resumed e a) Q' E' T' s = Q' (timestamp e (s_resumed (storage s) a)) s"
  "wp windows_reset Q E T s =
     Q (case s_windows_reset (storage s) of None \<Rightarrow> 0 | Some at \<Rightarrow> at) s"
  "wp (reset_windows e) Q'' E T s =
     Q'' () (s\<lparr>storage := s_windows_reset_update (\<lambda>_. Some (now e)) (storage s)\<rparr>)"
  by (simp_all add: job_touched_def target_resumed_def windows_reset_def reset_windows_def wps)

lemma wp_touch_job [wps]:
  "wp (touch_job e jid at) Q E T s =
     Q () (noted True (ExtendTemporary (KJobTouched jid) TEMPORARY_EXTEND_TO TEMPORARY_EXTEND_TO)
       (s\<lparr>storage := s_touched_update
           (\<lambda>m. m(jid \<mapsto> (at, sat_add (ledger e) TEMPORARY_EXTEND_TO))) (storage s)\<rparr>))"
  by (simp add: touch_job_def set_timestamp_def wps)

lemma wp_set_target_resumed [wps]:
  "wp (set_target_resumed e a at) Q E T s =
     Q () (noted True (ExtendTemporary (KTargetResumed a) TEMPORARY_EXTEND_TO TEMPORARY_EXTEND_TO)
       (s\<lparr>storage := s_resumed_update
           (\<lambda>m. m(a \<mapsto> (at, sat_add (ledger e) TEMPORARY_EXTEND_TO))) (storage s)\<rparr>))"
  by (simp add: set_target_resumed_def set_timestamp_def wps)

section \<open>Instance and persistent entries\<close>

definition extend_instance :: "('w, unit) reg" where
  "extend_instance = extend_ttl (ExtendInstance INSTANCE_THRESHOLD INSTANCE_EXTEND_TO)"

definition extend_persistent :: "data_key \<Rightarrow> ('w, unit) reg" where
  "extend_persistent key = extend_ttl (ExtendPersistent key PERSISTENT_THRESHOLD PERSISTENT_EXTEND_TO)"

definition get_persistent :: "data_key \<Rightarrow> (reg_store \<Rightarrow> 'a option) \<Rightarrow> ('w, 'a option) reg" where
  "get_persistent key f =
     bind (load f) (\<lambda>value.
     andthen (only_if (value \<noteq> None) (extend_persistent key))
     (ok value))"

definition set_persistent :: "data_key \<Rightarrow> (reg_store \<Rightarrow> reg_store) \<Rightarrow> ('w, unit) reg" where
  "set_persistent key put = andthen (save put) (extend_persistent key)"

abbreviation seen :: "bool \<Rightarrow> data_key \<Rightarrow> 'w registry \<Rightarrow> 'w registry" where
  "seen b key \<equiv> noted b (ExtendPersistent key PERSISTENT_THRESHOLD PERSISTENT_EXTEND_TO)"

abbreviation seen_instance :: "'w registry \<Rightarrow> 'w registry" where
  "seen_instance \<equiv> noted True (ExtendInstance INSTANCE_THRESHOLD INSTANCE_EXTEND_TO)"

lemma wp_extend_instance [wps]: "wp extend_instance Q E T s = Q () (seen_instance s)"
  by (simp add: extend_instance_def wps)

lemma wp_extend_persistent [wps]: "wp (extend_persistent key) Q E T s = Q () (seen True key s)"
  by (simp add: extend_persistent_def wps)

lemma wp_get_persistent [wps]:
  "wp (get_persistent key f) Q E T s =
     Q (f (storage s)) (seen (f (storage s) \<noteq> None) key s)"
  by (simp add: get_persistent_def wps)

lemma wp_set_persistent [wps]:
  "wp (set_persistent key put) Q E T s =
     Q () (seen True key (s\<lparr>storage := put (storage s)\<rparr>))"
  by (simp add: set_persistent_def wps)

section \<open>Configuration, admin and upgrades\<close>

definition load_config :: "('w, config) reg" where
  "load_config = andthen extend_instance (bind (load s_config) unwrap)"

definition set_config :: "config \<Rightarrow> ('w, unit) reg" where
  "set_config c = andthen (save (s_config_update (\<lambda>_. Some c))) extend_instance"

definition get_pending_admin :: "('w, address option) reg" where
  "get_pending_admin = load s_pending_admin"

definition set_pending_admin :: "address \<Rightarrow> ('w, unit) reg" where
  "set_pending_admin a = save (s_pending_admin_update (\<lambda>_. Some a))"

definition remove_pending_admin :: "('w, unit) reg" where
  "remove_pending_admin = save (s_pending_admin_update (\<lambda>_. None))"

definition get_upgrade_delay :: "('w, u64) reg" where
  "get_upgrade_delay = load (\<lambda>d. case s_upgrade_delay d of None \<Rightarrow> 0 | Some n \<Rightarrow> n)"

definition set_upgrade_delay :: "u64 \<Rightarrow> ('w, unit) reg" where
  "set_upgrade_delay n = save (s_upgrade_delay_update (\<lambda>_. Some n))"

definition get_pending_upgrade :: "('w, pending_upgrade option) reg" where
  "get_pending_upgrade = load s_pending_upgrade"

definition set_pending_upgrade :: "pending_upgrade \<Rightarrow> ('w, unit) reg" where
  "set_pending_upgrade u = save (s_pending_upgrade_update (\<lambda>_. Some u))"

definition remove_pending_upgrade :: "('w, unit) reg" where
  "remove_pending_upgrade = save (s_pending_upgrade_update (\<lambda>_. None))"

lemma wp_load_config [wps]:
  "wp load_config Q E T s =
     (case s_config (storage s) of None \<Rightarrow> T | Some c \<Rightarrow> Q c (seen_instance s))"
  by (simp add: load_config_def wps)

lemma wp_set_config [wps]:
  "wp (set_config c) Q E T s =
     Q () (seen_instance (s\<lparr>storage := s_config_update (\<lambda>_. Some c) (storage s)\<rparr>))"
  by (simp add: set_config_def wps)

lemma wp_instance_loads [wps]:
  "wp get_pending_admin Q1 E T s = Q1 (s_pending_admin (storage s)) s"
  "wp get_pending_upgrade Q2 E T s = Q2 (s_pending_upgrade (storage s)) s"
  "wp get_upgrade_delay Q3 E T s =
     Q3 (case s_upgrade_delay (storage s) of None \<Rightarrow> 0 | Some n \<Rightarrow> n) s"
  by (simp_all add: get_pending_admin_def get_pending_upgrade_def get_upgrade_delay_def wps)

lemma wp_instance_saves [wps]:
  "wp (set_pending_admin a) Q E T s =
     Q () (s\<lparr>storage := s_pending_admin_update (\<lambda>_. Some a) (storage s)\<rparr>)"
  "wp remove_pending_admin Q E T s =
     Q () (s\<lparr>storage := s_pending_admin_update (\<lambda>_. None) (storage s)\<rparr>)"
  "wp (set_upgrade_delay n) Q E T s =
     Q () (s\<lparr>storage := s_upgrade_delay_update (\<lambda>_. Some n) (storage s)\<rparr>)"
  "wp (set_pending_upgrade u) Q E T s =
     Q () (s\<lparr>storage := s_pending_upgrade_update (\<lambda>_. Some u) (storage s)\<rparr>)"
  "wp remove_pending_upgrade Q E T s =
     Q () (s\<lparr>storage := s_pending_upgrade_update (\<lambda>_. None) (storage s)\<rparr>)"
  by (simp_all add: set_pending_admin_def remove_pending_admin_def set_upgrade_delay_def
      set_pending_upgrade_def remove_pending_upgrade_def wps)

section \<open>Jobs\<close>

definition issued :: "reg_store \<Rightarrow> u64" where
  "issued d = (case s_next_job_id d of None \<Rightarrow> 0 | Some n \<Rightarrow> n)"

definition next_job_id :: "('w, u64) reg" where
  "next_job_id = load issued"

text \<open>\<open>jid + 1\<close> is checked: the registry panics when the ids run out.\<close>

definition take_next_job_id :: "('w, u64) reg" where
  "take_next_job_id =
     bind next_job_id (\<lambda>jid.
     bind (unwrap (checked_add jid 1)) (\<lambda>after_id.
     andthen (save (s_next_job_id_update (\<lambda>_. Some after_id)))
     (ok jid)))"

definition get_spec :: "u64 \<Rightarrow> ('w, job_spec option) reg" where
  "get_spec jid = get_persistent (KJob jid) (\<lambda>d. s_specs d jid)"

definition set_spec :: "u64 \<Rightarrow> job_spec \<Rightarrow> ('w, unit) reg" where
  "set_spec jid spec = set_persistent (KJob jid) (s_specs_update (\<lambda>m. m(jid \<mapsto> spec)))"

definition get_state :: "u64 \<Rightarrow> ('w, job_state option) reg" where
  "get_state jid = get_persistent (KJobState jid) (\<lambda>d. s_states d jid)"

definition set_state :: "u64 \<Rightarrow> job_state \<Rightarrow> ('w, unit) reg" where
  "set_state jid st = set_persistent (KJobState jid) (s_states_update (\<lambda>m. m(jid \<mapsto> st)))"

definition get_job_parts :: "u64 \<Rightarrow> ('w, (job_spec \<times> job_state) option) reg" where
  "get_job_parts jid =
     bind (get_state jid) (\<lambda>st_opt.
     case st_opt of
       None \<Rightarrow> ok None
     | Some st \<Rightarrow>
         bind (get_spec jid) (\<lambda>spec_opt.
         case spec_opt of None \<Rightarrow> ok None | Some spec \<Rightarrow> ok (Some (spec, st))))"

definition get_pending_owner :: "u64 \<Rightarrow> ('w, address option) reg" where
  "get_pending_owner jid = get_persistent (KPendingJobOwner jid) (\<lambda>d. s_pending_owners d jid)"

definition set_pending_owner :: "u64 \<Rightarrow> address \<Rightarrow> ('w, unit) reg" where
  "set_pending_owner jid a =
     set_persistent (KPendingJobOwner jid) (s_pending_owners_update (\<lambda>m. m(jid \<mapsto> a)))"

definition remove_pending_owner :: "u64 \<Rightarrow> ('w, unit) reg" where
  "remove_pending_owner jid = save (s_pending_owners_update (\<lambda>m. m(jid := None)))"

definition remove_job :: "u64 \<Rightarrow> ('w, unit) reg" where
  "remove_job jid =
     andthen (save (s_specs_update (\<lambda>m. m(jid := None))))
     (andthen (save (s_states_update (\<lambda>m. m(jid := None))))
     (remove_pending_owner jid))"

definition job_view :: "u64 \<Rightarrow> job_spec \<Rightarrow> job_state \<Rightarrow> job" where
  "job_view jid spec st =
     \<lparr>j_id = jid, j_owner = owner spec, j_target = target spec,
      j_function = function_name spec, j_args = args spec, j_interval = interval spec,
      j_schedule = schedule spec, j_next_run = next_run st,
      j_fee_per_run = fee_per_run spec, j_max_fee_per_run = max_fee_per_run spec,
      j_balance = balance st, j_max_runs = max_runs spec, j_runs = runs st,
      j_end_at = end_at spec, j_resolver = resolver spec, j_keepers = keepers spec,
      j_after = after spec, j_active = active st, j_failures = failures st\<rparr>"

definition get_job :: "u64 \<Rightarrow> ('w, job option) reg" where
  "get_job jid =
     bind (get_job_parts jid) (\<lambda>parts.
     ok (map_option (\<lambda>(spec, st). job_view jid spec st) parts))"

lemma wp_next_job_id [wps]: "wp next_job_id Q E T s = Q (issued (storage s)) s"
  by (simp add: next_job_id_def wps)

lemma checked_succ: "checked_add (a :: u64) 1 = (if a = - 1 then None else Some (a + 1))"
  by (auto simp: checked_add_def word_unat_eq_iff unat_max_word)
    (use unat_u64_bound [of a] in simp)

lemma wp_take_next_job_id [wps]:
  "wp take_next_job_id Q E T s =
     (if issued (storage s) = - 1 then T
      else Q (issued (storage s))
        (s\<lparr>storage := s_next_job_id_update (\<lambda>_. Some (issued (storage s) + 1)) (storage s)\<rparr>))"
  by (simp add: take_next_job_id_def wps checked_succ)

lemma wp_get_spec [wps]:
  "wp (get_spec jid) Q E T s =
     Q (s_specs (storage s) jid) (seen (s_specs (storage s) jid \<noteq> None) (KJob jid) s)"
  by (simp add: get_spec_def wps)

lemma wp_get_state [wps]:
  "wp (get_state jid) Q E T s =
     Q (s_states (storage s) jid) (seen (s_states (storage s) jid \<noteq> None) (KJobState jid) s)"
  by (simp add: get_state_def wps)

lemma wp_set_spec [wps]:
  "wp (set_spec jid spec) Q E T s =
     Q () (seen True (KJob jid) (s\<lparr>storage := s_specs_update (\<lambda>m. m(jid \<mapsto> spec)) (storage s)\<rparr>))"
  by (simp add: set_spec_def wps)

lemma wp_set_state [wps]:
  "wp (set_state jid st) Q E T s =
     Q () (seen True (KJobState jid)
       (s\<lparr>storage := s_states_update (\<lambda>m. m(jid \<mapsto> st)) (storage s)\<rparr>))"
  by (simp add: set_state_def wps)

definition parts :: "reg_store \<Rightarrow> u64 \<Rightarrow> (job_spec \<times> job_state) option" where
  "parts d jid =
     (case s_states d jid of
        None \<Rightarrow> None
      | Some st \<Rightarrow> map_option (\<lambda>spec. (spec, st)) (s_specs d jid))"

lemma parts_Some_iff: "parts d jid = Some (spec, st) \<longleftrightarrow> s_specs d jid = Some spec \<and> s_states d jid = Some st"
  by (auto simp: parts_def split: option.splits)

lemma parts_None_iff: "parts d jid = None \<longleftrightarrow> s_specs d jid = None \<or> s_states d jid = None"
  by (auto simp: parts_def split: option.splits)

lemma wp_get_job_parts [wps]:
  "wp (get_job_parts jid) Q E T s =
     Q (parts (storage s) jid)
       (seen (s_states (storage s) jid \<noteq> None \<and> s_specs (storage s) jid \<noteq> None) (KJob jid)
         (seen (s_states (storage s) jid \<noteq> None) (KJobState jid) s))"
  by (auto simp: get_job_parts_def wps parts_def split: option.split)

lemma wp_get_pending_owner [wps]:
  "wp (get_pending_owner jid) Q E T s =
     Q (s_pending_owners (storage s) jid)
       (seen (s_pending_owners (storage s) jid \<noteq> None) (KPendingJobOwner jid) s)"
  by (simp add: get_pending_owner_def wps)

lemma wp_set_pending_owner [wps]:
  "wp (set_pending_owner jid a) Q E T s =
     Q () (seen True (KPendingJobOwner jid)
       (s\<lparr>storage := s_pending_owners_update (\<lambda>m. m(jid \<mapsto> a)) (storage s)\<rparr>))"
  by (simp add: set_pending_owner_def wps)

lemma wp_remove_pending_owner [wps]:
  "wp (remove_pending_owner jid) Q E T s =
     Q () (s\<lparr>storage := s_pending_owners_update (\<lambda>m. m(jid := None)) (storage s)\<rparr>)"
  by (simp add: remove_pending_owner_def wps)

definition without_job :: "u64 \<Rightarrow> reg_store \<Rightarrow> reg_store" where
  "without_job jid d =
     s_pending_owners_update (\<lambda>m. m(jid := None))
       (s_states_update (\<lambda>m. m(jid := None)) (s_specs_update (\<lambda>m. m(jid := None)) d))"

lemma wp_remove_job [wps]:
  "wp (remove_job jid) Q E T s = Q () (s\<lparr>storage := without_job jid (storage s)\<rparr>)"
  by (simp add: remove_job_def without_job_def wps)

lemma wp_get_job [wps]:
  "wp (get_job jid) Q E T s =
     Q (map_option (\<lambda>(spec, st). job_view jid spec st) (parts (storage s) jid))
       (seen (s_states (storage s) jid \<noteq> None \<and> s_specs (storage s) jid \<noteq> None) (KJob jid)
         (seen (s_states (storage s) jid \<noteq> None) (KJobState jid) s))"
  by (simp add: get_job_def wps)

section \<open>An owner's jobs\<close>

definition owner_ids :: "address \<Rightarrow> reg_store \<Rightarrow> u64 list" where
  "owner_ids a d = (case s_owner_jobs d a of None \<Rightarrow> [] | Some ids \<Rightarrow> ids)"

definition owner_jobs :: "address \<Rightarrow> ('w, u64 list) reg" where
  "owner_jobs a =
     bind (get_persistent (KOwnerJobs a) (\<lambda>d. s_owner_jobs d a)) (\<lambda>ids.
     ok (case ids of None \<Rightarrow> [] | Some xs \<Rightarrow> xs))"

definition add_owner_job :: "address \<Rightarrow> u64 \<Rightarrow> ('w, unit) reg" where
  "add_owner_job a jid =
     bind (owner_jobs a) (\<lambda>ids.
     set_persistent (KOwnerJobs a) (s_owner_jobs_update (\<lambda>m. m(a \<mapsto> ids @ [jid]))))"

definition remove_owner_job :: "address \<Rightarrow> u64 \<Rightarrow> ('w, unit) reg" where
  "remove_owner_job a jid =
     bind (owner_jobs a) (\<lambda>ids.
     if jid \<in> set ids
     then set_persistent (KOwnerJobs a) (s_owner_jobs_update (\<lambda>m. m(a \<mapsto> remove1 jid ids)))
     else ok ())"

definition push_owner_job :: "address \<Rightarrow> u64 \<Rightarrow> reg_store \<Rightarrow> reg_store" where
  "push_owner_job a jid d = s_owner_jobs_update (\<lambda>m. m(a \<mapsto> owner_ids a d @ [jid])) d"

definition drop_owner_job :: "address \<Rightarrow> u64 \<Rightarrow> reg_store \<Rightarrow> reg_store" where
  "drop_owner_job a jid d =
     (if jid \<in> set (owner_ids a d)
      then s_owner_jobs_update (\<lambda>m. m(a \<mapsto> remove1 jid (owner_ids a d))) d else d)"

lemma wp_owner_jobs [wps]:
  "wp (owner_jobs a) Q E T s =
     Q (owner_ids a (storage s)) (seen (s_owner_jobs (storage s) a \<noteq> None) (KOwnerJobs a) s)"
  by (simp add: owner_jobs_def owner_ids_def wps)

lemma wp_add_owner_job [wps]:
  "wp (add_owner_job a jid) Q E T s =
     Q () (seen True (KOwnerJobs a) (seen (s_owner_jobs (storage s) a \<noteq> None) (KOwnerJobs a)
       (s\<lparr>storage := push_owner_job a jid (storage s)\<rparr>)))"
  by (simp add: add_owner_job_def push_owner_job_def wps)

lemma wp_remove_owner_job [wps]:
  "wp (remove_owner_job a jid) Q E T s =
     Q () (seen (jid \<in> set (owner_ids a (storage s))) (KOwnerJobs a)
       (seen (s_owner_jobs (storage s) a \<noteq> None) (KOwnerJobs a)
       (s\<lparr>storage := drop_owner_job a jid (storage s)\<rparr>)))"
  by (simp add: remove_owner_job_def drop_owner_job_def wps)

lemma owner_ids_drop: "owner_ids a (drop_owner_job a jid d) = remove1 jid (owner_ids a d)"
  by (simp add: drop_owner_job_def owner_ids_def [of a "s_owner_jobs_update _ _"] remove1_idem)

interpretation owned: id_list "owner_ids a" "push_owner_job a" "drop_owner_job a" for a
  by unfold_locales (simp_all add: push_owner_job_def owner_ids_def [of a "s_owner_jobs_update _ _"]
      owner_ids_drop)

section \<open>Keepers and the rotation\<close>

definition get_keeper :: "address \<Rightarrow> ('w, keeper option) reg" where
  "get_keeper a = get_persistent (KKeeper a) (\<lambda>d. s_keepers d a)"

definition set_keeper :: "address \<Rightarrow> keeper \<Rightarrow> ('w, unit) reg" where
  "set_keeper a info = set_persistent (KKeeper a) (s_keepers_update (\<lambda>m. m(a \<mapsto> info)))"

definition remove_keeper :: "address \<Rightarrow> ('w, unit) reg" where
  "remove_keeper a =
     andthen (save (s_keepers_update (\<lambda>m. m(a := None))))
     (save (s_recents_update (\<lambda>m. m(a := None))))"

definition recent_of :: "reg_store \<Rightarrow> address \<Rightarrow> keeper_recent" where
  "recent_of d a =
     (case s_recents d a of None \<Rightarrow> \<lparr>lateness = 0, misses = 0\<rparr> | Some r \<Rightarrow> r)"

definition get_keeper_recent :: "address \<Rightarrow> ('w, keeper_recent) reg" where
  "get_keeper_recent a =
     bind (get_persistent (KKeeperRecent a) (\<lambda>d. s_recents d a)) (\<lambda>r.
     ok (case r of None \<Rightarrow> \<lparr>lateness = 0, misses = 0\<rparr> | Some x \<Rightarrow> x))"

definition set_keeper_recent :: "address \<Rightarrow> keeper_recent \<Rightarrow> ('w, unit) reg" where
  "set_keeper_recent a r =
     set_persistent (KKeeperRecent a) (s_recents_update (\<lambda>m. m(a \<mapsto> r)))"

definition rotation :: "reg_store \<Rightarrow> address list" where
  "rotation d = (case s_active_keepers d of None \<Rightarrow> [] | Some xs \<Rightarrow> xs)"

definition active_keepers :: "('w, address list) reg" where
  "active_keepers =
     bind (get_persistent KActiveKeepers s_active_keepers) (\<lambda>xs.
     ok (case xs of None \<Rightarrow> [] | Some ys \<Rightarrow> ys))"

definition add_active_keeper :: "address \<Rightarrow> u32 \<Rightarrow> ('w, bool) reg" where
  "add_active_keeper a limit =
     bind active_keepers (\<lambda>xs.
     if a \<in> set xs \<or> unat limit \<le> length xs then ok False
     else andthen (set_persistent KActiveKeepers (s_active_keepers_update (\<lambda>_. Some (xs @ [a]))))
       (ok True))"

definition remove_active_keeper :: "address \<Rightarrow> ('w, unit) reg" where
  "remove_active_keeper a =
     bind active_keepers (\<lambda>xs.
     if a \<in> set xs
     then set_persistent KActiveKeepers (s_active_keepers_update (\<lambda>_. Some (remove1 a xs)))
     else ok ())"

definition joins :: "address \<Rightarrow> u32 \<Rightarrow> reg_store \<Rightarrow> bool" where
  "joins a limit d \<longleftrightarrow> a \<notin> set (rotation d) \<and> length (rotation d) < unat limit"

definition push_active :: "u32 \<Rightarrow> address \<Rightarrow> reg_store \<Rightarrow> reg_store" where
  "push_active limit a d =
     (if joins a limit d then d\<lparr>s_active_keepers := Some (rotation d @ [a])\<rparr> else d)"

definition drop_active :: "address \<Rightarrow> reg_store \<Rightarrow> reg_store" where
  "drop_active a d =
     (if a \<in> set (rotation d) then d\<lparr>s_active_keepers := Some (remove1 a (rotation d))\<rparr> else d)"

lemma wp_get_keeper [wps]:
  "wp (get_keeper a) Q E T s =
     Q (s_keepers (storage s) a) (seen (s_keepers (storage s) a \<noteq> None) (KKeeper a) s)"
  by (simp add: get_keeper_def wps)

lemma wp_set_keeper [wps]:
  "wp (set_keeper a info) Q E T s =
     Q () (seen True (KKeeper a)
       (s\<lparr>storage := s_keepers_update (\<lambda>m. m(a \<mapsto> info)) (storage s)\<rparr>))"
  by (simp add: set_keeper_def wps)

definition without_keeper :: "address \<Rightarrow> reg_store \<Rightarrow> reg_store" where
  "without_keeper a d =
     s_recents_update (\<lambda>m. m(a := None)) (s_keepers_update (\<lambda>m. m(a := None)) d)"

lemma wp_remove_keeper [wps]:
  "wp (remove_keeper a) Q E T s = Q () (s\<lparr>storage := without_keeper a (storage s)\<rparr>)"
  by (simp add: remove_keeper_def without_keeper_def wps)

lemma wp_get_keeper_recent [wps]:
  "wp (get_keeper_recent a) Q E T s =
     Q (recent_of (storage s) a) (seen (s_recents (storage s) a \<noteq> None) (KKeeperRecent a) s)"
  by (simp add: get_keeper_recent_def recent_of_def wps)

lemma wp_set_keeper_recent [wps]:
  "wp (set_keeper_recent a r) Q E T s =
     Q () (seen True (KKeeperRecent a)
       (s\<lparr>storage := s_recents_update (\<lambda>m. m(a \<mapsto> r)) (storage s)\<rparr>))"
  by (simp add: set_keeper_recent_def wps)

lemma wp_active_keepers [wps]:
  "wp active_keepers Q E T s =
     Q (rotation (storage s)) (seen (s_active_keepers (storage s) \<noteq> None) KActiveKeepers s)"
  by (simp add: active_keepers_def rotation_def wps)

lemma wp_add_active_keeper [wps]:
  "wp (add_active_keeper a limit) Q E T s =
     Q (joins a limit (storage s))
       (seen (joins a limit (storage s)) KActiveKeepers
         (seen (s_active_keepers (storage s) \<noteq> None) KActiveKeepers
           (s\<lparr>storage := push_active limit a (storage s)\<rparr>)))"
  by (auto simp: add_active_keeper_def push_active_def joins_def wps)

lemma wp_remove_active_keeper [wps]:
  "wp (remove_active_keeper a) Q E T s =
     Q () (seen (a \<in> set (rotation (storage s))) KActiveKeepers
         (seen (s_active_keepers (storage s) \<noteq> None) KActiveKeepers
           (s\<lparr>storage := drop_active a (storage s)\<rparr>)))"
  by (simp add: remove_active_keeper_def drop_active_def wps)

interpretation rota: id_list rotation "push_active limit" drop_active for limit
  by unfold_locales (auto simp: push_active_def drop_active_def remove1_idem
      rotation_def [of "_ \<lparr>s_active_keepers := _\<rparr>"])

lemma length_push_active:
  "length (rotation d) \<le> unat limit \<Longrightarrow> length (rotation (push_active limit a d)) \<le> unat limit"
  by (simp add: push_active_def joins_def rotation_def [of "_ \<lparr>s_active_keepers := _\<rparr>"])

lemma length_drop_active:
  "length (rotation d) \<le> n \<Longrightarrow> length (rotation (drop_active a d)) \<le> n"
  by (auto simp: drop_active_def length_remove1 rotation_def [of "_ \<lparr>s_active_keepers := _\<rparr>"])

section \<open>Halted targets\<close>

definition is_target_halted :: "address \<Rightarrow> ('w, bool) reg" where
  "is_target_halted a = load (\<lambda>d. s_halted d a \<noteq> None)"

definition set_target_halted :: "address \<Rightarrow> bool \<Rightarrow> ('w, unit) reg" where
  "set_target_halted a halted =
     (if halted then set_persistent (KHaltedTarget a) (s_halted_update (\<lambda>m. m(a \<mapsto> True)))
      else save (s_halted_update (\<lambda>m. m(a := None))))"

lemma wp_is_target_halted [wps]:
  "wp (is_target_halted a) Q E T s = Q (s_halted (storage s) a \<noteq> None) s"
  by (simp add: is_target_halted_def wps)

lemma wp_set_target_halted [wps]:
  "wp (set_target_halted a halted) Q E T s =
     Q () (seen halted (KHaltedTarget a)
       (s\<lparr>storage := s_halted_update (\<lambda>m. m(a := if halted then Some True else None)) (storage s)\<rparr>))"
  by (simp add: set_target_halted_def wps)

text \<open>What the rotation and index updates leave alone.\<close>

lemma push_owner_job_frame [simp]:
  "s_config (push_owner_job a jid d) = s_config d"
  "s_next_job_id (push_owner_job a jid d) = s_next_job_id d"
  "s_specs (push_owner_job a jid d) = s_specs d"
  "s_states (push_owner_job a jid d) = s_states d"
  "s_keepers (push_owner_job a jid d) = s_keepers d"
  "s_active_keepers (push_owner_job a jid d) = s_active_keepers d"
  "s_pending_upgrade (push_owner_job a jid d) = s_pending_upgrade d"
  "s_upgrade_delay (push_owner_job a jid d) = s_upgrade_delay d"
  "s_pending_owners (push_owner_job a jid d) = s_pending_owners d"
  "s_recents (push_owner_job a jid d) = s_recents d"
  by (simp_all add: push_owner_job_def)

lemma drop_owner_job_frame [simp]:
  "s_config (drop_owner_job a jid d) = s_config d"
  "s_next_job_id (drop_owner_job a jid d) = s_next_job_id d"
  "s_specs (drop_owner_job a jid d) = s_specs d"
  "s_states (drop_owner_job a jid d) = s_states d"
  "s_keepers (drop_owner_job a jid d) = s_keepers d"
  "s_active_keepers (drop_owner_job a jid d) = s_active_keepers d"
  "s_pending_upgrade (drop_owner_job a jid d) = s_pending_upgrade d"
  "s_upgrade_delay (drop_owner_job a jid d) = s_upgrade_delay d"
  "s_pending_owners (drop_owner_job a jid d) = s_pending_owners d"
  "s_recents (drop_owner_job a jid d) = s_recents d"
  by (simp_all add: drop_owner_job_def)

lemma without_job_frame [simp]:
  "s_config (without_job jid d) = s_config d"
  "s_next_job_id (without_job jid d) = s_next_job_id d"
  "s_specs (without_job jid d) = (s_specs d)(jid := None)"
  "s_states (without_job jid d) = (s_states d)(jid := None)"
  "s_keepers (without_job jid d) = s_keepers d"
  "s_active_keepers (without_job jid d) = s_active_keepers d"
  "s_owner_jobs (without_job jid d) = s_owner_jobs d"
  "s_pending_upgrade (without_job jid d) = s_pending_upgrade d"
  "s_upgrade_delay (without_job jid d) = s_upgrade_delay d"
  "s_pending_owners (without_job jid d) = (s_pending_owners d)(jid := None)"
  "s_recents (without_job jid d) = s_recents d"
  by (simp_all add: without_job_def)

lemma without_keeper_frame [simp]:
  "s_config (without_keeper a d) = s_config d"
  "s_next_job_id (without_keeper a d) = s_next_job_id d"
  "s_specs (without_keeper a d) = s_specs d"
  "s_states (without_keeper a d) = s_states d"
  "s_keepers (without_keeper a d) = (s_keepers d)(a := None)"
  "s_active_keepers (without_keeper a d) = s_active_keepers d"
  "s_owner_jobs (without_keeper a d) = s_owner_jobs d"
  "s_pending_upgrade (without_keeper a d) = s_pending_upgrade d"
  "s_upgrade_delay (without_keeper a d) = s_upgrade_delay d"
  "s_pending_owners (without_keeper a d) = s_pending_owners d"
  "s_recents (without_keeper a d) = (s_recents d)(a := None)"
  by (simp_all add: without_keeper_def)

lemma rotation_moves_frame [simp]:
  "s_config (push_active limit a d) = s_config d"
  "s_next_job_id (push_active limit a d) = s_next_job_id d"
  "s_specs (push_active limit a d) = s_specs d"
  "s_states (push_active limit a d) = s_states d"
  "s_keepers (push_active limit a d) = s_keepers d"
  "s_owner_jobs (push_active limit a d) = s_owner_jobs d"
  "s_pending_upgrade (push_active limit a d) = s_pending_upgrade d"
  "s_upgrade_delay (push_active limit a d) = s_upgrade_delay d"
  "s_pending_owners (push_active limit a d) = s_pending_owners d"
  "s_recents (push_active limit a d) = s_recents d"
  "s_config (drop_active a d) = s_config d"
  "s_next_job_id (drop_active a d) = s_next_job_id d"
  "s_specs (drop_active a d) = s_specs d"
  "s_states (drop_active a d) = s_states d"
  "s_keepers (drop_active a d) = s_keepers d"
  "s_owner_jobs (drop_active a d) = s_owner_jobs d"
  "s_pending_upgrade (drop_active a d) = s_pending_upgrade d"
  "s_upgrade_delay (drop_active a d) = s_upgrade_delay d"
  "s_pending_owners (drop_active a d) = s_pending_owners d"
  "s_recents (drop_active a d) = s_recents d"
  by (simp_all add: push_active_def drop_active_def)

end
