(* ===== verification/Jobs.thy ===== *)
theory Jobs
  imports Schedule Storage
begin

text \<open>
  The job half of the registry: validation, creation, updates, funding and exits, from the
  sections "Jobs" and "Job creation and validation" of \<open>contracts/registry/src/lib.rs\<close>.
  One action per entry point or helper, in the order of the source.
\<close>

section \<open>Limits\<close>

definition RESOLVER_FN :: symbol where "RESOLVER_FN = ''should_run''"

definition MAX_GET_JOBS_LIMIT :: u32 where "MAX_GET_JOBS_LIMIT = 50"

definition MAX_BATCH :: nat where "MAX_BATCH = 20"

definition MAX_JOB_KEEPERS :: nat where "MAX_JOB_KEEPERS = 10"

definition MAX_ACTIVE_KEEPERS :: u32 where "MAX_ACTIVE_KEEPERS = 64"

definition MAX_BPS :: u32 where "MAX_BPS = 1000"

definition MAX_GRACE_PERIOD :: u64 where "MAX_GRACE_PERIOD = 86400"

definition MAX_UNBONDING_EPOCH :: u64 where "MAX_UNBONDING_EPOCH = 30 * 86400"

definition MAX_BPS_SCALE :: u64 where "MAX_BPS_SCALE = 10000"

definition DEFAULT_MAX_FAILURES :: u32 where "DEFAULT_MAX_FAILURES = 3"

definition VERSION :: u32 where "VERSION = 5"

section \<open>Validation\<close>

definition ensure_not_paused :: "config \<Rightarrow> error + unit" where
  "ensure_not_paused c = (if paused c then Inl Paused else Inr ())"

definition is_forbidden_target :: "env \<Rightarrow> config \<Rightarrow> address \<Rightarrow> bool" where
  "is_forbidden_target e c a \<longleftrightarrow>
     a = me e \<or> executor c = Some a \<or> a = fee_token c \<or> a = stake_token c"

definition validate_schedule ::
  "config \<Rightarrow> u64 \<Rightarrow> schedule \<Rightarrow> u32 \<Rightarrow> int \<Rightarrow> int \<Rightarrow> address list option \<Rightarrow> error + u64" where
  "validate_schedule c every sch args_len fee max_fee allowed =
     (case (case calendar_period sch of
              Some period \<Rightarrow>
                if every \<noteq> 0 \<or> \<not> schedule_is_valid sch then Inl InvalidCalendar else Inr period
            | None \<Rightarrow> if every = 0 then Inl InvalidInterval else Inr every) of
        Inl x \<Rightarrow> Inl x
      | Inr effective \<Rightarrow>
          if min_interval c \<noteq> 0 \<and> effective < min_interval c then Inl IntervalTooShort
          else if max_args c \<noteq> 0 \<and> max_args c < args_len then Inl TooManyArgs
          else if fee \<le> 0 then Inl InvalidFee
          else if max_fee \<noteq> 0 \<and> max_fee < fee then Inl InvalidSetting
          else (case allowed of
                  Some xs \<Rightarrow>
                    if MAX_JOB_KEEPERS < length xs then Inl TooManyKeepers else Inr effective
                | None \<Rightarrow> Inr effective))"

definition validate_job :: "env \<Rightarrow> config \<Rightarrow> job_params \<Rightarrow> int \<Rightarrow> ('w, unit) reg" where
  "validate_job e c p deposit =
     andthen (lift_result (validate_schedule c (p_interval p) (p_schedule p)
       (of_nat (length (p_args p))) (p_fee_per_run p) (p_max_fee_per_run p) (p_keepers p)))
     (andthen (fail_if (deposit < p_fee_per_run p) InvalidAmount)
     (andthen (fail_if (is_forbidden_target e c (p_target p)) ForbiddenTarget)
     (case p_after p of
        None \<Rightarrow> ok ()
      | Some leader \<Rightarrow>
          bind (get_state leader) (\<lambda>st. bind (ok_or st JobNotFound) (\<lambda>_. ok ())))))"

definition leader_run_count :: "u64 \<Rightarrow> u64 option \<Rightarrow> ('w, u32) reg" where
  "leader_run_count jid follows =
     (case follows of
        None \<Rightarrow> ok 0
      | Some leader \<Rightarrow>
          if leader = jid then err AwaitingDependency
          else bind (get_state leader) (\<lambda>st. bind (ok_or st JobNotFound) (\<lambda>l. ok (runs l))))"

definition dependency_met :: "job_spec \<Rightarrow> job_state \<Rightarrow> ('w, u32) reg" where
  "dependency_met spec st =
     (case after spec of
        None \<Rightarrow> ok (leader_runs st)
      | Some leader \<Rightarrow>
          bind (get_state leader) (\<lambda>found.
          case found of
            Some l \<Rightarrow> if leader_runs st < runs l then ok (runs l) else err AwaitingDependency
          | None \<Rightarrow> err AwaitingDependency))"

definition touch :: "env \<Rightarrow> config \<Rightarrow> u64 \<Rightarrow> ('w, unit) reg" where
  "touch e c jid = only_if (0 < grace_period c) (touch_job e jid (now e))"

definition get_parts :: "u64 \<Rightarrow> ('w, job_spec \<times> job_state) reg" where
  "get_parts jid = bind (get_job_parts jid) (\<lambda>found. ok_or found JobNotFound)"

section \<open>Creation\<close>

definition new_spec :: "address \<Rightarrow> job_params \<Rightarrow> job_spec" where
  "new_spec a p =
     \<lparr>owner = a, target = p_target p, function_name = p_function p, args = p_args p,
      interval = (case calendar_period (p_schedule p) of None \<Rightarrow> p_interval p | Some n \<Rightarrow> n),
      schedule = p_schedule p, fee_per_run = p_fee_per_run p,
      max_fee_per_run = p_max_fee_per_run p, max_runs = p_max_runs p, end_at = p_end_at p,
      resolver = p_resolver p, keepers = p_keepers p, after = p_after p\<rparr>"

definition new_state :: "env \<Rightarrow> job_params \<Rightarrow> int \<Rightarrow> u32 \<Rightarrow> job_state" where
  "new_state e p deposit followed =
     \<lparr>next_run = first_calendar_run (p_schedule p) (max (p_start_at p) (now e)),
      balance = deposit, runs = 0, failures = 0, active = True, leader_runs = followed\<rparr>"

definition insert_job :: "env \<Rightarrow> address \<Rightarrow> job_params \<Rightarrow> int \<Rightarrow> ('w, u64) reg" where
  "insert_job e a p deposit =
     bind take_next_job_id (\<lambda>jid.
     bind (case p_after p of
             None \<Rightarrow> ok 0
           | Some leader \<Rightarrow>
               bind (get_state leader) (\<lambda>st. ok (case st of None \<Rightarrow> 0 | Some l \<Rightarrow> runs l)))
       (\<lambda>followed.
     andthen (set_spec jid (new_spec a p))
     (andthen (set_state jid (new_state e p deposit followed))
     (andthen (add_owner_job a jid)
     (andthen (publish (JobEvent (JobCreated jid a (p_target p) (interval (new_spec a p))
         (p_fee_per_run p) deposit)))
     (ok jid))))))"

definition create_job ::
  "'w host \<Rightarrow> env \<Rightarrow> address \<Rightarrow> job_params \<Rightarrow> int \<Rightarrow> ('w, u64) reg" where
  "create_job h e a p deposit =
     bind load_config (\<lambda>c.
     andthen (lift_result (ensure_not_paused c))
     (andthen (require_auth e a)
     (andthen (validate_job e c p deposit)
     (andthen (transfer h (fee_token c) a (me e) deposit)
     (insert_job e a p deposit)))))"

fun validate_all ::
  "env \<Rightarrow> config \<Rightarrow> (job_params \<times> int) list \<Rightarrow> int \<Rightarrow> ('w, int) reg" where
  "validate_all e c [] sum_so_far = ok sum_so_far"
| "validate_all e c ((p, deposit) # rest) sum_so_far =
     andthen (validate_job e c p deposit)
     (if in_i128 (sum_so_far + deposit) then validate_all e c rest (sum_so_far + deposit)
      else err InvalidAmount)"

definition create_jobs ::
  "'w host \<Rightarrow> env \<Rightarrow> address \<Rightarrow> job_params list \<Rightarrow> int list \<Rightarrow> ('w, u64 list) reg" where
  "create_jobs h e a jobs deposits =
     bind load_config (\<lambda>c.
     andthen (lift_result (ensure_not_paused c))
     (andthen (require_auth e a)
     (andthen (fail_if (jobs = [] \<or> MAX_BATCH < length jobs) InvalidBatchSize)
     (andthen (fail_if (length jobs \<noteq> length deposits) LengthMismatch)
     (bind (validate_all e c (zip jobs deposits) 0) (\<lambda>sum_deposits.
     andthen (transfer h (fee_token c) a (me e) sum_deposits)
     (collect (\<lambda>(p, deposit). insert_job e a p deposit) (zip jobs deposits))))))))"

section \<open>Changes to a job\<close>

definition updated_spec :: "job_update \<Rightarrow> u64 \<Rightarrow> job_spec \<Rightarrow> job_spec" where
  "updated_spec u effective spec =
     spec\<lparr>function_name := u_function u, args := u_args u, interval := effective,
       schedule := u_schedule u, fee_per_run := u_fee_per_run u,
       max_fee_per_run := u_max_fee_per_run u, max_runs := u_max_runs u,
       end_at := u_end_at u, resolver := u_resolver u, keepers := u_keepers u\<rparr>"

text \<open>\<open>next_run\<close> is kept unless the calendar changes.\<close>

definition rescheduled :: "env \<Rightarrow> job_update \<Rightarrow> job_spec \<Rightarrow> job_state \<Rightarrow> job_state" where
  "rescheduled e u spec st =
     (if u_schedule u \<noteq> Interval \<and> u_schedule u \<noteq> schedule spec
      then st\<lparr>next_run := first_calendar_run (u_schedule u) (now e)\<rparr> else st)"

definition store_update ::
  "env \<Rightarrow> config \<Rightarrow> u64 \<Rightarrow> job_update \<Rightarrow> u64 \<Rightarrow> job_spec \<Rightarrow> job_state \<Rightarrow> ('w, unit) reg" where
  "store_update e c jid u effective spec st =
     bind (if u_after u \<noteq> after spec
           then bind (leader_run_count jid (u_after u)) (\<lambda>n.
             ok ((updated_spec u effective spec)\<lparr>after := u_after u\<rparr>,
                 (rescheduled e u spec st)\<lparr>leader_runs := n\<rparr>))
           else ok (updated_spec u effective spec, rescheduled e u spec st))
       (\<lambda>(spec2, st2).
     andthen (set_spec jid spec2)
     (andthen (set_state jid st2)
     (andthen (touch e c jid)
     (publish (LateEvent (JobUpdated jid (interval spec2) (fee_per_run spec2)
         (max_runs spec2) (end_at spec2)))))))"

definition update_job :: "env \<Rightarrow> u64 \<Rightarrow> job_update \<Rightarrow> ('w, unit) reg" where
  "update_job e jid u =
     bind load_config (\<lambda>c.
     andthen (lift_result (ensure_not_paused c))
     (bind (get_parts jid) (\<lambda>(spec, st).
     andthen (require_auth e (owner spec))
     (bind (lift_result (validate_schedule c (u_interval u) (u_schedule u)
         (of_nat (length (u_args u))) (u_fee_per_run u) (u_max_fee_per_run u) (u_keepers u)))
       (\<lambda>effective. store_update e c jid u effective spec st)))))"

definition fund_job :: "'w host \<Rightarrow> env \<Rightarrow> address \<Rightarrow> u64 \<Rightarrow> int \<Rightarrow> ('w, int) reg" where
  "fund_job h e sender jid amount =
     bind load_config (\<lambda>c.
     andthen (lift_result (ensure_not_paused c))
     (andthen (require_auth e sender)
     (andthen (fail_if (amount \<le> 0) InvalidAmount)
     (bind (bind (get_state jid) (\<lambda>found. ok_or found JobNotFound)) (\<lambda>st.
     andthen (transfer h (fee_token c) sender (me e) amount)
     (bind (i128 (balance st + amount)) (\<lambda>n.
     andthen (set_state jid (st\<lparr>balance := n\<rparr>))
     (andthen (touch e c jid)
     (andthen (publish (JobEvent (JobFunded jid sender amount n)))
     (ok n))))))))))"

section \<open>Exits and ownership\<close>

definition cancel_job :: "'w host \<Rightarrow> env \<Rightarrow> u64 \<Rightarrow> ('w, int) reg" where
  "cancel_job h e jid =
     bind load_config (\<lambda>c.
     bind (get_parts jid) (\<lambda>(spec, st).
     andthen (require_auth e (owner spec))
     (andthen (remove_job jid)
     (andthen (remove_owner_job (owner spec) jid)
     (andthen (only_if (0 < balance st)
         (transfer h (fee_token c) (me e) (owner spec) (balance st)))
     (andthen (publish (JobEvent (JobCancelled jid (balance st))))
     (ok (balance st))))))))"

definition withdraw_job_balance :: "'w host \<Rightarrow> env \<Rightarrow> u64 \<Rightarrow> int \<Rightarrow> ('w, int) reg" where
  "withdraw_job_balance h e jid amount =
     bind load_config (\<lambda>c.
     bind (get_parts jid) (\<lambda>(spec, st).
     andthen (require_auth e (owner spec))
     (andthen (fail_if (amount \<le> 0 \<or> balance st < amount) InvalidAmount)
     (bind (i128 (balance st - amount)) (\<lambda>n.
     andthen (set_state jid (st\<lparr>balance := n\<rparr>))
     (andthen (touch e c jid)
     (andthen (transfer h (fee_token c) (me e) (owner spec) amount)
     (andthen (publish (JobEvent (JobWithdrawn jid amount n)))
     (ok n)))))))))"

definition set_job_active :: "env \<Rightarrow> u64 \<Rightarrow> bool \<Rightarrow> ('w, unit) reg" where
  "set_job_active e jid on =
     bind load_config (\<lambda>c.
     bind (get_parts jid) (\<lambda>(spec, st).
     andthen (require_auth e (owner spec))
     (andthen (set_state jid
         (st\<lparr>active := on, failures := (if on then 0 else failures st)\<rparr>))
     (andthen (touch e c jid)
     (publish (JobEvent (JobActiveSet jid on)))))))"

definition propose_job_owner :: "env \<Rightarrow> u64 \<Rightarrow> address \<Rightarrow> ('w, unit) reg" where
  "propose_job_owner e jid new_owner =
     bind (bind (get_spec jid) (\<lambda>found. ok_or found JobNotFound)) (\<lambda>spec.
     andthen (require_auth e (owner spec))
     (andthen (if new_owner = owner spec then remove_pending_owner jid
               else set_pending_owner jid new_owner)
     (publish (LateEvent (JobOwnerProposed jid (owner spec) new_owner)))))"

definition accept_job_owner :: "env \<Rightarrow> u64 \<Rightarrow> ('w, unit) reg" where
  "accept_job_owner e jid =
     bind (bind (get_spec jid) (\<lambda>found. ok_or found JobNotFound)) (\<lambda>spec.
     bind (bind (get_pending_owner jid) (\<lambda>found. ok_or found NoPendingOwner)) (\<lambda>new_owner.
     andthen (require_auth e new_owner)
     (andthen (remove_pending_owner jid)
     (andthen (remove_owner_job (owner spec) jid)
     (andthen (add_owner_job new_owner jid)
     (andthen (set_spec jid (spec\<lparr>owner := new_owner\<rparr>))
     (publish (LateEvent (JobOwnerChanged jid (owner spec) new_owner)))))))))"

section \<open>Weakest preconditions of the helpers\<close>

lemma wp_get_parts [wps]:
  "wp (get_parts jid) Q E T s =
     (let t = seen (s_states (storage s) jid \<noteq> None \<and> s_specs (storage s) jid \<noteq> None) (KJob jid)
                (seen (s_states (storage s) jid \<noteq> None) (KJobState jid) s)
      in case parts (storage s) jid of None \<Rightarrow> E JobNotFound t | Some p \<Rightarrow> Q p t)"
  by (simp add: get_parts_def wps Let_def)

lemma wp_touch [wps]:
  "wp (touch e c jid) Q E T s =
     (if 0 < grace_period c
      then Q () (noted True
         (ExtendTemporary (KJobTouched jid) TEMPORARY_EXTEND_TO TEMPORARY_EXTEND_TO)
         (s\<lparr>storage := s_touched_update
             (\<lambda>m. m(jid \<mapsto> (now e, sat_add (ledger e) TEMPORARY_EXTEND_TO))) (storage s)\<rparr>))
      else Q () s)"
  by (simp add: touch_def wps)

end
