(* ===== verification/Execution.thy ===== *)
theory Execution
  imports Jobs
begin

text \<open>
  Running jobs: the section "Execution" of \<open>contracts/registry/src/lib.rs\<close> and the entry
  points \<open>execute\<close> and \<open>execute_batch\<close>. \<open>run_job\<close> is written as the three stages of the
  source (checks, the call, the bookkeeping); a mutable reference it takes is a value it
  returns, which is exact because nothing is assigned through it before the last check.
\<close>

section \<open>Keepers and assignment\<close>

record payout =
  keeper_fees :: int
  protocol_fees :: int

record keeper_record =
  info :: keeper
  recent :: keeper_recent

definition no_payout :: payout where
  "no_payout = \<lparr>keeper_fees = 0, protocol_fees = 0\<rparr>"

definition ensure_active_keeper :: "config \<Rightarrow> keeper \<Rightarrow> error + unit" where
  "ensure_active_keeper c k =
     (if unbonding_at k \<noteq> None then Inl KeeperUnbonding
      else if stake k < min_stake c then Inl InsufficientStake else Inr ())"

abbreviation eligible :: "config \<Rightarrow> keeper \<Rightarrow> bool" where
  "eligible c k \<equiv> ensure_active_keeper c k = Inr ()"

definition load_record :: "address \<Rightarrow> keeper \<Rightarrow> ('w, keeper_record) reg" where
  "load_record a k =
     bind (get_keeper_recent a) (\<lambda>r. ok \<lparr>info = k, recent = r\<rparr>)"

definition save_record :: "address \<Rightarrow> keeper_record \<Rightarrow> ('w, unit) reg" where
  "save_record a rec = andthen (set_keeper a (info rec)) (set_keeper_recent a (recent rec))"

definition authorize_keeper :: "env \<Rightarrow> config \<Rightarrow> address \<Rightarrow> ('w, address \<times> keeper) reg" where
  "authorize_keeper e c a =
     andthen (lift_result (ensure_not_paused c))
     (bind (ok_or (executor c) ExecutorNotSet) (\<lambda>x.
     andthen (require_auth e a)
     (bind (bind (get_keeper a) (\<lambda>found. ok_or found KeeperNotFound)) (\<lambda>k.
     andthen (lift_result (ensure_active_keeper c k))
     (ok (x, k))))))"

text \<open>\<open>to_be_bytes\<close> of a word of \<open>n\<close> bytes, and \<open>u64::from_be_bytes\<close>.\<close>

definition to_be_bytes :: "nat \<Rightarrow> 'a::len word \<Rightarrow> bytes" where
  "to_be_bytes n w = map (\<lambda>i. ucast (drop_bit (8 * i) w)) (rev [0..<n])"

definition from_be_bytes :: "bytes \<Rightarrow> u64" where
  "from_be_bytes bs = foldl (\<lambda>acc b. acc * 256 + ucast b) 0 bs"

definition window_index :: "'w host \<Rightarrow> u64 \<Rightarrow> u32 \<Rightarrow> nat \<Rightarrow> nat" where
  "window_index h jid n len =
     unat (from_be_bytes (take 8 (sha256 h (to_be_bytes 8 jid @ to_be_bytes 4 n)))) mod len"

definition assigned_keeper_for ::
  "'w host \<Rightarrow> config \<Rightarrow> u64 \<Rightarrow> job_spec \<Rightarrow> job_state \<Rightarrow> ('w, address option) reg" where
  "assigned_keeper_for h c jid spec st =
     (if grace_period c = 0 then ok None
      else
        bind (case keepers spec of Some xs \<Rightarrow> ok xs | None \<Rightarrow> active_keepers) (\<lambda>candidates.
        if candidates = [] then ok None
        else
          (let chosen = candidates ! window_index h jid (runs st) (length candidates)
           in bind (get_keeper chosen) (\<lambda>found.
              ok (case found of
                    None \<Rightarrow> None
                  | Some k \<Rightarrow> if eligible c k then Some chosen else None)))))"

section \<open>The checks of a run\<close>

definition ensure_due :: "job_spec \<Rightarrow> job_state \<Rightarrow> u64 \<Rightarrow> error + unit" where
  "ensure_due spec st at =
     (if \<not> active st then Inl JobPaused
      else if max_runs spec \<noteq> 0 \<and> max_runs spec \<le> runs st then Inl MaxRunsReached
      else if end_at spec \<noteq> 0 \<and> end_at spec \<le> at then Inl JobExpired
      else if balance st < fee_per_run spec then Inl InsufficientJobBalance
      else if at < next_run st then Inl JobNotDue
      else Inr ())"

definition resolver_allows :: "'w host \<Rightarrow> env \<Rightarrow> u64 \<Rightarrow> job_spec \<Rightarrow> ('w, bool) reg" where
  "resolver_allows h e jid spec =
     (case resolver spec of
        None \<Rightarrow> ok True
      | Some r \<Rightarrow>
          bind (try_call h (me e) r RESOLVER_FN [ValU64 jid]) (\<lambda>res.
          ok (res = Returned (ValBool True))))"

definition admit ::
  "'w host \<Rightarrow> env \<Rightarrow> config \<Rightarrow> address \<Rightarrow> u64 \<Rightarrow>
   ('w, job_spec \<times> job_state \<times> address option \<times> u32) reg" where
  "admit h e c a jid =
     bind (get_parts jid) (\<lambda>(spec, st).
     andthen (lift_result (ensure_due spec st (now e)))
     (andthen (fail_if (is_forbidden_target e c (target spec)) ForbiddenTarget)
     (bind (is_target_halted (target spec)) (\<lambda>halted.
     andthen (fail_if halted TargetHalted)
     (andthen (fail_if (case keepers spec of None \<Rightarrow> False | Some xs \<Rightarrow> a \<notin> set xs)
        KeeperNotAllowed)
     (bind (assigned_keeper_for h c jid spec st) (\<lambda>chosen.
     let assigned = (if chosen = Some a then None else chosen)
     in andthen (fail_if (assigned \<noteq> None \<and> now e < sat_add (next_run st) (grace_period c))
          NotAssignedKeeper)
     (bind (dependency_met spec st) (\<lambda>followed.
     bind (resolver_allows h e jid spec) (\<lambda>allows.
     andthen (fail_if (\<not> allows) ResolverRejected)
     (ok (spec, st, assigned, followed))))))))))))"

section \<open>The call\<close>

definition EXECUTE_FN :: symbol where "EXECUTE_FN = ''execute''"

definition call_target :: "'w host \<Rightarrow> env \<Rightarrow> address \<Rightarrow> job_spec \<Rightarrow> ('w, bool \<times> bytes) reg" where
  "call_target h e exec spec =
     bind (try_call h (me e) exec EXECUTE_FN
       [ValAddress (target spec), ValSymbol (function_name spec), ValVec (args spec)])
       (\<lambda>outcome.
     ok (case outcome of
           Returned v \<Rightarrow> (True, sha256 h (val_xdr h v))
         | Failed x \<Rightarrow> (False, sha256 h (error_xdr h x))
         | Aborted \<Rightarrow> (False, sha256 h [])))"

section \<open>Missed windows\<close>

definition had_whole_window ::
  "env \<Rightarrow> config \<Rightarrow> u64 \<Rightarrow> job_spec \<Rightarrow> u64 \<Rightarrow> ('w, bool) reg" where
  "had_whole_window e c jid spec due_at =
     (if resolver spec \<noteq> None \<or> after spec \<noteq> None then ok False
      else
        bind (job_touched e jid) (\<lambda>touched_at.
        bind windows_reset (\<lambda>reset_at.
        bind (target_resumed e (target spec)) (\<lambda>resumed_at.
        ok (sat_add (max (max (max due_at touched_at) reset_at) resumed_at) (grace_period c)
              \<le> now e)))))"

definition record_miss :: "address \<Rightarrow> address \<Rightarrow> u64 \<Rightarrow> ('w, unit) reg" where
  "record_miss who ran_by jid =
     bind (get_keeper who) (\<lambda>found.
     case found of
       None \<Rightarrow> ok ()
     | Some k \<Rightarrow>
         andthen (set_keeper who (k\<lparr>missed := sat_add (missed k) 1\<rparr>))
         (bind (get_keeper_recent who) (\<lambda>r.
         andthen (set_keeper_recent who (r\<lparr>misses := smooth (misses r) MAX_BPS_SCALE\<rparr>))
         (publish (JobEvent (KeeperMissedWindow who jid ran_by))))))"

definition note_miss ::
  "env \<Rightarrow> config \<Rightarrow> address \<Rightarrow> u64 \<Rightarrow> job_spec \<Rightarrow> u64 \<Rightarrow> address option \<Rightarrow> ('w, unit) reg" where
  "note_miss e c ran_by jid spec due_at assigned =
     (case assigned of
        None \<Rightarrow> ok ()
      | Some who \<Rightarrow>
          bind (had_whole_window e c jid spec due_at) (\<lambda>whole.
          only_if whole (record_miss who ran_by jid)))"

section \<open>The bookkeeping of a run\<close>

definition run_failures :: "bool \<Rightarrow> job_state \<Rightarrow> u32" where
  "run_failures success st = (if success then 0 else sat_add (failures st) 1)"

definition deactivates :: "config \<Rightarrow> bool \<Rightarrow> job_state \<Rightarrow> bool" where
  "deactivates c success st \<longleftrightarrow>
     \<not> success \<and> max_failures c \<noteq> 0 \<and> max_failures c \<le> run_failures success st"

definition ran_state :: "config \<Rightarrow> bool \<Rightarrow> u32 \<Rightarrow> int \<Rightarrow> u64 \<Rightarrow> job_state \<Rightarrow> job_state" where
  "ran_state c success followed left next_at st =
     st\<lparr>runs := sat_add (runs st) 1, leader_runs := followed, balance := left,
       next_run := next_at, failures := run_failures success st,
       active := (active st \<and> \<not> deactivates c success st)\<rparr>"

definition credit_run :: "u64 \<Rightarrow> keeper_record \<Rightarrow> keeper_record" where
  "credit_run late rec =
     \<lparr>info = (info rec)\<lparr>executions := sat_add (executions (info rec)) 1,
         total_lateness := sat_add (total_lateness (info rec)) late\<rparr>,
      recent = \<lparr>lateness = smooth (lateness (recent rec)) late,
         misses = smooth (misses (recent rec)) 0\<rparr>\<rparr>"

definition book_run ::
  "env \<Rightarrow> config \<Rightarrow> address \<Rightarrow> u64 \<Rightarrow> job_spec \<Rightarrow> job_state \<Rightarrow> address option \<Rightarrow> u32 \<Rightarrow>
   bool \<Rightarrow> bytes \<Rightarrow> keeper_record \<times> payout \<Rightarrow> ('w, keeper_record \<times> payout) reg" where
  "book_run e c a jid spec st assigned followed success result_hash acc =
     bind (unwrap (ramped_fee spec st (now e))) (\<lambda>fee.
     bind (unwrap (split_fee fee (protocol_fee_bps c))) (\<lambda>(keeper_fee, protocol_fee).
     let late = sat_sub (now e) (next_run st)
     in bind (i128 (balance st - fee)) (\<lambda>left.
     bind (unwrap (next_run_after (next_run st) (interval spec) (now e))) (\<lambda>next_at.
     let st1 = ran_state c success followed left next_at st
     in andthen (only_if (deactivates c success st)
       (publish (JobEvent (JobDeactivated jid (failures st1)))))
     (andthen (set_state jid st1)
     (andthen (only_if (left < fee_per_run spec) (publish (JobEvent (JobExhausted jid left))))
     (andthen (note_miss e c a jid spec (next_run st) assigned)
     (bind (i128 (keeper_fees (snd acc) + keeper_fee)) (\<lambda>for_keeper.
     bind (i128 (protocol_fees (snd acc) + protocol_fee)) (\<lambda>for_treasury.
     andthen (publish (JobEvent (JobExecuted jid a success fee protocol_fee (runs st1)
         next_at late (failures st1) result_hash)))
     (ok (credit_run late (fst acc),
          \<lparr>keeper_fees = for_keeper, protocol_fees = for_treasury\<rparr>))))))))))))"

definition run_job ::
  "'w host \<Rightarrow> env \<Rightarrow> config \<Rightarrow> address \<Rightarrow> address \<Rightarrow> keeper_record \<times> payout \<Rightarrow> u64 \<Rightarrow>
   ('w, keeper_record \<times> payout) reg" where
  "run_job h e c exec a acc jid =
     bind (admit h e c a jid) (\<lambda>(spec, st, assigned, followed).
     bind (call_target h e exec spec) (\<lambda>(success, result_hash).
     book_run e c a jid spec st assigned followed success result_hash acc))"

definition settle :: "'w host \<Rightarrow> env \<Rightarrow> config \<Rightarrow> address \<Rightarrow> payout \<Rightarrow> ('w, unit) reg" where
  "settle h e c a pay =
     andthen (only_if (0 < keeper_fees pay)
       (transfer h (fee_token c) (me e) a (keeper_fees pay)))
     (only_if (0 < protocol_fees pay)
       (case treasury c of
          None \<Rightarrow> ok ()
        | Some t \<Rightarrow> transfer h (fee_token c) (me e) t (protocol_fees pay)))"

section \<open>Entry points\<close>

definition execute :: "'w host \<Rightarrow> env \<Rightarrow> address \<Rightarrow> u64 \<Rightarrow> ('w, unit) reg" where
  "execute h e a jid =
     bind load_config (\<lambda>c.
     bind (authorize_keeper e c a) (\<lambda>(exec, k).
     bind (load_record a k) (\<lambda>rec.
     bind (run_job h e c exec a (rec, no_payout) jid) (\<lambda>(rec', pay).
     andthen (save_record a rec')
     (settle h e c a pay)))))"

text \<open>The loop of \<open>execute_batch\<close>: an error leaves record and payout as they were.\<close>

fun run_jobs ::
  "'w host \<Rightarrow> env \<Rightarrow> config \<Rightarrow> address \<Rightarrow> address \<Rightarrow> keeper_record \<times> payout \<Rightarrow> u64 list \<Rightarrow>
   ('w, bool list \<times> keeper_record \<times> payout) reg" where
  "run_jobs h e c exec a acc [] = ok ([], acc)"
| "run_jobs h e c exec a acc (jid # jids) =
     bind (attempt (run_job h e c exec a acc jid)) (\<lambda>res.
     bind (run_jobs h e c exec a (case res of Inl _ \<Rightarrow> acc | Inr acc' \<Rightarrow> acc') jids)
       (\<lambda>(did, final).
     ok ((case res of Inl _ \<Rightarrow> False | Inr _ \<Rightarrow> True) # did, final)))"

definition execute_batch ::
  "'w host \<Rightarrow> env \<Rightarrow> address \<Rightarrow> u64 list \<Rightarrow> ('w, bool list) reg" where
  "execute_batch h e a jids =
     andthen (fail_if (jids = [] \<or> MAX_BATCH < length jids) InvalidBatchSize)
     (bind load_config (\<lambda>c.
     bind (authorize_keeper e c a) (\<lambda>(exec, k).
     bind (load_record a k) (\<lambda>rec.
     bind (run_jobs h e c exec a (rec, no_payout) jids) (\<lambda>(did, rec', pay).
     andthen (save_record a rec')
     (andthen (settle h e c a pay)
     (ok did)))))))"

end
