(* ===== verification/Runs.thy ===== *)
theory Runs
  imports Execution
begin

text \<open>
  What one run does: the three stages of \<open>run_job\<close> as facts about the registry's entries
  and the world, shared by every property of \<open>execute\<close> and \<open>execute_batch\<close>.
\<close>

section \<open>Quiet actions\<close>

text \<open>Reading leaves entries, world and events alone; only TTL extensions are logged.\<close>

definition same :: "'w registry \<Rightarrow> 'w registry \<Rightarrow> bool" where
  "same s t \<longleftrightarrow> storage t = storage s \<and> world t = world s \<and> published t = published s"

lemma same_refl [simp]: "same s s"
  by (simp add: same_def)

lemma published_noted [simp]: "published (noted b x s) = published s"
  by (simp add: noted_def)

lemma same_noted [simp]: "same s (noted b x t) \<longleftrightarrow> same s t"
  by (simp add: same_def)

definition chosen_keeper ::
  "'w host \<Rightarrow> config \<Rightarrow> reg_store \<Rightarrow> u64 \<Rightarrow> job_spec \<Rightarrow> job_state \<Rightarrow> address option" where
  "chosen_keeper h c d jid spec st =
     (if grace_period c = 0 then None
      else
        (let xs = (case keepers spec of Some xs \<Rightarrow> xs | None \<Rightarrow> rotation d)
         in if xs = [] then None
            else
              (let x = xs ! window_index h jid (runs st) (length xs)
               in case s_keepers d x of
                    None \<Rightarrow> None
                  | Some k \<Rightarrow> if eligible c k then Some x else None)))"

text \<open>\<open>m\<close> answers \<open>v\<close> from \<open>s\<close>, quietly.\<close>

definition answers :: "('w, 'a) reg \<Rightarrow> 'a \<Rightarrow> 'w registry \<Rightarrow> bool" where
  "answers m v s \<longleftrightarrow> wp m (\<lambda>x t. x = v \<and> same s t) (\<lambda>_ _. False) False s"

lemma wp_answers: "answers m v s \<Longrightarrow> (\<And>t. same s t \<Longrightarrow> Q v t) \<Longrightarrow> wp m Q E T s"
  unfolding answers_def by (erule wp_mono) auto

lemma answers_assigned:
  "answers (assigned_keeper_for h c jid spec st) (chosen_keeper h c (storage s) jid spec st) s"
  unfolding answers_def assigned_keeper_for_def chosen_keeper_def
  by (auto simp: wps Let_def split: option.split)

definition window_open ::
  "env \<Rightarrow> config \<Rightarrow> reg_store \<Rightarrow> u64 \<Rightarrow> job_spec \<Rightarrow> u64 \<Rightarrow> bool" where
  "window_open e c d jid spec due_at \<longleftrightarrow>
     resolver spec = None \<and> after spec = None \<and>
     sat_add (max (max (max due_at (timestamp e (s_touched d jid)))
       (case s_windows_reset d of None \<Rightarrow> 0 | Some at \<Rightarrow> at))
       (timestamp e (s_resumed d (target spec)))) (grace_period c) \<le> now e"

lemma answers_had_whole_window:
  "answers (had_whole_window e c jid spec due_at)
     (window_open e c (storage s) jid spec due_at) s"
  by (simp add: answers_def had_whole_window_def window_open_def wps)

definition with_miss :: "address \<Rightarrow> reg_store \<Rightarrow> reg_store" where
  "with_miss who d =
     (case s_keepers d who of
        None \<Rightarrow> d
      | Some k \<Rightarrow>
          s_recents_update (\<lambda>m. m(who \<mapsto> (recent_of d who)
            \<lparr>misses := smooth (misses (recent_of d who)) MAX_BPS_SCALE\<rparr>))
            (s_keepers_update (\<lambda>m. m(who \<mapsto> k\<lparr>missed := sat_add (missed k) 1\<rparr>)) d))"

lemma recent_of_frame [simp]:
  "recent_of (s_keepers_update f d) = recent_of d"
  "recent_of (s_states_update g d) = recent_of d"
  by (simp_all add: recent_of_def fun_eq_iff)

text \<open>\<open>t\<close> is \<open>s\<close> with entries \<open>d\<close>, world \<open>w\<close> and the events \<open>vs\<close> added.\<close>

definition became ::
  "reg_store \<Rightarrow> 'w \<Rightarrow> event list \<Rightarrow> 'w registry \<Rightarrow> 'w registry \<Rightarrow> bool" where
  "became d w vs s t \<longleftrightarrow> storage t = d \<and> world t = w \<and> published t = published s @ vs"

definition miss_events :: "reg_store \<Rightarrow> address \<Rightarrow> address \<Rightarrow> u64 \<Rightarrow> event list" where
  "miss_events d who ran_by jid =
     (if s_keepers d who = None then [] else [JobEvent (KeeperMissedWindow who jid ran_by)])"

lemma wp_record_miss:
  assumes "\<And>t. became (with_miss who (storage s)) (world s)
    (miss_events (storage s) who ran_by jid) s t \<Longrightarrow> Q () t"
  shows "wp (record_miss who ran_by jid) Q E T s"
  by (cases "s_keepers (storage s) who")
    (auto simp: record_miss_def wps with_miss_def miss_events_def became_def intro!: assms)

definition missed_by ::
  "env \<Rightarrow> config \<Rightarrow> reg_store \<Rightarrow> u64 \<Rightarrow> job_spec \<Rightarrow> job_state \<Rightarrow> address option \<Rightarrow> address option"
  where
  "missed_by e c d jid spec st assigned =
     (if window_open e c d jid spec (next_run st) then assigned else None)"

definition with_misses :: "address option \<Rightarrow> reg_store \<Rightarrow> reg_store" where
  "with_misses who d = (case who of None \<Rightarrow> d | Some a \<Rightarrow> with_miss a d)"

definition misses_events :: "reg_store \<Rightarrow> address option \<Rightarrow> address \<Rightarrow> u64 \<Rightarrow> event list" where
  "misses_events d who ran_by jid = (case who of None \<Rightarrow> [] | Some a \<Rightarrow> miss_events d a ran_by jid)"

lemma wp_note_miss:
  assumes "\<And>t. became (with_misses (missed_by e c (storage s) jid spec st assigned) (storage s))
    (world s) (misses_events (storage s) (missed_by e c (storage s) jid spec st assigned) a jid) s t
    \<Longrightarrow> Q () t"
  shows "wp (note_miss e c a jid spec (next_run st) assigned) Q E T s"
proof (cases assigned)
  case None
  have "Q () s"
    by (rule assms) (simp add: None missed_by_def with_misses_def misses_events_def became_def)
  then show ?thesis using None by (simp add: note_miss_def wps)
next
  case (Some who)
  note a = assms [unfolded Some missed_by_def with_misses_def misses_events_def]
  show ?thesis
    unfolding note_miss_def Some option.case wp_bind
  proof (rule wp_answers [OF answers_had_whole_window])
    fix t assume t: "same s t"
    show "wp (only_if (window_open e c (storage s) jid spec (next_run st)) (record_miss who a jid))
      Q E T t"
      using t a by (auto simp: wps same_def became_def intro!: wp_record_miss)
  qed
qed

section \<open>The bookkeeping\<close>

definition books_ok :: "env \<Rightarrow> config \<Rightarrow> job_spec \<Rightarrow> job_state \<Rightarrow> payout \<Rightarrow> bool" where
  "books_ok e c spec st pay \<longleftrightarrow>
     (\<exists>fee kf pf. ramped_fee spec st (now e) = Some fee
        \<and> split_fee fee (protocol_fee_bps c) = Some (kf, pf)
        \<and> in_i128 (balance st - fee) \<and> in_i128 (keeper_fees pay + kf)
        \<and> in_i128 (protocol_fees pay + pf))
     \<and> next_run_after (next_run st) (interval spec) (now e) \<noteq> None"

definition run_fee :: "env \<Rightarrow> job_spec \<Rightarrow> job_state \<Rightarrow> int" where
  "run_fee e spec st = the (ramped_fee spec st (now e))"

definition run_split :: "env \<Rightarrow> config \<Rightarrow> job_spec \<Rightarrow> job_state \<Rightarrow> int \<times> int" where
  "run_split e c spec st = the (split_fee (run_fee e spec st) (protocol_fee_bps c))"

definition state_after ::
  "env \<Rightarrow> config \<Rightarrow> job_spec \<Rightarrow> job_state \<Rightarrow> bool \<Rightarrow> u32 \<Rightarrow> job_state" where
  "state_after e c spec st success followed =
     ran_state c success followed (balance st - run_fee e spec st)
       (the (next_run_after (next_run st) (interval spec) (now e))) st"

definition run_events ::
  "env \<Rightarrow> config \<Rightarrow> reg_store \<Rightarrow> address \<Rightarrow> u64 \<Rightarrow> job_spec \<Rightarrow> job_state \<Rightarrow> address option \<Rightarrow> bool \<Rightarrow>
   u32 \<Rightarrow> bytes \<Rightarrow> event list" where
  "run_events e c d a jid spec st assigned success followed result_hash =
     (let st1 = state_after e c spec st success followed
      in (if deactivates c success st then [JobEvent (JobDeactivated jid (failures st1))] else [])
       @ (if balance st1 < fee_per_run spec then [JobEvent (JobExhausted jid (balance st1))] else [])
       @ misses_events d (missed_by e c d jid spec st assigned) a jid
       @ [JobEvent (JobExecuted jid a success (run_fee e spec st) (snd (run_split e c spec st))
            (runs st1) (next_run st1) (sat_sub (now e) (next_run st)) (failures st1) result_hash)])"

definition booked ::
  "env \<Rightarrow> config \<Rightarrow> u64 \<Rightarrow> job_spec \<Rightarrow> job_state \<Rightarrow> address option \<Rightarrow> bool \<Rightarrow> u32 \<Rightarrow>
   reg_store \<Rightarrow> reg_store" where
  "booked e c jid spec st assigned success followed d =
     with_misses (missed_by e c d jid spec st assigned)
       (s_states_update (\<lambda>m. m(jid \<mapsto> state_after e c spec st success followed)) d)"

definition paid :: "env \<Rightarrow> config \<Rightarrow> job_spec \<Rightarrow> job_state \<Rightarrow> payout \<Rightarrow> payout" where
  "paid e c spec st pay =
     \<lparr>keeper_fees = keeper_fees pay + fst (run_split e c spec st),
      protocol_fees = protocol_fees pay + snd (run_split e c spec st)\<rparr>"

lemma missed_by_frame [simp]:
  "missed_by e c (s_states_update f d) jid spec st assigned = missed_by e c d jid spec st assigned"
  by (simp add: missed_by_def window_open_def)

lemma misses_events_frame [simp]:
  "misses_events (s_states_update f d) who a jid = misses_events d who a jid"
  by (simp add: misses_events_def miss_events_def split: option.split)

lemma wp_book_run:
  assumes "\<And>t. books_ok e c spec st (snd acc) \<Longrightarrow>
    became (booked e c jid spec st assigned success followed (storage s)) (world s)
      (run_events e c (storage s) a jid spec st assigned success followed result_hash) s t \<Longrightarrow>
    Q (credit_run (sat_sub (now e) (next_run st)) (fst acc), paid e c spec st (snd acc)) t"
    and "\<not> books_ok e c spec st (snd acc) \<Longrightarrow> T"
  shows "wp (book_run e c a jid spec st assigned followed success result_hash acc) Q E T s"
proof (cases "books_ok e c spec st (snd acc)")
  case False
  note T = assms(2) [OF False]
  show ?thesis
    unfolding book_run_def
    apply (simp add: wps T Let_def split: option.split)
    apply (intro conjI impI allI wp_note_miss)
    using False
       apply (simp_all add: wps books_ok_def T)
    done
next
  case True
  then obtain fee kf pf nx where *: "ramped_fee spec st (now e) = Some fee"
    "split_fee fee (protocol_fee_bps c) = Some (kf, pf)"
    "in_i128 (balance st - fee)" "in_i128 (keeper_fees (snd acc) + kf)"
    "in_i128 (protocol_fees (snd acc) + pf)"
    "next_run_after (next_run st) (interval spec) (now e) = Some nx"
    unfolding books_ok_def by auto
  have q: "Q r t" if "r = (credit_run (sat_sub (now e) (next_run st)) (fst acc), paid e c spec st (snd acc))"
    "became (booked e c jid spec st assigned success followed (storage s)) (world s)
      (run_events e c (storage s) a jid spec st assigned success followed result_hash) s t" for r t
    using assms(1) [OF True] that by simp
  show ?thesis
    unfolding book_run_def
    apply (simp add: wps * Let_def)
    apply (intro conjI impI wp_note_miss)
       apply (simp_all add: wps * became_def)
       apply (rule q; simp add: became_def booked_def run_events_def Let_def state_after_def
        run_fee_def run_split_def * paid_def ran_state_def; fail)+
    done
qed

section \<open>The checks\<close>

definition other_keeper ::
  "'w host \<Rightarrow> config \<Rightarrow> reg_store \<Rightarrow> address \<Rightarrow> u64 \<Rightarrow> job_spec \<Rightarrow> job_state \<Rightarrow> address option" where
  "other_keeper h c d a jid spec st =
     (let x = chosen_keeper h c d jid spec st in if x = Some a then None else x)"

definition dependency :: "reg_store \<Rightarrow> job_spec \<Rightarrow> job_state \<Rightarrow> error + u32" where
  "dependency d spec st =
     (case after spec of
        None \<Rightarrow> Inr (leader_runs st)
      | Some leader \<Rightarrow>
          (case s_states d leader of
             None \<Rightarrow> Inl AwaitingDependency
           | Some l \<Rightarrow>
               if leader_runs st < runs l then Inr (runs l) else Inl AwaitingDependency))"

lemma wp_dependency_met:
  assumes "\<And>n t. dependency (storage s) spec st = Inr n \<Longrightarrow> same s t \<Longrightarrow> Q n t"
    and "\<And>x t. dependency (storage s) spec st = Inl x \<Longrightarrow> same s t \<Longrightarrow> E x t"
  shows "wp (dependency_met spec st) Q E T s"
  using assms by (auto simp: dependency_met_def dependency_def wps split: option.splits if_splits)

text \<open>The first check that fails, before any other contract is called.\<close>

definition run_error ::
  "'w host \<Rightarrow> env \<Rightarrow> config \<Rightarrow> reg_store \<Rightarrow> address \<Rightarrow> u64 \<Rightarrow> error option" where
  "run_error h e c d a jid =
     (case parts d jid of
        None \<Rightarrow> Some JobNotFound
      | Some (spec, st) \<Rightarrow>
          (case ensure_due spec st (now e) of
             Inl x \<Rightarrow> Some x
           | Inr _ \<Rightarrow>
               if is_forbidden_target e c (target spec) then Some ForbiddenTarget
               else if s_halted d (target spec) \<noteq> None then Some TargetHalted
               else if (case keepers spec of None \<Rightarrow> False | Some xs \<Rightarrow> a \<notin> set xs)
               then Some KeeperNotAllowed
               else if other_keeper h c d a jid spec st \<noteq> None
                 \<and> now e < sat_add (next_run st) (grace_period c) then Some NotAssignedKeeper
               else (case dependency d spec st of Inl x \<Rightarrow> Some x | Inr _ \<Rightarrow> None)))"

definition resolver_says :: "'w host \<Rightarrow> env \<Rightarrow> u64 \<Rightarrow> job_spec \<Rightarrow> 'w \<Rightarrow> (bool \<times> 'w) option" where
  "resolver_says h e jid spec w =
     (case resolver spec of
        None \<Rightarrow> Some (True, w)
      | Some r \<Rightarrow>
          map_option (\<lambda>(res, w'). (res = Returned (ValBool True), w'))
            (call_contract h (me e) r RESOLVER_FN [ValU64 jid] w))"

lemma wp_resolver_allows [wps]:
  "wp (resolver_allows h e jid spec) Q E T s =
     (case resolver_says h e jid spec (world s) of
        None \<Rightarrow> T | Some (b, w) \<Rightarrow> Q b (s\<lparr>world := w\<rparr>))"
  by (auto simp: resolver_allows_def resolver_says_def wps split: option.split)

lemma wp_admit:
  assumes err: "\<And>x t. run_error h e c (storage s) a jid = Some x \<Longrightarrow> same s t \<Longrightarrow> E x t"
    and rejected: "\<And>spec st w t. run_error h e c (storage s) a jid = None \<Longrightarrow>
      parts (storage s) jid = Some (spec, st) \<Longrightarrow>
      resolver_says h e jid spec (world s) = Some (False, w) \<Longrightarrow>
      became (storage s) w [] s t \<Longrightarrow> E ResolverRejected t"
    and admitted: "\<And>spec st n w t. run_error h e c (storage s) a jid = None \<Longrightarrow>
      parts (storage s) jid = Some (spec, st) \<Longrightarrow> dependency (storage s) spec st = Inr n \<Longrightarrow>
      resolver_says h e jid spec (world s) = Some (True, w) \<Longrightarrow>
      became (storage s) w [] s t \<Longrightarrow>
      Q (spec, st, other_keeper h c (storage s) a jid spec st, n) t"
    and stuck: "\<And>spec st. run_error h e c (storage s) a jid = None \<Longrightarrow>
      parts (storage s) jid = Some (spec, st) \<Longrightarrow>
      resolver_says h e jid spec (world s) = None \<Longrightarrow> T"
  shows "wp (admit h e c a jid) Q E T s"
proof (cases "parts (storage s) jid")
  case None
  then show ?thesis by (auto simp: admit_def wps Let_def run_error_def intro!: err)
next
  case (Some p)
  obtain spec st where p: "p = (spec, st)" by (cases p)
  note parts = Some [unfolded p]
  show ?thesis
  proof (cases "ensure_due spec st (now e)")
    case (Inl x)
    then show ?thesis using parts by (auto simp: admit_def wps Let_def run_error_def intro!: err)
  next
    case (Inr u)
    define t0 where "t0 = seen (s_states (storage s) jid \<noteq> None \<and> s_specs (storage s) jid \<noteq> None)
      (KJob jid) (seen (s_states (storage s) jid \<noteq> None) (KJobState jid) s)"
    have t0: "same s t0" by (simp add: t0_def)
    have st0: "storage t0 = storage s" using t0 by (simp add: same_def)
    define other where "other = other_keeper h c (storage s) a jid spec st"
    have other: "(if chosen_keeper h c (storage t0) jid spec st = Some a then None
        else chosen_keeper h c (storage t0) jid spec st) = other"
      by (simp add: other_def other_keeper_def st0)
    have tail: "wp (bind (dependency_met spec st) (\<lambda>followed.
        bind (resolver_allows h e jid spec) (\<lambda>allows.
        andthen (fail_if (\<not> allows) ResolverRejected)
          (ok (spec, st, other, followed))))) Q E T t"
      if t: "same s t" and clear: "\<And>x. dependency (storage s) spec st = Inl x \<Longrightarrow>
          run_error h e c (storage s) a jid = Some x"
        "\<And>n. dependency (storage s) spec st = Inr n \<Longrightarrow>
          run_error h e c (storage s) a jid = None" for t
    proof -
      have d: "storage t = storage s" using t by (simp add: same_def)
      show ?thesis
        unfolding wp_bind
      proof (rule wp_dependency_met, unfold d)
        fix x t' assume "dependency (storage s) spec st = Inl x" "same t t'"
        then show "E x t'" using t by (auto simp: same_def intro!: err clear)
      next
        fix n t' assume n: "dependency (storage s) spec st = Inr n" and t': "same t t'"
        note ok = clear(2) [OF n]
        show "wp (resolver_allows h e jid spec) (\<lambda>x. wp (andthen (fail_if (\<not> x) ResolverRejected)
            (ok (spec, st, other, n))) Q E T) E T t'"
          using t t' stuck [OF ok parts] rejected [OF ok parts] admitted [OF ok parts n]
          by (auto simp: wps same_def became_def other_def split: option.split)
      qed
    qed
    show ?thesis
      unfolding admit_def wp_bind wp_get_parts Let_def t0_def [symmetric]
      apply (simp add: parts wps Inr st0)
      apply (intro conjI impI wp_answers [OF answers_assigned])
       apply (rule err [OF _ t0], use parts Inr in \<open>auto simp: run_error_def; fail\<close>)+
      apply (simp only: other wp_andthen wp_fail_if split: if_split)
      apply (intro conjI impI)
       apply (use parts Inr t0 in \<open>auto simp: run_error_def same_def other_def intro!: err\<close>)[1]
      apply (rule tail)
        apply (use parts Inr t0 in \<open>auto simp: run_error_def same_def other_def\<close>)
      done
  qed
qed

section \<open>A whole run\<close>

definition target_says ::
  "'w host \<Rightarrow> env \<Rightarrow> address \<Rightarrow> job_spec \<Rightarrow> 'w \<Rightarrow> ((bool \<times> bytes) \<times> 'w) option" where
  "target_says h e exec spec w =
     map_option (\<lambda>(res, w').
       ((case res of
           Returned v \<Rightarrow> (True, sha256 h (val_xdr h v))
         | Failed x \<Rightarrow> (False, sha256 h (error_xdr h x))
         | Aborted \<Rightarrow> (False, sha256 h [])), w'))
       (call_contract h (me e) exec EXECUTE_FN
         [ValAddress (target spec), ValSymbol (function_name spec), ValVec (args spec)] w)"

lemma wp_call_target [wps]:
  "wp (call_target h e exec spec) Q E T s =
     (case target_says h e exec spec (world s) of
        None \<Rightarrow> T | Some (r, w) \<Rightarrow> Q r (s\<lparr>world := w\<rparr>))"
  by (auto simp: call_target_def target_says_def wps split: option.split)

text \<open>\<open>run_job\<close> returns \<open>r\<close> in \<open>t\<close>, starting from \<open>s\<close>.\<close>

definition run_does ::
  "'w host \<Rightarrow> env \<Rightarrow> config \<Rightarrow> address \<Rightarrow> address \<Rightarrow> u64 \<Rightarrow> keeper_record \<times> payout \<Rightarrow>
   'w registry \<Rightarrow> keeper_record \<times> payout \<Rightarrow> 'w registry \<Rightarrow> bool" where
  "run_does h e c exec a jid acc s r t \<longleftrightarrow>
     (\<exists>spec st n w1 success result_hash w2.
        run_error h e c (storage s) a jid = None
        \<and> parts (storage s) jid = Some (spec, st)
        \<and> dependency (storage s) spec st = Inr n
        \<and> resolver_says h e jid spec (world s) = Some (True, w1)
        \<and> target_says h e exec spec w1 = Some ((success, result_hash), w2)
        \<and> books_ok e c spec st (snd acc)
        \<and> r = (credit_run (sat_sub (now e) (next_run st)) (fst acc), paid e c spec st (snd acc))
        \<and> became
             (booked e c jid spec st (other_keeper h c (storage s) a jid spec st) success n
               (storage s))
             w2
             (run_events e c (storage s) a jid spec st
               (other_keeper h c (storage s) a jid spec st) success n result_hash) s t)"

definition run_refuses ::
  "'w host \<Rightarrow> env \<Rightarrow> config \<Rightarrow> address \<Rightarrow> u64 \<Rightarrow> 'w registry \<Rightarrow> error \<Rightarrow> 'w registry \<Rightarrow> bool" where
  "run_refuses h e c a jid s x t \<longleftrightarrow>
     (case run_error h e c (storage s) a jid of
        Some y \<Rightarrow> x = y \<and> same s t
      | None \<Rightarrow>
          x = ResolverRejected \<and>
          (\<exists>spec st w. parts (storage s) jid = Some (spec, st)
             \<and> resolver_says h e jid spec (world s) = Some (False, w)
             \<and> became (storage s) w [] s t))"

definition run_stuck ::
  "'w host \<Rightarrow> env \<Rightarrow> config \<Rightarrow> address \<Rightarrow> address \<Rightarrow> u64 \<Rightarrow> keeper_record \<times> payout \<Rightarrow>
   'w registry \<Rightarrow> bool" where
  "run_stuck h e c exec a jid acc s \<longleftrightarrow>
     run_error h e c (storage s) a jid = None \<and>
     (\<exists>spec st. parts (storage s) jid = Some (spec, st) \<and>
        (resolver_says h e jid spec (world s) = None
         \<or> (\<exists>w1. resolver_says h e jid spec (world s) = Some (True, w1) \<and>
              (target_says h e exec spec w1 = None \<or> \<not> books_ok e c spec st (snd acc)))))"

lemma wp_run_job:
  "wp (run_job h e c exec a acc jid) (run_does h e c exec a jid acc s)
     (run_refuses h e c a jid s) (run_stuck h e c exec a jid acc s) s"
  unfolding run_job_def wp_bind
proof (rule wp_admit)
  fix x t assume "run_error h e c (storage s) a jid = Some x" "same s t"
  then show "run_refuses h e c a jid s x t" by (simp add: run_refuses_def)
next
  fix spec st w t
  assume "run_error h e c (storage s) a jid = None" "parts (storage s) jid = Some (spec, st)"
    "resolver_says h e jid spec (world s) = Some (False, w)" "became (storage s) w [] s t"
  then show "run_refuses h e c a jid s ResolverRejected t" by (auto simp: run_refuses_def)
next
  fix spec st assume "run_error h e c (storage s) a jid = None"
    "parts (storage s) jid = Some (spec, st)" "resolver_says h e jid spec (world s) = None"
  then show "run_stuck h e c exec a jid acc s" by (auto simp: run_stuck_def)
next
  fix spec st n w1 t
  assume r: "run_error h e c (storage s) a jid = None" "parts (storage s) jid = Some (spec, st)"
    "dependency (storage s) spec st = Inr n"
    "resolver_says h e jid spec (world s) = Some (True, w1)"
    and t: "became (storage s) w1 [] s t"
  have d: "storage t = storage s" and w: "world t = w1" using t by (simp_all add: became_def)
  show "wp (case (spec, st, other_keeper h c (storage s) a jid spec st, n) of
      (spec, st, assigned, followed) \<Rightarrow>
        bind (call_target h e exec spec) (\<lambda>(success, result_hash).
        book_run e c a jid spec st assigned followed success result_hash acc))
    (run_does h e c exec a jid acc s) (run_refuses h e c a jid s)
    (run_stuck h e c exec a jid acc s) t"
  proof (cases "target_says h e exec spec w1")
    case None
    then show ?thesis using r by (auto simp: wps w run_stuck_def)
  next
    case (Some x)
    then obtain success result_hash w2 where x: "target_says h e exec spec w1 = Some ((success, result_hash), w2)"
      by (cases x) auto
    show ?thesis
      apply (simp add: wps w x)
      apply (rule wp_book_run)
       apply (simp add: run_does_def)
       apply (rule exI conjI r x refl | assumption)+
       apply (use t in \<open>simp add: became_def d\<close>)
      apply (use r x in \<open>auto simp: run_stuck_def\<close>)
      done
  qed
qed

lemma run_job_Ok: "run_job h e c exec a acc jid s = (Ok r, t) \<Longrightarrow> run_does h e c exec a jid acc s r t"
  by (rule wp_OkD [OF wp_run_job])

lemma run_job_Err: "run_job h e c exec a acc jid s = (Err x, t) \<Longrightarrow> run_refuses h e c a jid s x t"
  by (rule wp_ErrD [OF wp_run_job])

lemma run_job_Trap: "run_job h e c exec a acc jid s = (Trap, t) \<Longrightarrow> run_stuck h e c exec a jid acc s"
  by (rule wp_TrapD [OF wp_run_job])

text \<open>Nothing is written when a run is refused.\<close>

lemma run_refuses_frame:
  "run_refuses h e c a jid s x t \<Longrightarrow> storage t = storage s \<and> published t = published s"
  by (auto simp: run_refuses_def same_def became_def split: option.splits)

lemma run_refuses_keepers:
  "run_refuses h e c a jid s x t \<Longrightarrow> s_keepers (storage t) = s_keepers (storage s)"
  by (simp add: run_refuses_frame)

section \<open>Entry points\<close>

lemma wp_authorize_keeper:
  assumes "\<And>x t. same s t \<Longrightarrow> E x t"
    and "\<And>exec k t. same s t \<Longrightarrow> \<not> paused c \<Longrightarrow> executor c = Some exec \<Longrightarrow> authorized e a \<Longrightarrow>
      s_keepers (storage s) a = Some k \<Longrightarrow> eligible c k \<Longrightarrow> Q (exec, k) t"
    and "\<not> authorized e a \<Longrightarrow> T"
  shows "wp (authorize_keeper e c a) Q E T s"
  using assms
  by (auto simp: authorize_keeper_def wps ensure_not_paused_def split: option.split sum.split)

text \<open>A loop over jobs keeps what runs and refusals keep, and never fails itself.\<close>

lemma wp_run_jobs:
  assumes "I acc s"
    and step: "\<And>acc s jid r t. jid \<in> set jids \<Longrightarrow> I acc s \<Longrightarrow> run_does h e c exec a jid acc s r t \<Longrightarrow> I r t"
    and skip: "\<And>acc s jid x t. jid \<in> set jids \<Longrightarrow> I acc s \<Longrightarrow> run_refuses h e c a jid s x t \<Longrightarrow> I acc t"
    and stuck: "\<And>acc s jid. jid \<in> set jids \<Longrightarrow> I acc s \<Longrightarrow> run_stuck h e c exec a jid acc s \<Longrightarrow> T"
  shows "wp (run_jobs h e c exec a acc jids)
    (\<lambda>(did, acc') t. length did = length jids \<and> I acc' t) (\<lambda>_ _. False) T s"
  using assms
proof (induction jids arbitrary: acc s)
  case Nil
  then show ?case by (simp add: wps)
next
  case (Cons jid jids)
  have rest: "wp (run_jobs h e c exec a acc' jids)
      (\<lambda>(did, acc') t. length did = length jids \<and> I acc' t) (\<lambda>_ _. False) T t"
    if "I acc' t" for acc' t
  proof (rule Cons.IH [OF that])
    fix acc s jid' r t assume "jid' \<in> set jids" "I acc s" "run_does h e c exec a jid' acc s r t"
    then show "I r t" by (rule Cons.prems(2) [OF list.set_intros(2)])
  next
    fix acc s jid' x t assume "jid' \<in> set jids" "I acc s" "run_refuses h e c a jid' s x t"
    then show "I acc t" by (rule Cons.prems(3) [OF list.set_intros(2)])
  next
    fix acc s jid' assume "jid' \<in> set jids" "I acc s" "run_stuck h e c exec a jid' acc s"
    then show T by (rule Cons.prems(4) [OF list.set_intros(2)])
  qed
  have tail: "wp (run_jobs h e c exec a acc' jids)
      (\<lambda>p. wp (case p of (did, final) \<Rightarrow> ok (b # did, final))
        (\<lambda>(did, acc') t. length did = length (jid # jids) \<and> I acc' t) (\<lambda>_ _. False) T)
      (\<lambda>_ _. False) T t" if "I acc' t" for acc' t b
    by (rule wp_mono [OF rest [OF that]]) (auto simp: wp_ok)
  show ?case
    unfolding run_jobs.simps wp_bind wp_attempt
  proof (rule wp_mono [OF wp_run_job])
    fix r t assume "run_does h e c exec a jid acc s r t"
    with Cons.prems(1) have "I r t" by (rule Cons.prems(2) [OF list.set_intros(1)])
    then show "wp (run_jobs h e c exec a (case Inr r of Inl _ \<Rightarrow> acc | Inr acc' \<Rightarrow> acc') jids)
        (\<lambda>p. wp (case p of (did, final) \<Rightarrow>
            ok ((case Inr r of Inl _ \<Rightarrow> False | Inr _ \<Rightarrow> True) # did, final))
          (\<lambda>(did, acc') t. length did = length (jid # jids) \<and> I acc' t) (\<lambda>_ _. False) T)
        (\<lambda>_ _. False) T t"
      unfolding sum.case by (rule tail)
  next
    fix x t assume "run_refuses h e c a jid s x t"
    with Cons.prems(1) have "I acc t" by (rule Cons.prems(3) [OF list.set_intros(1)])
    then show "wp (run_jobs h e c exec a (case Inl x of Inl _ \<Rightarrow> acc | Inr acc' \<Rightarrow> acc') jids)
        (\<lambda>p. wp (case p of (did, final) \<Rightarrow>
            ok ((case Inl x of Inl _ \<Rightarrow> False | Inr _ \<Rightarrow> True) # did, final))
          (\<lambda>(did, acc') t. length did = length (jid # jids) \<and> I acc' t) (\<lambda>_ _. False) T)
        (\<lambda>_ _. False) T t"
      unfolding sum.case by (rule tail)
  next
    assume "run_stuck h e c exec a jid acc s"
    with Cons.prems(1) show T by (rule Cons.prems(4) [OF list.set_intros(1)])
  qed
qed

end
