(* ===== verification/Keepers.thy ===== *)
theory Keepers
  imports Execution
begin

text \<open>
  Staking and unbonding: the section "Keepers" of \<open>contracts/registry/src/lib.rs\<close> and
  \<open>release_stake\<close>.
\<close>

definition fresh_keeper :: keeper where
  "fresh_keeper =
     \<lparr>stake = 0, unbonding_at = None, executions = 0, total_lateness = 0, missed = 0,
      slashed = 0\<rparr>"

definition stake_tokens :: "'w host \<Rightarrow> env \<Rightarrow> address \<Rightarrow> int \<Rightarrow> ('w, int) reg" where
  "stake_tokens h e a amount =
     bind load_config (\<lambda>c.
     andthen (lift_result (ensure_not_paused c))
     (andthen (require_auth e a)
     (andthen (fail_if (amount \<le> 0) InvalidAmount)
     (bind (get_keeper a) (\<lambda>found.
     let k = (case found of None \<Rightarrow> fresh_keeper | Some k \<Rightarrow> k);
         was_eligible = eligible c k
     in andthen (fail_if (unbonding_at k \<noteq> None) KeeperUnbonding)
     (andthen (transfer h (stake_token c) a (me e) amount)
     (bind (i128 (stake k + amount)) (\<lambda>n.
     andthen (set_keeper a (k\<lparr>stake := n\<rparr>))
     (bind (add_active_keeper a MAX_ACTIVE_KEEPERS) (\<lambda>joined.
     andthen (only_if (joined \<or> \<not> was_eligible) (reset_windows e))
     (andthen (publish (KeeperEvent (KeeperStaked a amount n)))
     (ok n))))))))))))"

definition begin_unbonding :: "env \<Rightarrow> address \<Rightarrow> ('w, u64) reg" where
  "begin_unbonding e a =
     bind load_config (\<lambda>c.
     andthen (require_auth e a)
     (bind (bind (get_keeper a) (\<lambda>found. ok_or found KeeperNotFound)) (\<lambda>k.
     andthen (fail_if (unbonding_at k \<noteq> None) KeeperUnbonding)
     (let withdrawable_at = unbonding_release (now e) (unbonding_period c) (unbonding_epoch c)
      in andthen (set_keeper a (k\<lparr>unbonding_at := Some withdrawable_at\<rparr>))
      (andthen (remove_active_keeper a)
      (andthen (reset_windows e)
      (andthen (publish (KeeperEvent (KeeperUnbondingStarted a withdrawable_at)))
      (ok withdrawable_at))))))))"

definition release_stake :: "'w host \<Rightarrow> env \<Rightarrow> config \<Rightarrow> address \<Rightarrow> ('w, int) reg" where
  "release_stake h e c a =
     bind (bind (get_keeper a) (\<lambda>found. ok_or found KeeperNotFound)) (\<lambda>k.
     bind (ok_or (unbonding_at k) UnbondingNotStarted) (\<lambda>withdrawable_at.
     andthen (fail_if (now e < withdrawable_at) UnbondingNotFinished)
     (andthen (remove_keeper a)
     (andthen (only_if (0 < stake k) (transfer h (stake_token c) (me e) a (stake k)))
     (andthen (publish (KeeperEvent (KeeperWithdrawn a (stake k))))
     (ok (stake k)))))))"

definition withdraw_stake :: "'w host \<Rightarrow> env \<Rightarrow> address \<Rightarrow> ('w, int) reg" where
  "withdraw_stake h e a =
     bind load_config (\<lambda>c.
     andthen (require_auth e a)
     (release_stake h e c a))"

definition withdraw_stakes :: "'w host \<Rightarrow> env \<Rightarrow> address list \<Rightarrow> ('w, int list) reg" where
  "withdraw_stakes h e as =
     andthen (fail_if (as = [] \<or> MAX_BATCH < length as) InvalidBatchSize)
     (bind load_config (\<lambda>c.
     collect (\<lambda>a.
       bind (attempt (release_stake h e c a)) (\<lambda>res.
       ok (case res of Inl _ \<Rightarrow> 0 | Inr n \<Rightarrow> n))) as))"

end
