(* ===== verification/Admin.thy ===== *)
theory Admin
  imports Execution
begin

text \<open>
  Deployment, administration and upgrades: \<open>__constructor\<close>, the section "Admin" and the
  upgrade-delay helpers of \<open>contracts/registry/src/lib.rs\<close>.
\<close>

section \<open>Deployment\<close>

definition initial_config :: "address \<Rightarrow> address \<Rightarrow> address \<Rightarrow> int \<Rightarrow> u64 \<Rightarrow> config" where
  "initial_config adm fees stakes least period =
     \<lparr>admin = adm, fee_token = fees, stake_token = stakes, min_stake = least,
      unbonding_period = period, paused = False, executor = None, min_interval = 0,
      max_args = 0, protocol_fee_bps = 0, treasury = None,
      max_failures = DEFAULT_MAX_FAILURES, grace_period = 0, slash_bps = 0,
      unbonding_epoch = 0\<rparr>"

text \<open>\<open>panic_with_error!\<close> aborts the deployment.\<close>

definition constructor ::
  "address \<Rightarrow> address \<Rightarrow> address \<Rightarrow> int \<Rightarrow> u64 \<Rightarrow> ('w, unit) reg" where
  "constructor adm fees stakes least period =
     andthen (require (0 \<le> least))
     (set_config (initial_config adm fees stakes least period))"

section \<open>Roles and switches\<close>

text \<open>Every admin entry point starts by loading the configuration and asking the admin.\<close>

definition as_admin :: "env \<Rightarrow> (config \<Rightarrow> ('w, 'a) reg) \<Rightarrow> ('w, 'a) reg" where
  "as_admin e f = bind load_config (\<lambda>c. andthen (require_auth e (admin c)) (f c))"

definition set_executor :: "env \<Rightarrow> address \<Rightarrow> ('w, unit) reg" where
  "set_executor e a =
     as_admin e (\<lambda>c.
     andthen (fail_if (executor c \<noteq> None) ExecutorAlreadySet)
     (andthen (set_config (c\<lparr>executor := Some a\<rparr>))
     (publish (AdminEvent (ExecutorSet a)))))"

definition propose_admin :: "env \<Rightarrow> address \<Rightarrow> ('w, unit) reg" where
  "propose_admin e a =
     as_admin e (\<lambda>c.
     andthen (set_pending_admin a)
     (publish (AdminEvent (AdminProposed (admin c) a))))"

definition accept_admin :: "env \<Rightarrow> ('w, unit) reg" where
  "accept_admin e =
     bind load_config (\<lambda>c.
     bind (bind get_pending_admin (\<lambda>found. ok_or found NoPendingAdmin)) (\<lambda>a.
     andthen (require_auth e a)
     (andthen remove_pending_admin
     (andthen (set_config (c\<lparr>admin := a\<rparr>))
     (publish (AdminEvent (AdminChanged (admin c) a)))))))"

definition cancel_admin_proposal :: "env \<Rightarrow> ('w, unit) reg" where
  "cancel_admin_proposal e =
     as_admin e (\<lambda>c.
     bind (bind get_pending_admin (\<lambda>found. ok_or found NoPendingAdmin)) (\<lambda>a.
     andthen remove_pending_admin
     (publish (AdminEvent (AdminProposalCancelled (admin c) a)))))"

definition set_paused :: "env \<Rightarrow> bool \<Rightarrow> ('w, unit) reg" where
  "set_paused e on =
     as_admin e (\<lambda>c.
     andthen (set_config (c\<lparr>paused := on\<rparr>))
     (andthen (only_if (\<not> on) (reset_windows e))
     (publish (AdminEvent (PausedSet on)))))"

definition halt_target :: "env \<Rightarrow> address \<Rightarrow> bool \<Rightarrow> ('w, unit) reg" where
  "halt_target e a halted =
     as_admin e (\<lambda>c.
     andthen (set_target_halted a halted)
     (andthen (only_if (\<not> halted) (set_target_resumed e a (now e)))
     (publish (LateEvent (TargetHaltSet a halted)))))"

section \<open>Settings\<close>

definition set_min_stake :: "env \<Rightarrow> int \<Rightarrow> ('w, unit) reg" where
  "set_min_stake e least =
     as_admin e (\<lambda>c.
     andthen (fail_if (least < 0) InvalidAmount)
     (andthen (set_config (c\<lparr>min_stake := least\<rparr>))
     (andthen (reset_windows e)
     (publish (AdminEvent (MinStakeSet least))))))"

definition set_min_interval :: "env \<Rightarrow> u64 \<Rightarrow> ('w, unit) reg" where
  "set_min_interval e n =
     as_admin e (\<lambda>c.
     andthen (set_config (c\<lparr>min_interval := n\<rparr>))
     (publish (AdminEvent (MinIntervalSet n))))"

definition set_max_args :: "env \<Rightarrow> u32 \<Rightarrow> ('w, unit) reg" where
  "set_max_args e n =
     as_admin e (\<lambda>c.
     andthen (set_config (c\<lparr>max_args := n\<rparr>))
     (publish (AdminEvent (MaxArgsSet n))))"

definition set_protocol_fee :: "env \<Rightarrow> u32 \<Rightarrow> address option \<Rightarrow> ('w, unit) reg" where
  "set_protocol_fee e bps to_whom =
     as_admin e (\<lambda>c.
     andthen (fail_if (MAX_BPS < bps \<or> 0 < bps \<and> to_whom = None) InvalidSetting)
     (andthen (set_config (c\<lparr>protocol_fee_bps := bps, treasury := to_whom\<rparr>))
     (publish (LateEvent (ProtocolFeeSet bps to_whom)))))"

definition set_max_failures :: "env \<Rightarrow> u32 \<Rightarrow> ('w, unit) reg" where
  "set_max_failures e n =
     as_admin e (\<lambda>c.
     andthen (set_config (c\<lparr>max_failures := n\<rparr>))
     (publish (LateEvent (MaxFailuresSet n))))"

definition set_keeper_windows :: "env \<Rightarrow> u64 \<Rightarrow> ('w, unit) reg" where
  "set_keeper_windows e n =
     as_admin e (\<lambda>c.
     andthen (fail_if (MAX_GRACE_PERIOD < n) InvalidSetting)
     (andthen (set_config (c\<lparr>grace_period := n, slash_bps := 0\<rparr>))
     (andthen (reset_windows e)
     (publish (LateEvent (KeeperWindowsSet n))))))"

section \<open>Upgrades\<close>

definition min_upgrade_delay :: "config \<Rightarrow> u64" where
  "min_upgrade_delay c = sat_add (unbonding_period c) (unbonding_epoch c)"

definition upgrade_delay_for :: "config \<Rightarrow> ('w, u64) reg" where
  "upgrade_delay_for c = bind get_upgrade_delay (\<lambda>n. ok (max n (min_upgrade_delay c)))"

definition push_back_pending_upgrade :: "config \<Rightarrow> ('w, unit) reg" where
  "push_back_pending_upgrade c =
     bind get_pending_upgrade (\<lambda>found.
     case found of
       None \<Rightarrow> ok ()
     | Some u \<Rightarrow>
         bind (upgrade_delay_for c) (\<lambda>delay.
         let at = sat_add (proposed_at u) delay
         in only_if (available_at u < at) (set_pending_upgrade (u\<lparr>available_at := at\<rparr>))))"

definition set_unbonding_epoch :: "env \<Rightarrow> u64 \<Rightarrow> ('w, unit) reg" where
  "set_unbonding_epoch e n =
     as_admin e (\<lambda>c.
     andthen (fail_if (MAX_UNBONDING_EPOCH < n) InvalidSetting)
     (andthen (set_config (c\<lparr>unbonding_epoch := n\<rparr>))
     (andthen (push_back_pending_upgrade (c\<lparr>unbonding_epoch := n\<rparr>))
     (publish (LateEvent (UnbondingEpochSet n))))))"

definition propose_upgrade :: "env \<Rightarrow> bytes \<Rightarrow> ('w, u64) reg" where
  "propose_upgrade e code =
     as_admin e (\<lambda>c.
     bind (upgrade_delay_for c) (\<lambda>delay.
     let at = sat_add (now e) delay
     in andthen (set_pending_upgrade
          \<lparr>wasm_hash = code, proposed_at = now e, available_at = at\<rparr>)
     (andthen (publish (LateEvent (UpgradeProposed code at)))
     (ok at))))"

definition apply_upgrade :: "'w host \<Rightarrow> env \<Rightarrow> ('w, unit) reg" where
  "apply_upgrade h e =
     as_admin e (\<lambda>c.
     bind (bind get_pending_upgrade (\<lambda>found. ok_or found NoPendingUpgrade)) (\<lambda>u.
     andthen (fail_if (now e < available_at u) UpgradeNotReady)
     (andthen remove_pending_upgrade
     (andthen (modify (\<lambda>s. s\<lparr>world := install_code h (wasm_hash u) (world s)\<rparr>))
     (publish (LateEvent (Upgraded (wasm_hash u) VERSION)))))))"

definition cancel_upgrade :: "env \<Rightarrow> ('w, unit) reg" where
  "cancel_upgrade e =
     as_admin e (\<lambda>c.
     bind (bind get_pending_upgrade (\<lambda>found. ok_or found NoPendingUpgrade)) (\<lambda>u.
     andthen remove_pending_upgrade
     (publish (LateEvent (UpgradeCancelled (wasm_hash u))))))"

definition change_upgrade_delay :: "env \<Rightarrow> u64 \<Rightarrow> ('w, unit) reg" where
  "change_upgrade_delay e n =
     as_admin e (\<lambda>c.
     andthen (fail_if (n < min_upgrade_delay c) InvalidSetting)
     (andthen (set_upgrade_delay n)
     (andthen (push_back_pending_upgrade c)
     (publish (LateEvent (UpgradeDelaySet n))))))"

section \<open>Weakest preconditions of the helpers\<close>

lemma wp_as_admin [wps]:
  "wp (as_admin e f) Q E T s =
     (case s_config (storage s) of
        None \<Rightarrow> T
      | Some c \<Rightarrow> if authorized e (admin c) then wp (f c) Q E T (seen_instance s) else T)"
  by (simp add: as_admin_def wps split: option.split)

definition delay_of :: "config \<Rightarrow> reg_store \<Rightarrow> u64" where
  "delay_of c d =
     max (case s_upgrade_delay d of None \<Rightarrow> 0 | Some n \<Rightarrow> n) (min_upgrade_delay c)"

lemma wp_upgrade_delay_for [wps]:
  "wp (upgrade_delay_for c) Q E T s = Q (delay_of c (storage s)) s"
  by (simp add: upgrade_delay_for_def delay_of_def wps)

definition pushed_back :: "config \<Rightarrow> reg_store \<Rightarrow> reg_store" where
  "pushed_back c d =
     (case s_pending_upgrade d of
        None \<Rightarrow> d
      | Some u \<Rightarrow>
          if available_at u < sat_add (proposed_at u) (delay_of c d)
          then s_pending_upgrade_update
            (\<lambda>_. Some (u\<lparr>available_at := sat_add (proposed_at u) (delay_of c d)\<rparr>)) d
          else d)"

lemma wp_push_back_pending_upgrade [wps]:
  "wp (push_back_pending_upgrade c) Q E T s =
     Q () (s\<lparr>storage := pushed_back c (storage s)\<rparr>)"
  by (auto simp: push_back_pending_upgrade_def pushed_back_def wps Let_def split: option.split)

lemma pushed_back_frame [simp]:
  "s_config (pushed_back c d) = s_config d"
  "s_next_job_id (pushed_back c d) = s_next_job_id d"
  "s_specs (pushed_back c d) = s_specs d"
  "s_states (pushed_back c d) = s_states d"
  "s_keepers (pushed_back c d) = s_keepers d"
  "s_active_keepers (pushed_back c d) = s_active_keepers d"
  "s_owner_jobs (pushed_back c d) = s_owner_jobs d"
  "s_upgrade_delay (pushed_back c d) = s_upgrade_delay d"
  "s_pending_owners (pushed_back c d) = s_pending_owners d"
  "s_recents (pushed_back c d) = s_recents d"
  by (simp_all add: pushed_back_def split: option.split)

end
