(* ===== verification/Invariants.thy ===== *)
theory Invariants
  imports Runs Keepers Admin
begin

text \<open>
  What is always true of the registry's entries, and that every operation keeps it. Each
  invariant is a predicate on the entries it speaks of, so an operation that does not
  touch them keeps it by simplification.
\<close>

section \<open>The invariants\<close>

definition count :: "u64 option \<Rightarrow> u64" where
  "count n = (case n of None \<Rightarrow> 0 | Some x \<Rightarrow> x)"

lemma issued_count: "issued d = count (s_next_job_id d)"
  by (simp add: issued_def count_def)

text \<open>Both halves of a job live and die together, ids are issued once.\<close>

definition jobs_ok ::
  "(u64 \<rightharpoonup> job_spec) \<Rightarrow> (u64 \<rightharpoonup> job_state) \<Rightarrow> (u64 \<rightharpoonup> address) \<Rightarrow> u64 option \<Rightarrow> bool" where
  "jobs_ok specs states pending n \<longleftrightarrow>
     finite (dom specs) \<and> dom states = dom specs \<and> dom pending \<subseteq> dom specs
     \<and> (\<forall>j \<in> dom specs. j < count n)"

text \<open>The owner index lists exactly the live jobs of each owner, each once.\<close>

definition listed :: "(address \<rightharpoonup> u64 list) \<Rightarrow> address \<Rightarrow> u64 list" where
  "listed m a = (case m a of None \<Rightarrow> [] | Some ids \<Rightarrow> ids)"

lemma owner_ids_listed: "owner_ids a d = listed (s_owner_jobs d) a"
  by (simp add: owner_ids_def listed_def)

definition index_ok :: "(u64 \<rightharpoonup> job_spec) \<Rightarrow> (address \<rightharpoonup> u64 list) \<Rightarrow> bool" where
  "index_ok specs m \<longleftrightarrow>
     (\<forall>a. distinct (listed m a)
        \<and> set (listed m a) = {j. \<exists>spec. specs j = Some spec \<and> owner spec = a})"

text \<open>The terms of every job passed validation, and no balance is negative.\<close>

definition spec_ok :: "u64 \<Rightarrow> job_spec \<Rightarrow> bool" where
  "spec_ok jid spec \<longleftrightarrow>
     0 < fee_per_run spec \<and> in_i128 (fee_per_run spec)
     \<and> (max_fee_per_run spec = 0 \<or> fee_per_run spec \<le> max_fee_per_run spec)
     \<and> in_i128 (max_fee_per_run spec)
     \<and> interval spec \<noteq> 0 \<and> schedule_is_valid (schedule spec)
     \<and> (case calendar_period (schedule spec) of None \<Rightarrow> True | Some n \<Rightarrow> interval spec = n)
     \<and> (case keepers spec of None \<Rightarrow> True | Some xs \<Rightarrow> length xs \<le> MAX_JOB_KEEPERS)
     \<and> after spec \<noteq> Some jid"

definition terms_ok :: "(u64 \<rightharpoonup> job_spec) \<Rightarrow> (u64 \<rightharpoonup> job_state) \<Rightarrow> bool" where
  "terms_ok specs states \<longleftrightarrow>
     (\<forall>j spec. specs j = Some spec \<longrightarrow> spec_ok j spec)
     \<and> (\<forall>j st. states j = Some st \<longrightarrow> 0 \<le> balance st)"

text \<open>Stakes are positive; the rotation lists bonded keepers once and has a bounded size.\<close>

definition bonded :: "(address \<rightharpoonup> keeper) \<Rightarrow> address list \<Rightarrow> bool" where
  "bonded ks xs \<longleftrightarrow>
     distinct xs \<and> length xs \<le> unat MAX_ACTIVE_KEEPERS
     \<and> (\<forall>a \<in> set xs. \<exists>k. ks a = Some k \<and> unbonding_at k = None)"

definition keepers_ok :: "(address \<rightharpoonup> keeper) \<Rightarrow> address list option \<Rightarrow> bool" where
  "keepers_ok ks rot \<longleftrightarrow>
     finite (dom ks) \<and> (\<forall>a k. ks a = Some k \<longrightarrow> 0 < stake k)
     \<and> bonded ks (case rot of None \<Rightarrow> [] | Some xs \<Rightarrow> xs)"

lemma keepers_ok_rotation:
  "keepers_ok ks (s_active_keepers d) \<longleftrightarrow>
     finite (dom ks) \<and> (\<forall>a k. ks a = Some k \<longrightarrow> 0 < stake k) \<and> bonded ks (rotation d)"
  by (simp add: keepers_ok_def rotation_def)

text \<open>Only staked keepers have recent statistics, and a miss rate never exceeds 100%.\<close>

definition recents_ok :: "(address \<rightharpoonup> keeper) \<Rightarrow> (address \<rightharpoonup> keeper_recent) \<Rightarrow> bool" where
  "recents_ok ks rs \<longleftrightarrow>
     dom rs \<subseteq> dom ks \<and> (\<forall>a r. rs a = Some r \<longrightarrow> unat (misses r) \<le> 80000)"

definition config_ok :: "config option \<Rightarrow> bool" where
  "config_ok x \<longleftrightarrow>
     (\<exists>c. x = Some c \<and> 0 \<le> min_stake c \<and> protocol_fee_bps c \<le> MAX_BPS
        \<and> (0 < protocol_fee_bps c \<longrightarrow> treasury c \<noteq> None)
        \<and> grace_period c \<le> MAX_GRACE_PERIOD \<and> slash_bps c = 0
        \<and> unbonding_epoch c \<le> MAX_UNBONDING_EPOCH)"

text \<open>A pending upgrade waits at least the current delay after its announcement.\<close>

definition waits ::
  "config option \<Rightarrow> u64 option \<Rightarrow> pending_upgrade option \<Rightarrow> bool" where
  "waits c delay pend \<longleftrightarrow>
     (\<forall>c' u. c = Some c' \<longrightarrow> pend = Some u \<longrightarrow>
        sat_add (proposed_at u) (max (count delay) (min_upgrade_delay c')) \<le> available_at u)"

definition registry_ok :: "reg_store \<Rightarrow> bool" where
  "registry_ok d \<longleftrightarrow>
     jobs_ok (s_specs d) (s_states d) (s_pending_owners d) (s_next_job_id d)
     \<and> index_ok (s_specs d) (s_owner_jobs d)
     \<and> terms_ok (s_specs d) (s_states d)
     \<and> keepers_ok (s_keepers d) (s_active_keepers d)
     \<and> recents_ok (s_keepers d) (s_recents d)
     \<and> config_ok (s_config d)
     \<and> waits (s_config d) (s_upgrade_delay d) (s_pending_upgrade d)"

text \<open>What an operation owes: from a good registry, success leaves a good registry.\<close>

abbreviation keeps :: "('w, 'a) reg \<Rightarrow> bool" where
  "keeps m \<equiv> (\<forall>s. registry_ok (storage s) \<longrightarrow>
     wp m (\<lambda>_ t. registry_ok (storage t)) (\<lambda>_ _. True) True s)"

lemma wpT: "wp m Q (\<lambda>_ _. True) True s \<longleftrightarrow> (\<forall>x t. m s = (Ok x, t) \<longrightarrow> Q x t)"
  by (auto simp: wp_def split: prod.splits outcome.splits)

lemma keepsI:
  "(\<And>s. registry_ok (storage s) \<Longrightarrow> wp m (\<lambda>_ t. registry_ok (storage t)) (\<lambda>_ _. True) True s) \<Longrightarrow>
   keeps m"
  by blast

section \<open>Administration\<close>

lemma wp_True [simp]: "wp m (\<lambda>_ _. True) (\<lambda>_ _. True) True s"
  by (simp add: wp_def split: prod.splits outcome.splits)

text \<open>Entries no invariant speaks of, and the configuration.\<close>

lemma registry_ok_frame [simp]:
  "registry_ok (s_pending_admin_update f1 d) = registry_ok d"
  "registry_ok (s_halted_update f2 d) = registry_ok d"
  "registry_ok (s_touched_update f3 d) = registry_ok d"
  "registry_ok (s_resumed_update f4 d) = registry_ok d"
  "registry_ok (s_windows_reset_update f5 d) = registry_ok d"
  by (simp_all add: registry_ok_def)

lemma registry_ok_config:
  "registry_ok d \<Longrightarrow> s_config d = Some c \<Longrightarrow> config_ok (Some c') \<Longrightarrow>
   min_upgrade_delay c' = min_upgrade_delay c \<Longrightarrow>
   registry_ok (s_config_update (\<lambda>_. Some c') d)"
  by (simp add: registry_ok_def waits_def)

lemma registry_ok_configD: "registry_ok d \<Longrightarrow> s_config d = Some c \<Longrightarrow> config_ok (Some c)"
  by (simp add: registry_ok_def)

lemma keeps_as_admin:
  assumes "\<And>s c. registry_ok (storage s) \<Longrightarrow> s_config (storage s) = Some c \<Longrightarrow>
    config_ok (Some c) \<Longrightarrow> wp (f c) (\<lambda>_ t. registry_ok (storage t)) (\<lambda>_ _. True) True s"
  shows "keeps (as_admin e f)"
proof (rule keepsI)
  fix s :: "'a registry" assume ok: "registry_ok (storage s)"
  show "wp (as_admin e f) (\<lambda>_ t. registry_ok (storage t)) (\<lambda>_ _. True) True s"
  proof (cases "s_config (storage s)")
    case (Some c)
    then show ?thesis using ok registry_ok_configD [OF ok Some] assms [of "seen_instance s" c]
      by (simp add: wps)
  qed (simp add: wps)
qed

lemmas settings_defs = set_executor_def propose_admin_def accept_admin_def
  cancel_admin_proposal_def set_paused_def halt_target_def set_min_stake_def
  set_min_interval_def set_max_args_def set_protocol_fee_def set_max_failures_def
  set_keeper_windows_def

lemma settings_keep:
  "keeps (set_executor e x)" "keeps (propose_admin e a)"
  "keeps (cancel_admin_proposal e)" "keeps (set_paused e b)" "keeps (halt_target e a b)"
  "keeps (set_min_stake e i)" "keeps (set_min_interval e n)" "keeps (set_max_args e m)"
  "keeps (set_protocol_fee e m a')" "keeps (set_max_failures e m)"
  "keeps (set_keeper_windows e n)"
  unfolding settings_defs
  by (rule keeps_as_admin;
      auto simp: wps config_ok_def min_upgrade_delay_def not_less intro!: registry_ok_config
        split: option.split)+

lemma accept_admin_keeps: "keeps (accept_admin e)"
  by (rule keepsI)
    (auto simp: accept_admin_def wps config_ok_def min_upgrade_delay_def
      intro!: registry_ok_config dest: registry_ok_configD split: option.split)

lemma waits_pushed_back:
  "waits (Some c) (s_upgrade_delay d) (s_pending_upgrade (pushed_back c d))"
  by (auto simp: waits_def pushed_back_def delay_of_def count_def split: option.splits)

lemma registry_ok_pushed_back:
  "registry_ok d \<Longrightarrow> s_config d' = Some c \<Longrightarrow> config_ok (Some c) \<Longrightarrow>
   d' = s_config_update f d \<or> d' = s_upgrade_delay_update g d \<Longrightarrow> registry_ok (pushed_back c d')"
  using waits_pushed_back [of c d'] by (auto simp: registry_ok_def)

lemma upgrades_keep:
  "keeps (set_unbonding_epoch e n)" "keeps (propose_upgrade e b)" "keeps (apply_upgrade h e)"
  "keeps (cancel_upgrade e)" "keeps (change_upgrade_delay e n)"
  unfolding set_unbonding_epoch_def propose_upgrade_def apply_upgrade_def cancel_upgrade_def
    change_upgrade_delay_def
  subgoal by (rule keeps_as_admin) (auto simp: wps config_ok_def intro!: registry_ok_pushed_back)
  subgoal by (rule keeps_as_admin)
      (auto simp: wps registry_ok_def waits_def Let_def delay_of_def count_def)
  subgoal by (rule keeps_as_admin) (auto simp: wps registry_ok_def waits_def split: option.split)
  subgoal by (rule keeps_as_admin) (auto simp: wps registry_ok_def waits_def split: option.split)
  subgoal by (rule keeps_as_admin) (auto simp: wps intro!: registry_ok_pushed_back)
  done

section \<open>Staking\<close>

lemma bonded_update:
  "bonded ks xs \<Longrightarrow> unbonding_at k' = None \<or> a \<notin> set xs \<Longrightarrow> bonded (ks(a \<mapsto> k')) xs"
  by (auto simp: bonded_def)

lemma keepers_ok_update:
  "keepers_ok ks rot \<Longrightarrow> 0 < stake k' \<Longrightarrow> unbonding_at k' = None \<Longrightarrow> keepers_ok (ks(a \<mapsto> k')) rot"
  by (simp add: keepers_ok_def bonded_update)

lemma keepers_ok_same:
  assumes "keepers_ok ks rot" and "ks a = Some k" and "stake k' = stake k"
    and "unbonding_at k' = unbonding_at k"
  shows "keepers_ok (ks(a \<mapsto> k')) rot"
  using assms by (auto simp: keepers_ok_def bonded_def)

lemma push_active_ok:
  assumes "keepers_ok ks (s_active_keepers d)" and "ks a = Some k" and "unbonding_at k = None"
  shows "keepers_ok ks (s_active_keepers (push_active MAX_ACTIVE_KEEPERS a d))"
proof -
  have "set (rotation (push_active MAX_ACTIVE_KEEPERS a d)) \<subseteq> insert a (set (rotation d))"
    by (auto simp: push_active_def rotation_def)
  moreover have "distinct (rotation (push_active MAX_ACTIVE_KEEPERS a d))"
    using assms(1) rota.distinct_push [of d a MAX_ACTIVE_KEEPERS]
    by (cases "a \<in> set (rotation d)")
      (auto simp: keepers_ok_rotation bonded_def push_active_def joins_def)
  ultimately show ?thesis
    using assms length_push_active [of d MAX_ACTIVE_KEEPERS a]
    by (auto simp: keepers_ok_rotation bonded_def)
qed

lemma drop_active_ok:
  assumes "keepers_ok ks (s_active_keepers d)" and "0 < stake k"
  shows "keepers_ok (ks(a \<mapsto> k)) (s_active_keepers (drop_active a d))"
proof -
  have d: "distinct (rotation d)" using assms by (simp add: keepers_ok_rotation bonded_def)
  have "set (rotation (drop_active a d)) \<subseteq> set (rotation d)"
    by (simp add: rota.ids_drop set_remove1_subset)
  then show ?thesis
    using assms rota.drop_gone [OF d, of a] rota.distinct_drop [OF d, of a]
      length_drop_active [of d "unat MAX_ACTIVE_KEEPERS" a]
    by (auto simp: keepers_ok_rotation bonded_def)
qed

lemma keepers_ok_remove:
  assumes "keepers_ok ks rot" and "ks a = Some k" and "unbonding_at k \<noteq> None"
  shows "keepers_ok (ks(a := None)) rot"
  using assms by (fastforce simp: keepers_ok_def bonded_def)

lemma recents_ok_update:
  "recents_ok ks rs \<Longrightarrow> recents_ok (ks(a \<mapsto> k)) rs"
  "recents_ok ks rs \<Longrightarrow> recents_ok (ks(a := None)) (rs(a := None))"
  "recents_ok ks rs \<Longrightarrow> ks a \<noteq> None \<Longrightarrow> unat (misses r) \<le> 80000 \<Longrightarrow> recents_ok ks (rs(a \<mapsto> r))"
  by (auto simp: recents_ok_def)

lemma fresh_keeper_simps [simp]:
  "stake fresh_keeper = 0" "unbonding_at fresh_keeper = None"
  by (simp_all add: fresh_keeper_def)

lemma rotation_frame [simp]: "rotation (s_keepers_update f d) = rotation d"
  by (simp add: rotation_def)

lemma s_active_keepers_push [simp]:
  "s_active_keepers (push_active n a (s_keepers_update f d)) = s_active_keepers (push_active n a d)"
  "s_active_keepers (drop_active a (s_keepers_update f d)) = s_active_keepers (drop_active a d)"
  by (simp_all add: push_active_def drop_active_def joins_def)

lemma stake_tokens_keeps: "keeps (stake_tokens h e a amount)"
proof (rule keepsI)
  fix s :: "'a registry" assume ok: "registry_ok (storage s)"
  have "registry_ok (push_active MAX_ACTIVE_KEEPERS a
      (s_keepers_update (\<lambda>m. m(a \<mapsto> k\<lparr>stake := stake k + amount\<rparr>)) (storage s)))"
    if "k = (case s_keepers (storage s) a of None \<Rightarrow> fresh_keeper | Some k \<Rightarrow> k)"
      "unbonding_at k = None" "0 < amount" for k
  proof -
    have "0 \<le> stake k" using ok that(1)
      by (auto simp: registry_ok_def keepers_ok_def less_imp_le split: option.splits)
    then have "keepers_ok ((s_keepers (storage s))(a \<mapsto> k\<lparr>stake := stake k + amount\<rparr>))
        (s_active_keepers (storage s))"
      using ok that by (auto simp: registry_ok_def intro!: keepers_ok_update)
    from push_active_ok [OF this, of a] that(2)
    show ?thesis using ok by (simp add: registry_ok_def recents_ok_update)
  qed
  then show "wp (stake_tokens h e a amount) (\<lambda>_ t. registry_ok (storage t)) (\<lambda>_ _. True) True s"
    by (auto simp: stake_tokens_def wps Let_def ensure_not_paused_def split: option.split)
qed

lemma begin_unbonding_keeps: "keeps (begin_unbonding e a)"
proof (rule keepsI)
  fix s :: "'a registry" assume ok: "registry_ok (storage s)"
  have "registry_ok (drop_active a
      (s_keepers_update (\<lambda>m. m(a \<mapsto> k\<lparr>unbonding_at := Some n\<rparr>)) (storage s)))"
    if "s_keepers (storage s) a = Some k" for k n
    using ok that drop_active_ok [of "s_keepers (storage s)" "storage s" "k\<lparr>unbonding_at := Some n\<rparr>" a]
    by (auto simp: registry_ok_def recents_ok_update keepers_ok_def)
  then show "wp (begin_unbonding e a) (\<lambda>_ t. registry_ok (storage t)) (\<lambda>_ _. True) True s"
    by (auto simp: begin_unbonding_def wps Let_def split: option.split)
qed

lemma wp_release_stake:
  "wp (release_stake h e c a) Q E T s =
     (let d = storage s; s1 = seen (s_keepers d a \<noteq> None) (KKeeper a) s in
      case s_keepers d a of
        None \<Rightarrow> E KeeperNotFound s1
      | Some k \<Rightarrow>
          (case unbonding_at k of
             None \<Rightarrow> E UnbondingNotStarted s1
           | Some at \<Rightarrow>
               if now e < at then E UnbondingNotFinished s1
               else wp (andthen (only_if (0 < stake k)
                      (transfer h (stake_token c) (me e) a (stake k)))
                    (andthen (publish (KeeperEvent (KeeperWithdrawn a (stake k)))) (ok (stake k))))
                 Q E T (s1\<lparr>storage := without_keeper a d\<rparr>)))"
  by (simp add: release_stake_def wps Let_def split: option.split)

lemma registry_ok_without_keeper:
  "registry_ok d \<Longrightarrow> s_keepers d a = Some k \<Longrightarrow> unbonding_at k \<noteq> None \<Longrightarrow>
   registry_ok (without_keeper a d)"
  by (auto simp: registry_ok_def recents_ok_update intro: keepers_ok_remove)

lemma release_stake_keeps:
  assumes "registry_ok (storage s)"
  shows "wp (release_stake h e c a) (\<lambda>_ t. registry_ok (storage t))
    (\<lambda>_ t. registry_ok (storage t)) True s"
  using assms
  by (auto simp: wp_release_stake wps Let_def registry_ok_without_keeper split: option.split)

lemma withdraw_stake_keeps: "keeps (withdraw_stake h e a)"
  by (rule keepsI) (auto simp: withdraw_stake_def wps split: option.split
      intro: wp_mono [OF release_stake_keeps])

lemma withdraw_stakes_keeps: "keeps (withdraw_stakes h e as)"
proof (rule keepsI)
  fix s :: "'a registry" assume ok: "registry_ok (storage s)"
  have "wp (collect (\<lambda>a. bind (attempt (release_stake h e c a)) (\<lambda>res.
      ok (case res of Inl _ \<Rightarrow> 0 | Inr n \<Rightarrow> n))) as :: ('a, int list) reg)
    (\<lambda>_ t. registry_ok (storage t)) (\<lambda>_ _. True) True t"
    if "registry_ok (storage t)" for c and t :: "'a registry"
    by (rule wp_mono [OF wp_collect [where I = "\<lambda>t. registry_ok (storage t)"]])
      (auto simp: wps that intro: wp_mono [OF release_stake_keeps])
  then show "wp (withdraw_stakes h e as) (\<lambda>_ t. registry_ok (storage t)) (\<lambda>_ _. True) True s"
    using ok by (auto simp: withdraw_stakes_def wps split: option.split)
qed

section \<open>Job entries\<close>

lemma count_succ: "n \<noteq> - 1 \<Longrightarrow> j < n + 1 \<longleftrightarrow> j \<le> (n :: u64)"
proof -
  assume n: "n \<noteq> - 1"
  then have "unat n \<noteq> 2 ^ 64 - 1" by (auto simp: word_unat_eq_iff unat_max_word)
  then have "unat n + 1 < 2 ^ 64" using unat_u64_bound [of n] by simp
  then have "unat (n + 1) = unat n + 1" by (simp add: unat_word_ariths)
  then show ?thesis by (simp add: word_less_nat_alt word_le_nat_alt less_Suc_eq_le)
qed

lemma jobs_ok_insert:
  assumes "jobs_ok specs states pend n" and "count n \<noteq> - 1"
  shows "jobs_ok (specs(count n \<mapsto> spec)) (states(count n \<mapsto> st)) pend (Some (count n + 1))"
proof -
  have "count (Some (count n + 1)) = count n + 1" by (simp add: count_def)
  then show ?thesis using assms by (auto simp: jobs_ok_def count_succ less_imp_le)
qed

lemma jobs_ok_update:
  "jobs_ok specs states pend n \<Longrightarrow> states j \<noteq> None \<Longrightarrow> jobs_ok specs (states(j \<mapsto> st)) pend n"
  "jobs_ok specs states pend n \<Longrightarrow> specs j \<noteq> None \<Longrightarrow> jobs_ok (specs(j \<mapsto> spec)) states pend n"
  "jobs_ok specs states pend n \<Longrightarrow> specs j \<noteq> None \<Longrightarrow> jobs_ok specs states (pend(j \<mapsto> a)) n"
  "jobs_ok specs states pend n \<Longrightarrow> jobs_ok specs states (pend(j := None)) n"
  "jobs_ok specs states pend n \<Longrightarrow>
     jobs_ok (specs(j := None)) (states(j := None)) (pend(j := None)) n"
  by (auto simp: jobs_ok_def)

lemma index_ok_owner_ids:
  "index_ok specs (s_owner_jobs d) \<longleftrightarrow>
     (\<forall>a. distinct (owner_ids a d)
        \<and> set (owner_ids a d) = {j. \<exists>spec. specs j = Some spec \<and> owner spec = a})"
  by (simp add: index_ok_def owner_ids_listed)

lemma owner_ids_other:
  "b \<noteq> a \<Longrightarrow> owner_ids b (push_owner_job a j d) = owner_ids b d"
  "b \<noteq> a \<Longrightarrow> owner_ids b (drop_owner_job a j d) = owner_ids b d"
  by (simp_all add: push_owner_job_def drop_owner_job_def owner_ids_def)

lemma owner_ids_push: "owner_ids a (push_owner_job a j d) = owner_ids a d @ [j]"
  by (simp add: push_owner_job_def owner_ids_def)

lemma index_ok_push:
  assumes "index_ok specs (s_owner_jobs d)" and "specs j = None"
  shows "index_ok (specs(j \<mapsto> spec)) (s_owner_jobs (push_owner_job (owner spec) j d))"
  unfolding index_ok_owner_ids
proof (intro allI conjI)
  fix a
  note i = assms(1) [unfolded index_ok_owner_ids, rule_format, of a]
  have j: "j \<notin> set (owner_ids a d)" using i assms(2) by auto
  show "distinct (owner_ids a (push_owner_job (owner spec) j d))"
    using i owned.distinct_push [of a d j] j by (cases "a = owner spec") (auto simp: owner_ids_other)
  show "set (owner_ids a (push_owner_job (owner spec) j d))
      = {i. \<exists>sp. (specs(j \<mapsto> spec)) i = Some sp \<and> owner sp = a}"
    using i assms(2) by (cases "a = owner spec") (auto simp: owner_ids_other owner_ids_push)
qed

lemma index_ok_drop:
  assumes "index_ok specs (s_owner_jobs d)" and "specs j = Some spec"
  shows "index_ok (specs(j := None)) (s_owner_jobs (drop_owner_job (owner spec) j d))"
  unfolding index_ok_owner_ids
proof (intro allI conjI)
  fix a
  note i = assms(1) [unfolded index_ok_owner_ids, rule_format, of a]
  show "distinct (owner_ids a (drop_owner_job (owner spec) j d))"
    using i owned.distinct_drop [of a d j] by (cases "a = owner spec") (auto simp: owner_ids_other)
  show "set (owner_ids a (drop_owner_job (owner spec) j d))
      = {i. \<exists>sp. (specs(j := None)) i = Some sp \<and> owner sp = a}"
    using i assms(2) owner_ids_drop [of a j d]
    by (cases "a = owner spec") (auto simp: owner_ids_other)
qed

lemma index_ok_same:
  "index_ok specs m \<Longrightarrow> specs j = Some spec \<Longrightarrow> owner spec' = owner spec \<Longrightarrow>
   index_ok (specs(j \<mapsto> spec')) m"
  by (auto simp: index_ok_def)

lemma owner_jobs_frame [simp]:
  "s_owner_jobs (push_owner_job a j (s_states_update f1 d)) = s_owner_jobs (push_owner_job a j d)"
  "s_owner_jobs (push_owner_job a j (s_specs_update f2 d)) = s_owner_jobs (push_owner_job a j d)"
  "s_owner_jobs (push_owner_job a j (s_next_job_id_update f3 d)) =
     s_owner_jobs (push_owner_job a j d)"
  "s_owner_jobs (drop_owner_job a j (s_pending_owners_update f4 d)) =
     s_owner_jobs (drop_owner_job a j d)"
  "s_owner_jobs (drop_owner_job a j (without_job j' d)) = s_owner_jobs (drop_owner_job a j d)"
proof -
  have [simp]: "owner_ids a (s_states_update f1 d) = owner_ids a d"
    "owner_ids a (s_specs_update f2 d) = owner_ids a d"
    "owner_ids a (s_next_job_id_update f3 d) = owner_ids a d"
    "owner_ids a (s_pending_owners_update f4 d) = owner_ids a d"
    "owner_ids a (without_job j' d) = owner_ids a d"
    by (simp_all add: owner_ids_def)
  show "s_owner_jobs (push_owner_job a j (s_states_update f1 d)) = s_owner_jobs (push_owner_job a j d)"
    "s_owner_jobs (push_owner_job a j (s_specs_update f2 d)) = s_owner_jobs (push_owner_job a j d)"
    "s_owner_jobs (push_owner_job a j (s_next_job_id_update f3 d)) =
       s_owner_jobs (push_owner_job a j d)"
    "s_owner_jobs (drop_owner_job a j (s_pending_owners_update f4 d)) =
       s_owner_jobs (drop_owner_job a j d)"
    "s_owner_jobs (drop_owner_job a j (without_job j' d)) = s_owner_jobs (drop_owner_job a j d)"
    by (simp_all add: push_owner_job_def drop_owner_job_def)
qed

lemma terms_ok_update:
  "terms_ok specs states \<Longrightarrow> 0 \<le> balance st \<Longrightarrow> terms_ok specs (states(j \<mapsto> st))"
  "terms_ok specs states \<Longrightarrow> spec_ok j spec \<Longrightarrow> terms_ok (specs(j \<mapsto> spec)) states"
  "terms_ok specs states \<Longrightarrow> terms_ok (specs(j := None)) (states(j := None))"
  by (auto simp: terms_ok_def)

section \<open>Creating jobs\<close>

text \<open>The host types of the amounts a caller passes.\<close>

definition typed_params :: "job_params \<Rightarrow> bool" where
  "typed_params p \<longleftrightarrow> in_i128 (p_fee_per_run p) \<and> in_i128 (p_max_fee_per_run p)"

definition typed_update :: "job_update \<Rightarrow> bool" where
  "typed_update u \<longleftrightarrow> in_i128 (u_fee_per_run u) \<and> in_i128 (u_max_fee_per_run u)"

lemma validate_schedule_Inr:
  assumes "validate_schedule c every sch n fee max_fee allowed = Inr effective"
  shows "0 < fee \<and> (max_fee = 0 \<or> fee \<le> max_fee) \<and> effective \<noteq> 0 \<and> schedule_is_valid sch
    \<and> effective = (case calendar_period sch of None \<Rightarrow> every | Some p \<Rightarrow> p)
    \<and> (case allowed of None \<Rightarrow> True | Some xs \<Rightarrow> length xs \<le> MAX_JOB_KEEPERS)"
proof (cases sch)
  case Interval
  then show ?thesis
    using assms by (auto simp: validate_schedule_def split: option.splits if_splits)
next
  case (Daily h m)
  then show ?thesis
    using assms
    by (auto simp: validate_schedule_def DAY_def split: option.splits if_splits)
next
  case (Weekly w h m)
  then show ?thesis
    using assms
    by (auto simp: validate_schedule_def WEEK_def DAY_def split: option.splits if_splits)
qed

definition validated :: "env \<Rightarrow> config \<Rightarrow> reg_store \<Rightarrow> job_params \<Rightarrow> int \<Rightarrow> bool" where
  "validated e c d p deposit \<longleftrightarrow>
     (\<exists>effective. validate_schedule c (p_interval p) (p_schedule p)
        (of_nat (length (p_args p))) (p_fee_per_run p) (p_max_fee_per_run p) (p_keepers p)
          = Inr effective)
     \<and> p_fee_per_run p \<le> deposit \<and> \<not> is_forbidden_target e c (p_target p)
     \<and> (case p_after p of None \<Rightarrow> True | Some l \<Rightarrow> s_states d l \<noteq> None)"

lemma wp_validate_job:
  assumes "\<And>t. same s t \<Longrightarrow> validated e c (storage s) p deposit \<Longrightarrow> Q () t"
    and "\<And>x t. same s t \<Longrightarrow> \<not> validated e c (storage s) p deposit \<Longrightarrow> E x t"
  shows "wp (validate_job e c p deposit) Q E T s"
  by (auto simp: validate_job_def wps validated_def split: option.split sum.split intro!: assms)

definition inserted ::
  "env \<Rightarrow> address \<Rightarrow> job_params \<Rightarrow> int \<Rightarrow> reg_store \<Rightarrow> reg_store" where
  "inserted e a p deposit d =
     (let jid = issued d;
          followed = (case p_after p of None \<Rightarrow> 0
            | Some l \<Rightarrow> (case s_states d l of None \<Rightarrow> 0 | Some st \<Rightarrow> runs st))
      in push_owner_job a jid
        (s_states_update (\<lambda>m. m(jid \<mapsto> new_state e p deposit followed))
        (s_specs_update (\<lambda>m. m(jid \<mapsto> new_spec a p))
        (s_next_job_id_update (\<lambda>_. Some (jid + 1)) d))))"

lemma wp_insert_job:
  assumes "\<And>t. issued (storage s) \<noteq> - 1 \<Longrightarrow>
      became (inserted e a p deposit (storage s)) (world s)
        [JobEvent (JobCreated (issued (storage s)) a (p_target p) (interval (new_spec a p))
          (p_fee_per_run p) deposit)] s t \<Longrightarrow> Q (issued (storage s)) t"
    and "issued (storage s) = - 1 \<Longrightarrow> T"
  shows "wp (insert_job e a p deposit) Q E T s"
  by (auto simp: insert_job_def wps inserted_def Let_def became_def split: option.split intro!: assms)

lemma new_spec_ok:
  assumes "validated e c d p deposit" and "typed_params p" and "p_after p \<noteq> Some j"
  shows "spec_ok j (new_spec a p)"
  using assms
  by (auto simp: validated_def typed_params_def spec_ok_def new_spec_def
      dest!: validate_schedule_Inr split: option.splits)

lemma registry_ok_inserted:
  assumes ok: "registry_ok d" and v: "validated e c d p deposit" and "typed_params p"
    and n: "issued d \<noteq> - 1"
  shows "registry_ok (inserted e a p deposit d)"
proof -
  have "issued d \<notin> dom (s_specs d)" "dom (s_states d) = dom (s_specs d)"
    using ok by (auto simp: registry_ok_def jobs_ok_def issued_count)
  then have fresh: "s_specs d (issued d) = None" "s_states d (issued d) = None" by blast+
  then have "p_after p \<noteq> Some (issued d)" using v by (auto simp: validated_def)
  from new_spec_ok [OF v assms(3) this]
  have spec: "spec_ok (issued d) (new_spec a p)" .
  have "0 \<le> deposit" using v by (auto simp: validated_def dest!: validate_schedule_Inr)
  then show ?thesis
    using ok spec n fresh index_ok_push [of "s_specs d" d "issued d" "new_spec a p"]
      jobs_ok_insert [of "s_specs d" "s_states d" "s_pending_owners d" "s_next_job_id d"]
    by (auto simp: registry_ok_def inserted_def Let_def new_state_def terms_ok_update
        issued_count new_spec_def)
qed

lemma create_job_keeps:
  assumes "typed_params p"
  shows "keeps (create_job h e a p deposit)"
proof (rule keepsI)
  fix s :: "'a registry" assume ok: "registry_ok (storage s)"
  show "wp (create_job h e a p deposit) (\<lambda>_ t. registry_ok (storage t)) (\<lambda>_ _. True) True s"
    by (auto simp: create_job_def wps ensure_not_paused_def same_def became_def ok
        split: option.split
        intro!: wp_validate_job wp_insert_job registry_ok_inserted [OF ok _ assms])
qed

text \<open>Creating jobs never removes a leader, so a batch stays valid while it is stored.\<close>

lemma validated_inserted:
  "validated e c d p deposit \<Longrightarrow> validated e c (inserted e' a p' deposit' d) p deposit"
  by (auto simp: validated_def inserted_def Let_def split: option.splits)

lemma wp_validate_all:
  assumes "\<And>t. same s t \<Longrightarrow> (\<And>p n. (p, n) \<in> set xs \<Longrightarrow> validated e c (storage s) p n) \<Longrightarrow>
      Q (z + (\<Sum>(p, n) \<leftarrow> xs. n)) t"
  shows "wp (validate_all e c xs z) Q (\<lambda>_ _. True) T s"
  using assms
proof (induction xs arbitrary: z s)
  case Nil
  then show ?case by (simp add: wps)
next
  case (Cons x xs)
  obtain p n where x: "x = (p, n)" by (cases x)
  show ?case
    unfolding x validate_all.simps wp_andthen
  proof (rule wp_validate_job)
    fix t assume t: "same s t" and v: "validated e c (storage s) p n"
    have "wp (validate_all e c xs (z + n)) Q (\<lambda>_ _. True) T t"
    proof (rule Cons.IH)
      fix t' assume "same t t'"
        and "\<And>p n. (p, n) \<in> set xs \<Longrightarrow> validated e c (storage t) p n"
      then show "Q (z + n + (\<Sum>(p, n) \<leftarrow> xs. n)) t'"
        using Cons.prems [of t'] t v by (auto simp: same_def x add.assoc)
    qed
    then show "wp (if in_i128 (z + n) then validate_all e c xs (z + n) else err InvalidAmount) Q
        (\<lambda>_ _. True) T t"
      by (simp add: wps)
  qed simp
qed

lemma insert_all_keeps:
  assumes "registry_ok (storage s)"
    and "\<And>p n. (p, n) \<in> set xs \<Longrightarrow> typed_params p \<and> (\<exists>c. validated e c (storage s) p n)"
  shows "wp (collect (\<lambda>(p, n). insert_job e a p n) xs) (\<lambda>_ t. registry_ok (storage t))
    (\<lambda>_ _. True) True s"
proof -
  let ?I = "\<lambda>t. registry_ok (storage t) \<and>
    (\<forall>(p, n) \<in> set xs. typed_params p \<and> (\<exists>c. validated e c (storage t) p n))"
  have "wp (collect (\<lambda>(p, n). insert_job e a p n) xs) (\<lambda>_. ?I) (\<lambda>_. ?I) True s"
  proof (rule wp_collect)
    fix x and s :: "'a registry"
    assume x: "x \<in> set xs" and I: "?I s"
    obtain p n where p: "x = (p, n)" by (cases x)
    have "?I t" if "became (inserted e a p n (storage s)) w vs s t" "issued (storage s) \<noteq> - 1"
      for t w vs
    proof -
      obtain c where "typed_params p" "validated e c (storage s) p n" using I x p by auto
      then have "registry_ok (inserted e a p n (storage s))"
        using I that(2) by (auto intro: registry_ok_inserted)
      then show ?thesis using that(1) I validated_inserted by (fastforce simp: became_def)
    qed
    then show "wp ((\<lambda>(p, n). insert_job e a p n) x) (\<lambda>_. ?I) (\<lambda>_. ?I) True s"
      unfolding p prod.case by (intro wp_insert_job) simp_all
  qed (use assms in auto)
  then show ?thesis by (rule wp_mono) auto
qed

lemma create_jobs_keeps:
  assumes "\<And>p. p \<in> set ps \<Longrightarrow> typed_params p"
  shows "keeps (create_jobs h e a ps ns)"
proof (rule keepsI)
  fix s :: "'a registry" assume ok: "registry_ok (storage s)"
  have typed: "typed_params p" if "(p, n) \<in> set (zip ps ns)" for p n
    using that assms set_zip_leftD by metis
  show "wp (create_jobs h e a ps ns) (\<lambda>_ t. registry_ok (storage t)) (\<lambda>_ _. True) True s"
    using ok typed
    by (auto simp: create_jobs_def wps ensure_not_paused_def same_def split: option.split
        intro!: wp_validate_all insert_all_keeps) blast
qed

section \<open>Changing jobs\<close>

lemma registry_ok_state:
  "registry_ok d \<Longrightarrow> s_states d j = Some st \<Longrightarrow> 0 \<le> balance st' \<Longrightarrow>
   registry_ok (s_states_update (\<lambda>m. m(j \<mapsto> st')) d)"
  by (simp add: registry_ok_def jobs_ok_update terms_ok_update)

lemma registry_ok_spec:
  "registry_ok d \<Longrightarrow> s_specs d j = Some spec \<Longrightarrow> spec_ok j spec' \<Longrightarrow> owner spec' = owner spec \<Longrightarrow>
   registry_ok (s_specs_update (\<lambda>m. m(j \<mapsto> spec')) d)"
  by (simp add: registry_ok_def jobs_ok_update terms_ok_update index_ok_same)

lemma registry_okD:
  assumes "registry_ok d"
  shows "s_states d j = Some st \<Longrightarrow> 0 \<le> balance st"
    and "s_specs d j = Some spec \<Longrightarrow> spec_ok j spec"
    and "s_specs d j = None \<longleftrightarrow> s_states d j = None"
  using assms by (auto simp: registry_ok_def terms_ok_def jobs_ok_def)

lemma fund_job_keeps: "keeps (fund_job h e a j n)"
proof (rule keepsI)
  fix s :: "'a registry" assume ok: "registry_ok (storage s)"
  show "wp (fund_job h e a j n) (\<lambda>_ t. registry_ok (storage t)) (\<lambda>_ _. True) True s"
    using registry_okD(1) [OF ok, of j]
    by (auto simp: fund_job_def wps ensure_not_paused_def split: option.split
        intro!: registry_ok_state [OF ok])
qed

lemma withdraw_job_balance_keeps: "keeps (withdraw_job_balance h e j n)"
proof (rule keepsI)
  fix s :: "'a registry" assume ok: "registry_ok (storage s)"
  show "wp (withdraw_job_balance h e j n) (\<lambda>_ t. registry_ok (storage t)) (\<lambda>_ _. True) True s"
    by (auto simp: withdraw_job_balance_def wps parts_Some_iff Let_def split: option.split
        intro!: registry_ok_state [OF ok])
qed

lemma set_job_active_keeps: "keeps (set_job_active e j b)"
proof (rule keepsI)
  fix s :: "'a registry" assume ok: "registry_ok (storage s)"
  show "wp (set_job_active e j b) (\<lambda>_ t. registry_ok (storage t)) (\<lambda>_ _. True) True s"
    using registry_okD(1) [OF ok, of j]
    by (auto simp: set_job_active_def wps parts_Some_iff Let_def split: option.split
        intro!: registry_ok_state [OF ok])
qed

lemma cancel_job_keeps: "keeps (cancel_job h e j)"
proof (rule keepsI)
  fix s :: "'a registry" assume ok: "registry_ok (storage s)"
  have "registry_ok (drop_owner_job (owner spec) j (without_job j (storage s)))"
    if "s_specs (storage s) j = Some spec" for spec
    using ok that index_ok_drop [of "s_specs (storage s)" "storage s" j spec]
    by (simp add: registry_ok_def jobs_ok_update terms_ok_update)
  then show "wp (cancel_job h e j) (\<lambda>_ t. registry_ok (storage t)) (\<lambda>_ _. True) True s"
    by (auto simp: cancel_job_def wps parts_Some_iff Let_def split: option.split)
qed

lemma propose_job_owner_keeps: "keeps (propose_job_owner e j a)"
  by (rule keepsI)
    (auto simp: propose_job_owner_def wps registry_ok_def jobs_ok_update split: option.split)

lemma accept_job_owner_keeps: "keeps (accept_job_owner e j)"
proof (rule keepsI)
  fix s :: "'a registry" assume ok: "registry_ok (storage s)"
  let ?d = "storage s"
  have "registry_ok (s_specs_update (\<lambda>m. m(j \<mapsto> spec\<lparr>owner := a\<rparr>))
      (push_owner_job a j (drop_owner_job (owner spec) j
        (s_pending_owners_update (\<lambda>m. m(j := None)) ?d))))"
    if spec: "s_specs ?d j = Some spec" for spec a
  proof -
    let ?d1 = "drop_owner_job (owner spec) j (s_pending_owners_update (\<lambda>m. m(j := None)) ?d)"
    have "index_ok ((s_specs ?d)(j := None)) (s_owner_jobs ?d1)"
      using ok spec index_ok_drop [of "s_specs ?d" ?d j spec] by (simp add: registry_ok_def)
    from index_ok_push [OF this, of j "spec\<lparr>owner := a\<rparr>"]
    have "index_ok ((s_specs ?d)(j \<mapsto> spec\<lparr>owner := a\<rparr>)) (s_owner_jobs (push_owner_job a j ?d1))"
      by simp
    moreover have "spec_ok j (spec\<lparr>owner := a\<rparr>)"
      using registry_okD(2) [OF ok spec] by (simp add: spec_ok_def split: option.splits)
    ultimately show ?thesis
      using ok spec by (simp add: registry_ok_def jobs_ok_update terms_ok_update)
  qed
  then show "wp (accept_job_owner e j) (\<lambda>_ t. registry_ok (storage t)) (\<lambda>_ _. True) True s"
    by (auto simp: accept_job_owner_def wps split: option.split)
qed

lemma owner_updated_spec [simp]: "owner (updated_spec u effective spec) = owner spec"
  by (simp add: updated_spec_def)

lemma updated_spec_ok:
  assumes "validate_schedule c (u_interval u) (u_schedule u) n (u_fee_per_run u)
      (u_max_fee_per_run u) (u_keepers u) = Inr effective"
    and "typed_update u" and "spec_ok j spec"
  shows "spec_ok j (updated_spec u effective spec)"
    and "u_after u \<noteq> Some j \<Longrightarrow> spec_ok j ((updated_spec u effective spec)\<lparr>after := u_after u\<rparr>)"
  using assms
  by (auto simp: updated_spec_def spec_ok_def typed_update_def dest!: validate_schedule_Inr
      split: option.splits)

lemma update_job_keeps:
  assumes "typed_update u"
  shows "keeps (update_job e j u)"
proof (rule keepsI)
  fix s :: "'a registry" assume ok: "registry_ok (storage s)"
  have fin: "registry_ok (s_states_update (\<lambda>m. m(j \<mapsto> st')) (s_specs_update (\<lambda>m. m(j \<mapsto> spec')) (storage s)))"
    if "s_specs (storage s) j = Some spec" "s_states (storage s) j = Some st"
      "balance st' = balance st" "spec_ok j spec'" "owner spec' = owner spec" for spec st spec' st'
    using registry_ok_spec [OF ok that(1,4,5)] that registry_okD(1) [OF ok that(2)]
    by (intro registry_ok_state) auto
  have stored: "wp (store_update e c j u effective spec st)
      (\<lambda>_ t. registry_ok (storage t)) (\<lambda>_ _. True) True t"
    if "storage t = storage s" "s_specs (storage s) j = Some spec" "s_states (storage s) j = Some st"
      "validate_schedule c (u_interval u) (u_schedule u) n (u_fee_per_run u)
        (u_max_fee_per_run u) (u_keepers u) = Inr effective"
    for t :: "'a registry" and spec st effective c n
  proof -
    have "balance (rescheduled e u spec st) = balance st" by (simp add: rescheduled_def)
    then show ?thesis
      using that registry_okD(2) [OF ok that(2)] updated_spec_ok [OF that(4) assms, of j spec]
      by (cases "u_after u")
        (auto simp: store_update_def wps leader_run_count_def split: option.split
          intro!: fin [OF that(2,3)])
  qed
  show "wp (update_job e j u) (\<lambda>_ t. registry_ok (storage t)) (\<lambda>_ _. True) True s"
    by (auto simp: update_job_def wps parts_Some_iff Let_def ensure_not_paused_def
        split: option.split sum.split intro!: stored)
qed

section \<open>Executing jobs\<close>

lemma smooth_misses:
  "unat (misses r) \<le> 80000 \<Longrightarrow> x = 0 \<or> x = MAX_BPS_SCALE \<Longrightarrow> unat (smooth (misses r) x) \<le> 80000"
  using smooth_le [of "misses r" 10000 x] by (auto simp: MAX_BPS_SCALE_def)

lemma recents_okD: "registry_ok d \<Longrightarrow> unat (misses (recent_of d a)) \<le> 80000"
  by (auto simp: registry_ok_def recents_ok_def recent_of_def split: option.split)

lemma with_miss_ok:
  assumes "registry_ok d"
  shows "registry_ok (with_miss who d)"
proof (cases "s_keepers d who")
  case (Some k)
  then show ?thesis
    using assms smooth_misses [OF recents_okD [OF assms]]
    by (auto simp: with_miss_def registry_ok_def intro!: keepers_ok_same recents_ok_update)
qed (use assms in \<open>simp add: with_miss_def\<close>)

lemma with_misses_ok: "registry_ok d \<Longrightarrow> registry_ok (with_misses who d)"
  by (simp add: with_misses_def with_miss_ok split: option.split)

lemma with_misses_frame [simp]:
  "s_config (with_misses w d) = s_config d"
  "s_states (with_misses w d) = s_states d"
  "s_specs (with_misses w d) = s_specs d"
  "s_next_job_id (with_misses w d) = s_next_job_id d"
  "s_active_keepers (with_misses w d) = s_active_keepers d"
  "w \<noteq> Some a \<Longrightarrow> s_keepers (with_misses w d) a = s_keepers d a"
  "w \<noteq> Some a \<Longrightarrow> s_recents (with_misses w d) a = s_recents d a"
  by (auto simp: with_misses_def with_miss_def split: option.split)

lemma other_keeper_not_self: "other_keeper h c d a jid spec st \<noteq> Some a"
  by (simp add: other_keeper_def Let_def)

lemma missed_by_not_self:
  "missed_by e c d jid spec st (other_keeper h c d' a jid spec st) \<noteq> Some a"
  by (simp add: missed_by_def other_keeper_not_self)

lemma booked_frame [simp]:
  "s_config (booked e c jid spec st w b n d) = s_config d"
  "s_specs (booked e c jid spec st w b n d) = s_specs d"
  "s_states (booked e c jid spec st w b n d) = (s_states d)(jid \<mapsto> state_after e c spec st b n)"
  "s_next_job_id (booked e c jid spec st w b n d) = s_next_job_id d"
  by (simp_all add: booked_def)

lemma booked_self:
  "s_keepers (booked e c jid spec st (other_keeper h c d a jid spec st) b n d) a = s_keepers d a"
  "s_recents (booked e c jid spec st (other_keeper h c d a jid spec st) b n d) a = s_recents d a"
  by (simp_all add: booked_def missed_by_not_self)

lemma balance_state_after [simp]:
  "balance (state_after e c spec st b n) = balance st - run_fee e spec st"
  by (simp add: state_after_def ran_state_def)

lemma booked_ok:
  assumes "registry_ok d" and "parts d jid = Some (spec, st)" and "books_ok e c spec st pay"
  shows "registry_ok (booked e c jid spec st w b n d)"
proof -
  have "run_fee e spec st \<le> balance st"
    using assms(3) ramped_fee_le_balance by (auto simp: books_ok_def run_fee_def)
  then show ?thesis
    using assms(1,2) unfolding booked_def
    by (auto simp: parts_Some_iff intro!: with_misses_ok registry_ok_state)
qed

text \<open>What the loop over a batch keeps of the registry and of the caller's record.\<close>

definition record_for :: "address \<Rightarrow> keeper_record \<Rightarrow> reg_store \<Rightarrow> bool" where
  "record_for a rec d \<longleftrightarrow>
     (\<exists>k. s_keepers d a = Some k \<and> stake (info rec) = stake k
        \<and> unbonding_at (info rec) = unbonding_at k)
     \<and> unat (misses (recent rec)) \<le> 80000"

lemma run_does_ok:
  assumes "run_does h e c exec a jid acc s r t" and "registry_ok (storage s)"
    and "record_for a (fst acc) (storage s)"
  shows "registry_ok (storage t) \<and> record_for a (fst r) (storage t)"
  using assms smooth_misses [of "recent (fst acc)" 0]
  by (auto simp: run_does_def became_def booked_ok record_for_def booked_self credit_run_def)

lemma run_refuses_ok:
  assumes "run_refuses h e c a jid s x t" and "registry_ok (storage s)"
    and "record_for a (fst acc) (storage s)"
  shows "registry_ok (storage t) \<and> record_for a (fst acc) (storage t)"
  using assms run_refuses_frame [OF assms(1)] by simp

definition saved_record :: "address \<Rightarrow> keeper_record \<Rightarrow> reg_store \<Rightarrow> reg_store" where
  "saved_record a rec d =
     s_recents_update (\<lambda>m. m(a \<mapsto> recent rec)) (s_keepers_update (\<lambda>m. m(a \<mapsto> info rec)) d)"

lemma wp_save_record [wps]:
  "wp (save_record a rec) Q E T s =
     Q () (seen True (KKeeperRecent a) (seen True (KKeeper a)
       (s\<lparr>storage := saved_record a rec (storage s)\<rparr>)))"
  by (simp add: save_record_def saved_record_def wps)

lemma wp_load_record [wps]:
  "wp (load_record a k) Q E T s =
     Q \<lparr>info = k, recent = recent_of (storage s) a\<rparr>
       (seen (s_recents (storage s) a \<noteq> None) (KKeeperRecent a) s)"
  by (simp add: load_record_def wps)

lemma saved_record_ok:
  assumes "registry_ok d" and "record_for a rec d"
  shows "registry_ok (saved_record a rec d)"
  using assms
  by (auto simp: registry_ok_def record_for_def saved_record_def intro!: keepers_ok_same
      recents_ok_update)

lemma wp_settle_storage:
  "(\<And>t. storage t = storage s \<Longrightarrow> Q () t) \<Longrightarrow> wp (settle h e c a pay) Q E True s"
  by (auto simp: settle_def wps split: option.split)

lemma execute_keeps: "keeps (execute h e a jid)"
proof (rule keepsI)
  fix s :: "'a registry" assume ok: "registry_ok (storage s)"
  show "wp (execute h e a jid) (\<lambda>_ t. registry_ok (storage t)) (\<lambda>_ _. True) True s"
    unfolding execute_def wp_bind wp_load_config
  proof (cases "s_config (storage s)"; simp; rule wp_authorize_keeper)
    fix c exec k t
    assume t: "same (seen_instance s) t" and k: "s_keepers (storage (seen_instance s)) a = Some k"
    let ?rec = "\<lparr>info = k, recent = recent_of (storage t) a\<rparr>"
    have I: "registry_ok (storage t) \<and> record_for a ?rec (storage t)"
      using t k ok recents_okD [OF ok, of a] by (auto simp: same_def record_for_def)
    show "wp (case (exec, k) of (exec, k) \<Rightarrow>
        bind (load_record a k) (\<lambda>rec.
        bind (run_job h e c exec a (rec, no_payout) jid) (\<lambda>(rec', pay).
        andthen (save_record a rec') (settle h e c a pay))))
      (\<lambda>_ t. registry_ok (storage t)) (\<lambda>_ _. True) True t"
      apply (simp add: wps)
      apply (rule wp_mono [OF wp_run_job])
        apply (use I in \<open>auto simp: wp_andthen wp_save_record dest!: run_does_ok
        intro!: wp_settle_storage saved_record_ok\<close>)
      done
  qed simp_all
qed

lemma execute_batch_keeps: "keeps (execute_batch h e a jids)"
proof (rule keepsI)
  fix s :: "'a registry" assume ok: "registry_ok (storage s)"
  have "wp (bind (authorize_keeper e c a) (\<lambda>(exec, k).
        bind (load_record a k) (\<lambda>rec.
        bind (run_jobs h e c exec a (rec, no_payout) jids) (\<lambda>(did, rec', pay).
        andthen (save_record a rec') (andthen (settle h e c a pay) (ok did))))))
      (\<lambda>_ t. registry_ok (storage t)) (\<lambda>_ _. True) True (seen_instance s)" for c
    unfolding wp_bind
  proof (rule wp_authorize_keeper)
    fix exec k t
    assume t: "same (seen_instance s) t" and k: "s_keepers (storage (seen_instance s)) a = Some k"
    let ?rec = "\<lparr>info = k, recent = recent_of (storage t) a\<rparr>"
    have I: "registry_ok (storage t) \<and> record_for a ?rec (storage t)"
      using t k ok recents_okD [OF ok, of a] by (auto simp: same_def record_for_def)
    let ?I = "\<lambda>acc t. registry_ok (storage t) \<and> record_for a (fst acc) (storage t)"
    show "wp (case (exec, k) of (exec, k) \<Rightarrow>
        bind (load_record a k) (\<lambda>rec.
        bind (run_jobs h e c exec a (rec, no_payout) jids) (\<lambda>(did, rec', pay).
        andthen (save_record a rec') (andthen (settle h e c a pay) (ok did)))))
      (\<lambda>_ t. registry_ok (storage t)) (\<lambda>_ _. True) True t"
      unfolding prod.case wp_bind wp_load_record
    proof (rule wp_mono [OF wp_run_jobs [where I = ?I and T = True]])
      fix acc s jid r t
      assume "?I acc s" "run_does h e c exec a jid acc s r t"
      then show "?I r t" by (auto dest: run_does_ok)
    next
      fix acc s jid x t
      assume "?I acc s" "run_refuses h e c a jid s x t"
      then show "?I acc t" by (auto dest: run_refuses_ok)
    qed (use I in \<open>auto simp: wp_andthen wp_save_record wp_ok
        intro!: wp_settle_storage saved_record_ok\<close>)
  qed simp_all
  then show "wp (execute_batch h e a jids) (\<lambda>_ t. registry_ok (storage t)) (\<lambda>_ _. True) True s"
    by (auto simp: execute_batch_def wp_andthen wp_fail_if wp_bind [of load_config] wp_load_config
        split: option.split)
qed

end
