(* ===== verification/Escrow.thy ===== *)
theory Escrow
  imports Invariants
begin

text \<open>
  Custody: the registry always holds at least what it owes. What it owes in the fee token
  is the sum of the job balances, in the stake token the sum of the stakes; inside a call
  money already received and not yet booked, or booked out and not yet paid, is pending. Every
  lemma has two readings, by the surplus it is about: at least what is owed, or exactly more.
\<close>

section \<open>What is owed\<close>

definition owed :: "config \<Rightarrow> reg_store \<Rightarrow> address \<Rightarrow> int" where
  "owed c d token =
     (if token = fee_token c then total balance (s_states d) else 0)
       + (if token = stake_token c then total stake (s_keepers d) else 0)"

text \<open>
  Two readings of the books. Without a surplus (\<open>None\<close>) the registry holds at least what it
  owes; with one, it holds exactly what it owes and, of each token, the surplus.
\<close>

type_synonym surplus = "(address \<Rightarrow> int) option"

definition backed :: "surplus \<Rightarrow> address \<Rightarrow> int \<Rightarrow> int \<Rightarrow> bool" where
  "backed g u a b \<longleftrightarrow> (case g of None \<Rightarrow> a \<le> b | Some k \<Rightarrow> a + k u = b)"

text \<open>A change of what is held that the reading allows.\<close>

definition grows :: "surplus \<Rightarrow> int \<Rightarrow> int \<Rightarrow> bool" where
  "grows g a b \<longleftrightarrow> (if g = None then a \<le> b else a = b)"

definition covers :: "surplus \<Rightarrow> 'w host \<Rightarrow> address \<Rightarrow> int \<Rightarrow> int \<Rightarrow> 'w registry \<Rightarrow> bool" where
  "covers g h a fees stakes s \<longleftrightarrow>
     (\<forall>c. s_config (storage s) = Some c \<longrightarrow>
        (\<forall>token. backed g token (owed c (storage s) token + (if token = fee_token c then fees else 0)
             + (if token = stake_token c then stakes else 0))
           (token_balance h (world s) token a)))"

lemma grows_refl [simp]: "grows g a a"
  by (simp add: grows_def)

lemma backed_grows: "backed g u a b \<Longrightarrow> grows g b b' \<Longrightarrow> backed g u a b'"
  by (auto simp: backed_def grows_def split: option.splits)

lemma backed_shift: "backed g u a b \<Longrightarrow> grows g (a' - a) (b' - b) \<Longrightarrow> backed g u a' b'"
  by (auto simp: backed_def grows_def split: option.splits)

text \<open>The hosts under which custody is claimed.\<close>

definition sound_host :: "'w host \<Rightarrow> address \<Rightarrow> bool" where
  "sound_host h a \<longleftrightarrow> token_laws h \<and> calls_keep_funds h a \<and> install_keeps_funds h"

definition same_tokens :: "reg_store \<Rightarrow> reg_store \<Rightarrow> bool" where
  "same_tokens d d' \<longleftrightarrow>
     map_option (\<lambda>c. (fee_token c, stake_token c)) (s_config d')
       = map_option (\<lambda>c. (fee_token c, stake_token c)) (s_config d)"

text \<open>
  For an exact reading: called contracts do not donate, and the registry is nobody's owner,
  keeper or treasury, so that what it pays leaves it.
\<close>

definition aloof :: "surplus \<Rightarrow> 'w host \<Rightarrow> address \<Rightarrow> reg_store \<Rightarrow> bool" where
  "aloof g h a d \<longleftrightarrow> g = None \<or>
     calls_ignore_funds h a \<and> (\<forall>j spec. s_specs d j = Some spec \<longrightarrow> owner spec \<noteq> a)
     \<and> s_keepers d a = None \<and> (\<forall>c. s_config d = Some c \<longrightarrow> treasury c \<noteq> Some a)"

lemma aloofD:
  assumes "aloof g h a d"
  shows "s_specs d j = Some spec \<Longrightarrow> g = None \<or> owner spec \<noteq> a"
    and "s_keepers d x = Some k \<Longrightarrow> g = None \<or> x \<noteq> a"
    and "s_config d = Some c \<Longrightarrow> treasury c = Some y \<Longrightarrow> g = None \<or> y \<noteq> a"
  using assms by (auto simp: aloof_def)

lemma aloof_frame:
  "s_specs d' = s_specs d \<Longrightarrow> s_keepers d' a = None \<longleftrightarrow> s_keepers d a = None \<Longrightarrow>
   s_config d' = s_config d \<Longrightarrow> aloof g h a d' \<longleftrightarrow> aloof g h a d"
  by (simp add: aloof_def)

lemma aloof_None [simp]: "aloof None h a d"
  by (simp add: aloof_def)

lemma covers_change:
  assumes "covers g h a fees stakes s" and "same_tokens (storage s) (storage t)"
    and "fees' + total balance (s_states (storage t)) = fees + total balance (s_states (storage s))"
    and "stakes' + total stake (s_keepers (storage t)) = stakes + total stake (s_keepers (storage s))"
    and "\<And>u. grows g (token_balance h (world s) u a) (token_balance h (world t) u a)"
  shows "covers g h a fees' stakes' t"
  unfolding covers_def
proof (intro allI impI)
  fix c' token assume c': "s_config (storage t) = Some c'"
  then obtain c where c: "s_config (storage s) = Some c" "fee_token c' = fee_token c"
    "stake_token c' = stake_token c"
    using assms(2) by (cases "s_config (storage s)") (auto simp: same_tokens_def)
  have "backed g token (owed c (storage s) token + (if token = fee_token c then fees else 0)
      + (if token = stake_token c then stakes else 0)) (token_balance h (world t) token a)"
    using assms(1) c by (intro backed_grows [OF _ assms(5)]) (simp add: covers_def)
  moreover have "owed c' (storage t) token + (if token = fee_token c' then fees' else 0)
      + (if token = stake_token c' then stakes' else 0)
    = owed c (storage s) token + (if token = fee_token c then fees else 0)
      + (if token = stake_token c then stakes else 0)"
    using assms(3,4) c by (auto simp: owed_def split: if_splits)
  ultimately show "backed g token (owed c' (storage t) token + (if token = fee_token c' then fees' else 0)
      + (if token = stake_token c' then stakes' else 0)) (token_balance h (world t) token a)"
    by simp
qed

lemma coversD:
  "covers g h a f p s \<Longrightarrow> s_config (storage s) = Some c \<Longrightarrow>
   backed g u (owed c (storage s) u + (if u = fee_token c then f else 0) + (if u = stake_token c then p else 0))
     (token_balance h (world s) u a)"
  by (simp add: covers_def)

lemma covers_shift:
  assumes "covers g h a f p s" and c: "s_config (storage s) = Some c"
    and "\<And>u. grows g ((if u = fee_token c then f' - f else 0) + (if u = stake_token c then p' - p else 0))
      (token_balance h w u a - token_balance h (world s) u a)"
  shows "covers g h a f' p' (s\<lparr>world := w\<rparr>)"
  unfolding covers_def
proof (intro allI impI)
  fix c' token assume "s_config (storage (s\<lparr>world := w\<rparr>)) = Some c'"
  then have c': "c' = c" using c by simp
  show "backed g token (owed c' (storage (s\<lparr>world := w\<rparr>)) token + (if token = fee_token c' then f' else 0)
      + (if token = stake_token c' then p' else 0)) (token_balance h (world (s\<lparr>world := w\<rparr>)) token a)"
    by (rule backed_shift [OF coversD [OF assms(1,2), of token]])
      (use assms(3) [of token] in \<open>auto simp: c' grows_def split: if_splits\<close>)
qed

lemma covers_fee_in:
  assumes "token_laws h" and "covers g h a fees stakes s" and "s_config (storage s) = Some c"
    and "token_transfer h (fee_token c) x a n (world s) = Some w" and "x \<noteq> a"
  shows "covers g h a (fees + n) (stakes) (s\<lparr>world := w\<rparr>)"
  by (rule covers_shift [OF assms(2,3)])
    (use transfer_balance [OF assms(1,4), of _ a] transfer_nonneg [OF assms(1,4)] assms(5-)
      in \<open>simp split: if_splits\<close>)

lemma covers_stake_in:
  assumes "token_laws h" and "covers g h a fees stakes s" and "s_config (storage s) = Some c"
    and "token_transfer h (stake_token c) x a n (world s) = Some w" and "x \<noteq> a"
  shows "covers g h a (fees) (stakes + n) (s\<lparr>world := w\<rparr>)"
  by (rule covers_shift [OF assms(2,3)])
    (use transfer_balance [OF assms(1,4), of _ a] transfer_nonneg [OF assms(1,4)] assms(5-)
      in \<open>simp split: if_splits\<close>)

lemma covers_fee_out:
  assumes "token_laws h" and "covers g h a fees stakes s" and "s_config (storage s) = Some c"
    and "token_transfer h (fee_token c) a x n (world s) = Some w" and "g = None \<or> x \<noteq> a"
  shows "covers g h a (fees - n) (stakes) (s\<lparr>world := w\<rparr>)"
  by (rule covers_shift [OF assms(2,3)])
    (use transfer_balance [OF assms(1,4), of _ a] transfer_nonneg [OF assms(1,4)] assms(5)
      in \<open>auto simp: grows_def\<close>)

lemma covers_stake_out:
  assumes "token_laws h" and "covers g h a fees stakes s" and "s_config (storage s) = Some c"
    and "token_transfer h (stake_token c) a x n (world s) = Some w" and "g = None \<or> x \<noteq> a"
  shows "covers g h a (fees) (stakes - n) (s\<lparr>world := w\<rparr>)"
  by (rule covers_shift [OF assms(2,3)])
    (use transfer_balance [OF assms(1,4), of _ a] transfer_nonneg [OF assms(1,4)] assms(5)
      in \<open>auto simp: grows_def\<close>)

lemma covers_noted [simp]: "covers g h a f p (noted b x s) \<longleftrightarrow> covers g h a f p s"
  by (simp add: covers_def)

lemma covers_published [simp]: "covers g h a f p (s\<lparr>published := v\<rparr>) \<longleftrightarrow> covers g h a f p s"
  by (simp add: covers_def)

lemma covers_at_least: "covers g h a f p s \<Longrightarrow> s_config (storage s) = Some c \<Longrightarrow> g = None \<Longrightarrow>
   owed c (storage s) u + (if u = fee_token c then f else 0) + (if u = stake_token c then p else 0)
     \<le> token_balance h (world s) u a"
  using coversD [of g h a f p s c u] by (simp add: backed_def)

lemma calls_fund_mono:
  assumes "sound_host h (me e)" and "aloof g h (me e) d"
  shows "resolver_says h e jid spec w = Some (b, w') \<Longrightarrow>
      grows g (token_balance h w u (me e)) (token_balance h w' u (me e))"
    and "target_says h e exec spec w = Some (r, w') \<Longrightarrow>
      grows g (token_balance h w u (me e)) (token_balance h w' u (me e))"
  using assms
  by (auto simp: sound_host_def calls_keep_funds_def calls_ignore_funds_def aloof_def grows_def
      resolver_says_def target_says_def split: option.splits)

lemma grows_trans: "grows g a b \<Longrightarrow> grows g b c \<Longrightarrow> grows g a c"
  by (auto simp: grows_def split: if_splits)

section \<open>Amounts owed to one job or keeper\<close>

lemma registry_ok_finite:
  assumes "registry_ok d"
  shows "finite (dom (s_states d))" "finite (dom (s_keepers d))"
  using assms by (simp_all add: registry_ok_def jobs_ok_def keepers_ok_def)

lemma balance_le_total:
  assumes "registry_ok d" and "s_states d j = Some st"
  shows "balance st \<le> total balance (s_states d)"
  by (rule total_ge_at [OF registry_ok_finite(1) [OF assms(1)] assms(2)])
    (use registry_okD(1) [OF assms(1)] in blast)

lemma stake_le_total:
  assumes "registry_ok d" and "s_keepers d a = Some k"
  shows "stake k \<le> total stake (s_keepers d)"
  by (rule total_ge_at [OF registry_ok_finite(2) [OF assms(1)] assms(2)])
    (use assms(1) in \<open>force simp: registry_ok_def keepers_ok_def less_imp_le\<close>)

lemma total_stake_nonneg: "registry_ok d \<Longrightarrow> 0 \<le> total stake (s_keepers d)"
  by (rule total_nonneg) (force simp: registry_ok_def keepers_ok_def less_imp_le)

lemma total_balance_nonneg: "registry_ok d \<Longrightarrow> 0 \<le> total balance (s_states d)"
  by (rule total_nonneg) (rule registry_okD(1))

text \<open>What is owed fits into the token's amounts, pending amounts included.\<close>

lemma covers_bound:
  assumes "token_laws h" and "covers None h a fees stakes s" and "registry_ok (storage s)"
    and "0 \<le> stakes" and "s_config (storage s) = Some c"
  shows "fees + total balance (s_states (storage s)) < 2 ^ 127"
proof -
  have "owed c (storage s) (fee_token c) + fees
      + (if fee_token c = stake_token c then stakes else 0)
      \<le> token_balance h (world s) (fee_token c) a"
    using covers_at_least [OF assms(2,5) refl, of "fee_token c"] by simp
  also have "\<dots> < 2 ^ 127" using balance_range [OF assms(1)] by blast
  finally show ?thesis
    using total_stake_nonneg [OF assms(3)] assms(4) by (auto simp: owed_def split: if_splits)
qed

lemma covers_bound_stake:
  assumes "token_laws h" and "covers None h a fees stakes s" and "registry_ok (storage s)"
    and "0 \<le> fees" and "s_config (storage s) = Some c"
  shows "stakes + total stake (s_keepers (storage s)) < 2 ^ 127"
proof -
  have "owed c (storage s) (stake_token c) + (if stake_token c = fee_token c then fees else 0)
      + stakes \<le> token_balance h (world s) (stake_token c) a"
    using covers_at_least [OF assms(2,5) refl, of "stake_token c"] by simp
  also have "\<dots> < 2 ^ 127" using balance_range [OF assms(1)] by blast
  finally show ?thesis
    using total_balance_nonneg [OF assms(3)] assms(4) by (auto simp: owed_def split: if_splits)
qed

section \<open>Every operation keeps the registry covered\<close>

abbreviation custody :: "surplus \<Rightarrow> 'w host \<Rightarrow> env \<Rightarrow> ('w, 'a) reg \<Rightarrow> bool" where
  "custody g h e m \<equiv> (\<forall>s. registry_ok (storage s) \<longrightarrow> aloof g h (me e) (storage s) \<longrightarrow>
     covers g h (me e) 0 0 s \<longrightarrow> wp m (\<lambda>_ t. covers g h (me e) 0 0 t) (\<lambda>_ _. True) True s)"

lemma custodyI:
  "(\<And>s. registry_ok (storage s) \<Longrightarrow> aloof g h (me e) (storage s) \<Longrightarrow> covers g h (me e) 0 0 s \<Longrightarrow>
      wp m (\<lambda>_ t. covers g h (me e) 0 0 t) (\<lambda>_ _. True) True s) \<Longrightarrow> custody g h e m"
  by blast

text \<open>Operations that touch neither balances nor stakes.\<close>

definition no_books :: "surplus \<Rightarrow> 'w host \<Rightarrow> address \<Rightarrow> 'w registry \<Rightarrow> 'w registry \<Rightarrow> bool" where
  "no_books g h a s t \<longleftrightarrow>
     same_tokens (storage s) (storage t) \<and> s_states (storage t) = s_states (storage s)
     \<and> s_keepers (storage t) = s_keepers (storage s)
     \<and> (\<forall>u. grows g (token_balance h (world s) u a) (token_balance h (world t) u a))"

lemma no_books_covers: "no_books g h a s t \<Longrightarrow> covers g h a f p s \<Longrightarrow> covers g h a f p t"
  by (rule covers_change) (auto simp: no_books_def)

lemma custody_no_books:
  assumes "\<And>s. wp m (\<lambda>_ t. no_books g h (me e) s t) (\<lambda>_ _. True) True s"
  shows "custody g h e m"
proof (rule custodyI)
  fix s assume "covers g h (me e) 0 0 s"
  then show "wp m (\<lambda>_ t. covers g h (me e) 0 0 t) (\<lambda>_ _. True) True s"
    by (intro wp_mono [OF assms [of s]]) (simp_all add: no_books_covers)
qed

lemma settings_custody:
  "custody g h e (set_executor e x)" "custody g h e (propose_admin e a)" "custody g h e (accept_admin e)"
  "custody g h e (cancel_admin_proposal e)" "custody g h e (set_paused e b)"
  "custody g h e (halt_target e a b)" "custody g h e (set_min_stake e i)"
  "custody g h e (set_min_interval e n)" "custody g h e (set_max_args e m)"
  "custody g h e (set_protocol_fee e m a')" "custody g h e (set_max_failures e m)"
  "custody g h e (set_keeper_windows e n)"
  unfolding settings_defs
  by (rule custody_no_books; simp add: wps no_books_def same_tokens_def split: option.split)+

lemma upgrades_custody:
  "custody g h e (set_unbonding_epoch e n)" "custody g h e (propose_upgrade e b)"
  "custody g h e (cancel_upgrade e)" "custody g h e (change_upgrade_delay e n)"
  "install_keeps_funds h \<Longrightarrow> custody g h e (apply_upgrade h e)"
  unfolding set_unbonding_epoch_def propose_upgrade_def apply_upgrade_def cancel_upgrade_def
    change_upgrade_delay_def
  by (rule custody_no_books; simp add: wps Let_def no_books_def same_tokens_def install_keeps_funds_def
      split: option.split)+

lemma owners_custody: "custody g h e (propose_job_owner e j a)" "custody g h e (accept_job_owner e j)"
  unfolding propose_job_owner_def accept_job_owner_def
  by (rule custody_no_books; simp add: wps no_books_def same_tokens_def split: option.split)+

text \<open>Bookings: a new state, a new stake.\<close>

lemma covers_state:
  assumes "covers g h a f p s" and "registry_ok (storage s)"
    and "s_config (storage t) = s_config (storage s)" and "s_keepers (storage t) = s_keepers (storage s)"
    and "s_states (storage t) = (s_states (storage s))(j \<mapsto> st')"
    and "world t = world s"
    and "f' = f + at_key balance (s_states (storage s)) j - balance st'"
  shows "covers g h a f' p t"
  using assms(1)
  by (rule covers_change)
    (use assms(3-) registry_ok_finite [OF assms(2)] in \<open>simp_all add: total_update same_tokens_def\<close>)

lemma covers_keeper:
  assumes "covers g h a f p s" and "registry_ok (storage s)"
    and "s_config (storage t) = s_config (storage s)" and "s_states (storage t) = s_states (storage s)"
    and "s_keepers (storage t) = (s_keepers (storage s))(x \<mapsto> k)"
    and "world t = world s"
    and "p' = p + at_key stake (s_keepers (storage s)) x - stake k"
  shows "covers g h a f p' t"
  using assms(1)
  by (rule covers_change)
    (use assms(3-) registry_ok_finite [OF assms(2)] in \<open>simp_all add: total_update same_tokens_def\<close>)

lemma inserted_frame [simp]:
  "s_config (inserted e a p n d) = s_config d"
  "s_keepers (inserted e a p n d) = s_keepers d"
  by (simp_all add: inserted_def Let_def)

lemma covers_inserted:
  assumes "covers g h x (f + n) p s" and "registry_ok (storage s)"
    and "became (inserted e a q n (storage s)) (world s) vs s t"
  shows "covers g h x f p t"
proof -
  have "issued (storage s) \<notin> dom (s_specs (storage s))"
    "dom (s_states (storage s)) = dom (s_specs (storage s))"
    using assms(2) by (auto simp: registry_ok_def jobs_ok_def issued_count)
  then have "at_key balance (s_states (storage s)) (issued (storage s)) = 0"
    by (simp add: at_key_def split: option.split) blast
  then show ?thesis
    using assms(3)
    by (intro covers_state [OF assms(1,2)])
      (auto simp: became_def inserted_def Let_def new_state_def)
qed

section \<open>Money in and out\<close>

text \<open>
  A contract is called by others or by itself; re-entry is forbidden, so nobody calls the
  registry with the registry's own authority.
\<close>

definition fair_call :: "'w host \<Rightarrow> env \<Rightarrow> bool" where
  "fair_call h e \<longleftrightarrow> sound_host h (me e) \<and> \<not> authorized e (me e)"

lemma fair_callD:
  assumes "fair_call h e"
  shows "token_laws h" "sound_host h (me e)" "authorized e a \<Longrightarrow> a \<noteq> me e"
  using assms by (auto simp: fair_call_def sound_host_def)

lemma covers_same: "same s t \<Longrightarrow> covers g h a f p t \<longleftrightarrow> covers g h a f p s"
  by (simp add: covers_def same_def)

lemma insert_covers:
  assumes "covers g h x (f + n) p s" and "registry_ok (storage s)"
  shows "wp (insert_job e a q n) (\<lambda>_ t. covers g h x f p t) (\<lambda>_ _. True) True s"
  by (rule wp_insert_job) (auto intro: covers_inserted [OF assms])

lemma create_job_custody:
  assumes f: "fair_call h e" and "typed_params p"
  shows "custody g h e (create_job h e a p n)"
proof (rule custodyI)
  fix s :: "'a registry" assume ok: "registry_ok (storage s)" and cov: "covers g h (me e) 0 0 s"
  have "wp (insert_job e a p n) (\<lambda>_ t. covers g h (me e) 0 0 t) (\<lambda>_ _. True) True (t\<lparr>world := w\<rparr>)"
    if "same (seen_instance s) t" "s_config (storage s) = Some c" "authorized e a"
      "token_transfer h (fee_token c) a (me e) n (world s) = Some w" for t w c
  proof (rule insert_covers)
    have t: "covers g h (me e) 0 0 t" "s_config (storage t) = Some c" "world t = world s"
      using that cov covers_same [of "seen_instance s" t] by (simp_all add: same_def)
    show "covers g h (me e) (0 + n) 0 (t\<lparr>world := w\<rparr>)"
      by (rule covers_fee_in [OF fair_callD(1) [OF f] t(1,2)])
        (use that t fair_callD(3) [OF f] in auto)
  qed (use that ok in \<open>simp add: same_def\<close>)
  then show "wp (create_job h e a p n) (\<lambda>_ t. covers g h (me e) 0 0 t) (\<lambda>_ _. True) True s"
    by (auto simp: create_job_def wps ensure_not_paused_def same_def split: option.split
        intro!: wp_validate_job)
qed

lemma insert_all_covers:
  assumes "covers g h x (\<Sum>(p, n) \<leftarrow> xs. n) 0 s" and "registry_ok (storage s)"
    and "\<And>p n. (p, n) \<in> set xs \<Longrightarrow> typed_params p \<and> validated e c (storage s) p n"
  shows "wp (collect (\<lambda>(p, n). insert_job e a p n) xs) (\<lambda>_ t. covers g h x 0 0 t)
    (\<lambda>_ _. True) True s"
  using assms
proof (induction xs arbitrary: s)
  case Nil
  then show ?case by (simp add: wps)
next
  case (Cons y xs)
  obtain p n where y: "y = (p, n)" by (cases y)
  have v: "typed_params p" "validated e c (storage s) p n" using Cons.prems(3) y by auto
  show ?case
    unfolding collect.simps wp_bind y prod.case
  proof (rule wp_insert_job)
    fix t assume n: "issued (storage s) \<noteq> - 1"
      and t: "became (inserted e a p n (storage s)) (world s)
        [JobEvent (JobCreated (issued (storage s)) a (p_target p) (interval (new_spec a p))
          (p_fee_per_run p) n)] s t"
    have "covers g h x (\<Sum>(p, n) \<leftarrow> xs. n) 0 t"
      by (rule covers_inserted [OF _ Cons.prems(2) t]) (use Cons.prems(1) y in \<open>simp add: add.commute\<close>)
    moreover have "registry_ok (storage t)"
      using t registry_ok_inserted [OF Cons.prems(2) v(2,1) n] by (simp add: became_def)
    moreover have "typed_params p' \<and> validated e c (storage t) p' n'" if "(p', n') \<in> set xs" for p' n'
      using that Cons.prems(3) [of p' n'] t by (auto simp: became_def intro: validated_inserted)
    ultimately have "wp (collect (\<lambda>(p, n). insert_job e a p n) xs) (\<lambda>_ t. covers g h x 0 0 t)
        (\<lambda>_ _. True) True t"
      by (rule Cons.IH)
    then show "wp (collect (\<lambda>(p, n). insert_job e a p n) xs)
        (\<lambda>ys. wp (ok (issued (storage s) # ys)) (\<lambda>_ t. covers g h x 0 0 t) (\<lambda>_ _. True) True)
        (\<lambda>_ _. True) True t"
      by (simp add: wp_ok [abs_def])
  qed simp
qed

lemma create_jobs_custody:
  assumes f: "fair_call h e" and typed: "\<And>p. p \<in> set ps \<Longrightarrow> typed_params p"
  shows "custody g h e (create_jobs h e a ps ns)"
proof (rule custodyI)
  fix s :: "'a registry" assume ok: "registry_ok (storage s)" and cov: "covers g h (me e) 0 0 s"
  let ?xs = "zip ps ns"
  have "wp (collect (\<lambda>(p, n). insert_job e a p n) ?xs) (\<lambda>_ t. covers g h (me e) 0 0 t)
      (\<lambda>_ _. True) True (t\<lparr>world := w\<rparr>)"
    if "same (seen_instance s) t" "s_config (storage s) = Some c" "authorized e a"
      "token_transfer h (fee_token c) a (me e) (0 + (\<Sum>(p, n) \<leftarrow> ?xs. n)) (world s) = Some w"
      "\<And>p n. (p, n) \<in> set ?xs \<Longrightarrow> validated e c (storage s) p n" for t w c
  proof (rule insert_all_covers)
    have t: "covers g h (me e) 0 0 t" "s_config (storage t) = Some c" "world t = world s"
      using that cov covers_same [of "seen_instance s" t] by (simp_all add: same_def)
    have "covers g h (me e) (0 + (0 + (\<Sum>(p, n) \<leftarrow> ?xs. n))) 0 (t\<lparr>world := w\<rparr>)"
      by (rule covers_fee_in [OF fair_callD(1) [OF f] t(1,2)])
        (use that t fair_callD(3) [OF f] in auto)
    then show "covers g h (me e) (\<Sum>(p, n) \<leftarrow> ?xs. n) 0 (t\<lparr>world := w\<rparr>)" by simp
    show "typed_params p \<and> validated e c (storage (t\<lparr>world := w\<rparr>)) p n" if "(p, n) \<in> set ?xs" for p n
      using that \<open>same (seen_instance s) t\<close> typed
        \<open>\<And>p n. (p, n) \<in> set ?xs \<Longrightarrow> validated e c (storage s) p n\<close>
      by (auto simp: same_def dest: set_zip_leftD)
  qed (use that ok in \<open>simp add: same_def\<close>)
  note fin = this
  show "wp (create_jobs h e a ps ns) (\<lambda>_ t. covers g h (me e) 0 0 t) (\<lambda>_ _. True) True s"
    unfolding create_jobs_def
    apply (simp add: wp_andthen wp_bind wp_load_config wp_lift_result ensure_not_paused_def
        wp_require_auth wp_fail_if split: option.split)
    apply (intro allI impI conjI wp_validate_all)
    subgoal for c t
      using fin [of t c] by (auto simp: wp_andthen wp_transfer same_def split: option.split)
    done
qed

lemma fund_job_custody:
  assumes f: "fair_call h e"
  shows "custody g h e (fund_job h e a j n)"
proof (rule custodyI)
  fix s :: "'a registry" assume ok: "registry_ok (storage s)" and cov: "covers g h (me e) 0 0 s"
  have "covers g h (me e) 0 0 t"
    if "s_config (storage s) = Some c" "s_states (storage s) j = Some st" "authorized e a"
      "token_transfer h (fee_token c) a (me e) n (world s) = Some w"
      "s_config (storage t) = s_config (storage s)" "s_keepers (storage t) = s_keepers (storage s)"
      "s_states (storage t) = (s_states (storage s))(j \<mapsto> st\<lparr>balance := balance st + n\<rparr>)"
      "world t = w" for c st w t
  proof -
    have "covers g h (me e) (0 + n) 0 (s\<lparr>world := w\<rparr>)"
      by (rule covers_fee_in [OF fair_callD(1) [OF f] cov that(1,4)]) (use that fair_callD(3) [OF f] in auto)
    then show ?thesis
      by (rule covers_state [where j = j and st' = "st\<lparr>balance := balance st + n\<rparr>"])
        (use that ok in \<open>simp_all add: at_key_def\<close>)
  qed
  then show "wp (fund_job h e a j n) (\<lambda>_ t. covers g h (me e) 0 0 t) (\<lambda>_ _. True) True s"
    by (auto simp: fund_job_def wps ensure_not_paused_def split: option.split)
qed

lemma covers_removed:
  assumes "covers g h x 0 0 s" and "registry_ok (storage s)" and "s_states (storage s) j = Some st"
    and "s_config d = s_config (storage s)" and "s_keepers d = s_keepers (storage s)"
    and "s_states d = (s_states (storage s))(j := None)" and "storage t = d" and "world t = world s"
  shows "covers g h x (balance st) 0 t"
  using assms(1)
  by (rule covers_change)
    (use assms(3-) registry_ok_finite [OF assms(2)]
      in \<open>simp_all add: total_remove same_tokens_def at_key_def\<close>)

text \<open>Paying what is pending, if anything.\<close>

lemma wp_pay_fee:
  assumes f: "fair_call h e" and cov: "covers g h (me e) n p s" and c: "s_config (storage s) = Some c"
    and "0 \<le> n" and out: "g = None \<or> a \<noteq> me e" and Q: "\<And>t. covers g h (me e) 0 p t \<Longrightarrow> storage t = storage s \<Longrightarrow> Q () t"
  shows "wp (only_if (0 < n) (transfer h (fee_token c) (me e) a n)) Q E True s"
proof (cases "0 < n")
  case True
  have "Q () (s\<lparr>world := w\<rparr>)" if "token_transfer h (fee_token c) (me e) a n (world s) = Some w" for w
    using covers_fee_out [OF fair_callD(1) [OF f] cov c that out] by (intro Q) simp_all
  then show ?thesis using True by (simp add: wps split: option.split)
next
  case False
  then show ?thesis using assms(4) cov by (simp add: wps Q)
qed

lemma wp_pay_stake:
  assumes f: "fair_call h e" and cov: "covers g h (me e) p n s" and c: "s_config (storage s) = Some c"
    and "0 \<le> n" and out: "g = None \<or> a \<noteq> me e" and Q: "\<And>t. covers g h (me e) p 0 t \<Longrightarrow> storage t = storage s \<Longrightarrow> Q () t"
  shows "wp (only_if (0 < n) (transfer h (stake_token c) (me e) a n)) Q E True s"
proof (cases "0 < n")
  case True
  have "Q () (s\<lparr>world := w\<rparr>)" if "token_transfer h (stake_token c) (me e) a n (world s) = Some w" for w
    using covers_stake_out [OF fair_callD(1) [OF f] cov c that out] by (intro Q) simp_all
  then show ?thesis using True by (simp add: wps split: option.split)
next
  case False
  then show ?thesis using assms(4) cov by (simp add: wps Q)
qed

lemma cancel_job_custody:
  assumes f: "fair_call h e"
  shows "custody g h e (cancel_job h e j)"
proof (rule custodyI)
  fix s :: "'a registry" assume ok: "registry_ok (storage s)" and al: "aloof g h (me e) (storage s)"
    and cov: "covers g h (me e) 0 0 s"
  have pay: "wp (only_if (0 < balance st) (transfer h (fee_token c) (me e) a (balance st)))
      Q (\<lambda>_ _. True) True t"
    if "s_config (storage s) = Some c" "s_states (storage s) j = Some st"
      "storage t = drop_owner_job a' j (without_job j (storage s))" "world t = world s"
      "g = None \<or> a \<noteq> me e" "\<And>t. covers g h (me e) 0 0 t \<Longrightarrow> Q () t"
    for c st t a a' Q
    by (rule wp_pay_fee [OF f covers_removed [OF cov ok that(2) _ _ _ that(3)]])
      (use that registry_okD(1) [OF ok that(2)] in auto)
  show "wp (cancel_job h e j) (\<lambda>_ t. covers g h (me e) 0 0 t) (\<lambda>_ _. True) True s"
    by (auto simp add: cancel_job_def wps parts_Some_iff Let_def split: option.split
        simp del: wp_only_if intro!: pay dest: aloofD(1) [OF al])
qed

lemma withdraw_job_balance_custody:
  assumes f: "fair_call h e"
  shows "custody g h e (withdraw_job_balance h e j n)"
proof (rule custodyI)
  fix s :: "'a registry" assume ok: "registry_ok (storage s)" and al: "aloof g h (me e) (storage s)"
    and cov: "covers g h (me e) 0 0 s"
  have "covers g h (me e) 0 0 (t\<lparr>world := w\<rparr>)"
    if "s_config (storage s) = Some c" "s_states (storage s) j = Some st"
      "token_transfer h (fee_token c) (me e) a n (world s) = Some w"
      "s_config (storage t) = s_config (storage s)" "s_keepers (storage t) = s_keepers (storage s)"
      "s_states (storage t) = (s_states (storage s))(j \<mapsto> st\<lparr>balance := balance st - n\<rparr>)"
      "world t = world s" "g = None \<or> a \<noteq> me e" for c st w a t
  proof -
    have "covers g h (me e) n 0 t"
      by (rule covers_state [OF cov ok, where j = j and st' = "st\<lparr>balance := balance st - n\<rparr>"])
        (use that in \<open>simp_all add: at_key_def\<close>)
    then have "covers g h (me e) (n - n) 0 (t\<lparr>world := w\<rparr>)"
      by (rule covers_fee_out [OF fair_callD(1) [OF f]]) (use that in auto)
    then show ?thesis by simp
  qed
  note fin = this
  show "wp (withdraw_job_balance h e j n) (\<lambda>_ t. covers g h (me e) 0 0 t) (\<lambda>_ _. True) True s"
    using fin
    by (auto simp: withdraw_job_balance_def wps parts_Some_iff Let_def split: option.split dest: aloofD(1) [OF al])
qed

lemma covers_same_balance:
  assumes "covers g h a 0 0 s" and "registry_ok (storage s)" and "s_states (storage s) j = Some st"
    and "s_config (storage t) = s_config (storage s)" and "s_keepers (storage t) = s_keepers (storage s)"
    and "s_states (storage t) = (s_states (storage s))(j \<mapsto> st')"
    and "world t = world s" and "balance st' = balance st"
  shows "covers g h a 0 0 t"
  by (rule covers_state [OF assms(1,2,4,5,6,7)]) (simp add: at_key_def assms)

lemma set_job_active_custody: "custody g h e (set_job_active e j b)"
proof (rule custodyI)
  fix s :: "'a registry" assume ok: "registry_ok (storage s)" and cov: "covers g h (me e) 0 0 s"
  show "wp (set_job_active e j b) (\<lambda>_ t. covers g h (me e) 0 0 t) (\<lambda>_ _. True) True s"
    by (auto simp: set_job_active_def wps parts_Some_iff Let_def split: option.split
        intro!: covers_same_balance [OF cov ok])
qed

lemma update_job_custody: "custody g h e (update_job e j u)"
proof (rule custodyI)
  fix s :: "'a registry" assume ok: "registry_ok (storage s)" and cov: "covers g h (me e) 0 0 s"
  have "wp (store_update e c j u effective spec st)
      (\<lambda>_ t. covers g h (me e) 0 0 t) (\<lambda>_ _. True) True t"
    if "storage t = storage s" "world t = world s" "s_states (storage s) j = Some st"
    for t :: "'a registry" and spec st effective c
  proof -
    have "balance (rescheduled e u spec st) = balance st" by (simp add: rescheduled_def)
    then show ?thesis
      using that
      by (auto simp: store_update_def wps leader_run_count_def split: option.split
          intro!: covers_same_balance [OF cov ok that(3)])
  qed
  then show "wp (update_job e j u) (\<lambda>_ t. covers g h (me e) 0 0 t) (\<lambda>_ _. True) True s"
    by (auto simp: update_job_def wps parts_Some_iff Let_def ensure_not_paused_def
        split: option.split sum.split)
qed

section \<open>Stakes\<close>

lemma stake_tokens_custody:
  assumes f: "fair_call h e"
  shows "custody g h e (stake_tokens h e a n)"
proof (rule custodyI)
  fix s :: "'a registry" assume ok: "registry_ok (storage s)" and cov: "covers g h (me e) 0 0 s"
  have fin: "covers g h (me e) 0 0 t"
    if "s_config (storage s) = Some c" "authorized e a"
      "token_transfer h (stake_token c) a (me e) n (world s) = Some w"
      "s_config (storage t) = s_config (storage s)" "s_states (storage t) = s_states (storage s)"
      "s_keepers (storage t) = (s_keepers (storage s))(a \<mapsto> k)"
      "world t = w" "stake k = at_key stake (s_keepers (storage s)) a + n" for c k w t
  proof -
    have "covers g h (me e) 0 (0 + n) (s\<lparr>world := w\<rparr>)"
      by (rule covers_stake_in [OF fair_callD(1) [OF f] cov that(1,3)]) (use that fair_callD(3) [OF f] in auto)
    then show ?thesis
      by (rule covers_keeper [where x = a and k = k]) (use that ok in simp_all)
  qed
  show "wp (stake_tokens h e a n) (\<lambda>_ t. covers g h (me e) 0 0 t) (\<lambda>_ _. True) True s"
    by (cases "s_keepers (storage s) a")
      (auto simp: stake_tokens_def wps Let_def ensure_not_paused_def at_key_def
        split: option.split intro!: fin)
qed

lemma begin_unbonding_custody: "custody g h e (begin_unbonding e a)"
proof (rule custodyI)
  fix s :: "'a registry" assume ok: "registry_ok (storage s)" and cov: "covers g h (me e) 0 0 s"
  have "covers g h (me e) 0 0 t"
    if "s_keepers (storage s) a = Some k" "s_config (storage t) = s_config (storage s)"
      "s_states (storage t) = s_states (storage s)"
      "s_keepers (storage t) = (s_keepers (storage s))(a \<mapsto> k\<lparr>unbonding_at := Some n\<rparr>)"
      "world t = world s" for k n t
    by (rule covers_keeper [OF cov ok that(2,3,4,5)]) (simp add: at_key_def that)
  then show "wp (begin_unbonding e a) (\<lambda>_ t. covers g h (me e) 0 0 t) (\<lambda>_ _. True) True s"
    by (auto simp: begin_unbonding_def wps Let_def split: option.split)
qed

lemma covers_without_keeper:
  assumes "covers g h x 0 0 s" and "registry_ok (storage s)" and "s_keepers (storage s) a = Some k"
    and "storage t = without_keeper a (storage s)" and "world t = world s"
  shows "covers g h x 0 (stake k) t"
  using assms(1)
  by (rule covers_change)
    (use assms(3-) registry_ok_finite [OF assms(2)]
      in \<open>simp_all add: total_remove same_tokens_def at_key_def\<close>)

lemma aloof_without_keeper: "aloof g h a d \<Longrightarrow> aloof g h a (without_keeper x d)"
  by (auto simp: aloof_def)

lemma release_stake_custody:
  assumes f: "fair_call h e" and c: "s_config (storage s) = Some c"
    and ok: "registry_ok (storage s)" and al: "aloof g h (me e) (storage s)" and cov: "covers g h (me e) 0 0 s"
  defines "I \<equiv> \<lambda>t. registry_ok (storage t) \<and> s_config (storage t) = Some c \<and> aloof g h (me e) (storage t)
    \<and> covers g h (me e) 0 0 t"
  shows "wp (release_stake h e c a) (\<lambda>_. I) (\<lambda>_. I) True s"
proof -
  have pay: "wp (only_if (0 < stake k) (transfer h (stake_token c) (me e) a (stake k)))
      Q E True t"
    if "s_keepers (storage s) a = Some k" "storage t = without_keeper a (storage s)" "world t = world s"
      "\<And>t. covers g h (me e) 0 0 t \<Longrightarrow> storage t = without_keeper a (storage s) \<Longrightarrow> Q () t"
    for k Q E t
    by (rule wp_pay_stake [OF f covers_without_keeper [OF cov ok that(1,2,3)]])
      (use that c ok aloofD(2) [OF al that(1)] in \<open>auto simp: registry_ok_def keepers_ok_def less_imp_le\<close>)
  show ?thesis
    using ok c cov al aloof_without_keeper [OF al]
    by (auto simp: I_def wp_release_stake Let_def wp_andthen wp_publish wp_ok registry_ok_without_keeper
        split: option.split intro!: pay)
qed

lemma withdraw_stake_custody:
  assumes f: "fair_call h e"
  shows "custody g h e (withdraw_stake h e a)"
proof (rule custodyI)
  fix s :: "'a registry" assume ok: "registry_ok (storage s)" and al: "aloof g h (me e) (storage s)"
    and cov: "covers g h (me e) 0 0 s"
  have "wp (release_stake h e c a) (\<lambda>_ t. covers g h (me e) 0 0 t) (\<lambda>_ _. True) True (seen_instance s)"
    if "s_config (storage s) = Some c" for c
    by (rule wp_mono [OF release_stake_custody [OF f]]) (use that ok al cov in auto)
  then show "wp (withdraw_stake h e a) (\<lambda>_ t. covers g h (me e) 0 0 t) (\<lambda>_ _. True) True s"
    by (auto simp: withdraw_stake_def wps split: option.split)
qed

lemma withdraw_stakes_custody:
  assumes f: "fair_call h e"
  shows "custody g h e (withdraw_stakes h e as)"
proof (rule custodyI)
  fix s :: "'a registry" assume ok: "registry_ok (storage s)" and al: "aloof g h (me e) (storage s)"
    and cov: "covers g h (me e) 0 0 s"
  have "wp (collect (\<lambda>a. bind (attempt (release_stake h e c a)) (\<lambda>res.
      ok (case res of Inl _ \<Rightarrow> 0 | Inr n \<Rightarrow> n))) as :: ('a, int list) reg)
    (\<lambda>_ t. covers g h (me e) 0 0 t) (\<lambda>_ _. True) True (seen_instance s)"
    if "s_config (storage s) = Some c" for c
    by (rule wp_mono [OF wp_collect [where I =
        "\<lambda>t. registry_ok (storage t) \<and> s_config (storage t) = Some c \<and> aloof g h (me e) (storage t) \<and> covers g h (me e) 0 0 t"]])
      (use that ok al cov in \<open>auto simp: wps intro!: wp_mono [OF release_stake_custody [OF f]]\<close>)
  then show "wp (withdraw_stakes h e as) (\<lambda>_ t. covers g h (me e) 0 0 t) (\<lambda>_ _. True) True s"
    by (auto simp: withdraw_stakes_def wps split: option.split)
qed

section \<open>Runs\<close>

lemma run_error_None:
  assumes "run_error h e c d a jid = None" and "parts d jid = Some (spec, st)"
  shows "ensure_due spec st (now e) = Inr ()" "\<not> is_forbidden_target e c (target spec)"
    "s_halted d (target spec) = None"
    "case keepers spec of None \<Rightarrow> True | Some xs \<Rightarrow> a \<in> set xs"
    "other_keeper h c d a jid spec st = None \<or> sat_add (next_run st) (grace_period c) \<le> now e"
    "\<exists>n. dependency d spec st = Inr n"
  using assms
  by (auto simp: run_error_def split: sum.splits if_splits option.splits)

lemma ensure_due_Inr:
  "ensure_due spec st at = Inr () \<longleftrightarrow>
     active st \<and> (max_runs spec = 0 \<or> runs st < max_runs spec)
     \<and> (end_at spec = 0 \<or> at < end_at spec) \<and> fee_per_run spec \<le> balance st
     \<and> next_run st \<le> at"
  by (auto simp: ensure_due_def not_le not_less)

text \<open>A due run's fee is defined, positive, affordable, and split without loss.\<close>

lemma run_fee_split:
  assumes "registry_ok d" and "s_config d = Some c" and "parts d jid = Some (spec, st)"
    and "fee_per_run spec \<le> balance st"
  shows "ramped_fee spec st (now e) = Some (run_fee e spec st)"
    and "fee_per_run spec \<le> run_fee e spec st" and "run_fee e spec st \<le> balance st"
    and "run_fee e spec st \<le> max (fee_per_run spec) (max_fee_per_run spec)"
    and "split_fee (run_fee e spec st) (protocol_fee_bps c) = Some (run_split e c spec st)"
    and "run_split e c spec st =
      (run_fee e spec st - run_fee e spec st * uint (protocol_fee_bps c) div 10000,
       run_fee e spec st * uint (protocol_fee_bps c) div 10000)"
proof -
  have spec: "spec_ok jid spec"
    using assms(1,3) registry_okD(2) by (auto simp: parts_Some_iff)
  then obtain f where f: "ramped_fee spec st (now e) = Some f" "fee_per_run spec \<le> f"
    "f \<le> balance st" "f \<le> max (fee_per_run spec) (max_fee_per_run spec)"
    using ramped_fee_bounds [of spec st "now e" "now e"] assms(4) by (auto simp: spec_ok_def)
  have i: "0 \<le> f" "in_i128 f"
    using f spec by (auto simp: spec_ok_def in_i128_def)
  have "protocol_fee_bps c \<le> MAX_BPS"
    using registry_ok_configD [OF assms(1,2)] by (simp add: config_ok_def)
  then have "protocol_fee_bps c \<le> 10000"
    by (simp add: MAX_BPS_def word_le_nat_alt)
  from split_fee_eq [OF i this] f
  show "ramped_fee spec st (now e) = Some (run_fee e spec st)"
    "fee_per_run spec \<le> run_fee e spec st" "run_fee e spec st \<le> balance st"
    "run_fee e spec st \<le> max (fee_per_run spec) (max_fee_per_run spec)"
    "split_fee (run_fee e spec st) (protocol_fee_bps c) = Some (run_split e c spec st)"
    "run_split e c spec st =
      (run_fee e spec st - run_fee e spec st * uint (protocol_fee_bps c) div 10000,
       run_fee e spec st * uint (protocol_fee_bps c) div 10000)"
    by (simp_all add: run_fee_def run_split_def)
qed

lemma share_bounds:
  fixes f b :: int
  assumes "0 \<le> f" and "0 \<le> b" and "b \<le> 10000"
  shows "0 \<le> f * b div 10000" "f * b div 10000 \<le> f"
proof -
  show "0 \<le> f * b div 10000" using assms by (simp add: pos_imp_zdiv_nonneg_iff)
  have "f * b div 10000 \<le> f * 10000 div 10000"
    by (rule zdiv_mono1) (use assms in \<open>simp_all add: mult_left_mono\<close>)
  then show "f * b div 10000 \<le> f" by simp
qed

lemma run_split_sum:
  assumes "registry_ok d" and "s_config d = Some c" and "parts d jid = Some (spec, st)"
    and "fee_per_run spec \<le> balance st"
  shows "0 \<le> fst (run_split e c spec st)" "0 \<le> snd (run_split e c spec st)"
    "fst (run_split e c spec st) + snd (run_split e c spec st) = run_fee e spec st"
proof -
  have "0 < fee_per_run spec"
    using assms(1,3) registry_okD(2) by (auto simp: parts_Some_iff spec_ok_def)
  then have "0 \<le> run_fee e spec st" using run_fee_split(2) [OF assms, of e] by linarith
  moreover have "uint (protocol_fee_bps c) \<le> 10000"
    using registry_ok_configD [OF assms(1,2)]
    by (auto simp: config_ok_def MAX_BPS_def word_le_def)
  ultimately show "0 \<le> fst (run_split e c spec st)" "0 \<le> snd (run_split e c spec st)"
    "fst (run_split e c spec st) + snd (run_split e c spec st) = run_fee e spec st"
    using share_bounds [of "run_fee e spec st" "uint (protocol_fee_bps c)"]
    by (simp_all add: run_fee_split(6) [OF assms])
qed

lemma total_stake_same:
  assumes "finite (dom m)" and "m a = Some k" and "stake k' = stake k"
  shows "total stake (m(a \<mapsto> k')) = total stake m"
  using assms by (simp add: total_update at_key_def)

lemma total_stake_with_misses:
  assumes "finite (dom (s_keepers d))"
  shows "total stake (s_keepers (with_misses w d)) = total stake (s_keepers d)"
proof (cases w)
  case (Some a)
  then show ?thesis
    using total_stake_same [OF assms, of a]
    by (cases "s_keepers d a") (simp_all add: with_misses_def with_miss_def)
qed (simp add: with_misses_def)

lemma with_misses_keepers:
  "s_keepers (with_misses w d) x = None \<longleftrightarrow> s_keepers d x = None"
  by (auto simp: with_misses_def with_miss_def split: option.split)

definition batch_inv ::
  "surplus \<Rightarrow> 'w host \<Rightarrow> env \<Rightarrow> config \<Rightarrow> address \<Rightarrow> keeper_record \<times> payout \<Rightarrow> 'w registry \<Rightarrow> bool" where
  "batch_inv g h e c a acc t \<longleftrightarrow>
     registry_ok (storage t) \<and> record_for a (fst acc) (storage t) \<and> s_config (storage t) = Some c
     \<and> 0 \<le> keeper_fees (snd acc) \<and> 0 \<le> protocol_fees (snd acc)
     \<and> (treasury c = None \<longrightarrow> protocol_fees (snd acc) = 0) \<and> aloof g h (me e) (storage t)
     \<and> covers g h (me e) (keeper_fees (snd acc) + protocol_fees (snd acc)) 0 t"

lemma run_does_inv:
  assumes f: "fair_call h e" and inv: "batch_inv g h e c a acc s"
    and run: "run_does h e c exec a jid acc s r t"
  shows "batch_inv g h e c a r t"
proof -
  obtain spec st n w1 b hash w2 where
    r: "run_error h e c (storage s) a jid = None" "parts (storage s) jid = Some (spec, st)"
      "resolver_says h e jid spec (world s) = Some (True, w1)"
      "target_says h e exec spec w1 = Some ((b, hash), w2)"
      "r = (credit_run (sat_sub (now e) (next_run st)) (fst acc), paid e c spec st (snd acc))"
    and t: "storage t = booked e c jid spec st (other_keeper h c (storage s) a jid spec st) b n
        (storage s)" "world t = w2"
    using run by (auto simp: run_does_def became_def)
  have ok: "registry_ok (storage s)" and c: "s_config (storage s) = Some c"
    using inv by (simp_all add: batch_inv_def)
  have due: "fee_per_run spec \<le> balance st"
    using run_error_None(1) [OF r(1,2)] by (simp add: ensure_due_Inr)
  note split = run_split_sum [OF ok c r(2) due, of e]
  have al: "aloof g h (me e) (storage s)" using inv by (simp add: batch_inv_def)
  then have al': "aloof g h (me e) (storage t)"
    using t(1) by (subst aloof_frame [of _ "storage s"]) (simp_all add: booked_def with_misses_keepers)
  have mono: "grows g (token_balance h (world s) u (me e)) (token_balance h (world t) u (me e))" for u
    using calls_fund_mono [OF fair_callD(2) [OF f] al] r(3,4) t(2) grows_trans by metis
  have tr: "snd (run_split e c spec st) = 0" if "treasury c = None"
  proof -
    have "protocol_fee_bps c = 0"
      using registry_ok_configD [OF ok c] that by (auto simp: config_ok_def word_gt_0)
    then show ?thesis by (simp add: run_fee_split(6) [OF ok c r(2) due])
  qed
  have "covers g h (me e) (keeper_fees (snd r) + protocol_fees (snd r)) 0 t"
  proof (rule covers_change [of g h "me e" "keeper_fees (snd acc) + protocol_fees (snd acc)" 0 s])
    show "keeper_fees (snd r) + protocol_fees (snd r) + total balance (s_states (storage t))
      = keeper_fees (snd acc) + protocol_fees (snd acc) + total balance (s_states (storage s))"
      using r(2,5) t(1) split(3) registry_ok_finite(1) [OF ok]
      by (simp add: paid_def parts_Some_iff total_update at_key_def)
    show "0 + total stake (s_keepers (storage t)) = 0 + total stake (s_keepers (storage s))"
      using t(1) registry_ok_finite(2) [OF ok] by (simp add: booked_def total_stake_with_misses)
  qed (use inv mono t(1) in \<open>simp_all add: batch_inv_def same_tokens_def\<close>)
  then show ?thesis
    using run_does_ok [OF run ok] inv split r(5) t(1) al' tr
    by (simp add: batch_inv_def paid_def)
qed

lemma run_refuses_inv:
  assumes f: "fair_call h e" and inv: "batch_inv g h e c a acc s"
    and run: "run_refuses h e c a jid s x t"
  shows "batch_inv g h e c a acc t"
proof -
  have s: "storage t = storage s" using run_refuses_frame [OF run] by simp
  have al: "aloof g h (me e) (storage s)" using inv by (simp add: batch_inv_def)
  have mono: "grows g (token_balance h (world s) u (me e)) (token_balance h (world t) u (me e))" for u
    using run calls_fund_mono(1) [OF fair_callD(2) [OF f] al]
    by (auto simp: run_refuses_def same_def became_def split: option.splits)
  have "covers g h (me e) (keeper_fees (snd acc) + protocol_fees (snd acc)) 0 t"
    by (rule covers_change [of g h "me e" "keeper_fees (snd acc) + protocol_fees (snd acc)" 0 s])
      (use inv s mono in \<open>simp_all add: batch_inv_def same_tokens_def\<close>)
  then show ?thesis using inv s by (simp add: batch_inv_def)
qed

text \<open>No panic comes from the registry's own arithmetic, before the end of time.\<close>

lemma books_ok_covered:
  assumes f: "fair_call h e" and inv: "batch_inv None h e c a acc s"
    and "parts (storage s) jid = Some (spec, st)" and "fee_per_run spec \<le> balance st"
    and "now e \<noteq> - 1"
  shows "books_ok e c spec st (snd acc)"
proof -
  have ok: "registry_ok (storage s)" and c: "s_config (storage s) = Some c"
    using inv by (simp_all add: batch_inv_def)
  note fee = run_fee_split [OF ok c assms(3,4), of e]
  note split = run_split_sum [OF ok c assms(3,4), of e]
  have "keeper_fees (snd acc) + protocol_fees (snd acc) + total balance (s_states (storage s)) < 2 ^ 127"
    by (rule covers_bound [OF fair_callD(1) [OF f], of "me e" _ 0])
      (use inv c in \<open>auto simp: batch_inv_def\<close>)
  moreover have "balance st \<le> total balance (s_states (storage s))"
    using assms(3) balance_le_total [OF ok, of jid] by (simp add: parts_Some_iff)
  moreover have "0 \<le> keeper_fees (snd acc)" "0 \<le> protocol_fees (snd acc)"
    using inv by (simp_all add: batch_inv_def)
  moreover have "0 < fee_per_run spec"
    using ok assms(3) registry_okD(2) by (auto simp: parts_Some_iff spec_ok_def)
  ultimately have "in_i128 (balance st - run_fee e spec st)"
    "in_i128 (keeper_fees (snd acc) + fst (run_split e c spec st))"
    "in_i128 (protocol_fees (snd acc) + snd (run_split e c spec st))"
    using split fee(2,3) unfolding in_i128_def by linarith+
  moreover have "next_run_after (next_run st) (interval spec) (now e) \<noteq> None"
    using assms(5) by (simp add: next_run_after_None_iff)
  ultimately show ?thesis
    using fee(1,5) unfolding books_ok_def by (metis prod.collapse)
qed

lemma batch_inv_start:
  assumes "registry_ok (storage s)" and "aloof g h (me e) (storage s)" and "covers g h (me e) 0 0 s" and "s_config (storage s) = Some c"
    and "s_keepers (storage s) a = Some k"
  shows "batch_inv g h e c a (\<lparr>info = k, recent = recent_of (storage s) a\<rparr>, no_payout) s"
  using assms recents_okD [OF assms(1), of a]
  by (simp add: batch_inv_def record_for_def no_payout_def)

text \<open>Saving the caller's record and paying out closes the books.\<close>

lemma covers_saved_record:
  assumes "batch_inv g h e c a (rec, pay) s" and "storage t = saved_record a rec (storage s)"
    and "world t = world s"
  shows "covers g h (me e) (keeper_fees pay + protocol_fees pay) 0 t"
proof (rule covers_change [of g h "me e" "keeper_fees pay + protocol_fees pay" 0 s])
  obtain k where k: "s_keepers (storage s) a = Some k" "stake (info rec) = stake k"
    using assms(1) by (auto simp: batch_inv_def record_for_def)
  show "0 + total stake (s_keepers (storage t)) = 0 + total stake (s_keepers (storage s))"
    using assms(1,2) k registry_ok_finite(2) [of "storage s"]
    by (simp add: saved_record_def batch_inv_def total_stake_same)
qed (use assms in \<open>simp_all add: batch_inv_def saved_record_def same_tokens_def\<close>)

lemma settle_covers:
  assumes f: "fair_call h e" and "covers g h (me e) (keeper_fees pay + protocol_fees pay) 0 s"
    and c: "s_config (storage s) = Some c" and "0 \<le> keeper_fees pay" "0 \<le> protocol_fees pay"
    and al: "aloof g h (me e) (storage s)" and a: "g = None \<or> a \<noteq> me e"
    and tr: "treasury c = None \<Longrightarrow> protocol_fees pay = 0"
    and Q: "\<And>t. covers g h (me e) 0 0 t \<Longrightarrow> storage t = storage s \<Longrightarrow> Q () t"
  shows "wp (settle h e c a pay) Q E True s"
proof -
  have out: "covers g h (me e) (x - n) 0 (t\<lparr>world := w\<rparr>)"
    if "covers g h (me e) x 0 t" "storage t = storage s"
      "token_transfer h (fee_token c) (me e) y n (world t) = Some w" "g = None \<or> y \<noteq> me e" for x n t w y
    using covers_fee_out [OF fair_callD(1) [OF f] that(1) _ that(3,4)] that(2) c by simp
  have rest: "wp (only_if (0 < protocol_fees pay) (case treasury c of None \<Rightarrow> ok ()
      | Some y \<Rightarrow> transfer h (fee_token c) (me e) y (protocol_fees pay))) Q E True t"
    if cov: "covers g h (me e) (protocol_fees pay) 0 t" and t: "storage t = storage s" for t
  proof (cases "treasury c")
    case None
    then show ?thesis using Q [of t] cov t tr by (simp add: wps)
  next
    case (Some y)
    have "Q () (t\<lparr>world := w\<rparr>)"
      if "token_transfer h (fee_token c) (me e) y (protocol_fees pay) (world t) = Some w" for w
      using out [OF cov t that aloofD(3) [OF al c Some]] t by (intro Q) simp_all
    moreover have "Q () t" if "\<not> 0 < protocol_fees pay"
      using that assms(5) cov t by (intro Q) simp_all
    ultimately show ?thesis using Some by (simp add: wps split: option.split)
  qed
  show ?thesis
  proof (cases "0 < keeper_fees pay")
    case True
    have "wp (only_if (0 < protocol_fees pay) (case treasury c of None \<Rightarrow> ok ()
        | Some y \<Rightarrow> transfer h (fee_token c) (me e) y (protocol_fees pay))) Q E True (s\<lparr>world := w\<rparr>)"
      if "token_transfer h (fee_token c) (me e) a (keeper_fees pay) (world s) = Some w" for w
      using out [OF assms(2) refl that a] by (intro rest) simp_all
    then show ?thesis
      unfolding settle_def wp_andthen wp_only_if [of "0 < keeper_fees pay"] wp_transfer
      by (cases "token_transfer h (fee_token c) (me e) a (keeper_fees pay) (world s)")
        (simp_all add: True)
  next
    case False
    then show ?thesis
      using rest [of s] assms(2,4) by (simp add: settle_def wp_andthen wp_only_if [of False])
  qed
qed

lemma wp_close_books:
  assumes f: "fair_call h e" and inv: "batch_inv g h e c a (rec, pay) s"
    and Q: "\<And>t. covers g h (me e) 0 0 t \<Longrightarrow> Q () t"
  shows "wp (save_record a rec) (\<lambda>_. wp (settle h e c a pay) Q E True) E True s"
proof -
  have al: "aloof g h (me e) (storage s)" using inv by (simp add: batch_inv_def)
  obtain k where k: "s_keepers (storage s) a = Some k"
    using inv by (auto simp: batch_inv_def record_for_def)
  have a: "g = None \<or> a \<noteq> me e" by (rule aloofD(2) [OF al k])
  then have "aloof g h (me e) (saved_record a rec (storage s))"
    using al by (auto simp: aloof_def saved_record_def)
  then show ?thesis
    unfolding wp_save_record
    by (intro settle_covers [OF f])
      (use inv Q a in \<open>auto simp: batch_inv_def saved_record_def intro!: covers_saved_record\<close>)
qed

lemma wp_open_books:
  assumes ok: "registry_ok (storage s)" and al: "aloof g h (me e) (storage s)" and cov: "covers g h (me e) 0 0 s"
    and c: "s_config (storage s) = Some c"
    and Q: "\<And>exec rec t. batch_inv g h e c a (rec, no_payout) t \<Longrightarrow> wp (k exec rec) Q (\<lambda>_ _. True) T t"
    and "\<not> authorized e a \<Longrightarrow> T"
  shows "wp (bind (authorize_keeper e c a) (\<lambda>(exec, kp). bind (load_record a kp) (k exec)))
    Q (\<lambda>_ _. True) T s"
  unfolding wp_bind
proof (rule wp_authorize_keeper)
  fix exec kp t
  assume t: "same s t" and k: "s_keepers (storage s) a = Some kp"
  have "batch_inv g h e c a (\<lparr>info = kp, recent = recent_of (storage t) a\<rparr>, no_payout) t"
    by (rule batch_inv_start) (use t k ok al cov c covers_same [OF t] in \<open>auto simp: same_def\<close>)
  then show "wp (case (exec, kp) of (exec, kp) \<Rightarrow> bind (load_record a kp) (k exec))
      Q (\<lambda>_ _. True) T t"
    unfolding prod.case wp_bind wp_load_record by (intro Q) (simp add: batch_inv_def)
qed (simp_all add: assms(6))

lemma execute_custody:
  assumes f: "fair_call h e"
  shows "custody g h e (execute h e a jid)"
proof (rule custodyI)
  fix s :: "'a registry" assume ok: "registry_ok (storage s)" and al: "aloof g h (me e) (storage s)"
    and cov: "covers g h (me e) 0 0 s"
  have "wp (bind (authorize_keeper e c a) (\<lambda>(exec, k).
        bind (load_record a k) (\<lambda>rec.
        bind (run_job h e c exec a (rec, no_payout) jid) (\<lambda>(rec', pay).
        andthen (save_record a rec') (settle h e c a pay)))))
      (\<lambda>_ t. covers g h (me e) 0 0 t) (\<lambda>_ _. True) True (seen_instance s)"
    if c: "s_config (storage s) = Some c" for c
  proof (rule wp_open_books)
    fix exec rec and t :: "'a registry"
    assume inv: "batch_inv g h e c a (rec, no_payout) t"
    show "wp (bind (run_job h e c exec a (rec, no_payout) jid) (\<lambda>(rec', pay).
        andthen (save_record a rec') (settle h e c a pay)))
      (\<lambda>_ t. covers g h (me e) 0 0 t) (\<lambda>_ _. True) True t"
      unfolding wp_bind
    proof (rule wp_mono [OF wp_run_job])
      fix r t' assume "run_does h e c exec a jid (rec, no_payout) t r t'"
      from run_does_inv [OF f inv this]
      show "wp (case r of (rec', pay) \<Rightarrow> andthen (save_record a rec') (settle h e c a pay))
          (\<lambda>_ t. covers g h (me e) 0 0 t) (\<lambda>_ _. True) True t'"
        by (cases r) (simp add: wp_andthen wp_close_books [OF f])
    qed simp_all
  qed (use ok al cov c in simp_all)
  then show "wp (execute h e a jid) (\<lambda>_ t. covers g h (me e) 0 0 t) (\<lambda>_ _. True) True s"
    by (auto simp: execute_def wp_bind [of load_config] wp_load_config split: option.split)
qed

lemma wp_run_jobs_inv:
  assumes f: "fair_call h e" and "batch_inv g h e c a acc s"
  shows "wp (run_jobs h e c exec a acc jids)
    (\<lambda>(did, acc') t. length did = length jids \<and> batch_inv g h e c a acc' t) (\<lambda>_ _. False) True s"
  by (rule wp_run_jobs [where I = "batch_inv g h e c a" and T = True, OF assms(2)]) (auto intro: run_does_inv [OF f] run_refuses_inv [OF f])

lemma execute_batch_custody:
  assumes f: "fair_call h e"
  shows "custody g h e (execute_batch h e a jids)"
proof (rule custodyI)
  fix s :: "'a registry" assume ok: "registry_ok (storage s)" and al: "aloof g h (me e) (storage s)"
    and cov: "covers g h (me e) 0 0 s"
  have "wp (bind (authorize_keeper e c a) (\<lambda>(exec, k).
        bind (load_record a k) (\<lambda>rec.
        bind (run_jobs h e c exec a (rec, no_payout) jids) (\<lambda>(did, rec', pay).
        andthen (save_record a rec') (andthen (settle h e c a pay) (ok did))))))
      (\<lambda>_ t. covers g h (me e) 0 0 t) (\<lambda>_ _. True) True (seen_instance s)"
    if c: "s_config (storage s) = Some c" for c
  proof (rule wp_open_books)
    fix exec rec and t :: "'a registry"
    assume inv: "batch_inv g h e c a (rec, no_payout) t"
    show "wp (bind (run_jobs h e c exec a (rec, no_payout) jids) (\<lambda>(did, rec', pay).
        andthen (save_record a rec') (andthen (settle h e c a pay) (ok did))))
      (\<lambda>_ t. covers g h (me e) 0 0 t) (\<lambda>_ _. True) True t"
      unfolding wp_bind
      by (rule wp_mono [OF wp_run_jobs_inv [OF f inv]])
        (auto simp: wp_andthen [abs_def] wp_ok intro!: wp_close_books [OF f])
  qed (use ok al cov c in simp_all)
  then show "wp (execute_batch h e a jids) (\<lambda>_ t. covers g h (me e) 0 0 t) (\<lambda>_ _. True) True s"
    by (auto simp: execute_batch_def wp_andthen wp_fail_if wp_bind [of load_config] wp_load_config
        split: option.split)
qed

end
