(* ===== verification/Views.thy ===== *)
theory Views
  imports Admin
begin

text \<open>
  The read-only entry points: the section "Views" of \<open>contracts/registry/src/lib.rs\<close>.
  They still extend the TTL of what they read, so they are actions like the others.
\<close>

definition version_view :: u32 where "version_view = VERSION"

definition config_view :: "('w, config) reg" where "config_view = load_config"

definition get_job_view :: "u64 \<Rightarrow> ('w, job option) reg" where "get_job_view = get_job"

definition get_job_state :: "u64 \<Rightarrow> ('w, job_state option) reg" where
  "get_job_state = get_state"

definition get_keeper_view :: "address \<Rightarrow> ('w, keeper option) reg" where
  "get_keeper_view = get_keeper"

definition keeper_stats_view :: "address \<Rightarrow> ('w, keeper_stats option) reg" where
  "keeper_stats_view a =
     bind load_config (\<lambda>c.
     bind (get_keeper a) (\<lambda>found.
     case found of
       None \<Rightarrow> ok None
     | Some k \<Rightarrow>
         bind (get_keeper_recent a) (\<lambda>r.
         ok (Some
           \<lparr>ks_stake = stake k, ks_executions = executions k,
            ks_average_lateness =
              (if executions k = 0 then 0 else total_lateness k div ucast (executions k)),
            ks_missed = missed k, ks_slashed = slashed k, ks_eligible = eligible c k,
            ks_recent_lateness = lateness r div 8,
            ks_recent_miss_bps = ucast (misses r div 8)\<rparr>))))"

definition active_keepers_view :: "('w, address list) reg" where
  "active_keepers_view = active_keepers"

definition assigned_keeper :: "'w host \<Rightarrow> u64 \<Rightarrow> ('w, address option) reg" where
  "assigned_keeper h jid =
     bind load_config (\<lambda>c.
     bind (get_job_parts jid) (\<lambda>found.
     case found of
       None \<Rightarrow> ok None
     | Some (spec, st) \<Rightarrow> assigned_keeper_for h c jid spec st))"

definition is_target_halted_view :: "address \<Rightarrow> ('w, bool) reg" where
  "is_target_halted_view = is_target_halted"

definition pending_admin_view :: "('w, address option) reg" where
  "pending_admin_view = get_pending_admin"

definition pending_job_owner :: "u64 \<Rightarrow> ('w, address option) reg" where
  "pending_job_owner = get_pending_owner"

definition pending_upgrade_view :: "('w, pending_upgrade option) reg" where
  "pending_upgrade_view = get_pending_upgrade"

definition upgrade_delay :: "('w, u64) reg" where
  "upgrade_delay = bind load_config upgrade_delay_for"

text \<open>The loop of \<open>get_jobs\<close>, by the number of ids left to visit.\<close>

fun jobs_from :: "nat \<Rightarrow> u64 \<Rightarrow> ('w, job list) reg" where
  "jobs_from 0 jid = ok []"
| "jobs_from (Suc n) jid =
     bind (get_job jid) (\<lambda>found.
     bind (jobs_from n (jid + 1)) (\<lambda>rest.
     ok (case found of None \<Rightarrow> rest | Some j \<Rightarrow> j # rest)))"

definition get_jobs :: "u64 \<Rightarrow> u32 \<Rightarrow> ('w, job list) reg" where
  "get_jobs start limit =
     bind next_job_id (\<lambda>count.
     let last = min (sat_add start (ucast (min limit MAX_GET_JOBS_LIMIT))) count
     in jobs_from (unat last - unat start) start)"

definition jobs_by_owner :: "address \<Rightarrow> ('w, u64 list) reg" where
  "jobs_by_owner = owner_jobs"

definition job_count :: "('w, u64) reg" where "job_count = next_job_id"

definition is_due :: "'w host \<Rightarrow> env \<Rightarrow> u64 \<Rightarrow> ('w, bool) reg" where
  "is_due h e jid =
     bind load_config (\<lambda>c.
     if paused c \<or> executor c = None then ok False
     else
       bind (get_job_parts jid) (\<lambda>found.
       case found of
         None \<Rightarrow> ok False
       | Some (spec, st) \<Rightarrow>
           if ensure_due spec st (now e) \<noteq> Inr () then ok False
           else
             bind (is_target_halted (target spec)) (\<lambda>halted.
             if halted then ok False
             else
               bind (attempt (dependency_met spec st)) (\<lambda>met.
               case met of
                 Inl _ \<Rightarrow> ok False
               | Inr _ \<Rightarrow> resolver_allows h e jid spec))))"

definition current_fee :: "env \<Rightarrow> u64 \<Rightarrow> ('w, int option) reg" where
  "current_fee e jid =
     bind (get_job_parts jid) (\<lambda>found.
     case found of
       None \<Rightarrow> ok None
     | Some (spec, st) \<Rightarrow> bind (unwrap (ramped_fee spec st (now e))) (\<lambda>fee. ok (Some fee)))"

end
