(* ===== verification/Registry.thy ===== *)
theory Registry
  imports Escrow Views
begin

text \<open>
  The registry as a state machine: one step is one transaction against it, or anything
  that happens elsewhere. A transaction that returns an error or panics changes nothing.
  Reachable states are those after deployment and any number of steps.
\<close>

section \<open>Operations\<close>

text \<open>The entry points that change state, with the arguments of the source.\<close>

datatype op =
    CreateJob address job_params int
  | CreateJobs address "job_params list" "int list"
  | UpdateJob u64 job_update
  | FundJob address u64 int
  | CancelJob u64
  | WithdrawJobBalance u64 int
  | SetJobActive u64 bool
  | ProposeJobOwner u64 address
  | AcceptJobOwner u64
  | Execute address u64
  | ExecuteBatch address "u64 list"
  | Stake address int
  | BeginUnbonding address
  | WithdrawStake address
  | WithdrawStakes "address list"
  | SetExecutor address
  | ProposeAdmin address
  | AcceptAdmin
  | CancelAdminProposal
  | SetPaused bool
  | SetTargetHalted address bool
  | SetMinStake int
  | SetMinInterval u64
  | SetMaxArgs u32
  | SetProtocolFee u32 "address option"
  | SetMaxFailures u32
  | SetKeeperWindows u64
  | SetUnbondingEpoch u64
  | ProposeUpgrade bytes
  | ApplyUpgrade
  | CancelUpgrade
  | SetUpgradeDelay u64

definition void :: "('w, 'a) reg \<Rightarrow> ('w, unit) reg" where
  "void m = bind m (\<lambda>_. ok ())"

fun perform :: "'w host \<Rightarrow> env \<Rightarrow> op \<Rightarrow> ('w, unit) reg" where
  "perform h e (CreateJob a p n) = void (create_job h e a p n)"
| "perform h e (CreateJobs a ps ns) = void (create_jobs h e a ps ns)"
| "perform h e (UpdateJob j u) = void (update_job e j u)"
| "perform h e (FundJob a j n) = void (fund_job h e a j n)"
| "perform h e (CancelJob j) = void (cancel_job h e j)"
| "perform h e (WithdrawJobBalance j n) = void (withdraw_job_balance h e j n)"
| "perform h e (SetJobActive j b) = void (set_job_active e j b)"
| "perform h e (ProposeJobOwner j a) = void (propose_job_owner e j a)"
| "perform h e (AcceptJobOwner j) = void (accept_job_owner e j)"
| "perform h e (Execute a j) = void (execute h e a j)"
| "perform h e (ExecuteBatch a js) = void (execute_batch h e a js)"
| "perform h e (Stake a n) = void (stake_tokens h e a n)"
| "perform h e (BeginUnbonding a) = void (begin_unbonding e a)"
| "perform h e (WithdrawStake a) = void (withdraw_stake h e a)"
| "perform h e (WithdrawStakes as) = void (withdraw_stakes h e as)"
| "perform h e (SetExecutor a) = void (set_executor e a)"
| "perform h e (ProposeAdmin a) = void (propose_admin e a)"
| "perform h e AcceptAdmin = void (accept_admin e)"
| "perform h e CancelAdminProposal = void (cancel_admin_proposal e)"
| "perform h e (SetPaused b) = void (set_paused e b)"
| "perform h e (SetTargetHalted a b) = void (halt_target e a b)"
| "perform h e (SetMinStake n) = void (set_min_stake e n)"
| "perform h e (SetMinInterval n) = void (set_min_interval e n)"
| "perform h e (SetMaxArgs n) = void (set_max_args e n)"
| "perform h e (SetProtocolFee n a) = void (set_protocol_fee e n a)"
| "perform h e (SetMaxFailures n) = void (set_max_failures e n)"
| "perform h e (SetKeeperWindows n) = void (set_keeper_windows e n)"
| "perform h e (SetUnbondingEpoch n) = void (set_unbonding_epoch e n)"
| "perform h e (ProposeUpgrade b) = void (propose_upgrade e b)"
| "perform h e ApplyUpgrade = void (apply_upgrade h e)"
| "perform h e CancelUpgrade = void (cancel_upgrade e)"
| "perform h e (SetUpgradeDelay n) = void (change_upgrade_delay e n)"

text \<open>Amounts arrive as \<open>i128\<close> values; the fields that are stored must be in range.\<close>

fun typed_op :: "op \<Rightarrow> bool" where
  "typed_op (CreateJob a p n) = typed_params p"
| "typed_op (CreateJobs a ps ns) = list_all typed_params ps"
| "typed_op (UpdateJob j u) = typed_update u"
| "typed_op _ = True"

text \<open>The party whose signature an operation needs, if any.\<close>

fun signer :: "reg_store \<Rightarrow> op \<Rightarrow> address option" where
  "signer d (CreateJob a p n) = Some a"
| "signer d (CreateJobs a ps ns) = Some a"
| "signer d (UpdateJob j u) = map_option owner (s_specs d j)"
| "signer d (FundJob a j n) = Some a"
| "signer d (CancelJob j) = map_option owner (s_specs d j)"
| "signer d (WithdrawJobBalance j n) = map_option owner (s_specs d j)"
| "signer d (SetJobActive j b) = map_option owner (s_specs d j)"
| "signer d (ProposeJobOwner j a) = map_option owner (s_specs d j)"
| "signer d (AcceptJobOwner j) = s_pending_owners d j"
| "signer d (Execute a j) = Some a"
| "signer d (ExecuteBatch a js) = Some a"
| "signer d (Stake a n) = Some a"
| "signer d (BeginUnbonding a) = Some a"
| "signer d (WithdrawStake a) = Some a"
| "signer d (WithdrawStakes as) = None"
| "signer d AcceptAdmin = s_pending_admin d"
| "signer d _ = map_option admin (s_config d)"

section \<open>Steps\<close>

definition deployed :: "'w host \<Rightarrow> address \<Rightarrow> 'w registry \<Rightarrow> bool" where
  "deployed h a s \<longleftrightarrow>
     (\<exists>w adm fees stakes least period.
        transact (constructor adm fees stakes least period)
          \<lparr>storage = empty_store, world = w, published = [], extensions = []\<rparr> = (Ok (), s))"

inductive step :: "'w host \<Rightarrow> address \<Rightarrow> 'w registry \<Rightarrow> 'w registry \<Rightarrow> bool"
  for h :: "'w host" and a :: address where
  call: "me e = a \<Longrightarrow> \<not> authorized e a \<Longrightarrow> typed_op x \<Longrightarrow>
    transact (perform h e x) s = (r, t) \<Longrightarrow> step h a s t"
| elsewhere: "(\<And>u. token_balance h (world s) u a \<le> token_balance h w u a) \<Longrightarrow>
    step h a s (s\<lparr>world := w\<rparr>)"

inductive reachable :: "'w host \<Rightarrow> address \<Rightarrow> 'w registry \<Rightarrow> bool"
  for h :: "'w host" and a :: address where
  start: "deployed h a s \<Longrightarrow> reachable h a s"
| more: "reachable h a s \<Longrightarrow> step h a s t \<Longrightarrow> reachable h a t"

inductive_cases step_cases: "step h a s t"

text \<open>Induction over one step: what successful transactions and the outside keep.\<close>

lemma step_keeps:
  assumes "step h a s t" and "I s"
    and "\<And>e x t. me e = a \<Longrightarrow> \<not> authorized e a \<Longrightarrow> typed_op x \<Longrightarrow>
      perform h e x s = (Ok (), t) \<Longrightarrow> I t"
    and "\<And>w. (\<And>u. token_balance h (world s) u a \<le> token_balance h w u a) \<Longrightarrow> I (s\<lparr>world := w\<rparr>)"
  shows "I t"
  using assms(1)
proof (cases rule: step.cases)
  case (call e x r)
  show ?thesis
  proof (cases "r = Ok ()")
    case True
    then show ?thesis using call assms(3) by simp
  next
    case False
    then have "t = s" using transact_not_Ok [OF call(4)] by auto
    then show ?thesis using assms(2) by simp
  qed
next
  case (elsewhere w)
  then show ?thesis using assms(4) by simp
qed

lemma wp_void [wps]: "wp (void m) Q E T s = wp m (\<lambda>_. Q ()) E T s"
  by (simp add: void_def wp_bind wp_ok [abs_def])

lemma perform_keeps:
  assumes "registry_ok (storage s)" and "typed_op x"
  shows "wp (perform h e x) (\<lambda>_ t. registry_ok (storage t)) (\<lambda>_ _. True) True s"
proof -
  note keep = create_job_keeps create_jobs_keeps update_job_keeps fund_job_keeps cancel_job_keeps
    withdraw_job_balance_keeps set_job_active_keeps propose_job_owner_keeps
    accept_job_owner_keeps execute_keeps execute_batch_keeps stake_tokens_keeps
    begin_unbonding_keeps withdraw_stake_keeps withdraw_stakes_keeps settings_keep
    accept_admin_keeps upgrades_keep
  show ?thesis
    using assms by (cases x) (simp_all add: wp_void keep list_all_iff)
qed

lemma perform_custody:
  assumes "fair_call h e" and "registry_ok (storage s)" and "aloof g h (me e) (storage s)"
    and "covers g h (me e) 0 0 s" and "typed_op x"
  shows "wp (perform h e x) (\<lambda>_ t. covers g h (me e) 0 0 t) (\<lambda>_ _. True) True s"
proof -
  note keep = create_job_custody create_jobs_custody update_job_custody fund_job_custody
    cancel_job_custody withdraw_job_balance_custody set_job_active_custody owners_custody
    execute_custody execute_batch_custody stake_tokens_custody begin_unbonding_custody
    withdraw_stake_custody withdraw_stakes_custody settings_custody upgrades_custody
  have "install_keeps_funds h" using assms(1) by (simp add: fair_call_def sound_host_def)
  then show ?thesis
    using assms by (cases x) (simp_all add: wp_void keep list_all_iff)
qed

section \<open>Reachable states\<close>

lemma deployed_ok:
  assumes "deployed h a s"
  shows "registry_ok (storage s)" and "token_laws h \<Longrightarrow> covers None h a 0 0 s"
proof -
  obtain w adm fees stakes least period where
    s: "constructor adm fees stakes least period
      \<lparr>storage = empty_store, world = w, published = [], extensions = []\<rparr> = (Ok (), s)"
    using assms by (auto simp: deployed_def)
  have "wp (constructor adm fees stakes least period)
      (\<lambda>_ t. registry_ok (storage t) \<and> (token_laws h \<longrightarrow> covers None h a 0 0 t)) (\<lambda>_ _. True) True
      \<lparr>storage = empty_store, world = w, published = [], extensions = []\<rparr>"
    using balance_range [of h]
    by (auto simp: constructor_def wps registry_ok_def empty_store_def jobs_ok_def index_ok_def
        listed_def terms_ok_def keepers_ok_def bonded_def recents_ok_def config_ok_def waits_def
        initial_config_def covers_def backed_def owed_def)
  from wp_OkD [OF this s]
  show "registry_ok (storage s)" "token_laws h \<Longrightarrow> covers None h a 0 0 s" by simp_all
qed

lemma reachable_ok: "reachable h a s \<Longrightarrow> registry_ok (storage s)"
proof (induction rule: reachable.induct)
  case (start s)
  then show ?case by (rule deployed_ok(1))
next
  case (more s t)
  show ?case
  proof (rule step_keeps [OF more.hyps(2), where I = "\<lambda>s. registry_ok (storage s)"])
    fix e x t assume "typed_op x" "perform h e x s = (Ok (), t)"
    then show "registry_ok (storage t)" by (rule wp_OkD [OF perform_keeps [OF more.IH]])
  qed (simp_all add: more.IH)
qed

lemma reachable_covers:
  assumes "sound_host h a" and "reachable h a s"
  shows "covers None h a 0 0 s"
  using assms(2)
proof (induction rule: reachable.induct)
  case (start s)
  then show ?case using assms(1) by (simp add: deployed_ok(2) sound_host_def)
next
  case (more s t)
  show ?case
  proof (rule step_keeps [OF more.hyps(2), where I = "covers None h a 0 0"])
    fix e x t assume e: "me e = a" "\<not> authorized e a" "typed_op x" "perform h e x s = (Ok (), t)"
    have "fair_call h e" using e assms(1) by (simp add: fair_call_def)
    from wp_OkD [OF perform_custody [OF this reachable_ok [OF more.hyps(1)] aloof_None _ e(3)] e(4)] more.IH e(1)
    show "covers None h a 0 0 t" by simp
  next
    fix w assume w: "\<And>u. token_balance h (world s) u a \<le> token_balance h w u a"
    show "covers None h a 0 0 (s\<lparr>world := w\<rparr>)"
      by (rule covers_change [OF more.IH]) (use w in \<open>simp_all add: same_tokens_def grows_def\<close>)
  qed (rule more.IH)
qed

end
