(* ===== verification/RunFacts.thy ===== *)
theory RunFacts
  imports Registry
begin

text \<open>
  Facts about \<open>execute\<close> as a whole that the laws of execution share: its effects when it
  succeeds, and conditions under which it does.
\<close>

text \<open>The payouts at the end of a call, as one step of the world.\<close>

definition settled :: "'w host \<Rightarrow> env \<Rightarrow> config \<Rightarrow> address \<Rightarrow> payout \<Rightarrow> 'w \<Rightarrow> 'w option" where
  "settled h e c a pay w =
     (case (if 0 < keeper_fees pay
            then token_transfer h (fee_token c) (me e) a (keeper_fees pay) w else Some w) of
        None \<Rightarrow> None
      | Some w' \<Rightarrow>
          (case treasury c of
             None \<Rightarrow> Some w'
           | Some x \<Rightarrow>
               if 0 < protocol_fees pay
               then token_transfer h (fee_token c) (me e) x (protocol_fees pay) w' else Some w'))"

abbreviation payable :: "'w host \<Rightarrow> env \<Rightarrow> config \<Rightarrow> address \<Rightarrow> payout \<Rightarrow> 'w \<Rightarrow> bool" where
  "payable h e c a pay w \<equiv> settled h e c a pay w \<noteq> None"

lemma wp_settle_frame:
  "(\<And>t. storage t = storage s \<Longrightarrow> published t = published s \<Longrightarrow>
     settled h e c a pay (world s) = Some (world t) \<Longrightarrow> Q () t) \<Longrightarrow>
   wp (settle h e c a pay) Q E True s"
  by (auto simp: settle_def settled_def wps split: option.split)

lemma payable_settles: "payable h e c a pay (world s) \<Longrightarrow> wp (settle h e c a pay) (\<lambda>_ _. True) E T s"
  by (auto simp: settled_def settle_def wps split: option.splits if_splits)

section \<open>One successful execution\<close>

definition executes ::
  "'w host \<Rightarrow> env \<Rightarrow> address \<Rightarrow> u64 \<Rightarrow> 'w registry \<Rightarrow> 'w registry \<Rightarrow> config \<Rightarrow> address \<Rightarrow> keeper \<Rightarrow>
   keeper_record \<times> payout \<Rightarrow> 'w registry \<Rightarrow> 'w registry \<Rightarrow> bool" where
  "executes h e a jid s t c exec k r s1 t1 \<longleftrightarrow>
     s_config (storage s) = Some c \<and> \<not> paused c \<and> executor c = Some exec \<and> authorized e a
     \<and> s_keepers (storage s) a = Some k \<and> eligible c k \<and> same s s1
     \<and> run_does h e c exec a jid (\<lparr>info = k, recent = recent_of (storage s) a\<rparr>, no_payout) s1 r t1
     \<and> storage t = saved_record a (fst r) (storage t1) \<and> published t = published t1
     \<and> settled h e c a (snd r) (world t1) = Some (world t)"

definition executed :: "'w host \<Rightarrow> env \<Rightarrow> address \<Rightarrow> u64 \<Rightarrow> 'w registry \<Rightarrow> 'w registry \<Rightarrow> bool" where
  "executed h e a jid s t \<longleftrightarrow> (\<exists>c exec k r s1 t1. executes h e a jid s t c exec k r s1 t1)"

lemma execute_Ok:
  assumes "execute h e a jid s = (Ok (), t)"
  shows "executed h e a jid s t"
proof -
  have "wp (execute h e a jid) (\<lambda>_ t. executed h e a jid s t) (\<lambda>_ _. True) True s"
    unfolding execute_def wp_bind wp_load_config
  proof (cases "s_config (storage s)"; simp; rule wp_authorize_keeper)
    fix c exec k t0
    assume c: "s_config (storage s) = Some c" and t0: "same (seen_instance s) t0"
      and a: "\<not> paused c" "executor c = Some exec" "authorized e a"
      "s_keepers (storage (seen_instance s)) a = Some k" "eligible c k"
    show "wp (case (exec, k) of (exec, k) \<Rightarrow>
        bind (load_record a k) (\<lambda>rec.
        bind (run_job h e c exec a (rec, no_payout) jid) (\<lambda>(rec', pay).
        andthen (save_record a rec') (settle h e c a pay))))
      (\<lambda>_ t. executed h e a jid s t) (\<lambda>_ _. True) True t0"
      unfolding prod.case wp_bind wp_load_record
    proof (rule wp_mono [OF wp_run_job])
      let ?s1 = "seen (s_recents (storage t0) a \<noteq> None) (KKeeperRecent a) t0"
      fix r t1 assume run: "run_does h e c exec a jid
        (\<lparr>info = k, recent = recent_of (storage t0) a\<rparr>, no_payout) ?s1 r t1"
      have "executed h e a jid s t"
        if "storage t = saved_record a (fst r) (storage t1)" "published t = published t1"
          "settled h e c a (snd r) (world t1) = Some (world t)" for t
      proof -
        have "executes h e a jid s t c exec k r ?s1 t1"
          using run c t0 a that unfolding executes_def by (simp add: same_def)
        then show ?thesis unfolding executed_def by blast
      qed
      then show "wp (case r of (rec', pay) \<Rightarrow> andthen (save_record a rec') (settle h e c a pay))
          (\<lambda>_ t. executed h e a jid s t) (\<lambda>_ _. True) True t1"
        by (cases r) (auto simp: wp_andthen wp_save_record intro!: wp_settle_frame)
    qed simp_all
  qed simp_all
  from wp_OkD [OF this assms] show ?thesis .
qed

text \<open>The effects of a successful execution, from the state before it.\<close>

lemma execute_effects:
  assumes "execute h e a jid s = (Ok (), t)"
  obtains c exec k spec st n w1 b hash w2 rec where
    "s_config (storage s) = Some c" "\<not> paused c" "executor c = Some exec" "authorized e a"
    "s_keepers (storage s) a = Some k" "eligible c k"
    "run_error h e c (storage s) a jid = None" "parts (storage s) jid = Some (spec, st)"
    "dependency (storage s) spec st = Inr n"
    "resolver_says h e jid spec (world s) = Some (True, w1)"
    "target_says h e exec spec w1 = Some ((b, hash), w2)"
    "books_ok e c spec st no_payout"
    "rec = credit_run (sat_sub (now e) (next_run st))
       \<lparr>info = k, recent = recent_of (storage s) a\<rparr>"
    "storage t = saved_record a rec (booked e c jid spec st
       (other_keeper h c (storage s) a jid spec st) b n (storage s))"
    "published t = published s @ run_events e c (storage s) a jid spec st
       (other_keeper h c (storage s) a jid spec st) b n hash"
    "settled h e c a (paid e c spec st no_payout) w2 = Some (world t)"
proof -
  obtain c exec k r s1 t1 where x: "executes h e a jid s t c exec k r s1 t1"
    using execute_Ok [OF assms] unfolding executed_def by blast
  then have s1: "storage s1 = storage s" "world s1 = world s" "published s1 = published s"
    by (simp_all add: executes_def same_def)
  from x obtain spec st n w1 b hash w2 where
    "run_error h e c (storage s) a jid = None" "parts (storage s) jid = Some (spec, st)"
    "dependency (storage s) spec st = Inr n"
    "resolver_says h e jid spec (world s) = Some (True, w1)"
    "target_says h e exec spec w1 = Some ((b, hash), w2)"
    "books_ok e c spec st no_payout"
    "fst r = credit_run (sat_sub (now e) (next_run st))
       \<lparr>info = k, recent = recent_of (storage s) a\<rparr>"
    "storage t1 = booked e c jid spec st
       (other_keeper h c (storage s) a jid spec st) b n (storage s)"
    "published t1 = published s @ run_events e c (storage s) a jid spec st
       (other_keeper h c (storage s) a jid spec st) b n hash"
    "settled h e c a (paid e c spec st no_payout) w2 = Some (world t)"
    unfolding executes_def run_does_def became_def s1 by auto
  then show ?thesis
    using x that unfolding executes_def by metis
qed

lemma execute_returns:
  assumes "fair_call h e" and "registry_ok (storage s)" and "covers None h (me e) 0 0 s"
    and c: "s_config (storage s) = Some c" "\<not> paused c" "executor c = Some exec"
    and a: "authorized e a" "s_keepers (storage s) a = Some k" "eligible c k"
    and r: "run_error h e c (storage s) a jid = None" "parts (storage s) jid = Some (spec, st)"
      "resolver_says h e jid spec (world s) = Some (True, w1)"
      "target_says h e exec spec w1 = Some (x, w2)"
    and "now e \<noteq> - 1" and pay: "payable h e c a (paid e c spec st no_payout) w2"
  shows "\<exists>t. execute h e a jid s = (Ok (), t)"
proof -
  let ?s = "seen (s_recents (storage s) a \<noteq> None) (KKeeperRecent a) (seen True (KKeeper a) (seen_instance s))"
  let ?rec = "\<lparr>info = k, recent = recent_of (storage s) a\<rparr>"
  have s: "storage ?s = storage s" "world ?s = world s" by simp_all
  have inv: "batch_inv None h e c a (?rec, no_payout) ?s"
    using batch_inv_start [of ?s None h e c a k] assms(2-) by (simp del: fun_upd_apply)
  have due: "fee_per_run spec \<le> balance st"
    using run_error_None(1) [OF r(1,2)] by (simp add: ensure_due_Inr)
  have books: "books_ok e c spec st no_payout"
    using books_ok_covered [OF assms(1) inv, of jid spec st] r(2) due assms(14) by simp
  have run: "wp (run_job h e c exec a (?rec, no_payout) jid)
      (\<lambda>p. wp (case p of (rec', pay) \<Rightarrow> andthen (save_record a rec') (settle h e c a pay))
        (\<lambda>_ _. True) (\<lambda>_ _. False) False) (\<lambda>_ _. False) False ?s"
  proof (rule wp_mono [OF wp_run_job])
    fix p t assume "run_does h e c exec a jid (?rec, no_payout) ?s p t"
    then have "snd p = paid e c spec st no_payout" "world t = w2"
      using r by (auto simp: run_does_def became_def s)
    then show "wp (case p of (rec', pay) \<Rightarrow> andthen (save_record a rec') (settle h e c a pay))
        (\<lambda>_ _. True) (\<lambda>_ _. False) False t"
      using pay by (cases p) (simp add: wp_andthen wp_save_record payable_settles)
  next
    fix y t assume "run_refuses h e c a jid ?s y t"
    then show False using r by (auto simp: run_refuses_def s)
  next
    assume "run_stuck h e c exec a jid (?rec, no_payout) ?s"
    then show False using r books by (auto simp: run_stuck_def s)
  qed
  have "wp (execute h e a jid) (\<lambda>_ _. True) (\<lambda>_ _. False) False s"
    unfolding execute_def
    by (simp add: wp_bind wp_load_config c authorize_keeper_def wp_andthen wp_lift_result
        ensure_not_paused_def wp_ok_or wp_require_auth a wp_get_keeper wp_ok wp_load_record)
      (use run in simp)
  then show ?thesis by (auto simp: wp_def split: prod.splits outcome.splits)
qed

lemma run_error_NoneI:
  assumes "parts d jid = Some (spec, st)" and "ensure_due spec st (now e) = Inr ()"
    and "\<not> is_forbidden_target e c (target spec)" and "s_halted d (target spec) = None"
    and "case keepers spec of None \<Rightarrow> True | Some xs \<Rightarrow> a \<in> set xs"
    and "other_keeper h c d a jid spec st = None \<or> sat_add (next_run st) (grace_period c) \<le> now e"
    and "dependency d spec st = Inr n"
  shows "run_error h e c d a jid = None"
  using assms by (auto simp: run_error_def split: option.splits)

lemma saved_record_frame [simp]:
  "s_config (saved_record a rec d) = s_config d"
  "s_specs (saved_record a rec d) = s_specs d"
  "s_states (saved_record a rec d) = s_states d"
  "s_active_keepers (saved_record a rec d) = s_active_keepers d"
  by (simp_all add: saved_record_def)

lemma state_after_simps [simp]:
  "runs (state_after e c spec st b n) = sat_add (runs st) 1"
  "leader_runs (state_after e c spec st b n) = n"
  "failures (state_after e c spec st b n) = run_failures b st"
  "active (state_after e c spec st b n) \<longleftrightarrow> active st \<and> \<not> deactivates c b st"
  "next_run (state_after e c spec st b n) =
     the (next_run_after (next_run st) (interval spec) (now e))"
  by (simp_all add: state_after_def ran_state_def)

end
