(* ===== verification/Demo.thy ===== *)
theory Demo
  imports RunFacts
begin

text \<open>
  A concrete deployment on the concrete host: an admin, a treasury, a job owner, two
  keepers. It runs the model, and shows that the hypotheses of the laws can hold together.
\<close>

definition registry_at :: address where "registry_at = Address 0"
definition root_admin :: address where "root_admin = Address 1"
definition xlm :: address where "xlm = Address 2"
definition bond :: address where "bond = Address 3"
definition executor_at :: address where "executor_at = Address 4"
definition alice :: address where "alice = Address 5"
definition keeper_a :: address where "keeper_a = Address 6"
definition keeper_b :: address where "keeper_b = Address 7"
definition treasury_at :: address where "treasury_at = Address 8"
definition target_at :: address where "target_at = Address 9"

text \<open>Everybody but the registry itself signs; every call returns a value.\<close>

definition demo_host :: "ledger host" where
  "demo_host = ledger_host (\<lambda>callee f xs. Some (Returned (ValBool True)))"

definition demo_env :: "u64 \<Rightarrow> env" where
  "demo_env at = \<lparr>now = at, ledger = 100, me = registry_at, authorized = (\<lambda>a. a \<noteq> registry_at)\<rparr>"

definition demo_world :: ledger where
  "demo_world = (\<lambda>token a. if a = registry_at then 0 else 1000000, [])"

text \<open>The states it goes through, by their entries and world.\<close>

definition demo_config :: config where
  "demo_config =
     (initial_config root_admin xlm bond 100 1000)
       \<lparr>executor := Some executor_at, protocol_fee_bps := 500, treasury := Some treasury_at,
         grace_period := 100\<rparr>"

definition demo_job :: job_params where
  "demo_job =
     \<lparr>p_target = target_at, p_function = ''poke'', p_args = [], p_interval = 60,
      p_schedule = Interval, p_start_at = 0, p_fee_per_run = 10, p_max_fee_per_run = 20,
      p_max_runs = 0, p_end_at = 0, p_resolver = None, p_keepers = None, p_after = None\<rparr>"

definition stage :: "reg_store \<Rightarrow> ledger \<Rightarrow> ledger registry \<Rightarrow> bool" where
  "stage d w s \<longleftrightarrow> storage s = d \<and> world s = w"

lemma demo_deploys: "\<exists>s. reachable demo_host registry_at s
    \<and> stage (empty_store\<lparr>s_config := Some (initial_config root_admin xlm bond 100 1000)\<rparr>) demo_world s"
proof -
  let ?s = "\<lparr>storage = empty_store, world = demo_world, published = [], extensions = []\<rparr>"
  have "wp (constructor root_admin xlm bond 100 1000)
      (\<lambda>_ t. stage (empty_store\<lparr>s_config := Some (initial_config root_admin xlm bond 100 1000)\<rparr>)
        demo_world t) (\<lambda>_ _. False) False ?s"
    by (simp add: constructor_def wps stage_def)
  then obtain t where t: "constructor root_admin xlm bond 100 1000 ?s = (Ok (), t)"
    "stage (empty_store\<lparr>s_config := Some (initial_config root_admin xlm bond 100 1000)\<rparr>) demo_world t"
    by (auto simp: wp_def split: prod.splits outcome.splits)
  then have "deployed demo_host registry_at t" unfolding deployed_def transact_Ok_iff by blast
  then show ?thesis using t(2) reachable.start by blast
qed

lemma stage_step:
  assumes "\<exists>s. reachable demo_host registry_at s \<and> stage d w s" and "typed_op x"
    and "\<And>s. stage d w s \<Longrightarrow> wp (perform demo_host (demo_env at) x) (\<lambda>_ t. stage d' w' t)
      (\<lambda>_ _. False) False s"
  shows "\<exists>s. reachable demo_host registry_at s \<and> stage d' w' s"
proof -
  obtain s where s: "reachable demo_host registry_at s" "stage d w s" using assms(1) by blast
  from assms(3) [OF s(2)] obtain t where t: "perform demo_host (demo_env at) x s = (Ok (), t)"
    "stage d' w' t"
    by (auto simp: wp_def split: prod.splits outcome.splits)
  have "step demo_host registry_at s t"
  proof (rule step.call)
    show "transact (perform demo_host (demo_env at) x) s = (Ok (), t)" using t by simp
    show "me (demo_env at) = registry_at" "\<not> authorized (demo_env at) registry_at"
      by (simp_all add: demo_env_def)
  qed (rule assms(2))
  then show ?thesis using reachable.more [OF s(1)] t(2) by blast
qed

lemma demo_env_simps [simp]:
  "now (demo_env at) = at" "ledger (demo_env at) = 100" "me (demo_env at) = registry_at"
  "authorized (demo_env at) a \<longleftrightarrow> a \<noteq> registry_at"
  by (simp_all add: demo_env_def)

lemmas addresses = registry_at_def root_admin_def xlm_def bond_def executor_at_def alice_def
  keeper_a_def keeper_b_def treasury_at_def target_at_def

lemma ledger_balance_step [simp]:
  "ledger_balance (ledger_set t a n w) u x =
     (if u = t \<and> x = a then max 0 (min (2 ^ 127 - 1) n) else ledger_balance w u x)"
  by (simp add: ledger_balance_def ledger_set_def)

lemma ledger_balance_demo [simp]:
  "ledger_balance demo_world u x = (if x = registry_at then 0 else 1000000)"
  by (simp add: ledger_balance_def demo_world_def)

lemma transfer_demo [simp]: "token_transfer demo_host = ledger_transfer"
  by (simp add: demo_host_def)

definition demo_1 :: reg_store where
  "demo_1 = empty_store\<lparr>s_config := Some demo_config, s_windows_reset := Some 25\<rparr>"

lemma demo_configured: "\<exists>s. reachable demo_host registry_at s \<and> stage demo_1 demo_world s"
proof -
  have 1: "\<exists>s. reachable demo_host registry_at s \<and> stage
    (empty_store\<lparr>s_config := Some ((initial_config root_admin xlm bond 100 1000)
      \<lparr>executor := Some executor_at\<rparr>)\<rparr>) demo_world s"
    by (rule stage_step [OF demo_deploys, where x = "SetExecutor executor_at" and at = 10])
      (simp_all add: set_executor_def wps stage_def initial_config_def addresses)
  have 2: "\<exists>s. reachable demo_host registry_at s \<and> stage
    (empty_store\<lparr>s_config := Some ((initial_config root_admin xlm bond 100 1000)
      \<lparr>executor := Some executor_at, protocol_fee_bps := 500, treasury := Some treasury_at\<rparr>)\<rparr>)
    demo_world s"
    by (rule stage_step [OF 1, where x = "SetProtocolFee 500 (Some treasury_at)" and at = 20])
      (simp_all add: set_protocol_fee_def wps stage_def initial_config_def addresses MAX_BPS_def)
  show ?thesis
    by (rule stage_step [OF 2, where x = "SetKeeperWindows 100" and at = 25])
      (simp_all add: set_keeper_windows_def wps stage_def initial_config_def addresses demo_1_def
        demo_config_def MAX_GRACE_PERIOD_def)
qed

definition demo_keeper :: "int \<Rightarrow> keeper" where
  "demo_keeper n = fresh_keeper\<lparr>stake := n\<rparr>"

definition demo_2 :: reg_store where
  "demo_2 = demo_1\<lparr>s_keepers := [keeper_a \<mapsto> demo_keeper 200, keeper_b \<mapsto> demo_keeper 300],
     s_active_keepers := Some [keeper_a, keeper_b], s_windows_reset := Some 40\<rparr>"

definition demo_stakes :: ledger where
  "demo_stakes =
     ledger_set bond registry_at 500 (ledger_set bond keeper_b 999700
       (ledger_set bond registry_at 200 (ledger_set bond keeper_a 999800 demo_world)))"

lemma demo_staked: "\<exists>s. reachable demo_host registry_at s \<and> stage demo_2 demo_stakes s"
proof -
  have 1: "\<exists>s. reachable demo_host registry_at s \<and> stage
    (demo_1\<lparr>s_keepers := [keeper_a \<mapsto> demo_keeper 200], s_active_keepers := Some [keeper_a],
       s_windows_reset := Some 30\<rparr>)
    (ledger_set bond registry_at 200 (ledger_set bond keeper_a 999800 demo_world)) s"
    by (rule stage_step [OF demo_configured, where x = "Stake keeper_a 200" and at = 30])
      (simp_all add: stake_tokens_def wps stage_def demo_1_def Let_def ensure_not_paused_def
        demo_config_def initial_config_def empty_store_def fresh_keeper_def ensure_active_keeper_def
        ledger_transfer_def addresses in_i128_def push_active_def joins_def rotation_def
        MAX_ACTIVE_KEEPERS_def demo_keeper_def)
  show ?thesis
    by (rule stage_step [OF 1, where x = "Stake keeper_b 300" and at = 40])
      (simp_all add: stake_tokens_def wps stage_def demo_1_def demo_2_def Let_def
        ensure_not_paused_def demo_config_def initial_config_def empty_store_def fresh_keeper_def
        ensure_active_keeper_def ledger_transfer_def demo_stakes_def addresses in_i128_def
        push_active_def joins_def rotation_def MAX_ACTIVE_KEEPERS_def demo_keeper_def)
qed

definition demo_spec :: job_spec where "demo_spec = new_spec alice demo_job"

definition demo_funds :: ledger where
  "demo_funds = ledger_set xlm registry_at 100 (ledger_set xlm alice 999900 demo_stakes)"

definition demo_state :: job_state where
  "demo_state = \<lparr>next_run = 50, balance = 100, runs = 0, failures = 0, active = True, leader_runs = 0\<rparr>"

definition demo_store :: reg_store where
  "demo_store = demo_2\<lparr>s_next_job_id := Some 1, s_specs := [0 \<mapsto> demo_spec],
     s_states := [0 \<mapsto> demo_state], s_owner_jobs := [alice \<mapsto> [0]]\<rparr>"

lemmas demo_defs = demo_1_def demo_2_def demo_store_def demo_config_def initial_config_def
  empty_store_def demo_job_def demo_spec_def demo_state_def new_spec_def demo_keeper_def
  fresh_keeper_def

lemma demo_reachable: "\<exists>s. reachable demo_host registry_at s \<and> stage demo_store demo_funds s"
  by (rule stage_step [OF demo_staked, where x = "CreateJob alice demo_job 100" and at = 50])
    (simp_all add: create_job_def validate_job_def validate_schedule_def insert_job_def wps stage_def
      demo_defs Let_def ensure_not_paused_def is_forbidden_target_def issued_def
      ledger_transfer_def demo_stakes_def demo_funds_def addresses typed_params_def
      in_i128_def push_owner_job_def owner_ids_def new_state_def first_calendar_run_def)

lemma demo_sound: "sound_host demo_host a" and demo_ignores: "calls_ignore_funds demo_host a"
  by (simp_all add: demo_host_def sound_host_def ledger_token_laws ledger_install_keeps_funds
      ledger_calls_ignore_funds calls_ignore_imp_keep)

lemma demo_fair: "fair_call demo_host (demo_env at)"
  by (simp add: fair_call_def demo_sound)

definition demo :: "ledger registry" where
  "demo = \<lparr>storage = demo_store, world = demo_funds, published = [], extensions = []\<rparr>"

lemma demo_stage [simp]: "storage demo = demo_store" "world demo = demo_funds"
  by (simp_all add: demo_def)

lemma demo_ok: "registry_ok demo_store" and demo_covers: "covers None demo_host registry_at 0 0 demo"
proof -
  obtain s where s: "reachable demo_host registry_at s" "stage demo_store demo_funds s"
    using demo_reachable by blast
  show "registry_ok demo_store" using reachable_ok [OF s(1)] s(2) by (simp add: stage_def)
  show "covers None demo_host registry_at 0 0 demo"
    using reachable_covers [OF demo_sound s(1)] s(2) by (simp add: covers_def stage_def)
qed

lemma demo_store_simps [simp]:
  "s_config demo_store = Some demo_config" "s_specs demo_store = [0 \<mapsto> demo_spec]"
  "s_states demo_store = [0 \<mapsto> demo_state]" "s_pending_owners demo_store = Map.empty"
  "s_keepers demo_store = [keeper_a \<mapsto> demo_keeper 200, keeper_b \<mapsto> demo_keeper 300]"
  "s_active_keepers demo_store = Some [keeper_a, keeper_b]" "s_halted demo_store = Map.empty"
  "s_recents demo_store = Map.empty" "s_windows_reset demo_store = Some 40"
  "s_touched demo_store = Map.empty" "s_resumed demo_store = Map.empty"
  "s_next_job_id demo_store = Some 1" "s_owner_jobs demo_store = [alice \<mapsto> [0]]"
  "s_pending_upgrade demo_store = None" "s_upgrade_delay demo_store = None"
  by (simp_all add: demo_1_def demo_2_def demo_store_def empty_store_def)

lemma parts_demo [simp]: "parts demo_store 0 = Some (demo_spec, demo_state)"
  by (simp add: parts_def)

lemma calls_demo [simp]:
  "call_contract demo_host a b f xs w = Some (Returned (ValBool True), w)"
  by (simp add: demo_host_def ledger_host_def)

lemma chosen_demo: "chosen_keeper demo_host demo_config demo_store 0 demo_spec demo_state = Some keeper_a"
proof -
  have "window_index demo_host 0 0 (Suc (Suc 0)) = 0"
    by code_simp
  then show ?thesis
    by (simp add: chosen_keeper_def demo_config_def demo_defs rotation_def ensure_active_keeper_def
        addresses Let_def)
qed

lemma ramp_demo:
  "ramped_fee demo_spec demo_state 90 = Some 16" "ramped_fee demo_spec demo_state 200 = Some 20"
  by (simp_all add: ramped_fee_def demo_defs Let_def sat_sub_def in_i128_def trunc_div_def)

text \<open>How an execution goes here: every call returns true.\<close>

lemma demo_execute:
  assumes s: "reachable demo_host registry_at s" "stage d w s" and c: "s_config d = Some demo_config"
    and k: "s_keepers d a = Some k" "eligible demo_config k" "a \<noteq> registry_at"
    and j: "parts d jid = Some (spec, st)" "resolver spec = None" "dependency d spec st = Inr n"
    and r: "run_error demo_host (demo_env at) demo_config d a jid = None" "at \<noteq> - 1"
    and p: "settled demo_host (demo_env at) demo_config a
      (paid (demo_env at) demo_config spec st no_payout) w = Some w'"
  shows "\<exists>t. execute demo_host (demo_env at) a jid s = (Ok (), t) \<and> reachable demo_host registry_at t
    \<and> stage (saved_record a
          (credit_run (sat_sub at (next_run st)) \<lparr>info = k, recent = recent_of d a\<rparr>)
          (booked (demo_env at) demo_config jid spec st
            (other_keeper demo_host demo_config d a jid spec st) True n d)) w' t"
proof -
  have d: "storage s = d" "world s = w" using s(2) by (simp_all add: stage_def)
  have res: "resolver_says demo_host (demo_env at) jid spec w = Some (True, w)"
    using j(2) by (simp add: resolver_says_def)
  obtain x where tgt: "target_says demo_host (demo_env at) executor_at spec w = Some ((True, x), w)"
    by (simp add: target_says_def)
  have conf: "\<not> paused demo_config" "executor demo_config = Some executor_at"
    by (simp_all add: demo_config_def initial_config_def)
  have "\<exists>t. execute demo_host (demo_env at) a jid s = (Ok (), t)"
    by (rule execute_returns [OF demo_fair, where c = demo_config and exec = executor_at
          and spec = spec and st = st and k = k and x = "(True, x)" and ?w1.0 = w and ?w2.0 = w])
      (use reachable_ok [OF s(1)] reachable_covers [OF demo_sound s(1)] assms res tgt conf
        in \<open>simp_all add: d\<close>)
  then obtain t where t: "execute demo_host (demo_env at) a jid s = (Ok (), t)" by blast
  have "step demo_host registry_at s t"
  proof (rule step.call [where e = "demo_env at" and x = "Execute a jid"])
    show "transact (perform demo_host (demo_env at) (Execute a jid)) s = (Ok (), t)"
      using t by (simp add: void_def bind_def ok_def)
  qed simp_all
  then have "reachable demo_host registry_at t" by (rule reachable.more [OF s(1)])
  moreover have "stage (saved_record a
          (credit_run (sat_sub at (next_run st)) \<lparr>info = k, recent = recent_of d a\<rparr>)
          (booked (demo_env at) demo_config jid spec st
            (other_keeper demo_host demo_config d a jid spec st) True n d)) w' t"
    by (rule execute_effects [OF t]) (use assms res tgt conf in \<open>simp add: d stage_def\<close>)
  ultimately show ?thesis using t by blast
qed

text \<open>Keeper A runs the job in its window; keeper B runs it after the window has passed.\<close>

lemma demo_admits:
  "run_error demo_host (demo_env 90) demo_config demo_store keeper_a 0 = None"
  "run_error demo_host (demo_env 200) demo_config demo_store keeper_b 0 = None"
proof -
  have other: "other_keeper demo_host demo_config demo_store a 0 demo_spec demo_state
      = (if a = keeper_a then None else Some keeper_a)" for a
    by (simp add: other_keeper_def chosen_demo Let_def)
  show "run_error demo_host (demo_env 90) demo_config demo_store keeper_a 0 = None"
    "run_error demo_host (demo_env 200) demo_config demo_store keeper_b 0 = None"
    by (simp_all add: run_error_def other)
      (simp_all add: ensure_due_def is_forbidden_target_def dependency_def demo_defs addresses sat_add_def)
qed

lemma demo_pays:
  assumes "a = keeper_a \<or> a = keeper_b"
  shows "settled demo_host (demo_env 90) demo_config a
      (paid (demo_env 90) demo_config demo_spec demo_state no_payout) demo_funds
      = ledger_transfer xlm registry_at a 16 demo_funds"
    and "settled demo_host (demo_env 200) demo_config a
      (paid (demo_env 200) demo_config demo_spec demo_state no_payout) demo_funds
      = Option.bind (ledger_transfer xlm registry_at a 19 demo_funds)
          (ledger_transfer xlm registry_at treasury_at 1)"
proof -
  have split: "run_split (demo_env 90) demo_config demo_spec demo_state = (16, 0)"
    "run_split (demo_env 200) demo_config demo_spec demo_state = (19, 1)"
    by (simp_all add: run_split_def run_fee_def ramp_demo split_fee_def demo_config_def
        initial_config_def Let_def trunc_div_def trunc_mod_def in_i128_def)
  have config: "treasury demo_config = Some treasury_at" "fee_token demo_config = xlm"
    by (simp_all add: demo_config_def initial_config_def)
  show "settled demo_host (demo_env 90) demo_config a
      (paid (demo_env 90) demo_config demo_spec demo_state no_payout) demo_funds
      = ledger_transfer xlm registry_at a 16 demo_funds"
    "settled demo_host (demo_env 200) demo_config a
      (paid (demo_env 200) demo_config demo_spec demo_state no_payout) demo_funds
      = Option.bind (ledger_transfer xlm registry_at a 19 demo_funds)
          (ledger_transfer xlm registry_at treasury_at 1)"
    by (simp_all add: settled_def paid_def no_payout_def split config split: option.split)
qed

lemma demo_steps:
  assumes "reachable demo_host registry_at s" and "stage demo_store demo_funds s"
  shows "\<exists>t. execute demo_host (demo_env 90) keeper_a 0 s = (Ok (), t)"
    and "\<exists>t. execute demo_host (demo_env 200) keeper_b 0 s = (Ok (), t)"
proof -
  have d: "resolver demo_spec = None" "dependency demo_store demo_spec demo_state = Inr 0"
    by (simp_all add: dependency_def demo_defs)
  have k: "eligible demo_config (demo_keeper n)" if "100 \<le> n" for n
    using that by (simp add: ensure_active_keeper_def demo_defs)
  have balances: "ledger_balance demo_funds xlm registry_at = 100"
    "ledger_balance demo_funds xlm keeper_a = 1000000" "ledger_balance demo_funds xlm keeper_b = 1000000"
    "ledger_balance demo_funds xlm treasury_at = 1000000"
    by (simp_all add: demo_funds_def demo_stakes_def addresses)
  have differ: "registry_at \<noteq> keeper_a" "registry_at \<noteq> keeper_b" "registry_at \<noteq> treasury_at"
    "keeper_b \<noteq> keeper_a" "keeper_b \<noteq> treasury_at" "keeper_b \<noteq> registry_at"
    "keeper_a \<noteq> registry_at" "keeper_a \<noteq> keeper_b" "treasury_at \<noteq> keeper_b"
    "treasury_at \<noteq> registry_at"
    by (simp_all add: addresses)
  have "settled demo_host (demo_env 90) demo_config keeper_a
      (paid (demo_env 90) demo_config demo_spec demo_state no_payout) demo_funds \<noteq> None"
    by (simp add: demo_pays ledger_transfer_def balances differ)
  then obtain w where w: "settled demo_host (demo_env 90) demo_config keeper_a
      (paid (demo_env 90) demo_config demo_spec demo_state no_payout) demo_funds = Some w" by blast
  have "settled demo_host (demo_env 200) demo_config keeper_b
      (paid (demo_env 200) demo_config demo_spec demo_state no_payout) demo_funds \<noteq> None"
    by (simp add: demo_pays ledger_transfer_def balances differ)
  then obtain w' where w': "settled demo_host (demo_env 200) demo_config keeper_b
      (paid (demo_env 200) demo_config demo_spec demo_state no_payout) demo_funds = Some w'" by blast
  show "\<exists>t. execute demo_host (demo_env 90) keeper_a 0 s = (Ok (), t)"
    using demo_execute [OF assms _ _ k _ parts_demo d demo_admits(1) _ w] differ by fastforce
  show "\<exists>t. execute demo_host (demo_env 200) keeper_b 0 s = (Ok (), t)"
    using demo_execute [OF assms _ _ k _ parts_demo d demo_admits(2) _ w'] differ by fastforce
qed

text \<open>Both runs start from a reachable state.\<close>

lemma demo_runs:
  shows "\<exists>s t. reachable demo_host registry_at s \<and> stage demo_store demo_funds s
      \<and> execute demo_host (demo_env 90) keeper_a 0 s = (Ok (), t)"
    and "\<exists>s t. reachable demo_host registry_at s \<and> stage demo_store demo_funds s
      \<and> execute demo_host (demo_env 200) keeper_b 0 s = (Ok (), t)"
  using demo_reachable demo_steps by blast+

text \<open>A second job follows the first one; the leader runs, and then the follower can.\<close>

definition demo_follower :: job_params where
  "demo_follower = demo_job\<lparr>p_after := Some 0\<rparr>"

definition pair_store :: reg_store where
  "pair_store = demo_store\<lparr>s_next_job_id := Some 2,
     s_specs := [0 \<mapsto> demo_spec, 1 \<mapsto> new_spec alice demo_follower],
     s_states := [0 \<mapsto> demo_state, 1 \<mapsto> demo_state\<lparr>next_run := 55\<rparr>],
     s_owner_jobs := [alice \<mapsto> [0, 1]]\<rparr>"

definition pair_funds :: ledger where
  "pair_funds = ledger_set xlm registry_at 200 (ledger_set xlm alice 999800 demo_funds)"

lemma pair_reachable: "\<exists>s. reachable demo_host registry_at s \<and> stage pair_store pair_funds s"
  by (rule stage_step [OF demo_reachable, where x = "CreateJob alice demo_follower 100" and at = 55])
    (simp_all add: create_job_def validate_job_def validate_schedule_def insert_job_def wps stage_def
      demo_defs Let_def ensure_not_paused_def is_forbidden_target_def issued_def leader_run_count_def
      ledger_transfer_def demo_stakes_def demo_funds_def pair_funds_def pair_store_def
      demo_follower_def addresses typed_params_def
      in_i128_def push_owner_job_def owner_ids_def new_state_def first_calendar_run_def)

lemma pair_store_simps [simp]:
  "s_config pair_store = Some demo_config" "s_halted pair_store = Map.empty"
  "s_keepers pair_store = [keeper_a \<mapsto> demo_keeper 200, keeper_b \<mapsto> demo_keeper 300]"
  "parts pair_store 0 = Some (demo_spec, demo_state)"
  "parts pair_store 1 = Some (new_spec alice demo_follower, demo_state\<lparr>next_run := 55\<rparr>)"
  by (simp_all add: pair_store_def parts_def)

lemma booked_halted: "s_halted (booked e c jid spec st w b n d) = s_halted d"
  by (simp add: booked_def with_misses_def with_miss_def split: option.split)

lemma follower_runs:
  "\<exists>s t spec st. reachable demo_host registry_at s \<and> execute demo_host (demo_env 200) keeper_b 1 s = (Ok (), t)
    \<and> parts (storage s) 1 = Some (spec, st) \<and> after spec = Some 0"
proof -
  obtain s where s: "reachable demo_host registry_at s" "stage pair_store pair_funds s"
    using pair_reachable by blast
  have late: "sat_add 50 (grace_period demo_config) \<le> 200" "sat_add 55 (grace_period demo_config) \<le> 200"
    by (simp_all add: demo_config_def sat_add_def)
  have k: "eligible demo_config (demo_keeper 300)" "keeper_b \<noteq> registry_at"
    by (simp_all add: ensure_active_keeper_def demo_defs addresses)
  have differ: "keeper_b \<noteq> keeper_a" "treasury_at \<noteq> keeper_b" "registry_at \<noteq> keeper_b"
    "treasury_at \<noteq> registry_at" "registry_at \<noteq> treasury_at"
    by (simp_all add: addresses)
  have conf: "fee_token demo_config = xlm" "treasury demo_config = Some treasury_at"
    by (simp_all add: demo_config_def initial_config_def)
  have first: "run_error demo_host (demo_env 200) demo_config pair_store keeper_b 0 = None"
    by (rule run_error_NoneI [where n = 0])
      (simp_all, simp_all add: ensure_due_def is_forbidden_target_def dependency_def demo_defs
        addresses sat_add_def)
  have pays: "settled demo_host (demo_env 200) demo_config keeper_b
      (paid (demo_env 200) demo_config spec st no_payout) w \<noteq> None"
    if "run_split (demo_env 200) demo_config spec st = (19, 1)" "20 \<le> ledger_balance w xlm registry_at"
      "ledger_balance w xlm keeper_b \<le> 1000019" "ledger_balance w xlm treasury_at \<le> 1000019" for spec st w
    using that differ by (simp add: settled_def paid_def no_payout_def conf ledger_transfer_def)
  have funds: "ledger_balance pair_funds xlm registry_at = 200"
    "ledger_balance pair_funds xlm keeper_b = 1000000" "ledger_balance pair_funds xlm treasury_at = 1000000"
    by (simp_all add: pair_funds_def demo_funds_def demo_stakes_def addresses)
  have split: "run_split (demo_env 200) demo_config demo_spec demo_state = (19, 1)"
    "run_split (demo_env 200) demo_config (new_spec alice demo_follower) (demo_state\<lparr>next_run := 55\<rparr>) = (19, 1)"
    by (simp_all add: run_split_def run_fee_def ramp_demo split_fee_def demo_config_def ramped_fee_def
        demo_defs demo_follower_def Let_def sat_sub_def trunc_div_def trunc_mod_def in_i128_def)
  have d: "resolver demo_spec = None" "dependency pair_store demo_spec demo_state = Inr 0"
    by (simp_all add: dependency_def demo_defs)
  obtain w where w: "settled demo_host (demo_env 200) demo_config keeper_b
      (paid (demo_env 200) demo_config demo_spec demo_state no_payout) pair_funds = Some w"
    using pays [OF split(1), of pair_funds] by (auto simp: funds)
  have got: "w = ledger_set xlm treasury_at 1000001 (ledger_set xlm registry_at 180
       (ledger_set xlm keeper_b 1000019 (ledger_set xlm registry_at 181 pair_funds)))"
    using w differ funds
    by (simp add: settled_def paid_def no_payout_def split conf ledger_transfer_def)
  define d1 where "d1 = saved_record keeper_b
      (credit_run (sat_sub 200 (next_run demo_state))
         \<lparr>info = demo_keeper 300, recent = recent_of pair_store keeper_b\<rparr>)
      (booked (demo_env 200) demo_config 0 demo_spec demo_state
        (other_keeper demo_host demo_config pair_store keeper_b 0 demo_spec demo_state) True 0
        pair_store)"
  obtain t where t: "reachable demo_host registry_at t" "stage d1 w t"
    using demo_execute [OF s _ _ k _ d first _ w] by (auto simp: d1_def)
  let ?f = "new_spec alice demo_follower" and ?st = "demo_state\<lparr>next_run := 55\<rparr>"
  have d1: "s_config d1 = Some demo_config" "parts d1 1 = Some (?f, ?st)" "s_halted d1 = Map.empty"
    "s_states d1 0 = Some (state_after (demo_env 200) demo_config demo_spec demo_state True 0)"
    "s_keepers d1 keeper_b = Some (info (credit_run (sat_sub 200 (next_run demo_state))
       \<lparr>info = demo_keeper 300, recent = recent_of pair_store keeper_b\<rparr>))"
    by (simp_all add: d1_def saved_record_def parts_Some_iff booked_halted)
      (simp_all add: pair_store_def)
  have f: "resolver ?f = None" "dependency d1 ?f ?st = Inr 1" "after ?f = Some 0"
    using d1(4) by (simp_all add: dependency_def demo_defs demo_follower_def sat_add_def)
  have k1: "eligible demo_config (info (credit_run l \<lparr>info = demo_keeper 300, recent = x\<rparr>))" for l x
    by (simp add: ensure_active_keeper_def credit_run_def demo_defs)
  have second: "run_error demo_host (demo_env 200) demo_config d1 keeper_b 1 = None"
    by (rule run_error_NoneI [OF d1(2) _ _ _ _ _ f(2)])
      (simp_all add: d1, simp_all add: ensure_due_def is_forbidden_target_def demo_defs
        demo_follower_def addresses sat_add_def)
  have "settled demo_host (demo_env 200) demo_config keeper_b
      (paid (demo_env 200) demo_config ?f ?st no_payout) w \<noteq> None"
    using differ by (intro pays [OF split(2)]) (simp_all add: got)
  then obtain w' where w': "settled demo_host (demo_env 200) demo_config keeper_b
      (paid (demo_env 200) demo_config ?f ?st no_payout) w = Some w'" by blast
  from demo_execute [OF t d1(1) d1(5) k1 k(2) d1(2) f(1,2) second _ w']
  show ?thesis using t d1(2) f(3) by (auto simp: stage_def)
qed

end
