(* ===== verification/RunLaws.thy ===== *)
theory RunLaws
  imports Demo
begin

text \<open>
  The laws of execution, for \<open>execute\<close> and \<open>execute_batch\<close>: when a run happens, what it
  charges and pays, what a refusal leaves behind, and what a missed window is. Each law is
  followed by an instance on the concrete deployment.
\<close>

section \<open>When a run happens\<close>

lemma reachable_facts:
  assumes "reachable h a s" and "sound_host h a"
  shows "registry_ok (storage s)" "covers None h a 0 0 s"
  using reachable_ok [OF assms(1)] reachable_covers [OF assms(2,1)] by simp_all

text \<open>
  C2. A due job runs. In any reachable state, if the registry is not paused and has an
  executor, the caller is a bonded keeper with enough stake that signed, the job is due,
  its target is neither forbidden nor halted, the keeper is allowed and the window is its
  own or over, the dependency is met, the resolver says yes, the executor returns (with
  success or failure), and the token accepts the payouts, then \<open>execute\<close> succeeds: no
  error and no panic, in particular none from the registry's own arithmetic.
\<close>

theorem due_job_runs:
  assumes "reachable h (me e) s" and "sound_host h (me e)" and "\<not> authorized e (me e)"
    and "s_config (storage s) = Some c" and "\<not> paused c" and "executor c = Some exec"
    and "authorized e a" and "s_keepers (storage s) a = Some k" and "eligible c k"
    and "parts (storage s) jid = Some (spec, st)" and "ensure_due spec st (now e) = Inr ()"
    and "\<not> is_forbidden_target e c (target spec)" and "s_halted (storage s) (target spec) = None"
    and "case keepers spec of None \<Rightarrow> True | Some xs \<Rightarrow> a \<in> set xs"
    and "other_keeper h c (storage s) a jid spec st = None
      \<or> sat_add (next_run st) (grace_period c) \<le> now e"
    and "dependency (storage s) spec st = Inr n"
    and "resolver_says h e jid spec (world s) = Some (True, w1)"
    and "target_says h e exec spec w1 = Some (answer, w2)"
    and "now e \<noteq> - 1" and "payable h e c a (paid e c spec st no_payout) w2"
  shows "\<exists>t. execute h e a jid s = (Ok (), t)"
proof -
  have "fair_call h e" using assms(2,3) by (simp add: fair_call_def)
  moreover have "run_error h e c (storage s) a jid = None"
    by (rule run_error_NoneI [OF assms(10-16)])
  ultimately show ?thesis
    using execute_returns [OF _ reachable_facts [OF assms(1,2)] assms(4-9) _ assms(10,17,18,19,20)]
    by blast
qed

theorem due_job_runs_witness:
  "\<exists>s t. reachable demo_host registry_at s \<and> execute demo_host (demo_env 90) keeper_a 0 s = (Ok (), t)"
proof -
  obtain s where s: "reachable demo_host registry_at s" "stage demo_store demo_funds s"
    using demo_reachable by blast
  have d: "storage s = demo_store" "world s = demo_funds" using s(2) by (simp_all add: stage_def)
  have other: "other_keeper demo_host demo_config demo_store keeper_a 0 demo_spec demo_state = None"
    by (simp add: other_keeper_def chosen_demo Let_def)
  have balances: "ledger_balance demo_funds xlm registry_at = 100"
    "ledger_balance demo_funds xlm keeper_a = 1000000"
    by (simp_all add: demo_funds_def demo_stakes_def addresses)
  have pay: "payable demo_host (demo_env 90) demo_config keeper_a
      (paid (demo_env 90) demo_config demo_spec demo_state no_payout) demo_funds"
    by (simp add: demo_pays ledger_transfer_def balances)
  have "\<exists>t. execute demo_host (demo_env 90) keeper_a 0 s = (Ok (), t)"
    by (rule due_job_runs [where c = demo_config and exec = executor_at and k = "demo_keeper 200"
          and spec = demo_spec and st = demo_state and n = 0 and ?w1.0 = demo_funds
          and ?w2.0 = demo_funds])
      (simp_all add: s d other pay demo_sound, simp_all add: ensure_due_def ensure_active_keeper_def
        is_forbidden_target_def dependency_def resolver_says_def target_says_def demo_defs addresses)
  then show ?thesis using s(1) by blast
qed

section \<open>What a run does to its job\<close>






text \<open>
  A run that just happened cannot happen again at the same time: after a successful
  \<open>execute\<close>, no keeper can execute the job again while the clock shows the same second.
\<close>

theorem no_second_run_at_once:
  assumes "reachable h (me e) s" and "execute h e a jid s = (Ok (), t)" and "now e \<noteq> - 1"
    and "now e' = now e"
  shows "run_error h e' c (storage t) b jid \<noteq> None"
proof
  assume none: "run_error h e' c (storage t) b jid = None"
  note ok = reachable_ok [OF assms(1)]
  obtain c0 exec k spec st n w1 success hash w2 rec where x:
    "run_error h e c0 (storage s) a jid = None"
    "parts (storage s) jid = Some (spec, st)" "books_ok e c0 spec st no_payout"
    "storage t = saved_record a rec (booked e c0 jid spec st
       (other_keeper h c0 (storage s) a jid spec st) success n (storage s))"
    by (rule execute_effects [OF assms(2)])
  obtain r where r: "next_run_after (next_run st) (interval spec) (now e) = Some r"
    using x(3) by (auto simp: books_ok_def)
  have i: "interval spec \<noteq> 0"
    using registry_okD(2) [OF ok, of jid spec] x(2) by (simp add: parts_Some_iff spec_ok_def)
  have "now e < r"
    using next_run_after_grid [OF i r] assms(3)
    by (cases "r = - 1") (simp_all add: word_order.not_eq_extremum)
  moreover have "parts (storage t) jid = Some (spec, state_after e c0 spec st success n)"
    using x by (simp add: parts_Some_iff)
  then have "r \<le> now e'"
    using run_error_None(1) [OF none] r by (simp add: ensure_due_Inr)
  ultimately show False using assms(4) by simp
qed

theorem no_second_run_at_once_witness:
  "\<exists>s t. execute demo_host (demo_env 90) keeper_a 0 s = (Ok (), t)
    \<and> run_error demo_host (demo_env 90) demo_config (storage t) keeper_b 0 \<noteq> None"
proof -
  obtain s t where s: "reachable demo_host registry_at s"
    and t: "execute demo_host (demo_env 90) keeper_a 0 s = (Ok (), t)"
    using demo_runs(1) by blast
  have "run_error demo_host (demo_env 90) demo_config (storage t) keeper_b 0 \<noteq> None"
    by (rule no_second_run_at_once [OF _ t]) (use s in simp_all)
  then show ?thesis using t by blast
qed

section \<open>Refusals\<close>

text \<open>
  C17. A refused run writes nothing: when \<open>run_job\<close> returns an error, the registry's
  entries and events are exactly as before, and so is the world unless the job's resolver
  was asked. This is what lets a batch skip a job and go on.
\<close>

theorem refused_run_writes_nothing:
  assumes "run_job h e c exec a acc jid s = (Err x, t)"
  shows "storage t = storage s \<and> published t = published s
    \<and> (x \<noteq> ResolverRejected \<longrightarrow> world t = world s)"
  using run_job_Err [OF assms]
  by (auto simp: run_refuses_def same_def became_def split: option.splits)

theorem refused_run_writes_nothing_witness:
  "\<exists>t. run_job demo_host (demo_env 10) demo_config executor_at keeper_a
      (\<lparr>info = demo_keeper 200, recent = \<lparr>lateness = 0, misses = 0\<rparr>\<rparr>, no_payout) 0 demo = (Err JobNotDue, t)
    \<and> storage t = demo_store"
proof -
  let ?run = "run_job demo_host (demo_env 10) demo_config executor_at keeper_a
      (\<lparr>info = demo_keeper 200, recent = \<lparr>lateness = 0, misses = 0\<rparr>\<rparr>, no_payout) 0"
  have "ensure_due demo_spec demo_state 10 = Inl JobNotDue"
    by (simp add: ensure_due_def demo_defs)
  then have "wp ?run (\<lambda>_ _. False) (\<lambda>x _. x = JobNotDue) False demo"
    by (simp add: run_job_def admit_def wps)
  then obtain t where t: "?run demo = (Err JobNotDue, t)"
    by (auto simp: wp_def split: prod.splits outcome.splits)
  from refused_run_writes_nothing [OF t] t show ?thesis by simp
qed

text \<open>
  A job cannot make a batch fail: the only errors of \<open>execute_batch\<close> are about the
  call itself (batch size, pause, missing executor, the keeper's standing), and on success
  there is one answer per listed job.
\<close>

theorem batch_errors_are_the_callers:
  "case execute_batch h e a jids s of
     (Ok did, _) \<Rightarrow> length did = length jids
   | (Err x, _) \<Rightarrow> x \<in> {InvalidBatchSize, Paused, ExecutorNotSet, KeeperNotFound, KeeperUnbonding,
       InsufficientStake}
   | (Trap, _) \<Rightarrow> True"
proof -
  have "wp (execute_batch h e a jids) (\<lambda>did _. length did = length jids) (\<lambda>x _. x \<in> X) True s"
    if "{InvalidBatchSize, Paused, ExecutorNotSet, KeeperNotFound, KeeperUnbonding,
        InsufficientStake} \<subseteq> X" for X
  proof -
    have loop: "wp (run_jobs h e c exec a acc jids)
        (\<lambda>p. wp (case p of (did, rec', pay) \<Rightarrow>
            andthen (save_record a rec') (andthen (settle h e c a pay) (ok did)))
          (\<lambda>did _. length did = length jids) (\<lambda>x _. x \<in> X) True) (\<lambda>x _. x \<in> X) True t"
      for c exec acc t
      by (rule wp_mono [OF wp_run_jobs [where I = "\<lambda>_ _. True" and T = True]])
        (auto simp: wp_andthen [abs_def] wp_save_record wp_ok intro!: wp_settle_frame)
    show ?thesis
      using that
      by (auto simp: execute_batch_def authorize_keeper_def load_record_def wps loop
          ensure_not_paused_def ensure_active_keeper_def split: option.split sum.split)
  qed
  from this [OF order.refl] show ?thesis
    by (simp add: wp_def split: prod.splits outcome.splits)
qed

text \<open>A batch of one job that runs is an execution.\<close>

lemma batch_of_one:
  assumes "execute h e a jid s = (Ok (), t)"
  shows "execute_batch h e a [jid] s = (Ok [True], t)"
  using assms
  by (auto simp: execute_def execute_batch_def bind_def andthen_def attempt_def ok_def fail_if_def MAX_BATCH_def
      split: prod.splits outcome.splits)

section \<open>Fees\<close>

text \<open>How much the registry holds and owes while a batch runs, exactly.\<close>

definition books ::
  "'w host \<Rightarrow> env \<Rightarrow> config \<Rightarrow> int \<Rightarrow> int \<Rightarrow> keeper_record \<times> payout \<Rightarrow> 'w registry \<Rightarrow> bool" where
  "books h e c held debt acc t \<longleftrightarrow>
     token_balance h (world t) (fee_token c) (me e) = held
     \<and> total balance (s_states (storage t)) + keeper_fees (snd acc) + protocol_fees (snd acc) = debt
     \<and> (treasury c = None \<longrightarrow> protocol_fees (snd acc) = 0)"

lemma calls_ignore:
  assumes "calls_ignore_funds h (me e)"
  shows "resolver_says h e jid spec w = Some (b, w') \<Longrightarrow>
      token_balance h w' u (me e) = token_balance h w u (me e)"
    and "target_says h e exec spec w = Some (r, w') \<Longrightarrow>
      token_balance h w' u (me e) = token_balance h w u (me e)"
  using assms
  by (auto simp: calls_ignore_funds_def resolver_says_def target_says_def split: option.splits)

lemma run_does_books:
  assumes f: "fair_call h e" and quiet: "calls_ignore_funds h (me e)"
    and inv: "batch_inv None h e c a acc s" and b: "books h e c held debt acc s"
    and run: "run_does h e c exec a jid acc s r t"
  shows "books h e c held debt r t"
proof -
  obtain spec st n w1 success hash w2 where
    r: "run_error h e c (storage s) a jid = None" "parts (storage s) jid = Some (spec, st)"
      "resolver_says h e jid spec (world s) = Some (True, w1)"
      "target_says h e exec spec w1 = Some ((success, hash), w2)"
      "r = (credit_run (sat_sub (now e) (next_run st)) (fst acc), paid e c spec st (snd acc))"
    and t: "storage t = booked e c jid spec st (other_keeper h c (storage s) a jid spec st) success n
        (storage s)" "world t = w2"
    using run by (auto simp: run_does_def became_def)
  have ok: "registry_ok (storage s)" and c: "s_config (storage s) = Some c"
    using inv by (simp_all add: batch_inv_def)
  have due: "fee_per_run spec \<le> balance st"
    using run_error_None(1) [OF r(1,2)] by (simp add: ensure_due_Inr)
  have "snd (run_split e c spec st) = 0" if "treasury c = None"
  proof -
    have "protocol_fee_bps c = 0"
      using registry_ok_configD [OF ok c] that by (auto simp: config_ok_def word_gt_0)
    then show ?thesis by (simp add: run_fee_split(6) [OF ok c r(2) due])
  qed
  then show ?thesis
    using b r(2,5) t run_split_sum [OF ok c r(2) due, of e] registry_ok_finite(1) [OF ok]
      calls_ignore(1) [OF quiet r(3)] calls_ignore(2) [OF quiet r(4)]
    by (auto simp: books_def paid_def parts_Some_iff total_update at_key_def)
qed

lemma run_refuses_books:
  assumes "calls_ignore_funds h (me e)" and "books h e c held debt acc s"
    and "run_refuses h e c a jid s x t"
  shows "books h e c held debt acc t"
  using assms run_refuses_frame [OF assms(3)] calls_ignore(1) [OF assms(1)]
  by (auto simp: books_def run_refuses_def same_def became_def split: option.splits)

text \<open>Settling pays out exactly what is pending.\<close>

lemma wp_settle_exact:
  assumes "token_laws h" and "a \<noteq> me e" and "treasury c \<noteq> Some (me e)"
    and "0 \<le> keeper_fees pay" and "0 \<le> protocol_fees pay"
    and "treasury c = None \<Longrightarrow> protocol_fees pay = 0"
    and Q: "\<And>t. storage t = storage s \<Longrightarrow>
      token_balance h (world t) (fee_token c) (me e)
        = token_balance h (world s) (fee_token c) (me e) - keeper_fees pay - protocol_fees pay \<Longrightarrow>
      Q () t"
  shows "wp (settle h e c a pay) Q E True s"
proof -
  note moves = transfer_balance [OF assms(1)]
  show ?thesis
    using assms(2-6)
    by (auto simp: settle_def wps moves split: option.split intro!: Q)
qed

definition moved_together :: "'w host \<Rightarrow> env \<Rightarrow> config \<Rightarrow> 'w registry \<Rightarrow> 'w registry \<Rightarrow> bool" where
  "moved_together h e c s t \<longleftrightarrow>
     token_balance h (world s) (fee_token c) (me e) - token_balance h (world t) (fee_token c) (me e)
       = total balance (s_states (storage s)) - total balance (s_states (storage t))"

lemma books_start:
  "books h e c (token_balance h (world s) (fee_token c) (me e)) (total balance (s_states (storage s)))
     (rec, no_payout) s"
  by (simp add: books_def no_payout_def)

lemma wp_close_books_exact:
  assumes f: "fair_call h e" and a: "a \<noteq> me e" and tr: "treasury c \<noteq> Some (me e)"
    and inv: "batch_inv None h e c a (rec, pay) t"
    and b: "books h e c (token_balance h (world s) (fee_token c) (me e))
      (total balance (s_states (storage s))) (rec, pay) t"
    and Q: "\<And>t. moved_together h e c s t \<Longrightarrow> Q () t"
  shows "wp (save_record a rec) (\<lambda>_. wp (settle h e c a pay) Q E True) E True t"
  unfolding wp_save_record
proof (rule wp_settle_exact [OF fair_callD(1) [OF f] a tr])
  show "0 \<le> keeper_fees pay" "0 \<le> protocol_fees pay"
    using inv by (simp_all add: batch_inv_def)
  show "treasury c = None \<Longrightarrow> protocol_fees pay = 0" using b by (simp add: books_def)
qed (use b in \<open>auto simp: books_def moved_together_def intro!: Q\<close>)

lemma wp_open_books_exact:
  assumes ok: "registry_ok (storage s)" and cov: "covers None h (me e) 0 0 s"
    and c: "s_config (storage s) = Some c" and f: "fair_call h e"
    and Q: "\<And>exec rec t. batch_inv None h e c a (rec, no_payout) t \<Longrightarrow> a \<noteq> me e \<Longrightarrow> same s t \<Longrightarrow>
      wp (k exec rec) Q (\<lambda>_ _. True) True t"
  shows "wp (bind (authorize_keeper e c a) (\<lambda>(exec, kp). bind (load_record a kp) (k exec)))
    Q (\<lambda>_ _. True) True s"
  unfolding wp_bind
proof (rule wp_authorize_keeper)
  fix exec kp t
  assume t: "same s t" and k: "s_keepers (storage s) a = Some kp" and a: "authorized e a"
  have "batch_inv None h e c a (\<lparr>info = kp, recent = recent_of (storage t) a\<rparr>, no_payout) t"
    by (rule batch_inv_start) (use t k ok cov c covers_same [OF t] in \<open>auto simp: same_def\<close>)
  then show "wp (case (exec, kp) of (exec, kp) \<Rightarrow> bind (load_record a kp) (k exec))
      Q (\<lambda>_ _. True) True t"
    unfolding prod.case wp_bind wp_load_record
    by (intro Q) (use t fair_callD(3) [OF f a] in \<open>simp_all add: batch_inv_def\<close>)
qed simp_all

text \<open>
  A batch pays out exactly what it charged. When the called contracts leave the
  registry's balance alone and the treasury is not the registry itself, the registry's
  holdings of the fee token fall by exactly as much as the job balances it books: keeper
  and treasury together receive the sum of the run fees, whatever the rounding of the
  protocol fee, and nothing else leaves.
\<close>

theorem batch_pays_what_it_charges:
  assumes "reachable h (me e) s" and "sound_host h (me e)" and "\<not> authorized e (me e)"
    and "calls_ignore_funds h (me e)"
    and "s_config (storage s) = Some c" and "treasury c \<noteq> Some (me e)"
    and "execute_batch h e a jids s = (Ok did, t)"
  shows "token_balance h (world s) (fee_token c) (me e) - token_balance h (world t) (fee_token c) (me e)
    = total balance (s_states (storage s)) - total balance (s_states (storage t))"
proof -
  have f: "fair_call h e" using assms(2,3) by (simp add: fair_call_def)
  let ?I = "\<lambda>acc t. batch_inv None h e c a acc t \<and> books h e c
    (token_balance h (world s) (fee_token c) (me e)) (total balance (s_states (storage s))) acc t"
  have "wp (bind (authorize_keeper e c a) (\<lambda>(exec, k).
        bind (load_record a k) (\<lambda>rec.
        bind (run_jobs h e c exec a (rec, no_payout) jids) (\<lambda>(did, rec', pay).
        andthen (save_record a rec') (andthen (settle h e c a pay) (ok did))))))
      (\<lambda>_ t. moved_together h e c s t) (\<lambda>_ _. True) True (seen_instance s)"
  proof (rule wp_open_books_exact)
    fix exec rec t
    assume inv: "batch_inv None h e c a (rec, no_payout) t" and a: "a \<noteq> me e"
      and t: "same (seen_instance s) t"
    have start: "?I (rec, no_payout) t"
      using inv t books_start [of h e c t rec] by (simp add: same_def)
    show "wp (bind (run_jobs h e c exec a (rec, no_payout) jids) (\<lambda>(did, rec', pay).
        andthen (save_record a rec') (andthen (settle h e c a pay) (ok did))))
      (\<lambda>_ t. moved_together h e c s t) (\<lambda>_ _. True) True t"
      unfolding wp_bind
    proof (rule wp_mono [OF wp_run_jobs [where I = ?I and T = True, OF start]])
      fix acc s' jid r t' assume "?I acc s'" "run_does h e c exec a jid acc s' r t'"
      then show "?I r t'" using run_does_inv [OF f] run_does_books [OF f assms(4)] by blast
    next
      fix acc s' jid x t' assume "?I acc s'" "run_refuses h e c a jid s' x t'"
      then show "?I acc t'" using run_refuses_inv [OF f] run_refuses_books [OF assms(4)] by blast
    qed (auto simp: wp_andthen [abs_def] wp_ok intro!: wp_close_books_exact [OF f a assms(6)])
  qed (use reachable_facts [OF assms(1,2)] assms(5) f in simp_all)
  then have "wp (execute_batch h e a jids) (\<lambda>_ t. moved_together h e c s t) (\<lambda>_ _. True) True s"
    by (simp add: execute_batch_def wp_andthen wp_fail_if wp_bind [of load_config] wp_load_config
        assms(5))
  from wp_OkD [OF this assms(7)] show ?thesis by (simp add: moved_together_def)
qed

theorem batch_pays_what_it_charges_witness:
  "\<exists>s did t. execute_batch demo_host (demo_env 200) keeper_b [0] s = (Ok did, t)
    \<and> token_balance demo_host (world s) xlm registry_at - token_balance demo_host (world t) xlm registry_at
      = total balance (s_states (storage s)) - total balance (s_states (storage t))"
proof -
  obtain s t where s: "reachable demo_host registry_at s" "stage demo_store demo_funds s"
    and t: "execute demo_host (demo_env 200) keeper_b 0 s = (Ok (), t)"
    using demo_runs(2) by blast
  have c: "s_config (storage s) = Some demo_config" "treasury demo_config \<noteq> Some registry_at"
    "fee_token demo_config = xlm"
    using s(2) by (simp_all add: stage_def demo_config_def initial_config_def addresses)
  note ran = batch_of_one [OF t]
  from batch_pays_what_it_charges [OF _ _ _ _ c(1) _ ran] s(1) c show ?thesis
    using ran by (auto simp: demo_sound demo_ignores)
qed

text \<open>
  C9. One run charges a fee within the owner's terms and pays out exactly that: under the
  same hypotheses, \<open>execute\<close> takes from the job's balance a fee of at least the base fee
  and at most the ceiling, never more than the job holds, and the registry's holdings of
  the fee token fall by the same amount.
\<close>

theorem execute_pays_what_it_charges:
  assumes "reachable h (me e) s" and "sound_host h (me e)" and "\<not> authorized e (me e)"
    and "calls_ignore_funds h (me e)"
    and "s_config (storage s) = Some c" and "treasury c \<noteq> Some (me e)"
    and "execute h e a jid s = (Ok (), t)"
  shows "\<exists>spec st st' fee. s_specs (storage s) jid = Some spec \<and> s_states (storage s) jid = Some st
    \<and> s_states (storage t) jid = Some st' \<and> balance st' = balance st - fee
    \<and> fee_per_run spec \<le> fee \<and> fee \<le> max (fee_per_run spec) (max_fee_per_run spec)
    \<and> fee \<le> balance st
    \<and> token_balance h (world t) (fee_token c) (me e)
        = token_balance h (world s) (fee_token c) (me e) - fee"
proof -
  have f: "fair_call h e" using assms(2,3) by (simp add: fair_call_def)
  note facts = reachable_facts [OF assms(1,2)]
  obtain c' exec k spec st n w1 b hash w2 rec where x: "s_config (storage s) = Some c'"
    "run_error h e c' (storage s) a jid = None" "parts (storage s) jid = Some (spec, st)"
    "storage t = saved_record a rec (booked e c' jid spec st
       (other_keeper h c' (storage s) a jid spec st) b n (storage s))"
    by (rule execute_effects [OF assms(7)])
  have c: "c' = c" using x(1) assms(5) by simp
  have due: "fee_per_run spec \<le> balance st"
    using run_error_None(1) [OF x(2,3)] by (simp add: ensure_due_Inr)
  note fee = run_fee_split [OF facts(1) assms(5) x(3) due, of e]
  have "wp (bind (authorize_keeper e c a) (\<lambda>(exec, k).
        bind (load_record a k) (\<lambda>rec.
        bind (run_job h e c exec a (rec, no_payout) jid) (\<lambda>(rec', pay).
        andthen (save_record a rec') (settle h e c a pay)))))
      (\<lambda>_ t. moved_together h e c s t) (\<lambda>_ _. True) True (seen_instance s)"
  proof (rule wp_open_books_exact)
    fix exec rec t
    assume inv: "batch_inv None h e c a (rec, no_payout) t" and a: "a \<noteq> me e"
      and t: "same (seen_instance s) t"
    have start: "books h e c (token_balance h (world s) (fee_token c) (me e))
        (total balance (s_states (storage s))) (rec, no_payout) t"
      using t books_start [of h e c t rec] by (simp add: same_def)
    show "wp (bind (run_job h e c exec a (rec, no_payout) jid) (\<lambda>(rec', pay).
        andthen (save_record a rec') (settle h e c a pay)))
      (\<lambda>_ t. moved_together h e c s t) (\<lambda>_ _. True) True t"
      unfolding wp_bind
    proof (rule wp_mono [OF wp_run_job])
      fix r t' assume run: "run_does h e c exec a jid (rec, no_payout) t r t'"
      show "wp (case r of (rec', pay) \<Rightarrow> andthen (save_record a rec') (settle h e c a pay))
          (\<lambda>_ t. moved_together h e c s t) (\<lambda>_ _. True) True t'"
        using run_does_inv [OF f inv run] run_does_books [OF f assms(4) inv start run]
        by (cases r) (auto simp: wp_andthen intro!: wp_close_books_exact [OF f a assms(6)])
    qed simp_all
  qed (use facts assms(5) f in simp_all)
  then have "wp (execute h e a jid) (\<lambda>_ t. moved_together h e c s t) (\<lambda>_ _. True) True s"
    by (simp add: execute_def wp_bind [of load_config] wp_load_config assms(5))
  from wp_OkD [OF this assms(7)] have "moved_together h e c s t" .
  then show ?thesis
    using x fee registry_ok_finite(1) [OF facts(1)] unfolding c
    by (intro exI [of _ spec] exI [of _ st] exI [of _ "state_after e c spec st b n"]
        exI [of _ "run_fee e spec st"])
      (auto simp: parts_Some_iff moved_together_def total_update at_key_def)
qed

theorem execute_pays_what_it_charges_witness:
  "\<exists>s t fee. execute demo_host (demo_env 200) keeper_b 0 s = (Ok (), t) \<and> 10 \<le> fee \<and> fee \<le> 20
    \<and> token_balance demo_host (world t) xlm registry_at
      = token_balance demo_host (world s) xlm registry_at - fee"
proof -
  obtain s t where s: "reachable demo_host registry_at s" "stage demo_store demo_funds s"
    and t: "execute demo_host (demo_env 200) keeper_b 0 s = (Ok (), t)"
    using demo_runs(2) by blast
  have c: "s_config (storage s) = Some demo_config" "treasury demo_config \<noteq> Some registry_at"
    "fee_token demo_config = xlm" "s_specs (storage s) 0 = Some demo_spec"
    "fee_per_run demo_spec = 10" "max_fee_per_run demo_spec = 20"
    using s(2) by (simp_all add: stage_def demo_config_def initial_config_def addresses demo_spec_def
        new_spec_def demo_job_def)
  from execute_pays_what_it_charges [OF _ _ _ _ c(1) _ t] s(1) c show ?thesis
    using t by (fastforce simp: demo_sound demo_ignores)
qed

section \<open>Windows and misses\<close>

text \<open>What a keeper owns, as opposed to its statistics.\<close>

definition bond_of :: "reg_store \<Rightarrow> address \<Rightarrow> (int \<times> u64 option \<times> int) option" where
  "bond_of d a = map_option (\<lambda>k. (stake k, unbonding_at k, slashed k)) (s_keepers d a)"

lemma bond_of_with_misses [simp]: "bond_of (with_misses w d) x = bond_of d x"
  by (auto simp: bond_of_def with_misses_def with_miss_def split: option.split)

lemma bond_of_booked [simp]: "bond_of (booked e c jid spec st w b n d) x = bond_of d x"
  by (simp add: booked_def bond_of_def [of "s_states_update _ _"] bond_of_def [of d])

definition same_bonds :: "reg_store \<Rightarrow> address \<Rightarrow> keeper_record \<Rightarrow> reg_store \<Rightarrow> bool" where
  "same_bonds d a rec d' \<longleftrightarrow>
     bond_of d' = bond_of d
     \<and> bond_of d a = Some (stake (info rec), unbonding_at (info rec), slashed (info rec))"

lemma run_does_bonds:
  "run_does h e c exec a jid acc s r t \<Longrightarrow> same_bonds d a (fst acc) (storage s) \<Longrightarrow>
   same_bonds d a (fst r) (storage t)"
  by (auto simp: run_does_def same_bonds_def became_def credit_run_def fun_eq_iff)

lemma saved_record_bonds: "same_bonds d a rec d' \<Longrightarrow> bond_of (saved_record a rec d') = bond_of d"
  by (auto simp: same_bonds_def saved_record_def bond_of_def fun_eq_iff)

lemma wp_batch_bonds:
  "wp (execute_batch h e a jids) (\<lambda>_ t. bond_of (storage t) = bond_of (storage s)) (\<lambda>_ _. True) True s"
proof -
  have loop: "wp (run_jobs h e c exec a (rec, no_payout) jids)
      (\<lambda>p. wp (case p of (did, rec', pay) \<Rightarrow>
          andthen (save_record a rec') (andthen (settle h e c a pay) (ok did)))
        (\<lambda>_ t. bond_of (storage t) = bond_of (storage s)) (\<lambda>_ _. True) True) (\<lambda>_ _. True) True t"
    if "same_bonds (storage s) a rec (storage t)" for c exec rec t
  proof (rule wp_mono [OF wp_run_jobs [where I =
      "\<lambda>acc t. same_bonds (storage s) a (fst acc) (storage t)" and T = True]])
    fix acc s' jid x t' assume "same_bonds (storage s) a (fst acc) (storage s')"
      "run_refuses h e c a jid s' x t'"
    then show "same_bonds (storage s) a (fst acc) (storage t')" by (simp add: run_refuses_frame)
  qed (use that in \<open>auto simp: wp_andthen [abs_def] wp_save_record wp_ok saved_record_bonds
      intro: run_does_bonds intro!: wp_settle_storage\<close>)
  show ?thesis
    by (auto simp: execute_batch_def authorize_keeper_def load_record_def wps same_bonds_def bond_of_def
        split: option.split sum.split intro!: loop)
qed

text \<open>
  Executing never moves anybody's stake: whatever a batch runs or misses, every
  keeper's stake, unbonding time and slashed amount are what they were. A missed window
  costs statistics only.
\<close>

theorem misses_never_move_stake:
  assumes "execute_batch h e a jids s = (Ok did, t)"
  shows "map_option (\<lambda>k. (stake k, unbonding_at k, slashed k)) (s_keepers (storage t) x)
    = map_option (\<lambda>k. (stake k, unbonding_at k, slashed k)) (s_keepers (storage s) x)"
  using wp_OkD [OF wp_batch_bonds assms] by (simp add: bond_of_def fun_eq_iff)

theorem misses_never_move_stake_witness:
  "\<exists>s t. execute_batch demo_host (demo_env 200) keeper_b [0] s = (Ok [True], t)
    \<and> map_option (\<lambda>k. (stake k, unbonding_at k, slashed k)) (s_keepers (storage t) keeper_a)
      = Some (200, None, 0)"
proof -
  obtain s t where s: "stage demo_store demo_funds s"
    and t: "execute demo_host (demo_env 200) keeper_b 0 s = (Ok (), t)"
    using demo_runs(2) by blast
  note ran = batch_of_one [OF t]
  from misses_never_move_stake [OF ran, of keeper_a] ran s show ?thesis
    by (auto simp: stage_def demo_keeper_def fresh_keeper_def addresses)
qed

lemma window_index_lt: "0 < n \<Longrightarrow> window_index h jid r n < n"
  by (simp add: window_index_def)

lemma chosen_keeper_candidate:
  assumes "chosen_keeper h c d jid spec st = Some b"
  shows "b \<in> set (case keepers spec of None \<Rightarrow> rotation d | Some xs \<Rightarrow> xs)
    \<and> (\<exists>k. s_keepers d b = Some k \<and> eligible c k) \<and> grace_period c \<noteq> 0"
  using assms
  by (auto simp: chosen_keeper_def Let_def window_index_lt split: if_splits option.splits)

text \<open>
  C14. An assigned window is exclusive: if another keeper than the caller was chosen for
  the run (windows on, and the chosen keeper bonded with enough stake), then a successful
  execution happens only once the grace period after the due time is over. The chosen
  keeper is always on the job's allowlist, or in the rotation when there is none.
\<close>

theorem window_is_exclusive:
  assumes "execute h e a jid s = (Ok (), t)" and "s_config (storage s) = Some c"
    and "parts (storage s) jid = Some (spec, st)"
    and "chosen_keeper h c (storage s) jid spec st = Some b" and "b \<noteq> a"
  shows "sat_add (next_run st) (grace_period c) \<le> now e
    \<and> b \<in> set (case keepers spec of None \<Rightarrow> rotation (storage s) | Some xs \<Rightarrow> xs)"
proof -
  obtain c' where x: "s_config (storage s) = Some c'" "run_error h e c' (storage s) a jid = None"
    by (rule execute_effects [OF assms(1)])
  have "c' = c" using x assms(2) by simp
  moreover have "other_keeper h c (storage s) a jid spec st = Some b"
    using assms(4,5) by (simp add: other_keeper_def)
  ultimately show ?thesis
    using run_error_None(5) [OF x(2) assms(3)] chosen_keeper_candidate [OF assms(4)] by auto
qed

theorem window_is_exclusive_witness:
  "\<exists>s t. execute demo_host (demo_env 200) keeper_b 0 s = (Ok (), t)
    \<and> sat_add (next_run demo_state) (grace_period demo_config) \<le> 200"
proof -
  obtain s t where s: "stage demo_store demo_funds s"
    and t: "execute demo_host (demo_env 200) keeper_b 0 s = (Ok (), t)"
    using demo_runs(2) by blast
  have d: "s_config (storage s) = Some demo_config" "parts (storage s) 0 = Some (demo_spec, demo_state)"
    "chosen_keeper demo_host demo_config (storage s) 0 demo_spec demo_state = Some keeper_a"
    "keeper_a \<noteq> keeper_b"
    using s by (simp_all add: stage_def chosen_demo addresses)
  from window_is_exclusive [OF t d] t show ?thesis by auto
qed

text \<open>On the concrete deployment keeper A misses its window when keeper B runs the job.\<close>

lemma demo_miss:
  assumes "stage demo_store demo_funds s" and "execute demo_host (demo_env 200) keeper_b 0 s = (Ok (), t)"
  shows "\<exists>k'. s_keepers (storage t) keeper_a = Some k' \<and> missed k' \<noteq> missed (demo_keeper 200)"
proof -
  have d: "storage s = demo_store" using assms(1) by (simp add: stage_def)
  obtain c exec k spec st n w1 b hash w2 rec where x: "s_config (storage s) = Some c"
    "parts (storage s) 0 = Some (spec, st)"
    "storage t = saved_record keeper_b rec (booked (demo_env 200) c 0 spec st
       (other_keeper demo_host c (storage s) keeper_b 0 spec st) b n (storage s))"
    by (rule execute_effects [OF assms(2)])
  have eqs: "c = demo_config" "spec = demo_spec" "st = demo_state" using x(1,2) by (simp_all add: d)
  have "other_keeper demo_host demo_config demo_store keeper_b 0 demo_spec demo_state = Some keeper_a"
    "keeper_a \<noteq> keeper_b"
    by (simp_all add: other_keeper_def chosen_demo Let_def addresses)
  moreover have "window_open (demo_env 200) demo_config demo_store 0 demo_spec (next_run demo_state)"
    by (simp add: window_open_def timestamp_def)
      (simp add: demo_defs sat_add_def)
  ultimately show ?thesis
    using x(3) unfolding eqs d
    by (auto simp: saved_record_def booked_def missed_by_def with_misses_def with_miss_def
        demo_keeper_def fresh_keeper_def sat_add_def)
qed

text \<open>
  C15. A miss is the assigned keeper's own: the missed count of a keeper changes only when
  that keeper was the one chosen for the run and somebody else ran it, the job has neither
  a resolver nor a dependency that could have blocked it unseen, and the whole grace period
  passed since the run was due, since the job was last touched, since the windows were last
  reset and since the target was last un-halted. It then rises by one (saturating).
\<close>

theorem miss_needs_a_whole_window:
  assumes "execute h e a jid s = (Ok (), t)" and "s_config (storage s) = Some c"
    and "parts (storage s) jid = Some (spec, st)"
    and "s_keepers (storage s) x = Some k" and "s_keepers (storage t) x = Some k'"
    and "missed k' \<noteq> missed k"
  shows "x \<noteq> a \<and> chosen_keeper h c (storage s) jid spec st = Some x
    \<and> resolver spec = None \<and> after spec = None \<and> missed k' = sat_add (missed k) 1
    \<and> sat_add (next_run st) (grace_period c) \<le> now e
    \<and> sat_add (timestamp e (s_touched (storage s) jid)) (grace_period c) \<le> now e
    \<and> sat_add (case s_windows_reset (storage s) of None \<Rightarrow> 0 | Some at \<Rightarrow> at) (grace_period c) \<le> now e
    \<and> sat_add (timestamp e (s_resumed (storage s) (target spec))) (grace_period c) \<le> now e"
proof -
  obtain c' exec k0 spec' st' n w1 b hash w2 rec where y: "s_config (storage s) = Some c'"
    "s_keepers (storage s) a = Some k0"
    "run_error h e c' (storage s) a jid = None" "parts (storage s) jid = Some (spec', st')"
    "rec = credit_run (sat_sub (now e) (next_run st')) \<lparr>info = k0, recent = recent_of (storage s) a\<rparr>"
    "storage t = saved_record a rec (booked e c' jid spec' st'
       (other_keeper h c' (storage s) a jid spec' st') b n (storage s))"
    by (rule execute_effects [OF assms(1)])
  have eqs: "c' = c" "spec' = spec" "st' = st" using y(1,4) assms(2,3) by simp_all
  let ?miss = "missed_by e c (storage s) jid spec st (other_keeper h c (storage s) a jid spec st)"
  have x: "x \<noteq> a"
  proof
    assume "x = a"
    then have "missed k' = missed k"
      using assms(4,5) y(2,5,6) by (auto simp: saved_record_def credit_run_def)
    then show False using assms(6) by simp
  qed
  then have kept: "s_keepers (with_misses ?miss (storage s)) x = Some k'"
    using assms(5) y(6) unfolding eqs
    by (cases ?miss) (auto simp: saved_record_def booked_def with_misses_def with_miss_def
        split: option.splits)
  have m: "?miss = Some x"
  proof (rule ccontr)
    assume "?miss \<noteq> Some x"
    then have "k' = k" using kept assms(4) by simp
    then show False using assms(6) by simp
  qed
  then have opened: "window_open e c (storage s) jid spec (next_run st)"
    and chosen: "other_keeper h c (storage s) a jid spec st = Some x"
    by (simp_all add: missed_by_def split: if_splits)
  have "chosen_keeper h c (storage s) jid spec st = Some x"
    using chosen by (simp add: other_keeper_def Let_def split: if_splits)
  moreover have "missed k' = sat_add (missed k) 1"
    using kept m assms(4) by (auto simp: with_misses_def with_miss_def)
  moreover have bound: "sat_add z (grace_period c) \<le> now e"
    if "z \<le> max (max (max (next_run st) (timestamp e (s_touched (storage s) jid)))
      (case s_windows_reset (storage s) of None \<Rightarrow> 0 | Some at \<Rightarrow> at))
      (timestamp e (s_resumed (storage s) (target spec)))" for z
    by (rule order_trans [OF sat_add_mono [OF that order.refl]])
      (use opened in \<open>simp add: window_open_def\<close>)
  ultimately show ?thesis
    using x opened by (auto simp: window_open_def intro!: bound simp: le_max_iff_disj)
qed

theorem miss_needs_a_whole_window_witness:
  "\<exists>s t k'. execute demo_host (demo_env 200) keeper_b 0 s = (Ok (), t)
    \<and> s_keepers (storage t) keeper_a = Some k' \<and> missed k' = 1"
proof -
  obtain s t where s: "stage demo_store demo_funds s"
    and t: "execute demo_host (demo_env 200) keeper_b 0 s = (Ok (), t)"
    using demo_runs(2) by blast
  have d: "s_config (storage s) = Some demo_config" "parts (storage s) 0 = Some (demo_spec, demo_state)"
    "s_keepers (storage s) keeper_a = Some (demo_keeper 200)" "storage s = demo_store"
    using s by (simp_all add: stage_def addresses)
  obtain k' where k': "s_keepers (storage t) keeper_a = Some k'" "missed k' \<noteq> missed (demo_keeper 200)"
    using demo_miss [OF s t] by blast
  from miss_needs_a_whole_window [OF t d(1-3) k'] k'(1) t show ?thesis
    by (auto simp: demo_keeper_def fresh_keeper_def sat_add_def)
qed

lemma fst_had_whole_window:
  "fst (had_whole_window e c jid spec due_at s) = Ok (window_open e c (storage s) jid spec due_at)"
  using answers_had_whole_window [of e c jid spec due_at s]
  by (auto simp: answers_def wp_def split: prod.splits outcome.splits)

text \<open>
  Time stamps may expire. The stamps behind \<open>had_whole_window\<close> live in temporary
  storage, and an expired one reads as 0; once a grace period has passed since it was
  written, a stamp gives the same answer whether it is still readable, expired or missing,
  so expiry never turns a miss on or off.
\<close>

theorem stamp_expiry_is_harmless:
  assumes "sat_add at (grace_period c) \<le> now e"
  shows "fst (had_whole_window e c jid spec due_at
      (s\<lparr>storage := s_touched_update (\<lambda>m. m(jid \<mapsto> (at, live))) d\<rparr>))
    = fst (had_whole_window e c jid spec due_at
      (s\<lparr>storage := s_touched_update (\<lambda>m. m(jid := None)) d\<rparr>))
    \<and> fst (had_whole_window e c jid spec due_at
      (s\<lparr>storage := s_resumed_update (\<lambda>m. m(target spec \<mapsto> (at, live))) d\<rparr>))
    = fst (had_whole_window e c jid spec due_at
      (s\<lparr>storage := s_resumed_update (\<lambda>m. m(target spec := None)) d\<rparr>))"
proof -
  have late: "sat_add (max x at) (grace_period c) \<le> now e \<longleftrightarrow> sat_add x (grace_period c) \<le> now e" for x
  proof (cases "x \<le> at")
    case True
    have "sat_add x (grace_period c) \<le> now e"
      by (rule order_trans [OF sat_add_mono [OF True order.refl] assms])
    then show ?thesis using True assms by (simp add: max_def)
  next
    case False
    then show ?thesis by (simp add: max_def)
  qed
  have drop: "sat_add (max x (if b then at else 0)) (grace_period c) \<le> now e
      \<longleftrightarrow> sat_add (max x 0) (grace_period c) \<le> now e" for x b
    by (cases b) (simp_all add: late)
  have swap: "max (max (max a b) r) z = max (max (max a r) z) b" for a b r z :: u64
    by (simp add: max.assoc max.commute max.left_commute)
  show ?thesis
    unfolding fst_had_whole_window window_open_def
    by (simp add: timestamp_def drop swap [of _ "if ledger e \<le> live then at else 0"] swap [of _ 0])
qed

theorem stamp_expiry_is_harmless_witness:
  "fst (had_whole_window (demo_env 200) demo_config 0 demo_spec 50
      (demo\<lparr>storage := s_touched_update (\<lambda>m. m(0 \<mapsto> (60, 99))) demo_store\<rparr>))
    = fst (had_whole_window (demo_env 200) demo_config 0 demo_spec 50
      (demo\<lparr>storage := s_touched_update (\<lambda>m. m(0 := None)) demo_store\<rparr>))"
proof -
  have "sat_add 60 (grace_period demo_config) \<le> now (demo_env 200)"
    by (simp add: demo_config_def sat_add_def)
  from stamp_expiry_is_harmless [OF this] show ?thesis by blast
qed

section \<open>Followers and the due view\<close>

text \<open>
  C18. A follower runs only after its leader has run again, and at most once per leader
  run: when a job that follows another one executes, the leader exists and has run more
  often than the follower had seen; the follower then has seen all of the leader's runs, so
  it cannot run again before the leader does.
\<close>

theorem follower_waits_for_leader:
  assumes "reachable h (me e) s" and "execute h e a jid s = (Ok (), t)"
    and "parts (storage s) jid = Some (spec, st)" and "after spec = Some leader"
  shows "\<exists>l st'. s_states (storage s) leader = Some l \<and> leader_runs st < runs l
    \<and> s_states (storage t) leader = Some l
    \<and> parts (storage t) jid = Some (spec, st') \<and> leader_runs st' = runs l
    \<and> (\<forall>e' c' b. run_error h e' c' (storage t) b jid \<noteq> None)"
proof -
  note ok = reachable_ok [OF assms(1)]
  obtain c exec k spec' st' n w1 b hash w2 rec where x:
    "parts (storage s) jid = Some (spec', st')" "dependency (storage s) spec' st' = Inr n"
    "storage t = saved_record a rec (booked e c jid spec' st'
       (other_keeper h c (storage s) a jid spec' st') b n (storage s))"
    by (rule execute_effects [OF assms(2)])
  have eqs: "spec' = spec" "st' = st" using x(1) assms(3) by simp_all
  have self: "leader \<noteq> jid"
    using registry_okD(2) [OF ok, of jid spec] assms(3,4) by (auto simp: parts_Some_iff spec_ok_def)
  obtain l where l: "s_states (storage s) leader = Some l" "leader_runs st < runs l" "n = runs l"
    using x(2) assms(4) unfolding eqs by (auto simp: dependency_def split: option.splits if_splits)
  let ?st = "state_after e c spec st b n"
  have p: "parts (storage t) jid = Some (spec, ?st)" "s_states (storage t) leader = Some l"
    using x(3) assms(3) l(1) self unfolding eqs by (auto simp: parts_Some_iff)
  have "run_error h e' c' (storage t) b' jid \<noteq> None" for e' c' b'
  proof
    assume "run_error h e' c' (storage t) b' jid = None"
    from run_error_None(6) [OF this p(1)] show False
      using assms(4) p(2) l(3) by (auto simp: dependency_def)
  qed
  then show ?thesis using l p by auto
qed

theorem follower_waits_for_leader_witness:
  "\<exists>s t l. execute demo_host (demo_env 200) keeper_b 1 s = (Ok (), t)
    \<and> s_states (storage s) 0 = Some l \<and> 0 < runs l"
proof -
  obtain s t spec st where s: "reachable demo_host registry_at s"
    and t: "execute demo_host (demo_env 200) keeper_b 1 s = (Ok (), t)"
    and p: "parts (storage s) 1 = Some (spec, st)" "after spec = Some 0"
    using follower_runs by blast
  from follower_waits_for_leader [OF _ t p] s obtain l where
    "s_states (storage s) 0 = Some l" "leader_runs st < runs l" by auto
  then show ?thesis using t by (metis word_gt_0 word_not_simps(1))
qed

lemma wp_is_due:
  assumes "s_config (storage s) = Some c" "\<not> paused c" "executor c = Some exec"
    and "parts (storage s) jid = Some (spec, st)" "ensure_due spec st (now e) = Inr ()"
    and "s_halted (storage s) (target spec) = None"
    and "dependency (storage s) spec st = Inr n"
    and "resolver_says h e jid spec (world s) = Some (True, w)"
  shows "\<exists>t. is_due h e jid s = (Ok True, t)"
proof -
  let ?t = "seen (s_states (storage s) jid \<noteq> None \<and> s_specs (storage s) jid \<noteq> None) (KJob jid)
    (seen (s_states (storage s) jid \<noteq> None) (KJobState jid) (seen_instance s))"
  have "wp (dependency_met spec st) (\<lambda>x. wp (case Inr x of Inl _ \<Rightarrow> ok False
        | Inr _ \<Rightarrow> resolver_allows h e jid spec) (\<lambda>b _. b = True) (\<lambda>_ _. False) False)
      (\<lambda>x. wp (case Inl x of Inl _ \<Rightarrow> ok False
        | Inr _ \<Rightarrow> resolver_allows h e jid spec) (\<lambda>b _. b = True) (\<lambda>_ _. False) False) False ?t"
    by (rule wp_dependency_met) (use assms(7,8) in \<open>auto simp: wps same_def\<close>)
  then have "wp (is_due h e jid) (\<lambda>b _. b = True) (\<lambda>_ _. False) False s"
    using assms(1-6)
    by (simp add: is_due_def wp_bind wp_load_config wp_get_job_parts wp_is_target_halted wp_attempt)
  then show ?thesis by (auto simp: wp_def split: prod.splits outcome.splits)
qed

lemma execute_is_due:
  assumes "execute h e a jid s = (Ok (), t)"
  shows "\<exists>t'. is_due h e jid s = (Ok True, t')"
proof -
  obtain c exec k spec st n w1 where x: "s_config (storage s) = Some c" "\<not> paused c"
    "executor c = Some exec" "run_error h e c (storage s) a jid = None"
    "parts (storage s) jid = Some (spec, st)" "dependency (storage s) spec st = Inr n"
    "resolver_says h e jid spec (world s) = Some (True, w1)"
    by (rule execute_effects [OF assms])
  show ?thesis
    by (rule wp_is_due [OF x(1,2,3,5) run_error_None(1) [OF x(4,5)] run_error_None(3) [OF x(4,5)] x(6,7)])
qed

text \<open>
  The due view misses nothing: whenever some keeper's \<open>execute\<close> succeeds, \<open>is_due\<close>
  asked in the same state and at the same time answers true. (The converse fails: the view
  ignores allowlists and windows by design, and forbidden targets.)
\<close>

theorem executable_jobs_are_due:
  assumes "execute h e a jid s = (Ok (), t)"
  shows "\<exists>t'. is_due h e jid s = (Ok True, t')"
  using execute_is_due [OF assms] .

theorem executable_jobs_are_due_witness:
  "\<exists>s t. reachable demo_host registry_at s \<and> is_due demo_host (demo_env 90) 0 s = (Ok True, t)"
proof -
  obtain s t where s: "reachable demo_host registry_at s"
    and t: "execute demo_host (demo_env 90) keeper_a 0 s = (Ok (), t)"
    using demo_runs(1) by blast
  from executable_jobs_are_due [OF t] s show ?thesis by blast
qed

text \<open>The view does not look at \<open>is_forbidden_target\<close>: such a job is due and never runs.\<close>

lemma due_but_forbidden:
  assumes "s_config (storage s) = Some c" "\<not> paused c" "executor c = Some exec"
    and "parts (storage s) jid = Some (spec, st)" "ensure_due spec st (now e) = Inr ()"
    and "s_halted (storage s) (target spec) = None" "dependency (storage s) spec st = Inr n"
    and "resolver_says h e jid spec (world s) = Some (True, w)" and "target spec = exec"
  shows "(\<exists>t. is_due h e jid s = (Ok True, t))
    \<and> run_error h e c (storage s) a jid = Some ForbiddenTarget"
  using wp_is_due [OF assms(1-8)] assms(3-5,9)
  by (simp add: run_error_def is_forbidden_target_def)

end
