(* ===== verification/JobLaws.thy ===== *)
theory JobLaws
  imports Demo
begin

text \<open>
  The laws of the job entry points other than execution: what creation escrows, what an
  update may change, what the exits pay back, and that ids are never used twice.
\<close>

text \<open>Calls on the concrete deployment that the instances below use.\<close>

definition demo_update :: job_update where
  "demo_update =
     \<lparr>u_function = ''poke'', u_args = [], u_interval = 120, u_schedule = Interval,
      u_fee_per_run = 15, u_max_fee_per_run = 0, u_max_runs = 0, u_end_at = 0,
      u_resolver = None, u_keepers = None, u_after = None\<rparr>"

lemma demo_creates:
  assumes "stage demo_2 demo_stakes s"
  shows "wp (create_job demo_host (demo_env 50) alice demo_job 100) (\<lambda>_ _. True) (\<lambda>_ _. False) False s"
    and "wp (create_jobs demo_host (demo_env 50) alice [demo_job, demo_job] [100, 50]) (\<lambda>_ _. True)
      (\<lambda>_ _. False) False s"
  using assms
  by (simp_all add: create_job_def create_jobs_def validate_job_def validate_schedule_def
      insert_job_def wps stage_def demo_defs Let_def ensure_not_paused_def is_forbidden_target_def
      issued_def ledger_transfer_def demo_stakes_def addresses in_i128_def push_owner_job_def
      owner_ids_def new_state_def first_calendar_run_def MAX_BATCH_def)

section \<open>Creation\<close>

lemma inserted_job:
  "s_specs (inserted e a p n d) = (s_specs d)(issued d \<mapsto> new_spec a p)"
  "s_states (inserted e a p n d) = (s_states d)(issued d \<mapsto> new_state e p n
     (case p_after p of None \<Rightarrow> 0
      | Some l \<Rightarrow> (case s_states d l of None \<Rightarrow> 0 | Some st \<Rightarrow> runs st)))"
  "s_next_job_id (inserted e a p n d) = Some (issued d + 1)"
  "owner_ids x (inserted e a p n d) =
     (if x = a then owner_ids a d @ [issued d] else owner_ids x d)"
  "issued (inserted e a p n d) = issued d + 1"
  by (simp_all add: inserted_def Let_def push_owner_job_def owner_ids_def issued_def)

lemma create_job_Ok:
  assumes "create_job h e a p n s = (Ok jid, t)"
  shows "\<exists>c. s_config (storage s) = Some c \<and> \<not> paused c \<and> authorized e a
    \<and> validated e c (storage s) p n \<and> issued (storage s) \<noteq> - 1
    \<and> token_transfer h (fee_token c) a (me e) n (world s) = Some (world t)
    \<and> storage t = inserted e a p n (storage s) \<and> jid = issued (storage s)"
proof -
  have "wp (create_job h e a p n) (\<lambda>jid t.
    \<exists>c. s_config (storage s) = Some c \<and> \<not> paused c \<and> authorized e a
    \<and> validated e c (storage s) p n \<and> issued (storage s) \<noteq> - 1
    \<and> token_transfer h (fee_token c) a (me e) n (world s) = Some (world t)
    \<and> storage t = inserted e a p n (storage s) \<and> jid = issued (storage s)) (\<lambda>_ _. True) True s"
    by (auto simp: create_job_def wps ensure_not_paused_def same_def became_def split: option.split
        intro!: wp_validate_job wp_insert_job)
  from wp_OkD [OF this assms] show ?thesis .
qed

text \<open>
  C19. Creation escrows exactly the deposit. When \<open>create_job\<close> succeeds the owner signed,
  the registry was not paused, the deposit was moved from the owner to the registry in one
  transfer, the job has the next id, holds exactly the deposit, is active with no run and
  no failure, is first due at the first calendar match of the later of its start and now,
  is listed last among the owner's jobs, and no other job changed.
\<close>

theorem create_job_escrows_the_deposit:
  assumes "create_job h e a p n s = (Ok jid, t)"
  shows "\<exists>c st. s_config (storage s) = Some c \<and> \<not> paused c \<and> authorized e a
    \<and> token_transfer h (fee_token c) a (me e) n (world s) = Some (world t)
    \<and> jid = issued (storage s) \<and> issued (storage t) = jid + 1 \<and> jid < issued (storage t)
    \<and> p_fee_per_run p \<le> n \<and> \<not> is_forbidden_target e c (p_target p)
    \<and> s_specs (storage t) = (s_specs (storage s))(jid \<mapsto> new_spec a p)
    \<and> s_states (storage t) = (s_states (storage s))(jid \<mapsto> st)
    \<and> balance st = n \<and> active st \<and> runs st = 0 \<and> failures st = 0
    \<and> next_run st = first_calendar_run (p_schedule p) (max (p_start_at p) (now e))
    \<and> owner_ids a (storage t) = owner_ids a (storage s) @ [jid]"
proof -
  obtain c where c: "s_config (storage s) = Some c" "\<not> paused c" "authorized e a"
    "validated e c (storage s) p n" "issued (storage s) \<noteq> - 1"
    "token_transfer h (fee_token c) a (me e) n (world s) = Some (world t)"
    "storage t = inserted e a p n (storage s)" "jid = issued (storage s)"
    using create_job_Ok [OF assms] by blast
  have v: "p_fee_per_run p \<le> n" "\<not> is_forbidden_target e c (p_target p)"
    using c(4) by (auto simp: validated_def not_less)
  have "jid < issued (storage t)"
    using c(5,7,8) by (simp add: inserted_job count_succ)
  then show ?thesis
    using c v
    by (intro exI [of _ c] exI [of _ "new_state e p n (case p_after p of None \<Rightarrow> 0
        | Some l \<Rightarrow> (case s_states (storage s) l of None \<Rightarrow> 0 | Some st \<Rightarrow> runs st))"])
      (simp add: inserted_job new_state_def)
qed

theorem create_job_escrows_the_deposit_witness:
  "\<exists>s t. create_job demo_host (demo_env 50) alice demo_job 100 s = (Ok 0, t)
    \<and> map_option balance (s_states (storage t) 0) = Some 100"
proof -
  obtain s where s: "stage demo_2 demo_stakes s" using demo_staked by blast
  obtain j t where t: "create_job demo_host (demo_env 50) alice demo_job 100 s = (Ok j, t)"
    using wp_returns [OF demo_creates(1) [OF s]] by blast
  have "issued (storage s) = 0"
    using s by (simp add: stage_def issued_def demo_2_def demo_1_def empty_store_def)
  with create_job_escrows_the_deposit [OF t] have
    "j = 0 \<and> map_option balance (s_states (storage t) 0) = Some 100" by auto
  then show ?thesis using t by blast
qed

text \<open>A batch of creations, as one transfer and a fold of insertions.\<close>

definition inserted_all :: "env \<Rightarrow> address \<Rightarrow> (job_params \<times> int) list \<Rightarrow> reg_store \<Rightarrow> reg_store" where
  "inserted_all e a xs d = fold (\<lambda>(p, n). inserted e a p n) xs d"

fun ids_from :: "u64 \<Rightarrow> nat \<Rightarrow> u64 list" where
  "ids_from j 0 = []"
| "ids_from j (Suc n) = j # ids_from (j + 1) n"

lemma wp_insert_all:
  assumes "\<And>t. storage t = inserted_all e a xs (storage s) \<Longrightarrow> world t = world s \<Longrightarrow>
      Q (ids_from (issued (storage s)) (length xs)) t"
  shows "wp (collect (\<lambda>(p, n). insert_job e a p n) xs) Q (\<lambda>_ _. True) True s"
  using assms
proof (induction xs arbitrary: s Q)
  case Nil
  then show ?case by (simp add: wps inserted_all_def)
next
  case (Cons y xs)
  obtain p n where y: "y = (p, n)" by (cases y)
  show ?case
    unfolding collect.simps wp_bind y prod.case
  proof (rule wp_insert_job)
    fix t assume t: "became (inserted e a p n (storage s)) (world s)
        [JobEvent (JobCreated (issued (storage s)) a (p_target p) (interval (new_spec a p))
          (p_fee_per_run p) n)] s t"
    have t': "storage t = inserted e a p n (storage s)" "world t = world s"
      using t by (simp_all add: became_def)
    show "wp (collect (\<lambda>(p, n). insert_job e a p n) xs)
        (\<lambda>ys. wp (ok (issued (storage s) # ys)) Q (\<lambda>_ _. True) True) (\<lambda>_ _. True) True t"
      by (rule Cons.IH) (use t' in \<open>auto simp: wp_ok inserted_all_def inserted_job
          intro!: Cons.prems [simplified inserted_all_def y, simplified]\<close>)
  qed simp
qed

text \<open>
  A batch of creations is one transfer and one insertion after the other: when
  \<open>create_jobs\<close> succeeds, the sum of the deposits moved in one transfer, the ids are
  consecutive from the next id on, every job was validated against the state before the
  call, and the registry's entries are those of inserting the jobs in order.
\<close>

theorem create_jobs_inserts_in_order:
  assumes "create_jobs h e a ps ns s = (Ok jids, t)"
  shows "\<exists>c. s_config (storage s) = Some c \<and> \<not> paused c \<and> authorized e a
    \<and> length ps = length ns \<and> ps \<noteq> [] \<and> length ps \<le> 20
    \<and> token_transfer h (fee_token c) a (me e) (sum_list ns) (world s) = Some (world t)
    \<and> (\<forall>(p, n) \<in> set (zip ps ns). validated e c (storage s) p n)
    \<and> jids = ids_from (issued (storage s)) (length ps)
    \<and> storage t = inserted_all e a (zip ps ns) (storage s)"
proof -
  have sums: "(\<Sum>(p, n) \<leftarrow> zip ps ns. n) = sum_list ns" if "length ps = length ns"
    using that by (induction ps ns rule: list_induct2) simp_all
  have "wp (create_jobs h e a ps ns) (\<lambda>jids t. \<exists>c. s_config (storage s) = Some c \<and> \<not> paused c
    \<and> authorized e a \<and> length ps = length ns \<and> ps \<noteq> [] \<and> length ps \<le> 20
    \<and> token_transfer h (fee_token c) a (me e) (sum_list ns) (world s) = Some (world t)
    \<and> (\<forall>(p, n) \<in> set (zip ps ns). validated e c (storage s) p n)
    \<and> jids = ids_from (issued (storage s)) (length ps)
    \<and> storage t = inserted_all e a (zip ps ns) (storage s)) (\<lambda>_ _. True) True s"
    unfolding create_jobs_def
    apply (simp add: wp_andthen wp_bind wp_load_config wp_lift_result ensure_not_paused_def
        wp_require_auth wp_fail_if split: option.split)
    apply (intro allI impI conjI wp_validate_all)
    subgoal for c t
      by (auto simp: wp_andthen wp_transfer same_def sums MAX_BATCH_def not_less split: option.split
          intro!: wp_insert_all)
    done
  from wp_OkD [OF this assms] show ?thesis .
qed

theorem create_jobs_inserts_in_order_witness:
  "\<exists>s t. create_jobs demo_host (demo_env 50) alice [demo_job, demo_job] [100, 50] s = (Ok [0, 1], t)
    \<and> token_transfer demo_host xlm alice registry_at 150 (world s) = Some (world t)"
proof -
  obtain s where s: "stage demo_2 demo_stakes s" using demo_staked by blast
  obtain js t where t: "create_jobs demo_host (demo_env 50) alice [demo_job, demo_job] [100, 50] s
      = (Ok js, t)"
    using wp_returns [OF demo_creates(2) [OF s]] by blast
  have d: "issued (storage s) = 0" "s_config (storage s) = Some demo_config" "fee_token demo_config = xlm"
    using s by (simp_all add: stage_def issued_def demo_2_def demo_1_def empty_store_def
        demo_config_def initial_config_def)
  from create_jobs_inserts_in_order [OF t] t d show ?thesis by auto
qed

section \<open>Money in and out\<close>

text \<open>
  Funding works and counts. For a sound token, in any reachable state, a call to
  \<open>fund_job\<close> that is signed, positive, on an existing job of a registry that is not
  paused, and whose transfer the token accepts, returns the balance plus the amount (the
  addition cannot overflow, since the registry already holds what it owes), and changes no
  other job.
\<close>

theorem fund_job_credits_the_amount:
  assumes "reachable h (me e) s" and "sound_host h (me e)" and "\<not> authorized e (me e)"
    and "s_config (storage s) = Some c" and "\<not> paused c" and "authorized e a" and "0 < n"
    and "s_states (storage s) j = Some st"
    and "token_transfer h (fee_token c) a (me e) n (world s) = Some w"
  shows "\<exists>t. fund_job h e a j n s = (Ok (balance st + n), t) \<and> world t = w
    \<and> s_states (storage t) = (s_states (storage s))(j \<mapsto> st\<lparr>balance := balance st + n\<rparr>)
    \<and> s_specs (storage t) = s_specs (storage s)"
proof -
  note ok = reachable_ok [OF assms(1)] and cov = reachable_covers [OF assms(2,1)]
  have f: "fair_call h e" using assms(2,3) by (simp add: fair_call_def)
  have "covers None h (me e) (0 + n) 0 (s\<lparr>world := w\<rparr>)"
    by (rule covers_fee_in [OF fair_callD(1) [OF f] cov assms(4,9)]) (use assms(6) fair_callD(3) [OF f] in auto)
  from covers_bound [OF fair_callD(1) [OF f] this] have "n + total balance (s_states (storage s)) < 2 ^ 127"
    using ok assms(4) by simp
  then have "in_i128 (balance st + n)"
    using balance_le_total [OF ok assms(8)] registry_okD(1) [OF ok assms(8)] assms(7)
    by (simp add: in_i128_def)
  then have "wp (fund_job h e a j n) (\<lambda>m t. m = balance st + n \<and> world t = w
    \<and> s_states (storage t) = (s_states (storage s))(j \<mapsto> st\<lparr>balance := balance st + n\<rparr>)
    \<and> s_specs (storage t) = s_specs (storage s)) (\<lambda>_ _. False) False s"
    using assms by (simp add: fund_job_def wps ensure_not_paused_def)
  from wp_returns [OF this] show ?thesis by blast
qed

theorem fund_job_credits_the_amount_witness:
  "\<exists>s t. fund_job demo_host (demo_env 60) alice 0 5 s = (Ok 105, t)"
proof -
  obtain s where s: "reachable demo_host registry_at s" "stage demo_store demo_funds s"
    using demo_reachable by blast
  have d: "s_config (storage s) = Some demo_config" "s_states (storage s) 0 = Some demo_state"
    "\<not> paused demo_config" "fee_token demo_config = xlm" "balance demo_state = 100"
    "alice \<noteq> registry_at"
    using s(2) by (simp_all add: stage_def demo_config_def initial_config_def demo_state_def addresses)
  have "token_transfer demo_host xlm alice registry_at 5 (world s) \<noteq> None"
    using s(2) by (simp add: stage_def ledger_transfer_def demo_funds_def demo_stakes_def addresses)
  then obtain w where "token_transfer demo_host xlm alice registry_at 5 (world s) = Some w" by blast
  with fund_job_credits_the_amount [of demo_host "demo_env 60" s demo_config alice 5 0 demo_state w] s(1) d
  show ?thesis by (auto simp: demo_sound)
qed

text \<open>
  C10. An owner can always leave. In any reachable state, paused or not, \<open>cancel_job\<close> signed
  by the owner returns the job's whole balance, provided the token accepts that one payout;
  afterwards the job is gone from every entry (terms, state, ownership proposal, every
  owner's list) and no other job changed.
\<close>

theorem cancel_job_refunds_everything:
  assumes "reachable h a s" and "s_config (storage s) = Some c"
    and "parts (storage s) j = Some (spec, st)" and "authorized e (owner spec)"
    and "if balance st = 0 then w = world s
      else token_transfer h (fee_token c) (me e) (owner spec) (balance st) (world s) = Some w"
  shows "\<exists>t. cancel_job h e j s = (Ok (balance st), t) \<and> world t = w
    \<and> s_specs (storage t) = (s_specs (storage s))(j := None)
    \<and> s_states (storage t) = (s_states (storage s))(j := None)
    \<and> s_pending_owners (storage t) j = None
    \<and> (\<forall>x. j \<notin> set (owner_ids x (storage t)))"
proof -
  note ok = reachable_ok [OF assms(1)]
  have 0: "0 \<le> balance st" using registry_okD(1) [OF ok] assms(3) by (auto simp: parts_Some_iff)
  have "wp (cancel_job h e j) (\<lambda>m t. m = balance st \<and> world t = w
    \<and> s_specs (storage t) = (s_specs (storage s))(j := None)
    \<and> s_states (storage t) = (s_states (storage s))(j := None)
    \<and> s_pending_owners (storage t) j = None) (\<lambda>_ _. False) False s"
    using assms 0 by (auto simp: cancel_job_def wps Let_def split: if_splits)
  from wp_returns [OF this] obtain t where t: "cancel_job h e j s = (Ok (balance st), t)"
    "world t = w" "s_specs (storage t) = (s_specs (storage s))(j := None)"
    "s_states (storage t) = (s_states (storage s))(j := None)" "s_pending_owners (storage t) j = None"
    by blast
  have "registry_ok (storage t)"
    using wp_OkD [OF cancel_job_keeps [rule_format] t(1)] ok by blast
  then have "index_ok (s_specs (storage t)) (s_owner_jobs (storage t))" by (simp add: registry_ok_def)
  then have "j \<notin> set (owner_ids x (storage t))" for x
    using t(3) by (simp add: index_ok_def owner_ids_listed)
  then show ?thesis using t by blast
qed

theorem cancel_job_refunds_everything_witness:
  "\<exists>s t. cancel_job demo_host (demo_env 60) 0 s = (Ok 100, t) \<and> s_states (storage t) 0 = None"
proof -
  obtain s where s: "reachable demo_host registry_at s" "stage demo_store demo_funds s"
    using demo_reachable by blast
  have d: "s_config (storage s) = Some demo_config" "parts (storage s) 0 = Some (demo_spec, demo_state)"
    "fee_token demo_config = xlm" "balance demo_state = 100" "owner demo_spec = alice" "alice \<noteq> registry_at"
    using s(2) by (simp_all add: stage_def demo_config_def initial_config_def demo_state_def
        demo_spec_def new_spec_def addresses)
  have "token_transfer demo_host xlm registry_at alice 100 (world s) \<noteq> None"
    using s(2) by (simp add: stage_def ledger_transfer_def demo_funds_def demo_stakes_def addresses)
  then obtain w where "token_transfer demo_host xlm registry_at alice 100 (world s) = Some w" by blast
  with cancel_job_refunds_everything [OF s(1) d(1,2), of "demo_env 60" w] d have
    "\<exists>t. cancel_job demo_host (demo_env 60) 0 s = (Ok 100, t) \<and> s_states (storage t) 0 = None" by auto
  then show ?thesis by blast
qed

text \<open>
  A withdrawal pays what was asked and no more: it needs the owner's signature, a
  positive amount covered by the job's balance, and lowers that balance by exactly the
  amount paid; nothing else of the job, and no other job, changes.
\<close>

theorem withdraw_pays_exactly:
  assumes "withdraw_job_balance h e j n s = (Ok m, t)"
  shows "\<exists>c spec st. s_config (storage s) = Some c \<and> parts (storage s) j = Some (spec, st)
    \<and> authorized e (owner spec) \<and> 0 < n \<and> n \<le> balance st \<and> m = balance st - n
    \<and> token_transfer h (fee_token c) (me e) (owner spec) n (world s) = Some (world t)
    \<and> s_specs (storage t) = s_specs (storage s)
    \<and> s_states (storage t) = (s_states (storage s))(j \<mapsto> st\<lparr>balance := balance st - n\<rparr>)"
proof -
  have "wp (withdraw_job_balance h e j n) (\<lambda>m t.
      \<exists>c spec st. s_config (storage s) = Some c \<and> parts (storage s) j = Some (spec, st)
    \<and> authorized e (owner spec) \<and> 0 < n \<and> n \<le> balance st \<and> m = balance st - n
    \<and> token_transfer h (fee_token c) (me e) (owner spec) n (world s) = Some (world t)
    \<and> s_specs (storage t) = s_specs (storage s)
    \<and> s_states (storage t) = (s_states (storage s))(j \<mapsto> st\<lparr>balance := balance st - n\<rparr>))
    (\<lambda>_ _. True) True s"
    by (auto simp: withdraw_job_balance_def wps Let_def split: option.split)
  from wp_OkD [OF this assms] show ?thesis .
qed

theorem withdraw_pays_exactly_witness:
  "\<exists>s t. withdraw_job_balance demo_host (demo_env 60) 0 30 s = (Ok 70, t)
    \<and> token_transfer demo_host xlm registry_at alice 30 (world s) = Some (world t)"
proof -
  obtain s where s: "stage demo_store demo_funds s" using demo_reachable by blast
  have d: "s_config (storage s) = Some demo_config" "parts (storage s) 0 = Some (demo_spec, demo_state)"
    "fee_token demo_config = xlm" "balance demo_state = 100" "owner demo_spec = alice" "alice \<noteq> registry_at"
    using s by (simp_all add: stage_def demo_config_def initial_config_def demo_state_def
        demo_spec_def new_spec_def addresses)
  have "wp (withdraw_job_balance demo_host (demo_env 60) 0 30) (\<lambda>_ _. True) (\<lambda>_ _. False) False s"
    using s d by (simp add: withdraw_job_balance_def wps stage_def in_i128_def
        ledger_transfer_def demo_funds_def demo_stakes_def addresses)
  from wp_returns [OF this]
  obtain m t where t: "withdraw_job_balance demo_host (demo_env 60) 0 30 s = (Ok m, t)" by blast
  from withdraw_pays_exactly [OF t] obtain c spec st where x: "s_config (storage s) = Some c"
    "parts (storage s) 0 = Some (spec, st)" "m = balance st - 30"
    "token_transfer demo_host (fee_token c) (me (demo_env 60)) (owner spec) 30 (world s) = Some (world t)"
    by (elim exE conjE) (rule that)
  have "c = demo_config" "spec = demo_spec" "st = demo_state" using x(1,2) d(1,2) by simp_all
  then have "m = 70 \<and> token_transfer demo_host xlm registry_at alice 30 (world s) = Some (world t)"
    using x(3,4) d(3-5) by simp
  then show ?thesis using t by blast
qed

section \<open>Changes\<close>

definition update_effect :: "env \<Rightarrow> u64 \<Rightarrow> job_update \<Rightarrow> job_spec \<Rightarrow> job_state \<Rightarrow> reg_store \<Rightarrow> reg_store \<Rightarrow> bool" where
  "update_effect e j u spec st d d' \<longleftrightarrow> (\<exists>effective n.
     s_specs d' = (s_specs d)(j \<mapsto> (updated_spec u effective spec)\<lparr>after := u_after u\<rparr>)
     \<and> s_states d' = (s_states d)(j \<mapsto> (rescheduled e u spec st)\<lparr>leader_runs := n\<rparr>)
     \<and> (u_after u = after spec \<longrightarrow> n = leader_runs st))"

lemma wp_store_update:
  assumes "\<And>t. update_effect e j u spec st (storage s) (storage t) \<Longrightarrow> world t = world s \<Longrightarrow> Q () t"
  shows "wp (store_update e c j u effective spec st) Q (\<lambda>_ _. True) True s"
proof -
  have "(updated_spec u effective spec)\<lparr>after := after spec\<rparr> = updated_spec u effective spec"
    "(rescheduled e u spec st)\<lparr>leader_runs := leader_runs st\<rparr> = rescheduled e u spec st"
    by (simp_all add: updated_spec_def rescheduled_def)
  then have same: "u_after u = after spec \<Longrightarrow> s_specs d' = (s_specs (storage s))(j \<mapsto> updated_spec u effective spec) \<Longrightarrow>
      s_states d' = (s_states (storage s))(j \<mapsto> rescheduled e u spec st) \<Longrightarrow>
      update_effect e j u spec st (storage s) d'" for d'
    unfolding update_effect_def by metis
  have other: "u_after u \<noteq> after spec \<Longrightarrow>
      s_specs d' = (s_specs (storage s))(j \<mapsto> (updated_spec u effective spec)\<lparr>after := u_after u\<rparr>) \<Longrightarrow>
      s_states d' = (s_states (storage s))(j \<mapsto> (rescheduled e u spec st)\<lparr>leader_runs := n\<rparr>) \<Longrightarrow>
      update_effect e j u spec st (storage s) d'" for d' n
    unfolding update_effect_def by metis
  show ?thesis
  proof (cases "u_after u = after spec")
    case True
    then show ?thesis by (simp add: store_update_def wps) (auto intro!: assms same)
  next
    case False
    then show ?thesis
      by (auto simp: store_update_def leader_run_count_def wps split: option.split
          intro!: assms other)
  qed
qed

text \<open>
  An update changes terms, not money and not the clock. When \<open>update_job\<close> succeeds, the
  owner signed and the registry was not paused; the job keeps its owner, its target, its
  balance, its counters and its activity, and its next run unless it moved to another
  calendar, in which case it becomes the first match from now; a followed job is only
  re-read when the dependency changed; no other job changes.
\<close>

theorem update_job_keeps_money_and_clock:
  assumes "update_job e j u s = (Ok (), t)"
  shows "\<exists>c spec st spec' st'. s_config (storage s) = Some c \<and> \<not> paused c
    \<and> parts (storage s) j = Some (spec, st) \<and> authorized e (owner spec)
    \<and> s_specs (storage t) = (s_specs (storage s))(j \<mapsto> spec')
    \<and> s_states (storage t) = (s_states (storage s))(j \<mapsto> st')
    \<and> owner spec' = owner spec \<and> target spec' = target spec \<and> after spec' = u_after u
    \<and> fee_per_run spec' = u_fee_per_run u \<and> keepers spec' = u_keepers u
    \<and> balance st' = balance st \<and> runs st' = runs st \<and> failures st' = failures st
    \<and> active st' = active st
    \<and> next_run st' = (if u_schedule u \<noteq> Interval \<and> u_schedule u \<noteq> schedule spec
         then first_calendar_run (u_schedule u) (now e) else next_run st)
    \<and> (u_after u = after spec \<longrightarrow> leader_runs st' = leader_runs st)
    \<and> world t = world s"
proof -
  have "wp (update_job e j u) (\<lambda>_ t. \<exists>c spec st. s_config (storage s) = Some c \<and> \<not> paused c
      \<and> parts (storage s) j = Some (spec, st) \<and> authorized e (owner spec)
      \<and> update_effect e j u spec st (storage s) (storage t) \<and> world t = world s) (\<lambda>_ _. True) True s"
    by (auto simp: update_job_def wps ensure_not_paused_def Let_def split: option.split sum.split
        intro!: wp_store_update)
  from wp_OkD [OF this assms] obtain c spec st where x: "s_config (storage s) = Some c" "\<not> paused c"
    "parts (storage s) j = Some (spec, st)" "authorized e (owner spec)"
    "update_effect e j u spec st (storage s) (storage t)" "world t = world s"
    by blast
  from x(5) obtain effective n where d:
    "s_specs (storage t) = (s_specs (storage s))(j \<mapsto> (updated_spec u effective spec)\<lparr>after := u_after u\<rparr>)"
    "s_states (storage t) = (s_states (storage s))(j \<mapsto> (rescheduled e u spec st)\<lparr>leader_runs := n\<rparr>)"
    "u_after u = after spec \<longrightarrow> n = leader_runs st"
    by (auto simp: update_effect_def)
  have kept: "balance (rescheduled e u spec st) = balance st" "runs (rescheduled e u spec st) = runs st"
    "failures (rescheduled e u spec st) = failures st" "active (rescheduled e u spec st) = active st"
    "next_run (rescheduled e u spec st) = (if u_schedule u \<noteq> Interval \<and> u_schedule u \<noteq> schedule spec
         then first_calendar_run (u_schedule u) (now e) else next_run st)"
    by (simp_all add: rescheduled_def)
  show ?thesis
    using x d kept
    by (intro exI [of _ c] exI [of _ spec] exI [of _ st]
        exI [of _ "(updated_spec u effective spec)\<lparr>after := u_after u\<rparr>"]
        exI [of _ "(rescheduled e u spec st)\<lparr>leader_runs := n\<rparr>"])
      (simp add: updated_spec_def)
qed

theorem update_job_keeps_money_and_clock_witness:
  "\<exists>(s :: ledger registry) t. update_job (demo_env 60) 0 demo_update s = (Ok (), t)
    \<and> map_option balance (s_states (storage t) 0) = Some 100"
proof -
  obtain s where s: "stage demo_store demo_funds s" using demo_reachable by blast
  have "wp (update_job (demo_env 60) 0 demo_update) (\<lambda>_ _. True) (\<lambda>_ _. False) False s"
    using s by (simp add: update_job_def store_update_def validate_schedule_def wps stage_def
        ensure_not_paused_def demo_update_def leader_run_count_def Let_def demo_config_def
        initial_config_def demo_spec_def new_spec_def demo_job_def addresses)
  from wp_returns [OF this]
  obtain t where t: "update_job (demo_env 60) 0 demo_update s = (Ok (), t)" by auto
  have "parts (storage s) 0 = Some (demo_spec, demo_state)" "balance demo_state = 100"
    using s by (simp_all add: stage_def demo_state_def)
  note d = this
  from update_job_keeps_money_and_clock [OF t] obtain spec st st' where
    x: "parts (storage s) 0 = Some (spec, st)" "balance st' = balance st"
    "s_states (storage t) = (s_states (storage s))(0 \<mapsto> st')"
    by (elim exE conjE) (rule that)
  have "st = demo_state" using x(1) d(1) by simp
  then have "map_option balance (s_states (storage t) 0) = Some 100" using x(2,3) d(2) by simp
  then show ?thesis using t by blast
qed

end
