(* ===== verification/KeeperLaws.thy ===== *)
theory KeeperLaws
  imports Demo
begin

text \<open>
  The laws of staking: when a keeper joins and leaves the rotation, when its stake comes
  back, and that nothing but its own wait stands in the way.
\<close>

section \<open>Leaving\<close>

text \<open>
  Unbonding starts the clock and ends the duties: when \<open>begin_unbonding\<close> succeeds the
  keeper signed and was not leaving already; the returned release time is at least the
  unbonding period and at most the period and one epoch away; the keeper is out of the
  rotation and can no longer execute, its stake is untouched, no other keeper changes, and
  every assigned window starts afresh.
\<close>

theorem begin_unbonding_ends_duties:
  assumes "reachable h a0 s" and "begin_unbonding e a s = (Ok release, t)"
  shows "\<exists>c k. s_config (storage s) = Some c \<and> authorized e a \<and> s_keepers (storage s) a = Some k
    \<and> unbonding_at k = None
    \<and> s_keepers (storage t) = (s_keepers (storage s))(a \<mapsto> k\<lparr>unbonding_at := Some release\<rparr>)
    \<and> min (2 ^ 64 - 1) (unat (now e) + unat (unbonding_period c)) \<le> unat release
    \<and> unat release \<le> unat (now e) + unat (unbonding_epoch c) + unat (unbonding_period c)
    \<and> a \<notin> set (rotation (storage t))
    \<and> \<not> eligible c (k\<lparr>unbonding_at := Some release\<rparr>)
    \<and> s_windows_reset (storage t) = Some (now e)"
proof -
  note ok = reachable_ok [OF assms(1)]
  have dist: "distinct (rotation (storage s))"
    using ok by (simp add: registry_ok_def keepers_ok_rotation bonded_def)
  have least: "min (2 ^ 64 - 1) (unat n + unat p) \<le> unat (unbonding_release n p q)" for n p q
    using unbonding_release_epoch [of q n n p]
    by (cases "q = 0") (auto simp: unat_unbonding_release min.commute)
  have "wp (begin_unbonding e a) (\<lambda>release t. \<exists>c k. s_config (storage s) = Some c \<and> authorized e a
    \<and> s_keepers (storage s) a = Some k \<and> unbonding_at k = None
    \<and> release = unbonding_release (now e) (unbonding_period c) (unbonding_epoch c)
    \<and> s_keepers (storage t) = (s_keepers (storage s))(a \<mapsto> k\<lparr>unbonding_at := Some release\<rparr>)
    \<and> a \<notin> set (rotation (storage t))
    \<and> s_windows_reset (storage t) = Some (now e)) (\<lambda>_ _. True) True s"
    using dist
    by (auto simp: begin_unbonding_def wps Let_def rotation_def drop_active_def split: option.split)
  from wp_OkD [OF this assms(2)] obtain c k where x: "s_config (storage s) = Some c" "authorized e a"
    "s_keepers (storage s) a = Some k" "unbonding_at k = None"
    "release = unbonding_release (now e) (unbonding_period c) (unbonding_epoch c)"
    "s_keepers (storage t) = (s_keepers (storage s))(a \<mapsto> k\<lparr>unbonding_at := Some release\<rparr>)"
    "a \<notin> set (rotation (storage t))" "s_windows_reset (storage t) = Some (now e)"
    by (elim exE conjE) (rule that)
  show ?thesis
    using x least [of "now e" "unbonding_period c" "unbonding_epoch c"]
      unbonding_release_upper [of "now e" "unbonding_period c" "unbonding_epoch c"]
    by (intro exI [of _ c] exI [of _ k]) (simp add: ensure_active_keeper_def)
qed

definition leaving_store :: reg_store where
  "leaving_store = demo_store\<lparr>
     s_keepers := (s_keepers demo_store)(keeper_a \<mapsto> (demo_keeper 200)\<lparr>unbonding_at := Some 1060\<rparr>),
     s_active_keepers := Some [keeper_b], s_windows_reset := Some 60\<rparr>"

lemma demo_leaves:
  assumes "stage demo_store demo_funds s"
  shows "wp (begin_unbonding (demo_env 60) keeper_a) (\<lambda>_ t. stage leaving_store demo_funds t)
    (\<lambda>_ _. False) False s"
  using assms
  by (simp add: begin_unbonding_def wps Let_def stage_def leaving_store_def drop_active_def rotation_def
      unbonding_release_def checked_div_def sat_add_def demo_keeper_def fresh_keeper_def
      demo_config_def initial_config_def addresses)

lemma demo_left: "\<exists>s. reachable demo_host registry_at s \<and> stage leaving_store demo_funds s"
  by (rule stage_step [OF demo_reachable, where x = "BeginUnbonding keeper_a" and at = 60])
    (simp_all add: wp_void demo_leaves)

theorem begin_unbonding_ends_duties_witness:
  "\<exists>s t release. begin_unbonding (demo_env 60) keeper_a s = (Ok release, t)
    \<and> reachable demo_host registry_at s \<and> keeper_a \<notin> set (rotation (storage t))"
proof -
  obtain s where s: "reachable demo_host registry_at s" "stage demo_store demo_funds s"
    using demo_reachable by blast
  from wp_returns [OF demo_leaves [OF s(2)]] obtain release t where
    t: "begin_unbonding (demo_env 60) keeper_a s = (Ok release, t)" by blast
  from begin_unbonding_ends_duties [OF s(1) t] have "keeper_a \<notin> set (rotation (storage t))"
    by (elim exE conjE)
  then show ?thesis using s(1) t by blast
qed

text \<open>
  C11. A stake always comes back: in any reachable state, paused or not, a keeper whose
  release time has come and whose payout the token accepts gets its whole stake from
  \<open>withdraw_stake\<close>, and is gone afterwards (record, statistics, rotation) while no other
  keeper changes. Before that time the call is refused.
\<close>

theorem withdraw_stake_pays_in_full:
  assumes "reachable h a0 s" and "s_config (storage s) = Some c" and "authorized e a"
    and "s_keepers (storage s) a = Some k" and "unbonding_at k = Some release"
    and "token_transfer h (stake_token c) (me e) a (stake k) (world s) = Some w"
  shows "if now e < release then \<exists>t. withdraw_stake h e a s = (Err UnbondingNotFinished, t)
    else \<exists>t. withdraw_stake h e a s = (Ok (stake k), t) \<and> world t = w
      \<and> s_keepers (storage t) = (s_keepers (storage s))(a := None)
      \<and> s_recents (storage t) = (s_recents (storage s))(a := None)
      \<and> a \<notin> set (rotation (storage t))"
proof (cases "now e < release")
  case True
  then have "wp (withdraw_stake h e a) (\<lambda>_ _. False) (\<lambda>x _. x = UnbondingNotFinished) False s"
    using assms by (simp add: withdraw_stake_def release_stake_def wps)
  then show ?thesis
    using True by (auto simp: wp_def split: prod.splits outcome.splits)
next
  case False
  note ok = reachable_ok [OF assms(1)]
  have rot: "a \<notin> set (rotation (storage s))"
    using ok assms(4,5) by (auto simp: registry_ok_def keepers_ok_rotation bonded_def)
  have "0 < stake k" using ok assms(4) by (auto simp: registry_ok_def keepers_ok_def)
  then have "wp (withdraw_stake h e a) (\<lambda>n t. n = stake k \<and> world t = w
      \<and> s_keepers (storage t) = (s_keepers (storage s))(a := None)
      \<and> s_recents (storage t) = (s_recents (storage s))(a := None)
      \<and> a \<notin> set (rotation (storage t))) (\<lambda>_ _. False) False s"
    using assms False rot
    by (simp add: withdraw_stake_def release_stake_def wps Let_def without_keeper_def rotation_def)
  from wp_returns [OF this] show ?thesis using False by auto
qed

theorem withdraw_stake_pays_in_full_witness:
  "\<exists>s t. withdraw_stake demo_host (demo_env 1060) keeper_a s = (Ok 200, t)
    \<and> reachable demo_host registry_at s \<and> s_keepers (storage t) keeper_a = None"
proof -
  obtain s where s: "reachable demo_host registry_at s" "stage leaving_store demo_funds s"
    using demo_left by blast
  let ?k = "(demo_keeper 200)\<lparr>unbonding_at := Some 1060\<rparr>"
  have d: "s_config (storage s) = Some demo_config" "authorized (demo_env 1060) keeper_a"
    "s_keepers (storage s) keeper_a = Some ?k" "unbonding_at ?k = Some 1060" "stake ?k = 200"
    "stake_token demo_config = bond"
    using s(2) by (simp_all add: stage_def leaving_store_def demo_config_def initial_config_def
        demo_keeper_def addresses)
  have "token_transfer demo_host bond registry_at keeper_a 200 (world s) \<noteq> None"
    using s(2) by (simp add: stage_def ledger_transfer_def demo_funds_def demo_stakes_def addresses)
  then obtain w where "token_transfer demo_host bond registry_at keeper_a 200 (world s) = Some w" by blast
  then have w: "token_transfer demo_host (stake_token demo_config) (me (demo_env 1060)) keeper_a (stake ?k)
      (world s) = Some w" by (simp add: d)
  from withdraw_stake_pays_in_full [OF s(1) d(1-4) w] d(5) have
    "\<exists>t. withdraw_stake demo_host (demo_env 1060) keeper_a s = (Ok 200, t)
      \<and> s_keepers (storage t) keeper_a = None" by auto
  then show ?thesis using s(1) by blast
qed

section \<open>Several at once\<close>

text \<open>
  One keeper never blocks another's exit: \<open>withdraw_stakes\<close> has no error but a wrong
  batch size, answers one amount per listed keeper, and each of them pays out or skips on
  its own: a keeper that is unknown, not leaving or not yet released answers 0.
\<close>

theorem withdraw_stakes_skips_and_goes_on:
  "case withdraw_stakes h e as s of
     (Ok sums, _) \<Rightarrow> length sums = length as \<and> as \<noteq> [] \<and> length as \<le> 20
   | (Err x, t) \<Rightarrow> x = InvalidBatchSize \<and> (as = [] \<or> 20 < length as) \<and> t = s
   | (Trap, _) \<Rightarrow> True"
proof -
  have loop: "wp (collect (\<lambda>a. bind (attempt (release_stake h e c a)) (\<lambda>res.
      ok (case res of Inl _ \<Rightarrow> 0 | Inr n \<Rightarrow> n))) xs) (\<lambda>ys _. length ys = length xs) (\<lambda>_ _. False) True t"
    for c xs t
  proof (induction xs arbitrary: t)
    case Nil
    then show ?case by (simp add: wp_ok)
  next
    case (Cons x xs)
    have "wp (release_stake h e c x) (\<lambda>_ _. True) (\<lambda>_ _. True) True t" by simp
    then show ?case
      unfolding collect.simps wp_bind wp_attempt
      by (rule wp_mono) (auto simp: wp_ok intro: wp_mono [OF Cons.IH])
  qed
  have "wp (withdraw_stakes h e as) (\<lambda>sums _. length sums = length as \<and> as \<noteq> [] \<and> length as \<le> 20)
    (\<lambda>x t. x = InvalidBatchSize \<and> (as = [] \<or> 20 < length as) \<and> t = s) True s"
    unfolding withdraw_stakes_def
    by (auto simp: wp_andthen wp_fail_if wp_bind [of load_config] wp_load_config MAX_BATCH_def not_less
        split: option.split intro: wp_mono [OF loop])
  then show ?thesis by (simp add: wp_def split: prod.splits outcome.splits)
qed

section \<open>Statistics\<close>

text \<open>
  Keeper statistics stay in range: in any reachable state every recorded keeper has a
  positive stake, the rotation lists at most 64 keepers, each once and each bonded and not
  leaving, and the recent miss rate that \<open>keeper_stats\<close> reports never exceeds 100%.
\<close>

theorem keepers_stay_in_range:
  assumes "reachable h a0 s"
  shows "length (rotation (storage s)) \<le> 64 \<and> distinct (rotation (storage s))
    \<and> (\<forall>a \<in> set (rotation (storage s)). \<exists>k. s_keepers (storage s) a = Some k \<and> unbonding_at k = None)
    \<and> (\<forall>a k. s_keepers (storage s) a = Some k \<longrightarrow> 0 < stake k)
    \<and> (\<forall>a stats t. keeper_stats_view a s = (Ok (Some stats), t) \<longrightarrow> ks_recent_miss_bps stats \<le> 10000)"
proof -
  note ok = reachable_ok [OF assms]
  have "bonded (s_keepers (storage s)) (rotation (storage s))"
    using ok by (simp add: registry_ok_def keepers_ok_rotation)
  moreover have "\<forall>a k. s_keepers (storage s) a = Some k \<longrightarrow> 0 < stake k"
    using ok by (auto simp: registry_ok_def keepers_ok_def)
  moreover have "ks_recent_miss_bps stats \<le> 10000"
    if "keeper_stats_view a s = (Ok (Some stats), t)" for a stats t
  proof -
    have "unat (misses (recent_of (storage s) a)) \<le> 80000"
      using ok by (auto simp: registry_ok_def recents_ok_def recent_of_def split: option.split)
    then have "(ucast (misses (recent_of (storage s) a) div 8) :: u32) \<le> 10000"
      by (simp add: word_le_nat_alt unsigned_ucast_eq take_bit_eq_mod unat_div)
    then have "wp (keeper_stats_view a) (\<lambda>r _. \<forall>stats. r = Some stats \<longrightarrow> ks_recent_miss_bps stats \<le> 10000)
        (\<lambda>_ _. True) True s"
      by (simp add: keeper_stats_view_def wps split: option.split)
    from wp_OkD [OF this that] show ?thesis by simp
  qed
  ultimately show ?thesis by (auto simp: bonded_def MAX_ACTIVE_KEEPERS_def)
qed

theorem keepers_stay_in_range_witness:
  "\<exists>s. reachable demo_host registry_at s \<and> stage demo_store demo_funds s
    \<and> distinct (rotation (storage s))"
proof -
  obtain s where s: "reachable demo_host registry_at s" "stage demo_store demo_funds s"
    using demo_reachable by blast
  from keepers_stay_in_range [OF s(1)] show ?thesis using s by blast
qed

end
