(* ===== verification/AdminLaws.thy ===== *)
theory AdminLaws
  imports Demo
begin

text \<open>
  The laws of administration: the range of the settings, the wait before an upgrade, and
  the two invariants of the whole registry, agreement of its entries and solvency.
\<close>

section \<open>Settings\<close>

text \<open>
  The admin's powers are bounded: in any reachable state the protocol fee is at most
  10% and has a treasury whenever it is positive, windows last at most a day, unbonding
  epochs at most thirty days, the minimum stake is not negative and nothing is slashed.
\<close>

theorem settings_stay_in_range:
  assumes "reachable h a s"
  shows "\<exists>c. s_config (storage s) = Some c \<and> protocol_fee_bps c \<le> 1000
    \<and> (0 < protocol_fee_bps c \<longrightarrow> treasury c \<noteq> None) \<and> grace_period c \<le> 86400
    \<and> unbonding_epoch c \<le> 2592000 \<and> 0 \<le> min_stake c \<and> slash_bps c = 0"
  using reachable_ok [OF assms]
  by (auto simp: registry_ok_def config_ok_def MAX_BPS_def MAX_GRACE_PERIOD_def MAX_UNBONDING_EPOCH_def)

theorem settings_stay_in_range_witness:
  "\<exists>s c. reachable demo_host registry_at s \<and> s_config (storage s) = Some c \<and> protocol_fee_bps c \<le> 1000"
proof -
  obtain s where s: "reachable demo_host registry_at s" using demo_reachable by blast
  from settings_stay_in_range [OF s] show ?thesis using s by blast
qed

section \<open>Upgrades\<close>

text \<open>
  An upgrade installs the announced code, signed by the admin, no sooner than the current delay
  after its announcement; the announcement is then cleared.
\<close>

lemma apply_upgrade_waits:
  assumes "reachable h a s" and "apply_upgrade h e s = (Ok (), t)"
  obtains c u where "s_config (storage s) = Some c" and "authorized e (admin c)"
    and "s_pending_upgrade (storage s) = Some u" and "world t = install_code h (wasm_hash u) (world s)"
    and "sat_add (proposed_at u) (delay_of c (storage s)) \<le> now e"
    and "s_pending_upgrade (storage t) = None" and "s_keepers (storage t) = s_keepers (storage s)"
proof -
  have "wp (apply_upgrade h e) (\<lambda>_ t. \<exists>c u. s_config (storage s) = Some c \<and> authorized e (admin c)
    \<and> s_pending_upgrade (storage s) = Some u \<and> world t = install_code h (wasm_hash u) (world s)
    \<and> available_at u \<le> now e \<and> s_pending_upgrade (storage t) = None
    \<and> s_keepers (storage t) = s_keepers (storage s)) (\<lambda>_ _. True) True s"
    by (auto simp: apply_upgrade_def wps not_less split: option.split)
  from wp_OkD [OF this assms(2)] obtain c u where x: "s_config (storage s) = Some c"
    "authorized e (admin c)" "s_pending_upgrade (storage s) = Some u"
    "world t = install_code h (wasm_hash u) (world s)" "available_at u \<le> now e"
    "s_pending_upgrade (storage t) = None" "s_keepers (storage t) = s_keepers (storage s)"
    by blast
  have "sat_add (proposed_at u) (delay_of c (storage s)) \<le> available_at u"
    using reachable_ok [OF assms(1)] x(1,3) by (simp add: registry_ok_def waits_def delay_of_def count_def)
  with x(5) have "sat_add (proposed_at u) (delay_of c (storage s)) \<le> now e" by order
  then show ?thesis by (rule that [OF x(1-4) _ x(6,7)])
qed

text \<open>
  The wait covers an unbonding that began when the announcement was made, under settings that are
  no longer than the current ones; one that began later outlasts it at most by that much.
\<close>

lemma release_before_upgrade:
  assumes "sat_add announced (delay_of c d) \<le> at" and "epoch \<le> unbonding_epoch c"
  shows "unat (unbonding_release t0 (unbonding_period c) epoch) \<le> unat at + (unat t0 - unat announced)"
proof -
  let ?r = "unbonding_release t0 (unbonding_period c) epoch"
  let ?n = "unat (unbonding_period c) + unat (unbonding_epoch c)"
  have "unat ?r \<le> unat t0 + ?n"
    using unbonding_release_upper [of t0 "unbonding_period c" epoch] assms(2) by (simp add: word_le_nat_alt)
  moreover have "min_upgrade_delay c \<le> delay_of c d" by (simp add: delay_of_def)
  then have "min ?n (2 ^ 64 - 1) \<le> unat (delay_of c d)"
    by (simp add: word_le_nat_alt min_upgrade_delay_def unat_sat_add)
  moreover have "min (unat announced + unat (delay_of c d)) (2 ^ 64 - 1) \<le> unat at"
    using assms(1) by (simp add: word_le_nat_alt unat_sat_add)
  ultimately show ?thesis using unat_u64_bound [of ?r] by (simp add: min_def split: if_splits)
qed

text \<open>An upgrade announced on the concrete deployment.\<close>

definition announced_store :: reg_store where
  "announced_store = demo_store\<lparr>
     s_pending_upgrade := Some \<lparr>wasm_hash = [1], proposed_at = 60, available_at = 1060\<rparr>\<rparr>"

lemma demo_announces: "\<exists>s. reachable demo_host registry_at s \<and> stage announced_store demo_funds s"
  by (rule stage_step [OF demo_reachable, where x = "ProposeUpgrade [1]" and at = 60])
    (simp_all add: propose_upgrade_def wps stage_def announced_store_def delay_of_def
      min_upgrade_delay_def demo_config_def initial_config_def addresses sat_add_def Let_def)

text \<open>
  The bound is sharp: with no epoch, a keeper who starts to unbond one second after the
  announcement is released one second after the upgrade can be applied.
\<close>

lemma too_late_by_a_second:
  "min_upgrade_delay demo_config = 1000
    \<and> sat_add 60 (min_upgrade_delay demo_config)
      < unbonding_release 61 (unbonding_period demo_config) (unbonding_epoch demo_config)"
  by (simp add: min_upgrade_delay_def demo_config_def initial_config_def sat_add_def
      unbonding_release_def checked_div_def)

section \<open>The registry as a whole\<close>

text \<open>
  C13. The entries of the registry agree, always: in any reachable state a job's terms and
  state exist together, every job has an id that was issued, each owner's list holds exactly
  its jobs, each once, every job's terms are valid (positive fee, ceiling not below it, a
  non-zero interval that is the calendar's period, at most ten keepers, no dependency on
  itself) and no balance is negative.
\<close>

theorem registry_entries_agree:
  assumes "reachable h a s"
  shows "(\<forall>j. s_specs (storage s) j = None \<longleftrightarrow> s_states (storage s) j = None)
    \<and> (\<forall>j. s_specs (storage s) j \<noteq> None \<longrightarrow> j < issued (storage s))
    \<and> (\<forall>x. distinct (owner_ids x (storage s))
         \<and> set (owner_ids x (storage s)) = {j. \<exists>spec. s_specs (storage s) j = Some spec \<and> owner spec = x})
    \<and> (\<forall>j spec. s_specs (storage s) j = Some spec \<longrightarrow> spec_ok j spec)
    \<and> (\<forall>j st. s_states (storage s) j = Some st \<longrightarrow> 0 \<le> balance st)"
proof -
  note ok = reachable_ok [OF assms]
  have "\<forall>j. s_specs (storage s) j \<noteq> None \<longrightarrow> j < issued (storage s)"
    using ok by (simp add: registry_ok_def jobs_ok_def issued_count Ball_def domIff)
  moreover have "\<forall>x. distinct (owner_ids x (storage s))
      \<and> set (owner_ids x (storage s)) = {j. \<exists>spec. s_specs (storage s) j = Some spec \<and> owner spec = x}"
    using ok by (simp add: registry_ok_def index_ok_def owner_ids_listed)
  ultimately show ?thesis using registry_okD [OF ok] by blast
qed

theorem registry_entries_agree_witness:
  "\<exists>s. reachable demo_host registry_at s \<and> stage demo_store demo_funds s
    \<and> set (owner_ids alice (storage s)) = {j. \<exists>spec. s_specs (storage s) j = Some spec \<and> owner spec = alice}"
proof -
  obtain s where s: "reachable demo_host registry_at s" "stage demo_store demo_funds s"
    using demo_reachable by blast
  from registry_entries_agree [OF s(1)] show ?thesis using s by blast
qed

text \<open>
  C1. The registry is solvent, always: for a sound token host, in any reachable state, the
  registry holds of each token at least what it owes in it: the sum of all job balances in
  the fee token, plus the sum of all stakes in the stake token (both, when they are the same
  token). So every balance can be withdrawn and every stake returned, in any order.
\<close>

theorem registry_is_solvent:
  assumes "sound_host h a" and "reachable h a s" and "s_config (storage s) = Some c"
  shows "(if u = fee_token c then total balance (s_states (storage s)) else 0)
      + (if u = stake_token c then total stake (s_keepers (storage s)) else 0)
    \<le> token_balance h (world s) u a"
  using covers_at_least [OF reachable_covers [OF assms(1,2)] assms(3) refl, of u] by (simp add: owed_def)

theorem registry_is_solvent_witness:
  "\<exists>s. reachable demo_host registry_at s
    \<and> total balance (s_states (storage s)) \<le> token_balance demo_host (world s) xlm registry_at"
proof -
  obtain s where s: "reachable demo_host registry_at s" "stage demo_store demo_funds s"
    using demo_reachable by blast
  have "s_config (storage s) = Some demo_config" "fee_token demo_config = xlm"
    "stake_token demo_config \<noteq> xlm"
    using s(2) by (simp_all add: stage_def demo_config_def initial_config_def addresses)
  with registry_is_solvent [OF demo_sound s(1), of demo_config xlm] show ?thesis using s(1) by auto
qed

end
