(* ===== verification/StepLaws.thy ===== *)
theory StepLaws
  imports Demo
begin

text \<open>
  The laws of any call and of any history: who has to sign, what a paused registry still
  does, and what never changes back (ids, the executor).
\<close>

section \<open>Who signs\<close>

definition signed :: "env \<Rightarrow> reg_store \<Rightarrow> op \<Rightarrow> bool" where
  "signed e d x \<longleftrightarrow> (case signer d x of
     None \<Rightarrow> (case x of WithdrawStakes as \<Rightarrow> True | _ \<Rightarrow> False)
   | Some a \<Rightarrow> authorized e a)"

lemma admin_signs:
  "wp (as_admin e f) (\<lambda>_ _. \<exists>a. map_option admin (s_config (storage s)) = Some a \<and> authorized e a)
     (\<lambda>_ _. True) True s"
  by (simp add: wps split: option.split)

lemma perform_signed: "wp (perform h e x) (\<lambda>_ _. signed e (storage s) x) (\<lambda>_ _. True) True s"
proof -
  note admin_ops = set_executor_def propose_admin_def cancel_admin_proposal_def set_paused_def
    halt_target_def set_min_stake_def set_min_interval_def set_max_args_def set_protocol_fee_def
    set_max_failures_def set_keeper_windows_def set_unbonding_epoch_def propose_upgrade_def
    apply_upgrade_def cancel_upgrade_def change_upgrade_delay_def
  note job_ops = create_job_def create_jobs_def update_job_def fund_job_def cancel_job_def
    withdraw_job_balance_def set_job_active_def propose_job_owner_def accept_job_owner_def
  note keeper_ops = execute_def execute_batch_def authorize_keeper_def stake_tokens_def
    begin_unbonding_def withdraw_stake_def
  show ?thesis
    by (cases x) (simp_all add: signed_def wp_void admin_ops job_ops keeper_ops accept_admin_def
        wp_as_admin wp_bind wp_andthen wp_load_config wp_require_auth wp_get_parts wp_get_spec
        wp_get_pending_owner wp_get_keeper wp_instance_loads wp_ok wp_ok_or wp_lift_result wp_fail_if parts_def Let_def
        split: option.split sum.split)
qed

text \<open>
  C12. Nobody acts for somebody else. A call succeeds only with the signature of the party it
  concerns: the owner a new job is created for, the current owner of the job being changed,
  the payer of a top-up, the proposed owner or admin who accepts, the keeper who executes,
  stakes or leaves, and the admin for everything else; only \<open>withdraw_stakes\<close>, which pays
  each keeper its own stake, needs no signature.
\<close>

theorem only_the_signer_acts:
  assumes "perform h e x s = (Ok (), t)"
  shows "case signer (storage s) x of
      Some a \<Rightarrow> authorized e a
    | None \<Rightarrow> (\<exists>as. x = WithdrawStakes as)"
  using wp_OkD [OF perform_signed assms] by (auto simp: signed_def split: option.splits op.splits)

theorem only_the_signer_acts_witness:
  "\<exists>s t. perform demo_host (demo_env 60) (SetPaused True) s = (Ok (), t)
    \<and> authorized (demo_env 60) root_admin"
proof -
  obtain s where s: "stage demo_store demo_funds s" using demo_reachable by blast
  have d: "s_config (storage s) = Some demo_config" "admin demo_config = root_admin"
    "root_admin \<noteq> registry_at"
    using s by (simp_all add: stage_def demo_config_def initial_config_def addresses)
  have "wp (perform demo_host (demo_env 60) (SetPaused True)) (\<lambda>_ _. True) (\<lambda>_ _. False) False s"
    using d by (simp add: set_paused_def wps)
  from wp_returns [OF this] obtain t where
    t: "perform demo_host (demo_env 60) (SetPaused True) s = (Ok (), t)" by auto
  from only_the_signer_acts [OF t] d have "authorized (demo_env 60) root_admin" by simp
  then show ?thesis using t by blast
qed

section \<open>Pausing\<close>

fun needs_running :: "op \<Rightarrow> bool" where
  "needs_running (CreateJob a p n) = True"
| "needs_running (CreateJobs a ps ns) = True"
| "needs_running (UpdateJob j u) = True"
| "needs_running (FundJob a j n) = True"
| "needs_running (Execute a j) = True"
| "needs_running (ExecuteBatch a js) = True"
| "needs_running (Stake a n) = True"
| "needs_running _ = False"

lemma perform_paused:
  assumes "s_config (storage s) = Some c" and "paused c" and "needs_running x"
  shows "wp (perform h e x) (\<lambda>_ _. False) (\<lambda>y _. y = Paused \<or> y = InvalidBatchSize) True s"
  using assms(3)
  by (cases x) (simp_all add: assms(1,2) wp_void create_job_def create_jobs_def update_job_def
      fund_job_def execute_def execute_batch_def stake_tokens_def authorize_keeper_def wp_bind
      wp_andthen wp_load_config wp_lift_result ensure_not_paused_def wp_fail_if)

text \<open>
  A paused registry takes nothing in and runs nothing: while it is paused, creating,
  updating and funding jobs, executing them and staking never succeed; the answer is
  \<open>Paused\<close> (or \<open>InvalidBatchSize\<close>, which \<open>execute_batch\<close> checks first), and a transaction
  that fails leaves the state as it was. Cancelling, withdrawing and unbonding do not look
  at the switch.
\<close>

theorem paused_registry_takes_nothing_in:
  assumes "s_config (storage s) = Some c" and "paused c" and "needs_running x"
    and "transact (perform h e x) s = (r, t)"
  shows "t = s \<and> (r = Err Paused \<or> r = Err InvalidBatchSize \<or> r = Trap)"
  using perform_paused [OF assms(1-3), of h e] assms(4)
  by (auto simp: wp_def transact_def split: prod.splits outcome.splits)

theorem paused_registry_takes_nothing_in_witness:
  "transact (perform demo_host (demo_env 60) (Stake keeper_a 5))
      (demo\<lparr>storage := s_config_update (\<lambda>_. Some (demo_config\<lparr>paused := True\<rparr>)) demo_store\<rparr>)
    = (Err Paused, demo\<lparr>storage := s_config_update (\<lambda>_. Some (demo_config\<lparr>paused := True\<rparr>)) demo_store\<rparr>)"
proof -
  let ?s = "demo\<lparr>storage := s_config_update (\<lambda>_. Some (demo_config\<lparr>paused := True\<rparr>)) demo_store\<rparr>"
  let ?x = "Stake keeper_a 5"
  obtain r t where t: "transact (perform demo_host (demo_env 60) ?x) ?s = (r, t)" by fastforce
  have "wp (perform demo_host (demo_env 60) ?x) (\<lambda>_ _. False) (\<lambda>y _. y = Paused) False ?s"
    by (simp add: stake_tokens_def wps ensure_not_paused_def)
  then have "r = Err Paused"
    using t by (auto simp: wp_def transact_def split: prod.splits outcome.splits)
  moreover have "t = ?s"
    using paused_registry_takes_nothing_in [OF _ _ _ t, of "demo_config\<lparr>paused := True\<rparr>"] by simp
  ultimately show ?thesis using t by simp
qed

section \<open>What never changes back\<close>

definition fresh_ids :: "reg_store \<Rightarrow> reg_store \<Rightarrow> bool" where
  "fresh_ids d d' \<longleftrightarrow>
     issued d \<le> issued d' \<and> (\<forall>j. s_specs d j = None \<longrightarrow> s_specs d' j \<noteq> None \<longrightarrow> issued d \<le> j)"

definition keeps_executor :: "reg_store \<Rightarrow> reg_store \<Rightarrow> bool" where
  "keeps_executor d d' \<longleftrightarrow>
     (\<forall>c. s_config d = Some c \<longrightarrow>
        (\<exists>c'. s_config d' = Some c' \<and> (\<forall>x. executor c = Some x \<longrightarrow> executor c' = Some x)
           \<and> fee_token c' = fee_token c \<and> stake_token c' = stake_token c
           \<and> unbonding_period c' = unbonding_period c))"

definition onward :: "reg_store \<Rightarrow> reg_store \<Rightarrow> bool" where
  "onward d d' \<longleftrightarrow> fresh_ids d d' \<and> keeps_executor d d'"

lemma onward_refl [simp]: "onward d d"
  by (simp add: onward_def fresh_ids_def keeps_executor_def)

lemma onward_trans: "onward d d' \<Longrightarrow> onward d' d'' \<Longrightarrow> onward d d''"
proof -
  assume 1: "onward d d'" and 2: "onward d' d''"
  have "issued d \<le> j" if "s_specs d j = None" "s_specs d'' j \<noteq> None" for j
    using 1 2 that by (cases "s_specs d' j") (auto simp: onward_def fresh_ids_def intro: order_trans)
  moreover have "keeps_executor d d''"
    using 1 2 by (fastforce simp: onward_def keeps_executor_def)
  ultimately show ?thesis
    using 1 2 by (auto simp: onward_def fresh_ids_def intro: order_trans)
qed

text \<open>Most operations leave the counter alone, the ids in use too, and the configuration.\<close>

lemma onwardI:
  assumes "s_next_job_id d' = s_next_job_id d" and "dom (s_specs d') \<subseteq> dom (s_specs d)"
    and "keeps_executor d d'"
  shows "onward d d'"
  using assms by (auto simp: onward_def fresh_ids_def issued_def)

abbreviation moves_on :: "('w, 'a) reg \<Rightarrow> bool" where
  "moves_on m \<equiv> (\<forall>s. wp m (\<lambda>_ t. onward (storage s) (storage t)) (\<lambda>_ _. True) True s)"

lemma settings_move_on:
  "moves_on (set_executor e x)" "moves_on (propose_admin e a)" "moves_on (accept_admin e)"
  "moves_on (cancel_admin_proposal e)" "moves_on (set_paused e b)" "moves_on (halt_target e a b)"
  "moves_on (set_min_stake e i)" "moves_on (set_min_interval e n)" "moves_on (set_max_args e m)"
  "moves_on (set_protocol_fee e m y)" "moves_on (set_max_failures e m)"
  "moves_on (set_keeper_windows e n)"
  "moves_on (set_unbonding_epoch e n)" "moves_on (propose_upgrade e w)"
  "moves_on (cancel_upgrade e)" "moves_on (change_upgrade_delay e n)" "moves_on (apply_upgrade h e)"
  by (auto simp: set_executor_def propose_admin_def accept_admin_def cancel_admin_proposal_def
      set_paused_def halt_target_def set_min_stake_def set_min_interval_def set_max_args_def
      set_protocol_fee_def set_max_failures_def set_keeper_windows_def set_unbonding_epoch_def
      propose_upgrade_def cancel_upgrade_def change_upgrade_delay_def apply_upgrade_def wps Let_def
      keeps_executor_def split: option.split intro!: onwardI)

lemma jobs_move_on:
  "moves_on (fund_job h e a j n)" "moves_on (cancel_job h e j)"
  "moves_on (withdraw_job_balance h e j n)" "moves_on (set_job_active e j b)"
  "moves_on (propose_job_owner e j a)" "moves_on (accept_job_owner e j)"
  by (auto simp: fund_job_def cancel_job_def withdraw_job_balance_def set_job_active_def
      propose_job_owner_def accept_job_owner_def ensure_not_paused_def wps Let_def parts_def
      keeps_executor_def split: option.splits if_splits intro!: onwardI)

lemma update_moves_on: "moves_on (update_job e j u)"
  by (auto simp: update_job_def store_update_def leader_run_count_def ensure_not_paused_def wps
      Let_def parts_def keeps_executor_def split: option.splits sum.splits if_splits intro!: onwardI)

lemma inserted_onward: "issued d \<noteq> - 1 \<Longrightarrow> onward d (inserted e a p n d)"
  by (auto simp: onward_def fresh_ids_def keeps_executor_def inserted_def Let_def count_succ
      issued_def [of "push_owner_job _ _ _"] less_imp_le)

lemma insert_moves_on: "moves_on (insert_job e a p n)"
  by (auto intro!: wp_insert_job inserted_onward simp: became_def)

lemma collect_moves_on:
  assumes "\<And>x. moves_on (f x)"
  shows "moves_on (collect f xs)"
proof
  fix s
  show "wp (collect f xs) (\<lambda>_ t. onward (storage s) (storage t)) (\<lambda>_ _. True) True s"
  proof (induction xs arbitrary: s)
    case Nil
    then show ?case by (simp add: wp_ok)
  next
    case (Cons y ys)
    show ?case
      unfolding collect.simps wp_bind
      by (rule wp_mono [OF assms [rule_format]], rule wp_mono [OF Cons.IH])
        (auto simp: wp_ok intro: onward_trans)
  qed
qed

lemma moves_from:
  "moves_on m \<Longrightarrow> storage t = d \<Longrightarrow> wp m (\<lambda>_ t'. onward d (storage t')) (\<lambda>_ _. True) True t"
  by blast

lemma creations_move_on: "moves_on (create_job h e a p n)" "moves_on (create_jobs h e a ps ns)"
proof -
  note one = moves_from [OF insert_moves_on]
  show "moves_on (create_job h e a p n)"
    by (auto simp: create_job_def wps ensure_not_paused_def same_def split: option.split
      intro!: wp_validate_job one)
  have "moves_on (collect (\<lambda>(p, n). insert_job e a p n) xs)" for xs
    by (rule collect_moves_on) (auto intro: insert_moves_on [rule_format])
  note all = moves_from [OF this]
  show "moves_on (create_jobs h e a ps ns)"
    unfolding create_jobs_def
    apply (simp add: wp_andthen wp_bind wp_load_config wp_lift_result ensure_not_paused_def
        wp_require_auth wp_fail_if split: option.split)
    apply (intro allI impI conjI wp_validate_all)
    by (auto simp: wp_andthen wp_transfer same_def intro!: all split: option.split)
qed

lemma keepers_move_on: "moves_on (stake_tokens h e a n)" "moves_on (begin_unbonding e a)"
  by (auto simp: stake_tokens_def begin_unbonding_def ensure_not_paused_def wps
      Let_def keeps_executor_def split: option.splits if_splits intro!: onwardI)

lemma release_moves_on:
  "wp (release_stake h e c a) (\<lambda>_ t. onward (storage s) (storage t))
     (\<lambda>_ t. onward (storage s) (storage t)) True s"
  by (auto simp: release_stake_def wps Let_def keeps_executor_def split: option.splits if_splits
      intro!: onwardI)

lemma exits_move_on: "moves_on (withdraw_stake h e a)" "moves_on (withdraw_stakes h e as)"
proof -
  have one: "moves_on (release_stake h e c a)" for c a
    by (auto intro: wp_mono [OF release_moves_on])
  show "moves_on (withdraw_stake h e a)"
    by (auto simp: withdraw_stake_def wps split: option.split intro!: moves_from [OF one])
  have "moves_on (collect (\<lambda>a. bind (attempt (release_stake h e c a)) (\<lambda>res.
      ok (case res of Inl _ \<Rightarrow> 0 | Inr n \<Rightarrow> n))) as)" for c
    by (rule collect_moves_on) (auto simp: wp_bind wp_attempt wp_ok intro: wp_mono [OF release_moves_on])
  note all = moves_from [OF this]
  show "moves_on (withdraw_stakes h e as)"
    by (auto simp: withdraw_stakes_def wp_andthen wp_fail_if wp_bind [of load_config] wp_load_config
        split: option.split intro!: all)
qed

lemma booked_next_id [simp]: "s_next_job_id (booked e c jid spec st w b n d) = s_next_job_id d"
  by (simp add: booked_def with_misses_def with_miss_def split: option.split)

lemma saved_record_next_id [simp]: "s_next_job_id (saved_record a rec d) = s_next_job_id d"
  by (simp add: saved_record_def)

lemma same_entries_onward:
  assumes "s_next_job_id d' = s_next_job_id d" and "s_specs d' = s_specs d" and "s_config d' = s_config d"
  shows "onward d d'"
  by (rule onwardI) (use assms in \<open>auto simp: keeps_executor_def\<close>)

definition same_terms :: "reg_store \<Rightarrow> reg_store \<Rightarrow> bool" where
  "same_terms d d' \<longleftrightarrow> s_next_job_id d' = s_next_job_id d \<and> s_specs d' = s_specs d
     \<and> s_config d' = s_config d"

lemma runs_move_on: "moves_on (execute h e a j)" "moves_on (execute_batch h e a js)"
proof -
  show "moves_on (execute h e a j)"
    by (auto simp: wpT intro!: same_entries_onward elim!: execute_effects)
  show "moves_on (execute_batch h e a js)"
  proof
    fix s :: "'a registry"
    have loop: "wp (run_jobs h e c exec a acc js)
        (\<lambda>p. wp (case p of (did, rec', pay) \<Rightarrow>
            andthen (save_record a rec') (andthen (settle h e c a pay) (ok did)))
          (\<lambda>_ t. same_terms (storage s) (storage t)) (\<lambda>_ _. True) True) (\<lambda>_ _. True) True t"
      if "storage t = storage s" for c exec acc t
      by (rule wp_mono [OF wp_run_jobs [where I = "\<lambda>_ t. same_terms (storage s) (storage t)" and T = True]])
        (use that in \<open>auto simp: same_terms_def run_does_def became_def run_refuses_frame
          wp_andthen [abs_def] wp_save_record wp_ok intro!: wp_settle_frame\<close>)
    have "wp (execute_batch h e a js) (\<lambda>_ t. same_terms (storage s) (storage t)) (\<lambda>_ _. True) True s"
      by (auto simp: execute_batch_def authorize_keeper_def load_record_def wps
          split: option.split sum.split intro!: loop)
    then show "wp (execute_batch h e a js) (\<lambda>_ t. onward (storage s) (storage t)) (\<lambda>_ _. True) True s"
      by (rule wp_mono) (auto simp: same_terms_def intro: same_entries_onward)
  qed
qed

lemma perform_moves_on: "moves_on (perform h e x)"
  by (cases x) (simp_all add: wp_void settings_move_on jobs_move_on update_moves_on creations_move_on
      keepers_move_on exits_move_on runs_move_on)

lemma steps_onward:
  assumes "(step h a)\<^sup>*\<^sup>* s t"
  shows "onward (storage s) (storage t)"
  using assms
proof (induction rule: rtranclp_induct)
  case base
  then show ?case by simp
next
  case (step t u)
  have "onward (storage t) (storage u)"
    by (rule step_keeps [OF step.hyps(2), where I = "\<lambda>u. onward (storage t) (storage u)"])
      (auto dest: wp_OkD [OF perform_moves_on [rule_format]])
  with step.IH show ?case by (rule onward_trans)
qed

text \<open>
  C20. Ids are never used twice: along any history, once an id has been issued and its job
  is gone, no job ever has that id again.
\<close>

theorem job_ids_are_never_reused:
  assumes "(step h a)\<^sup>*\<^sup>* s t" and "j < issued (storage s)" and "s_specs (storage s) j = None"
  shows "s_specs (storage t) j = None"
proof (rule ccontr)
  assume "s_specs (storage t) j \<noteq> None"
  then have "issued (storage s) \<le> j"
    using steps_onward [OF assms(1)] assms(3) by (simp add: onward_def fresh_ids_def)
  then show False using assms(2) by simp
qed

text \<open>A history of the concrete deployment: the job is cancelled, and a new one is created.\<close>

lemma demo_cancels:
  "\<exists>s. reachable demo_host registry_at s \<and> s_specs (storage s) 0 = None \<and> issued (storage s) = 1"
proof -
  obtain s where s: "reachable demo_host registry_at s" "stage demo_store demo_funds s"
    using demo_reachable by blast
  have "wp (perform demo_host (demo_env 60) (CancelJob 0))
      (\<lambda>_ t. s_specs (storage t) 0 = None \<and> issued (storage t) = 1) (\<lambda>_ _. False) False s"
    using s(2)
    by (simp add: cancel_job_def wps stage_def demo_config_def initial_config_def demo_spec_def
        demo_state_def new_spec_def ledger_transfer_def demo_funds_def demo_stakes_def Let_def
        issued_def addresses)
  from wp_returns [OF this] obtain t where
    t: "perform demo_host (demo_env 60) (CancelJob 0) s = (Ok (), t)"
    "s_specs (storage t) 0 = None" "issued (storage t) = 1" by auto
  have "step demo_host registry_at s t"
    by (rule step.call [where e = "demo_env 60" and x = "CancelJob 0" and r = "Ok ()"]) (use t(1) in simp_all)
  then show ?thesis using reachable.more [OF s(1)] t(2,3) by blast
qed

theorem job_ids_are_never_reused_witness:
  "\<exists>s. reachable demo_host registry_at s \<and> issued (storage s) = 1
    \<and> (\<forall>t. (step demo_host registry_at)\<^sup>*\<^sup>* s t \<longrightarrow> s_specs (storage t) 0 = None)"
proof -
  obtain s where s: "reachable demo_host registry_at s" "s_specs (storage s) 0 = None"
    "issued (storage s) = 1"
    using demo_cancels by blast
  have "s_specs (storage t) 0 = None" if "(step demo_host registry_at)\<^sup>*\<^sup>* s t" for t
    by (rule job_ids_are_never_reused [OF that]) (simp_all add: s)
  then show ?thesis using s by blast
qed

text \<open>
  What money depends on is fixed: once the executor is set it stays the same contract
  for ever, and so do the fee token, the stake token and the unbonding period, whatever
  calls are made by whomever, the admin included.
\<close>

theorem executor_and_tokens_are_final:
  assumes "(step h a)\<^sup>*\<^sup>* s t" and "s_config (storage s) = Some c" and "executor c = Some x"
  shows "\<exists>c'. s_config (storage t) = Some c' \<and> executor c' = Some x \<and> fee_token c' = fee_token c
    \<and> stake_token c' = stake_token c \<and> unbonding_period c' = unbonding_period c"
  using steps_onward [OF assms(1)] assms(2,3) by (auto simp: onward_def keeps_executor_def)

theorem executor_and_tokens_are_final_witness:
  "\<exists>s. reachable demo_host registry_at s \<and> (\<forall>t. (step demo_host registry_at)\<^sup>*\<^sup>* s t \<longrightarrow>
     (\<exists>c. s_config (storage t) = Some c \<and> executor c = Some executor_at))"
proof -
  obtain s where s: "reachable demo_host registry_at s" "stage demo_store demo_funds s"
    using demo_reachable by blast
  have d: "s_config (storage s) = Some demo_config" "executor demo_config = Some executor_at"
    using s(2) by (simp_all add: stage_def demo_config_def)
  show ?thesis using executor_and_tokens_are_final [OF _ d] s(1) by blast
qed

end
