(* ===== verification/Clients.thy ===== *)
theory Clients
  imports Host
begin

text \<open>
  What the small contracts share: a call that panics when the callee fails, reading a
  stored value that the constructor wrote, and the interface of a contract that is its own
  resolver.
\<close>

section \<open>Weakest preconditions as functions of the state\<close>

text \<open>The rules again without the state, for the conditions inside a continuation.\<close>

lemma wp_bind_fun: "wp (bind m f) Q E T = wp m (\<lambda>x. wp (f x) Q E T) E T"
  by (rule ext) (rule wp_bind)

lemma wp_andthen_fun: "wp (andthen m k) Q E T = wp m (\<lambda>_. wp k Q E T) E T"
  by (rule ext) (rule wp_andthen)

lemma wp_ok_fun: "wp (ok x) Q E T = Q x"
  by (rule ext) (rule wp_ok)

lemmas wp_funs = wp_bind_fun wp_andthen_fun wp_ok_fun

section \<open>Calls and stored values\<close>

text \<open>\<open>invoke_contract\<close> and the generated clients: a failure of the callee is a panic.\<close>

definition invoke ::
  "'w host \<Rightarrow> address \<Rightarrow> address \<Rightarrow> symbol \<Rightarrow> val list \<Rightarrow> (('d, 'w, 'v, 'k) ctx, 'e, val) act" where
  "invoke h caller callee f xs =
     bind (try_call h caller callee f xs) (\<lambda>outcome.
     case outcome of Returned v \<Rightarrow> ok v | Failed _ \<Rightarrow> trap | Aborted \<Rightarrow> trap)"

lemma wp_invoke [wps]:
  "wp (invoke h a c f xs) Q E T s =
     (case call_contract h a c f xs (world s) of
        Some (Returned v, w) \<Rightarrow> Q v (s\<lparr>world := w\<rparr>)
      | _ \<Rightarrow> T)"
  by (auto simp: invoke_def wps split: option.split call_result.split)

text \<open>\<open>get(key).unwrap()\<close>.\<close>

definition stored :: "('d \<Rightarrow> 'a option) \<Rightarrow> (('d, 'w, 'v, 'k) ctx, 'e, 'a) act" where
  "stored f = bind (load f) unwrap"

lemma wp_stored [wps]:
  "wp (stored f) Q E T s = (case f (storage s) of None \<Rightarrow> T | Some x \<Rightarrow> Q x s)"
  by (simp add: stored_def wps)

text \<open>Numbers a client decodes from a returned value.\<close>

definition as_i128 :: "val \<Rightarrow> int option" where
  "as_i128 v = (case v of ValI128 n \<Rightarrow> Some n | _ \<Rightarrow> None)"

definition as_bool :: "val \<Rightarrow> bool option" where
  "as_bool v = (case v of ValBool b \<Rightarrow> Some b | _ \<Rightarrow> None)"

definition as_u64 :: "val \<Rightarrow> u64 option" where
  "as_u64 v = (case v of ValU64 n \<Rightarrow> Some n | _ \<Rightarrow> None)"

text \<open>
  \<open>client.try_f(..).ok()?.ok()?\<close>: a failing callee, or a result of another type, is
  \<open>None\<close>; only running out of the budget stops the caller.
\<close>

definition try_read ::
  "'w host \<Rightarrow> address \<Rightarrow> address \<Rightarrow> symbol \<Rightarrow> val list \<Rightarrow> (val \<Rightarrow> 'a option) \<Rightarrow>
   (('d, 'w, 'v, 'k) ctx, 'e, 'a option) act" where
  "try_read h caller callee f xs decode =
     bind (try_call h caller callee f xs) (\<lambda>outcome.
     ok (case outcome of Returned v \<Rightarrow> decode v | Failed _ \<Rightarrow> None | Aborted \<Rightarrow> None))"

lemma wp_try_read [wps]:
  "wp (try_read h a c f xs decode) Q E T s =
     (case call_contract h a c f xs (world s) of
        None \<Rightarrow> T
      | Some (r, w) \<Rightarrow>
          Q (case r of Returned v \<Rightarrow> decode v | Failed _ \<Rightarrow> None | Aborted \<Rightarrow> None) (s\<lparr>world := w\<rparr>))"
  by (simp add: try_read_def wps split: option.split)

text \<open>\<open>checked_mul\<close> on \<open>i128\<close>.\<close>

definition checked_i128 :: "int \<Rightarrow> int option" where
  "checked_i128 n = (if in_i128 n then Some n else None)"

section \<open>Histories of a contract\<close>

text \<open>
  What can happen to a contract over time: somebody calls an operation in some environment
  (a failing call is rolled back), or the rest of the network moves on. A property that the
  successful operations keep holds along every history.
\<close>

inductive moves ::
  "(env \<Rightarrow> 'o \<Rightarrow> (('d, 'w, 'v, 'k) ctx, 'e, 'a) act) \<Rightarrow> ('d, 'w, 'v, 'k) ctx \<Rightarrow>
   ('d, 'w, 'v, 'k) ctx \<Rightarrow> bool"
  for perform where
  call: "transact (perform e x) s = (r, t) \<Longrightarrow> moves perform s t"
| elsewhere: "moves perform s (s\<lparr>world := w\<rparr>)"

abbreviation history ::
  "(env \<Rightarrow> 'o \<Rightarrow> (('d, 'w, 'v, 'k) ctx, 'e, 'a) act) \<Rightarrow> ('d, 'w, 'v, 'k) ctx \<Rightarrow>
   ('d, 'w, 'v, 'k) ctx \<Rightarrow> bool" where
  "history perform \<equiv> (moves perform)\<^sup>*\<^sup>*"

lemma history_call: "perform e x s = (Ok y, t) \<Longrightarrow> history perform s t"
  using moves.call [of perform e x s "Ok y" t] by auto

locale kept_along =
  fixes perform :: "env \<Rightarrow> 'o \<Rightarrow> (('d, 'w, 'v, 'k) ctx, 'e, 'a) act"
    and keeps :: "('d, 'w, 'v, 'k) ctx \<Rightarrow> ('d, 'w, 'v, 'k) ctx \<Rightarrow> bool"
  assumes keeps_refl: "keeps s s"
    and keeps_trans: "keeps s t \<Longrightarrow> keeps t u \<Longrightarrow> keeps s u"
    and keeps_operation: "perform e x s = (Ok y, t) \<Longrightarrow> keeps s t"
    and keeps_elsewhere: "keeps s (s\<lparr>world := w\<rparr>)"
begin

lemma move: "moves perform s t \<Longrightarrow> keeps s t"
proof (induction rule: moves.induct)
  case (call e x s r t)
  then show ?case
    using keeps_operation [of e x s] transact_not_Ok [of "perform e x" s r t] keeps_refl
    by (cases r) auto
next
  case (elsewhere s w)
  then show ?case by (rule keeps_elsewhere)
qed

lemma along: "history perform s t \<Longrightarrow> keeps s t"
  by (induction rule: rtranclp_induct) (auto intro: keeps_refl keeps_trans move)

end

text \<open>The common case: a property of the storage alone.\<close>

locale kept_by =
  fixes perform :: "env \<Rightarrow> 'o \<Rightarrow> (('d, 'w, 'v, 'k) ctx, 'e, 'a) act"
    and keeps :: "'d \<Rightarrow> 'd \<Rightarrow> bool"
  assumes stored_refl: "keeps d d"
    and stored_trans: "keeps a b \<Longrightarrow> keeps b c \<Longrightarrow> keeps a c"
    and stored_operation: "perform e x s = (Ok y, t) \<Longrightarrow> keeps (storage s) (storage t)"

sublocale kept_by \<subseteq> kept_along perform "\<lambda>s t. keeps (storage s) (storage t)"
  by unfold_locales (auto intro: stored_refl stored_trans stored_operation)

section \<open>Contracts that are their own resolver\<close>

text \<open>
  A job target that answers \<open>should_run\<close> itself: asking writes nothing, and the work only
  succeeds when the answer was yes. Then a no really saves the run.
\<close>

definition quiet :: "('d, 'w, 'v, 'k) ctx \<Rightarrow> ('d, 'w, 'v, 'k) ctx \<Rightarrow> bool" where
  "quiet s t \<longleftrightarrow> storage t = storage s \<and> published t = published s"

locale self_resolver =
  fixes should_run :: "(('d, 'w, 'v, 'k) ctx, 'e, bool) act"
    and work :: "(('d, 'w, 'v, 'k) ctx, 'f, 'a) act"
  assumes asks_quietly: "should_run s = (Ok b, t) \<Longrightarrow> quiet s t"
    and works_when_asked: "work s = (Ok x, t) \<Longrightarrow> \<exists>u. should_run s = (Ok True, u)"
begin

lemma no_means_no: "should_run s = (Ok False, u) \<Longrightarrow> work s \<noteq> (Ok x, t)"
  using works_when_asked by fastforce

lemma never_wasted:
  assumes "should_run s = (Ok False, u)"
  shows "transact work s = (r, t) \<Longrightarrow> t = s"
  using transact_not_Ok [of work s r t] no_means_no [OF assms] by (cases r) auto

end

end
