(* ===== verification/Executor.thy ===== *)
theory Executor
  imports Clients Execution
begin

text \<open>
  \<open>contracts/executor/src/lib.rs\<close>: the only contract that calls job targets. It keeps the
  registry's address and nothing else. The second half composes it with the registry: a
  host in which the executor's address really runs this code.
\<close>

section \<open>The contract\<close>

record executor_store =
  x_registry :: "address option"

definition EXECUTOR_EXTEND_TO :: u32 where "EXECUTOR_EXTEND_TO = 30 * 17280"

definition EXECUTOR_THRESHOLD :: u32 where "EXECUTOR_THRESHOLD = EXECUTOR_EXTEND_TO - 17280"

definition executor_constructor ::
  "address \<Rightarrow> ((executor_store, 'w, unit, unit) ctx, unit, unit) act" where
  "executor_constructor registry = save (x_registry_update (\<lambda>_. Some registry))"

definition registry_of :: "((executor_store, 'w, unit, unit) ctx, unit, address) act" where
  "registry_of = stored x_registry"

definition executor_execute ::
  "'w host \<Rightarrow> env \<Rightarrow> address \<Rightarrow> symbol \<Rightarrow> val list \<Rightarrow>
   ((executor_store, 'w, unit, unit) ctx, unit, val) act" where
  "executor_execute h e callee f xs =
     bind registry_of (\<lambda>r.
     andthen (require_auth e r)
     (andthen (extend_ttl (ExtendInstance EXECUTOR_THRESHOLD EXECUTOR_EXTEND_TO))
     (invoke h (me e) callee f xs)))"

lemma wp_executor_execute:
  "wp (executor_execute h e callee f xs) Q E True s =
     (\<forall>r v w. x_registry (storage s) = Some r \<longrightarrow> authorized e r \<longrightarrow>
        call_contract h (me e) callee f xs (world s) = Some (Returned v, w) \<longrightarrow>
        Q v (noted True (ExtendInstance EXECUTOR_THRESHOLD EXECUTOR_EXTEND_TO) (s\<lparr>world := w\<rparr>)))"
  by (auto simp: executor_execute_def registry_of_def wps split: option.split call_result.split)

text \<open>
  Only the registry can use the executor, and the executor only forwards: a successful
  \<open>execute\<close> was authorized by the stored registry, its result and its effect on the world
  are those of one call to the given contract with the given arguments, made by the executor
  itself, and the executor's own state is unchanged.
\<close>

theorem executor_only_forwards:
  assumes "executor_execute h e callee f xs s = (Ok v, t)"
  shows "\<exists>r. x_registry (storage s) = Some r \<and> authorized e r
    \<and> call_contract h (me e) callee f xs (world s) = Some (Returned v, world t)
    \<and> storage t = storage s \<and> published t = published s"
proof -
  have "wp (executor_execute h e callee f xs) (\<lambda>v t. \<exists>r. x_registry (storage s) = Some r
    \<and> authorized e r \<and> call_contract h (me e) callee f xs (world s) = Some (Returned v, world t)
    \<and> storage t = storage s \<and> published t = published s) (\<lambda>_ _. True) True s"
    by (simp add: wp_executor_execute)
  from wp_OkD [OF this assms] show ?thesis .
qed

definition forwarding :: "(executor_store, ledger, unit, unit) ctx" where
  "forwarding = \<lparr>storage = \<lparr>x_registry = Some (Address 1)\<rparr>, world = (\<lambda>_ _. 0, []),
     published = [], extensions = []\<rparr>"

theorem executor_only_forwards_witness:
  "\<exists>t. executor_execute (ledger_host (\<lambda>_ _ _. Some (Returned (ValU32 7))))
      \<lparr>now = 0, ledger = 0, me = Address 2, authorized = (\<lambda>a. a = Address 1)\<rparr>
      (Address 3) ''echo'' [ValU32 7] forwarding = (Ok (ValU32 7), t)
    \<and> storage t = storage forwarding"
proof -
  let ?h = "ledger_host (\<lambda>_ _ _. Some (Returned (ValU32 7)))"
  let ?e = "\<lparr>now = 0, ledger = 0, me = Address 2, authorized = (\<lambda>a. a = Address 1)\<rparr>"
  let ?m = "executor_execute ?h ?e (Address 3) ''echo'' [ValU32 7]"
  have "wp ?m (\<lambda>v _. v = ValU32 7) (\<lambda>_ _. False) False forwarding"
    by (simp add: executor_execute_def registry_of_def wps forwarding_def ledger_host_def)
  from wp_returns [OF this] obtain t where t: "?m forwarding = (Ok (ValU32 7), t)" by blast
  from executor_only_forwards [OF t] t show ?thesis by blast
qed

section \<open>Registry and executor together\<close>

text \<open>
  The host the registry sees when the contract at \<open>x\<close> is this executor: a call to its
  \<open>execute\<close> runs the code above with the caller as direct invoker; every other call goes to
  the rest of the network. Exhausting the budget inside is not recoverable. How the host
  reports a call whose frame failed (a contract error or an abort) is the parameter \<open>lost\<close>.
\<close>

definition runs_executor ::
  "'w host \<Rightarrow> call_result \<Rightarrow> address \<Rightarrow> executor_store \<Rightarrow> address \<Rightarrow> val list \<Rightarrow> 'w \<Rightarrow>
   (call_result \<times> 'w) option" where
  "runs_executor h lost x d caller xs w =
     (case xs of
        [ValAddress callee, ValSymbol f, ValVec ys] \<Rightarrow>
          if call_contract h x callee f ys w = None then None
          else (case executor_execute h \<lparr>now = 0, ledger = 0, me = x, authorized = (\<lambda>a. a = caller)\<rparr>
                  callee f ys \<lparr>storage = d, world = w, published = [], extensions = []\<rparr> of
                  (Ok v, s) \<Rightarrow> Some (Returned v, world s)
                | _ \<Rightarrow> Some (lost, w))
      | _ \<Rightarrow> Some (lost, w))"

definition with_executor :: "'w host \<Rightarrow> call_result \<Rightarrow> address \<Rightarrow> executor_store \<Rightarrow> 'w host" where
  "with_executor h lost x d = h\<lparr>call_contract := (\<lambda>caller callee f xs w.
     if callee = x \<and> f = EXECUTE_FN then runs_executor h lost x d caller xs w
     else call_contract h caller callee f xs w)\<rparr>"

lemma runs_executor_eq:
  assumes "x_registry d = Some r"
  shows "runs_executor h lost x d caller [ValAddress callee, ValSymbol f, ValVec ys] w =
    (case call_contract h x callee f ys w of
       None \<Rightarrow> None
     | Some (Returned v, w') \<Rightarrow> if caller = r then Some (Returned v, w') else Some (lost, w)
     | Some _ \<Rightarrow> Some (lost, w))"
  using assms
  by (auto simp: runs_executor_def executor_execute_def registry_of_def stored_def load_def gets_def
      bind_def unwrap_def ok_def require_auth_def require_def trap_def andthen_def extend_ttl_def
      modify_def invoke_def try_call_def split: option.split call_result.split)

text \<open>
  C36. A job's target never sees the registry: when the executor connected to the registry is
  this contract and serves it, the registry's call for a job is exactly one call to the job's
  target, with the owner's function and arguments, made by the executor's address. It counts
  as a success exactly when the target returned, its value is what is hashed, and a target
  that fails leaves the world untouched.
\<close>

theorem targets_see_only_the_executor:
  assumes "x_registry d = Some (me e)" and "\<And>v. lost \<noteq> Returned v"
  shows "call_target (with_executor h lost x d) e x spec s =
    (case call_contract h x (target spec) (function_name spec) (args spec) (world s) of
       None \<Rightarrow> (Trap, s)
     | Some (Returned v, w) \<Rightarrow> (Ok (True, sha256 h (val_xdr h v)), s\<lparr>world := w\<rparr>)
     | Some _ \<Rightarrow> (Ok (False, case lost of Failed y \<Rightarrow> sha256 h (error_xdr h y) | _ \<Rightarrow> sha256 h []), s))"
  using assms
  by (auto simp: call_target_def try_call_def with_executor_def runs_executor_eq [OF assms(1)] bind_def
      ok_def split: option.split call_result.split)

theorem targets_see_only_the_executor_witness:
  "\<exists>s :: ledger registry. call_target (with_executor (ledger_host (\<lambda>_ _ _. Some (Returned (ValU32 7))))
      Aborted (Address 2) \<lparr>x_registry = Some (Address 1)\<rparr>)
      \<lparr>now = 0, ledger = 0, me = Address 1, authorized = (\<lambda>_. False)\<rparr> (Address 2)
      \<lparr>owner = Address 5, target = Address 3, function_name = ''echo'', args = [], interval = 60,
        schedule = Interval, fee_per_run = 1, max_fee_per_run = 0, max_runs = 0, end_at = 0,
        resolver = None, keepers = None, after = None\<rparr> s
    = (Ok (True, sha256 (ledger_host (\<lambda>_ _ _. Some (Returned (ValU32 7))))
        (val_xdr (ledger_host (\<lambda>_ _ _. Some (Returned (ValU32 7)))) (ValU32 7))), s)"
proof -
  let ?h = "ledger_host (\<lambda>_ _ _. Some (Returned (ValU32 7)))"
  let ?e = "\<lparr>now = 0, ledger = 0, me = Address 1, authorized = (\<lambda>_. False)\<rparr>"
  have "x_registry \<lparr>x_registry = Some (Address 1)\<rparr> = Some (me ?e)" by simp
  from targets_see_only_the_executor [OF this, of Aborted ?h "Address 2"] show ?thesis
    by (simp add: ledger_host_def)
qed

end
