(* ===== verification/TtlGuardian.thy ===== *)
theory TtlGuardian
  imports Host
begin

text \<open>
  \<open>contracts/ttl-guardian/src/lib.rs\<close>: a permissionless contract that extends the lifetime
  of other contracts' instance and code entries. The network's maximum and the deployer
  interface of the host are parameters; their documented behaviour is \<open>deployer_laws\<close>.
\<close>

section \<open>The network\<close>

datatype lifetime = InstanceEntry | CodeEntry

record 'w network =
  max_ttl :: u32
  deployer_extend :: "address \<Rightarrow> u32 \<Rightarrow> u32 \<Rightarrow> 'w \<Rightarrow> 'w option"
  ttl_of :: "'w \<Rightarrow> address \<Rightarrow> lifetime \<Rightarrow> u32"

text \<open>
  An extension raises the entries of the named contract that are below the threshold to
  exactly \<open>extend_to\<close>, and never lowers an entry. Code entries may be shared between
  contracts; instances are not.
\<close>

definition deployer_laws :: "'w network \<Rightarrow> bool" where
  "deployer_laws n \<longleftrightarrow>
     (\<forall>c t x w w'. deployer_extend n c t x w = Some w' \<longrightarrow>
        (\<forall>k. ttl_of n w c k < t \<longrightarrow> ttl_of n w' c k = x) \<and>
        (\<forall>d k. ttl_of n w d k \<le> ttl_of n w' d k) \<and>
        (\<forall>d k. ttl_of n w' d k = ttl_of n w d k \<or> ttl_of n w' d k = x) \<and>
        (\<forall>d. d \<noteq> c \<longrightarrow> ttl_of n w' d InstanceEntry = ttl_of n w d InstanceEntry))"

section \<open>The contract\<close>

definition MAX_EXTEND_MANY :: u32 where "MAX_EXTEND_MANY = 20"

datatype guardian_error = InvalidTtl | TooManyContracts

fun guardian_error_code :: "guardian_error \<Rightarrow> nat" where
  "guardian_error_code InvalidTtl = 1"
| "guardian_error_code TooManyContracts = 2"

datatype ttl_event = TtlExtended (extended: address) (below: u32) (until_ttl: u32)

type_synonym ('w, 'a) guardian = "((unit, 'w, ttl_event, unit) ctx, guardian_error, 'a) act"

definition deployer_extend_ttl :: "'w network \<Rightarrow> address \<Rightarrow> u32 \<Rightarrow> u32 \<Rightarrow> ('w, unit) guardian" where
  "deployer_extend_ttl n c t x s =
     (case deployer_extend n c t x (world s) of
        None \<Rightarrow> (Trap, s)
      | Some w \<Rightarrow> (Ok (), s\<lparr>world := w\<rparr>))"

lemma wp_deployer_extend_ttl [wps]:
  "wp (deployer_extend_ttl n c t x) Q E T s =
     (case deployer_extend n c t x (world s) of None \<Rightarrow> T | Some w \<Rightarrow> Q () (s\<lparr>world := w\<rparr>))"
  by (simp add: deployer_extend_ttl_def wp_def split: option.split)

definition extend_one :: "'w network \<Rightarrow> address \<Rightarrow> u32 \<Rightarrow> u32 \<Rightarrow> ('w, u32) guardian" where
  "extend_one n c threshold extend_to =
     (let extend_to = min extend_to (max_ttl n)
      in andthen (fail_if (extend_to < threshold) InvalidTtl)
        (andthen (deployer_extend_ttl n c threshold extend_to)
        (andthen (publish (TtlExtended c threshold extend_to))
        (ok extend_to))))"

definition extend :: "'w network \<Rightarrow> address \<Rightarrow> u32 \<Rightarrow> u32 \<Rightarrow> ('w, u32) guardian" where
  "extend n c threshold extend_to = extend_one n c threshold extend_to"

definition extend_many :: "'w network \<Rightarrow> address list \<Rightarrow> u32 \<Rightarrow> u32 \<Rightarrow> ('w, u32 list) guardian" where
  "extend_many n cs threshold extend_to =
     andthen (fail_if (unat MAX_EXTEND_MANY < length cs) TooManyContracts)
     (collect (\<lambda>c. extend_one n c threshold extend_to) cs)"

section \<open>What one extension does\<close>

definition extended_from ::
  "'w network \<Rightarrow> address list \<Rightarrow> u32 \<Rightarrow> u32 \<Rightarrow> 'w \<Rightarrow> 'w \<Rightarrow> bool" where
  "extended_from n cs t x w w' \<longleftrightarrow>
     (\<forall>c \<in> set cs. \<forall>k. t \<le> ttl_of n w' c k) \<and>
     (\<forall>d k. ttl_of n w d k \<le> ttl_of n w' d k) \<and>
     (\<forall>d k. ttl_of n w' d k = ttl_of n w d k \<or> ttl_of n w' d k = x) \<and>
     (\<forall>d. d \<notin> set cs \<longrightarrow> ttl_of n w' d InstanceEntry = ttl_of n w d InstanceEntry)"

lemma extended_from_Nil: "extended_from n [] t x w w"
  by (simp add: extended_from_def)

lemma extended_from_Cons:
  assumes "deployer_laws n" and "deployer_extend n c t x w = Some v" and "t \<le> x"
    and "extended_from n cs t x v w'"
  shows "extended_from n (c # cs) t x w w'"
proof -
  have v: "\<forall>k. ttl_of n w c k < t \<longrightarrow> ttl_of n v c k = x" "\<forall>d k. ttl_of n w d k \<le> ttl_of n v d k"
    "\<forall>d k. ttl_of n v d k = ttl_of n w d k \<or> ttl_of n v d k = x"
    "\<forall>d. d \<noteq> c \<longrightarrow> ttl_of n v d InstanceEntry = ttl_of n w d InstanceEntry"
    using assms(1,2) unfolding deployer_laws_def by blast+
  have w': "\<forall>d \<in> set cs. \<forall>k. t \<le> ttl_of n w' d k" "\<forall>d k. ttl_of n v d k \<le> ttl_of n w' d k"
    "\<forall>d k. ttl_of n w' d k = ttl_of n v d k \<or> ttl_of n w' d k = x"
    "\<forall>d. d \<notin> set cs \<longrightarrow> ttl_of n w' d InstanceEntry = ttl_of n v d InstanceEntry"
    using assms(4) unfolding extended_from_def by blast+
  have "t \<le> ttl_of n w' c k" for k
  proof -
    have "t \<le> ttl_of n v c k" using v(1) v(2) [rule_format, of c k] assms(3)
      by (cases "ttl_of n w c k < t") auto
    then show ?thesis using w'(2) by (blast intro: order_trans)
  qed
  moreover have "ttl_of n w d k \<le> ttl_of n w' d k" for d k
    using v(2) w'(2) by (blast intro: order_trans)
  moreover have "ttl_of n w' d k = ttl_of n w d k \<or> ttl_of n w' d k = x" for d k
    using v(3) w'(3) by metis
  ultimately show ?thesis
    using v(4) w'(1,4) unfolding extended_from_def by simp
qed

lemma wp_extend_one:
  "wp (extend_one n c t x) Q E T s =
     (if min x (max_ttl n) < t then E InvalidTtl s
      else case deployer_extend n c t (min x (max_ttl n)) (world s) of
        None \<Rightarrow> T
      | Some w \<Rightarrow> Q (min x (max_ttl n)) (s\<lparr>world := w,
          published := published s @ [TtlExtended c t (min x (max_ttl n))]\<rparr>))"
  by (simp add: extend_one_def wps Let_def split: option.split)

lemma wp_extend_all:
  assumes "deployer_laws n"
  shows "wp (collect (\<lambda>c. extend_one n c t x) cs)
    (\<lambda>applied s'. applied = replicate (length cs) (min x (max_ttl n))
       \<and> published s' = published s @ map (\<lambda>c. TtlExtended c t (min x (max_ttl n))) cs
       \<and> extended_from n cs t (min x (max_ttl n)) (world s) (world s'))
    (\<lambda>e _. e = InvalidTtl \<and> min x (max_ttl n) < t) True s"
proof (induction cs arbitrary: s)
  case Nil
  then show ?case by (simp add: wps extended_from_Nil)
next
  case (Cons c cs)
  let ?x = "min x (max_ttl n)"
  show ?case
  proof (cases "?x < t \<or> deployer_extend n c t ?x (world s) = None")
    case True
    then show ?thesis by (auto simp: wps wp_extend_one)
  next
    case False
    then obtain v where v: "deployer_extend n c t ?x (world s) = Some v" by blast
    have le: "t \<le> ?x" using False by (simp add: not_less)
    let ?s = "s\<lparr>world := v, published := published s @ [TtlExtended c t ?x]\<rparr>"
    have "wp (collect (\<lambda>c. extend_one n c t x) (c # cs)) Q E True s =
      wp (collect (\<lambda>c. extend_one n c t x) cs) (\<lambda>ys. Q (?x # ys)) E True ?s" for Q E
      using v False by (simp add: wps wp_ok [abs_def] wp_extend_one)
    then show ?thesis
      by (rule ssubst) (rule wp_mono [OF Cons.IH], auto intro: extended_from_Cons [OF assms v le])
  qed
qed

text \<open>
  \<open>extend_many\<close> keeps what it promises for at most 20 contracts: the lifetime applied is
  the one asked for, capped at the network's maximum, the same for each contract and
  announced once per contract in order; afterwards no entry of a listed contract is below the
  threshold, no lifetime was lowered, each is either what it was or the applied one, and the
  instances of contracts that were not listed are untouched.
\<close>

theorem extend_many_keeps_contracts_alive:
  assumes "deployer_laws n" and "extend_many n cs t x s = (Ok applied, s')"
  shows "length cs \<le> 20 \<and> applied = replicate (length cs) (min x (max_ttl n))
    \<and> published s' = published s @ map (\<lambda>c. TtlExtended c t (min x (max_ttl n))) cs
    \<and> extended_from n cs t (min x (max_ttl n)) (world s) (world s')"
proof -
  have "wp (extend_many n cs t x) (\<lambda>applied s'. length cs \<le> 20
    \<and> applied = replicate (length cs) (min x (max_ttl n))
    \<and> published s' = published s @ map (\<lambda>c. TtlExtended c t (min x (max_ttl n))) cs
    \<and> extended_from n cs t (min x (max_ttl n)) (world s) (world s')) (\<lambda>_ _. True) True s"
    by (auto simp: extend_many_def MAX_EXTEND_MANY_def wps intro: wp_mono [OF wp_extend_all [OF assms(1)]])
  from wp_OkD [OF this assms(2)] show ?thesis .
qed

text \<open>A network of lifetimes, where an extension does exactly what is documented.\<close>

definition lifetimes :: "(address \<Rightarrow> lifetime \<Rightarrow> u32) network" where
  "lifetimes =
     \<lparr>max_ttl = 1000,
      deployer_extend = (\<lambda>c t x w. if t \<le> x
        then Some (w(c := (\<lambda>k. if w c k < t then x else w c k))) else None),
      ttl_of = (\<lambda>w. w)\<rparr>"

lemma lifetimes_simps [simp]:
  "max_ttl lifetimes = 1000" "ttl_of lifetimes w = w"
  "deployer_extend lifetimes c t x w =
     (if t \<le> x then Some (w(c := (\<lambda>k. if w c k < t then x else w c k))) else None)"
  by (simp_all add: lifetimes_def)

definition short_lived :: "(unit, address \<Rightarrow> lifetime \<Rightarrow> u32, ttl_event, unit) ctx" where
  "short_lived = \<lparr>storage = (), world = (\<lambda>_ _. 10), published = [], extensions = []\<rparr>"

lemma lifetimes_laws: "deployer_laws lifetimes"
  by (auto simp: deployer_laws_def split: if_splits)

theorem extend_many_keeps_contracts_alive_witness:
  "\<exists>s'. extend_many lifetimes [Address 1, Address 2] 500 5000 short_lived = (Ok [1000, 1000], s')
    \<and> extended_from lifetimes [Address 1, Address 2] 500 1000 (world short_lived) (world s')"
proof -
  let ?m = "extend_many lifetimes [Address 1, Address 2] 500 5000"
  have "wp ?m (\<lambda>r _. r = [1000, 1000]) (\<lambda>_ _. False) False short_lived"
    by (simp add: extend_many_def MAX_EXTEND_MANY_def wps wp_extend_one)
  from wp_returns [OF this] obtain s' where s': "?m short_lived = (Ok [1000, 1000], s')" by blast
  from extend_many_keeps_contracts_alive [OF lifetimes_laws s'] s' show ?thesis by simp
qed

text \<open>Too many contracts are refused before anything is touched.\<close>

lemma extend_many_too_many:
  "20 < length cs \<Longrightarrow> extend_many n cs t x s = (Err TooManyContracts, s)"
  by (simp add: extend_many_def MAX_EXTEND_MANY_def andthen_def bind_def fail_if_def err_def)

lemma extend_is_extend_many_of_one:
  "extend n c t x s = (Ok y, s') \<longleftrightarrow> extend_many n [c] t x s = (Ok [y], s')"
  by (auto simp: extend_def extend_many_def MAX_EXTEND_MANY_def andthen_def bind_def fail_if_def ok_def
      split: prod.split outcome.split)

end
