(* ===== verification/Triggers.thy ===== *)
theory Triggers
  imports Clients
begin

text \<open>
  The small targets and resolvers under \<open>contracts/examples/\<close>: \<open>counter\<close>,
  \<open>flag-resolver\<close>, \<open>oracle-trigger\<close>, \<open>nft-floor-trigger\<close>, \<open>rebalance-resolver\<close> and
  \<open>price-resolver\<close>. What they read from other contracts comes from the host's calls and is
  decoded the way the generated clients decode it.
\<close>

section \<open>Counter\<close>

record counter_store =
  counter_count :: "u32 option"

type_synonym ('w, 'a) counter = "((counter_store, 'w, unit, unit) ctx, unit, 'a) act"

definition count :: "('w, u32) counter" where
  "count = load (\<lambda>d. case counter_count d of None \<Rightarrow> 0 | Some n \<Rightarrow> n)"

definition increment :: "u32 \<Rightarrow> ('w, u32) counter" where
  "increment n =
     bind count (\<lambda>c.
     let c = sat_add c n
     in andthen (save (counter_count_update (\<lambda>_. Some c)))
       (andthen (extend_ttl (ExtendInstance 100000 500000))
       (ok c)))"

lemma increment_counts:
  assumes "count s = (Ok c, u)"
  shows "\<exists>t. increment n s = (Ok (sat_add c n), t) \<and> fst (count t) = Ok (sat_add c n)"
  using assms
  by (auto simp: increment_def count_def load_def gets_def save_def modify_def bind_def andthen_def
      extend_ttl_def ok_def Let_def)

section \<open>Flag resolver\<close>

record flag_store =
  flag_admin :: "address option"
  flag_ready :: "bool option"

type_synonym ('w, 'a) flag = "((flag_store, 'w, unit, unit) ctx, unit, 'a) act"

definition flag_constructor :: "address \<Rightarrow> ('w, unit) flag" where
  "flag_constructor a = save (flag_admin_update (\<lambda>_. Some a))"

definition set_ready :: "env \<Rightarrow> bool \<Rightarrow> ('w, unit) flag" where
  "set_ready e ready =
     bind (stored flag_admin) (\<lambda>a.
     andthen (require_auth e a)
     (andthen (save (flag_ready_update (\<lambda>_. Some ready)))
     (extend_ttl (ExtendInstance 100000 500000))))"

definition flag_should_run :: "u64 \<Rightarrow> ('w, bool) flag" where
  "flag_should_run jid = load (\<lambda>d. case flag_ready d of None \<Rightarrow> False | Some b \<Rightarrow> b)"

lemma flag_answers_what_was_set:
  assumes "set_ready e ready s = (Ok (), t)"
  shows "flag_should_run jid t = (Ok ready, t)"
proof -
  have "wp (set_ready e ready) (\<lambda>_ t. flag_ready (storage t) = Some ready) (\<lambda>_ _. True) True s"
    by (simp add: set_ready_def wps split: option.split)
  from wp_OkD [OF this assms] show ?thesis by (simp add: flag_should_run_def load_def gets_def)
qed

section \<open>Oracle trigger\<close>

datatype oracle_error = Unauthorized | InvalidPrice

record trigger_config =
  current_price :: int
  threshold_price :: int
  trigger_below :: bool
  trigger_active :: bool

record oracle_store =
  oracle_admin :: "address option"
  oracle_config :: "trigger_config option"

type_synonym ('w, 'a) oracle_act = "((oracle_store, 'w, unit, unit) ctx, oracle_error, 'a) act"

definition oracle_constructor :: "address \<Rightarrow> int \<Rightarrow> bool \<Rightarrow> ('w, unit) oracle_act" where
  "oracle_constructor a threshold below =
     andthen (require (0 < threshold))
     (andthen (save (oracle_admin_update (\<lambda>_. Some a)))
     (andthen (save (oracle_config_update (\<lambda>_. Some \<lparr>current_price = threshold,
         threshold_price = threshold, trigger_below = below, trigger_active = True\<rparr>)))
     (extend_ttl (ExtendInstance 100000 500000))))"

definition update_price :: "env \<Rightarrow> int \<Rightarrow> ('w, unit) oracle_act" where
  "update_price e n =
     bind (stored oracle_admin) (\<lambda>a.
     andthen (require_auth e a)
     (andthen (require (0 < n))
     (bind (stored oracle_config) (\<lambda>c.
     andthen (save (oracle_config_update (\<lambda>_. Some (c\<lparr>current_price := n\<rparr>))))
     (extend_ttl (ExtendInstance 100000 500000))))))"

definition set_threshold :: "env \<Rightarrow> int \<Rightarrow> bool \<Rightarrow> ('w, unit) oracle_act" where
  "set_threshold e n below =
     bind (stored oracle_admin) (\<lambda>a.
     andthen (require_auth e a)
     (andthen (require (0 < n))
     (bind (stored oracle_config) (\<lambda>c.
     andthen (save (oracle_config_update (\<lambda>_. Some
       (c\<lparr>threshold_price := n, trigger_below := below\<rparr>))))
     (extend_ttl (ExtendInstance 100000 500000))))))"

definition oracle_should_run :: "u64 \<Rightarrow> ('w, bool) oracle_act" where
  "oracle_should_run jid = load (\<lambda>d.
     case oracle_config d of
       None \<Rightarrow> False
     | Some c \<Rightarrow>
         if \<not> trigger_active c then False
         else if trigger_below c then current_price c \<le> threshold_price c
         else threshold_price c \<le> current_price c)"

definition oracle_get_config :: "('w, trigger_config) oracle_act" where
  "oracle_get_config = stored oracle_config"

text \<open>Prices and thresholds stay positive, and the trigger active, under every operation.\<close>

definition oracle_ok :: "oracle_store \<Rightarrow> bool" where
  "oracle_ok d \<longleftrightarrow> (case oracle_config d of None \<Rightarrow> oracle_admin d = None
     | Some c \<Rightarrow> 0 < current_price c \<and> 0 < threshold_price c \<and> trigger_active c)"

lemma wp_oracle_ops:
  "wp (oracle_constructor a n b) (\<lambda>_ t. oracle_ok (storage t)) (\<lambda>_ _. False) True s"
  "oracle_ok (storage s) \<Longrightarrow>
     wp (update_price e n) (\<lambda>_ t. oracle_ok (storage t)) (\<lambda>_ _. False) True s"
  "oracle_ok (storage s) \<Longrightarrow>
     wp (set_threshold e n b) (\<lambda>_ t. oracle_ok (storage t)) (\<lambda>_ _. False) True s"
  by (auto simp: oracle_constructor_def update_price_def set_threshold_def oracle_ok_def wps
      split: option.splits)

lemma new_oracle_fires:
  "oracle_constructor a n b s = (Ok (), t) \<Longrightarrow> oracle_should_run jid t = (Ok True, t)"
proof -
  assume ok: "oracle_constructor a n b s = (Ok (), t)"
  have "wp (oracle_constructor a n b) (\<lambda>_ t. oracle_should_run jid t = (Ok True, t)) (\<lambda>_ _. True) True s"
    by (simp add: oracle_constructor_def oracle_should_run_def load_def gets_def wps)
  from wp_OkD [OF this ok] show ?thesis .
qed

section \<open>Records of a price index\<close>

text \<open>
  \<open>Option<struct>\<close> as a returned value: void, or a map with the fields in alphabetical order.
\<close>

fun decode_price :: "val \<Rightarrow> (int \<times> u64) option option" where
  "decode_price ValVoid = Some None"
| "decode_price (ValMap [(ValSymbol k, ValI128 p), (ValSymbol l, ValU64 t)]) =
     (if k = ''price'' \<and> l = ''timestamp'' then Some (Some (p, t)) else None)"
| "decode_price v = None"

text \<open>\<open>try_..(..).ok()?.ok()??\<close> followed by the check of the age.\<close>

definition fresh :: "env \<Rightarrow> u64 \<Rightarrow> (int \<times> u64) option option \<Rightarrow> int option" where
  "fresh e max_age r =
     (case r of
        Some (Some (p, t)) \<Rightarrow> if sat_sub (now e) t \<le> max_age then Some p else None
      | _ \<Rightarrow> None)"

lemma fresh_Some_iff:
  "fresh e max_age r = Some p \<longleftrightarrow> (\<exists>t. r = Some (Some (p, t)) \<and> sat_sub (now e) t \<le> max_age)"
  by (auto simp: fresh_def split: option.splits)

section \<open>NFT floor trigger\<close>

record trigger =
  floor_index :: address
  floor_collection :: address
  floor_threshold :: int
  floor_max_age :: u64

record floor_store =
  floor_admin :: "address option"
  floor_trigger :: "trigger option"

type_synonym ('w, 'a) floor_contract = "((floor_store, 'w, unit, unit) ctx, unit, 'a) act"

definition floor_constructor :: "address \<Rightarrow> trigger \<Rightarrow> ('w, unit) floor_contract" where
  "floor_constructor a t =
     andthen (save (floor_admin_update (\<lambda>_. Some a)))
     (save (floor_trigger_update (\<lambda>_. Some t)))"

definition set_trigger :: "env \<Rightarrow> trigger \<Rightarrow> ('w, unit) floor_contract" where
  "set_trigger e t =
     bind (stored floor_admin) (\<lambda>a.
     andthen (require_auth e a)
     (save (floor_trigger_update (\<lambda>_. Some t))))"

definition trigger_view :: "('w, trigger) floor_contract" where
  "trigger_view = stored floor_trigger"

definition floor_price :: "'w host \<Rightarrow> env \<Rightarrow> ('w, int option) floor_contract" where
  "floor_price h e =
     bind trigger_view (\<lambda>t.
     bind (try_read h (me e) (floor_index t) ''floor_price'' [ValAddress (floor_collection t)]
        decode_price) (\<lambda>r.
     ok (fresh e (floor_max_age t) r)))"

definition floor_should_run :: "'w host \<Rightarrow> env \<Rightarrow> u64 \<Rightarrow> ('w, bool) floor_contract" where
  "floor_should_run h e jid =
     bind trigger_view (\<lambda>t.
     bind (floor_price h e) (\<lambda>p.
     ok (case p of None \<Rightarrow> False | Some p \<Rightarrow> p < floor_threshold t)))"

lemma floor_fires_only_below:
  assumes "floor_should_run h e jid s = (Ok True, t)"
  shows "\<exists>c p stamp w. floor_trigger (storage s) = Some c \<and> p < floor_threshold c
    \<and> sat_sub (now e) stamp \<le> floor_max_age c \<and> storage t = storage s
    \<and> call_contract h (me e) (floor_index c) ''floor_price'' [ValAddress (floor_collection c)]
        (world s) = Some (Returned (ValMap
          [(ValSymbol ''price'', ValI128 p), (ValSymbol ''timestamp'', ValU64 stamp)]), w)"
proof -
  have decoded: "v = ValMap [(ValSymbol ''price'', ValI128 p), (ValSymbol ''timestamp'', ValU64 st)]"
    if "decode_price v = Some (Some (p, st))" for v p st
    using that by (cases v rule: decode_price.cases) (auto split: if_splits)
  have "wp (floor_should_run h e jid) (\<lambda>b t. b \<longrightarrow> (\<exists>c p stamp w. floor_trigger (storage s) = Some c
    \<and> p < floor_threshold c
    \<and> sat_sub (now e) stamp \<le> floor_max_age c \<and> storage t = storage s
    \<and> call_contract h (me e) (floor_index c) ''floor_price'' [ValAddress (floor_collection c)]
        (world s) = Some (Returned (ValMap
          [(ValSymbol ''price'', ValI128 p), (ValSymbol ''timestamp'', ValU64 stamp)]), w)))
    (\<lambda>_ _. True) True s"
    by (auto simp: floor_should_run_def floor_price_def trigger_view_def wps fresh_Some_iff
        split: option.split call_result.splits dest!: decoded)
  from wp_OkD [OF this assms] show ?thesis by simp
qed

end
