(* ===== verification/PriceResolvers.thy ===== *)
theory PriceResolvers
  imports Triggers
begin

text \<open>
  Two resolvers that compute: \<open>contracts/examples/rebalance-resolver\<close> (drift of a pool
  from a target ratio) and \<open>contracts/examples/price-resolver\<close> (a Reflector oracle).
\<close>

section \<open>Rebalance resolver\<close>

definition RATIO_SCALE :: int where "RATIO_SCALE = 10000000"

record pool_target =
  pool_pair :: address
  pool_ratio :: int
  threshold_bps :: u32

record pool_store =
  pool_admin :: "address option"
  pool_goal :: "pool_target option"

type_synonym ('w, 'a) rebalancer = "((pool_store, 'w, unit, unit) ctx, unit, 'a) act"

definition rebalance_constructor :: "address \<Rightarrow> pool_target \<Rightarrow> ('w, unit) rebalancer" where
  "rebalance_constructor a t =
     andthen (save (pool_admin_update (\<lambda>_. Some a)))
     (save (pool_goal_update (\<lambda>_. Some t)))"

definition set_target :: "env \<Rightarrow> pool_target \<Rightarrow> ('w, unit) rebalancer" where
  "set_target e t =
     bind (stored pool_admin) (\<lambda>a.
     andthen (require_auth e a)
     (save (pool_goal_update (\<lambda>_. Some t))))"

definition target_view :: "('w, pool_target) rebalancer" where
  "target_view = stored pool_goal"

fun decode_reserves :: "val \<Rightarrow> (int \<times> int) option" where
  "decode_reserves (ValVec [ValI128 a, ValI128 b]) = Some (a, b)"
| "decode_reserves v = None"

text \<open>\<open>(ratio - target).abs()\<close> panics out of range; the two multiplications are checked.\<close>

definition drift :: "pool_target \<Rightarrow> int \<times> int \<Rightarrow> ('s, 'e, int option) act" where
  "drift t = (\<lambda>(r0, r1).
     if r0 \<le> 0 \<or> r1 \<le> 0 \<or> pool_ratio t \<le> 0 then ok None
     else case checked_i128 (r0 * RATIO_SCALE) of
       None \<Rightarrow> ok None
     | Some scaled \<Rightarrow>
         bind (i128 (trunc_div scaled r1 - pool_ratio t)) (\<lambda>d.
         bind (i128 \<bar>d\<bar>) (\<lambda>diff.
         ok (case checked_i128 (diff * 10000) of
               None \<Rightarrow> None
             | Some x \<Rightarrow> Some (trunc_div x (pool_ratio t))))))"

definition deviation_bps :: "'w host \<Rightarrow> env \<Rightarrow> ('w, int option) rebalancer" where
  "deviation_bps h e =
     bind target_view (\<lambda>t.
     bind (try_read h (me e) (pool_pair t) ''get_reserves'' [] decode_reserves) (\<lambda>r.
     case r of None \<Rightarrow> ok None | Some r \<Rightarrow> drift t r))"

definition rebalance_should_run :: "'w host \<Rightarrow> env \<Rightarrow> u64 \<Rightarrow> ('w, bool) rebalancer" where
  "rebalance_should_run h e jid =
     bind target_view (\<lambda>t.
     bind (deviation_bps h e) (\<lambda>d.
     ok (case d of None \<Rightarrow> False | Some d \<Rightarrow> uint (threshold_bps t) \<le> d)))"

text \<open>
  The drift never panics: with positive reserves and target the difference and its absolute
  value fit, and the answer is the deviation in basis points rounded down.
\<close>

lemma drift_value:
  assumes "in_i128 (pool_ratio t)" and "in_i128 r0" and "in_i128 r1"
  shows "drift t (r0, r1) s =
    (Ok (if 0 < r0 \<and> 0 < r1 \<and> 0 < pool_ratio t \<and> in_i128 (r0 * RATIO_SCALE)
           \<and> in_i128 (\<bar>r0 * RATIO_SCALE div r1 - pool_ratio t\<bar> * 10000)
         then Some (\<bar>r0 * RATIO_SCALE div r1 - pool_ratio t\<bar> * 10000 div pool_ratio t) else None), s)"
proof (cases "0 < r0 \<and> 0 < r1 \<and> 0 < pool_ratio t \<and> in_i128 (r0 * RATIO_SCALE)")
  case True
  then have pos: "0 < r0" "0 < r1" "0 < pool_ratio t" and fit: "in_i128 (r0 * RATIO_SCALE)" by auto
  let ?q = "r0 * RATIO_SCALE div r1"
  have scaled: "0 \<le> r0 * RATIO_SCALE" using pos by (simp add: RATIO_SCALE_def)
  have q: "0 \<le> ?q" "?q \<le> r0 * RATIO_SCALE"
    using pos scaled zdiv_mono2 [of "r0 * RATIO_SCALE" 1 r1]
    by (simp_all add: pos_imp_zdiv_nonneg_iff)
  have "r0 * RATIO_SCALE < 2 ^ 127" "pool_ratio t < 2 ^ 127"
    using fit assms(1) by (simp_all add: in_i128_def)
  then have "in_i128 (?q - pool_ratio t)" "in_i128 \<bar>?q - pool_ratio t\<bar>"
    using q pos unfolding in_i128_def by linarith+
  then show ?thesis
    using True scaled
    by (simp add: drift_def checked_i128_def trunc_div_nonneg bind_def i128_def ok_def)
next
  case False
  then show ?thesis by (auto simp: drift_def checked_i128_def ok_def)
qed

definition drifted :: "pool_target \<Rightarrow> int \<times> int \<Rightarrow> int \<Rightarrow> bool" where
  "drifted t = (\<lambda>(r0, r1) d. 0 < r0 \<and> 0 < r1 \<and> 0 < pool_ratio t
     \<and> d = \<bar>r0 * RATIO_SCALE div r1 - pool_ratio t\<bar> * 10000 div pool_ratio t)"

lemma wp_drift:
  "wp (drift t r) (\<lambda>answer u. u = s \<and> (\<forall>d. answer = Some d \<longrightarrow> drifted t r d)) E True s"
proof -
  obtain r0 r1 where r: "r = (r0, r1)" by (cases r)
  have "trunc_div (r0 * RATIO_SCALE) r1 = r0 * RATIO_SCALE div r1" if "0 < r0" "0 < r1"
    using that by (intro trunc_div_nonneg) (simp_all add: RATIO_SCALE_def)
  moreover have "trunc_div (\<bar>x\<bar> * 10000) (pool_ratio t) = \<bar>x\<bar> * 10000 div pool_ratio t"
    if "0 < pool_ratio t" for x
    using that by (intro trunc_div_nonneg) simp_all
  ultimately show ?thesis
    by (auto simp: r drift_def drifted_def checked_i128_def wps split: if_splits)
qed

text \<open>
  A yes of the rebalance resolver means that the pool reported positive reserves and that they
  are off the target by at least the threshold.
\<close>

lemma decode_reserves_Some: "decode_reserves v = Some (a, b) \<Longrightarrow> v = ValVec [ValI128 a, ValI128 b]"
  by (cases v rule: decode_reserves.cases) auto

lemma rebalance_runs_only_when_drifted:
  assumes "rebalance_should_run h e jid s = (Ok True, t)"
  shows "\<exists>g r0 r1 d w. pool_goal (storage s) = Some g \<and> drifted g (r0, r1) d
    \<and> uint (threshold_bps g) \<le> d
    \<and> call_contract h (me e) (pool_pair g) ''get_reserves'' [] (world s)
        = Some (Returned (ValVec [ValI128 r0, ValI128 r1]), w)"
proof -
  have "wp (rebalance_should_run h e jid) (\<lambda>b t. b \<longrightarrow> (\<exists>g r0 r1 d w.
    pool_goal (storage s) = Some g \<and> drifted g (r0, r1) d \<and> uint (threshold_bps g) \<le> d
    \<and> call_contract h (me e) (pool_pair g) ''get_reserves'' [] (world s)
        = Some (Returned (ValVec [ValI128 r0, ValI128 r1]), w))) (\<lambda>_ _. True) True s"
    unfolding rebalance_should_run_def deviation_bps_def target_view_def
    by (auto simp: wps split: option.split call_result.split
        intro!: wp_drift [THEN wp_mono] dest!: decode_reserves_Some) blast+
  from wp_OkD [OF this assms] show ?thesis by simp
qed

section \<open>Price resolver\<close>

datatype asset = Stellar address | Other symbol

datatype direction = Above | Below

record condition =
  price_oracle :: address
  price_asset :: asset
  price_threshold :: int
  price_direction :: direction
  price_max_age :: u64

record price_store =
  price_admin :: "address option"
  price_condition :: "condition option"

type_synonym ('w, 'a) pricer = "((price_store, 'w, unit, unit) ctx, unit, 'a) act"

definition price_constructor :: "address \<Rightarrow> condition \<Rightarrow> ('w, unit) pricer" where
  "price_constructor a c =
     andthen (save (price_admin_update (\<lambda>_. Some a)))
     (save (price_condition_update (\<lambda>_. Some c)))"

definition set_condition :: "env \<Rightarrow> condition \<Rightarrow> ('w, unit) pricer" where
  "set_condition e c =
     bind (stored price_admin) (\<lambda>a.
     andthen (require_auth e a)
     (save (price_condition_update (\<lambda>_. Some c))))"

definition condition_view :: "('w, condition) pricer" where
  "condition_view = stored price_condition"

fun encode_asset :: "asset \<Rightarrow> val" where
  "encode_asset (Stellar a) = ValVec [ValSymbol ''Stellar'', ValAddress a]"
| "encode_asset (Other x) = ValVec [ValSymbol ''Other'', ValSymbol x]"

definition fresh_price :: "'w host \<Rightarrow> env \<Rightarrow> condition \<Rightarrow> ('w, int option) pricer" where
  "fresh_price h e c =
     andthen (extend_ttl (ExtendInstance 17280 (7 * 17280)))
     (bind (try_read h (me e) (price_oracle c) ''lastprice'' [encode_asset (price_asset c)]
        decode_price) (\<lambda>r.
     ok (fresh e (price_max_age c) r)))"

definition price_view :: "'w host \<Rightarrow> env \<Rightarrow> ('w, int option) pricer" where
  "price_view h e = bind condition_view (fresh_price h e)"

definition price_should_run :: "'w host \<Rightarrow> env \<Rightarrow> u64 \<Rightarrow> ('w, bool) pricer" where
  "price_should_run h e jid =
     bind condition_view (\<lambda>c.
     bind (fresh_price h e c) (\<lambda>p.
     ok (case p of
           None \<Rightarrow> False
         | Some p \<Rightarrow> (case price_direction c of
               Above \<Rightarrow> price_threshold c \<le> p
             | Below \<Rightarrow> p \<le> price_threshold c))))"


lemma decode_price_Some:
  "decode_price v = Some (Some (p, t)) \<Longrightarrow>
   v = ValMap [(ValSymbol ''price'', ValI128 p), (ValSymbol ''timestamp'', ValU64 t)]"
  by (cases v rule: decode_price.cases) (auto split: if_splits)

text \<open>
  A price condition never fires blind: the resolver says yes only when the configured
  oracle answered with a price of the configured asset that is at most \<open>max_age\<close> seconds old
  and on the right side of the threshold. A missing, stale, malformed or failing oracle is a
  no, and asking changes neither the condition nor the admin.
\<close>

theorem price_triggers_need_fresh_data:
  assumes "price_should_run h e jid s = (Ok b, t)"
  shows "storage t = storage s \<and>
    (b \<longleftrightarrow> (\<exists>c p stamp w. price_condition (storage s) = Some c
      \<and> call_contract h (me e) (price_oracle c) ''lastprice'' [encode_asset (price_asset c)] (world s)
          = Some (Returned (ValMap
              [(ValSymbol ''price'', ValI128 p), (ValSymbol ''timestamp'', ValU64 stamp)]), w)
      \<and> unat (now e) \<le> unat stamp + unat (price_max_age c)
      \<and> (case price_direction c of Above \<Rightarrow> price_threshold c \<le> p | Below \<Rightarrow> p \<le> price_threshold c)))"
proof -
  have age: "sat_sub (now e) stamp \<le> m \<longleftrightarrow> unat (now e) \<le> unat stamp + unat m" for stamp m
    by (auto simp: word_le_nat_alt unat_sat_sub)
  have "wp (price_should_run h e jid) (\<lambda>b t. storage t = storage s \<and>
    (b \<longleftrightarrow> (\<exists>c p stamp w. price_condition (storage s) = Some c
      \<and> call_contract h (me e) (price_oracle c) ''lastprice'' [encode_asset (price_asset c)] (world s)
          = Some (Returned (ValMap
              [(ValSymbol ''price'', ValI128 p), (ValSymbol ''timestamp'', ValU64 stamp)]), w)
      \<and> unat (now e) \<le> unat stamp + unat (price_max_age c)
      \<and> (case price_direction c of Above \<Rightarrow> price_threshold c \<le> p | Below \<Rightarrow> p \<le> price_threshold c))))
    (\<lambda>_ _. True) True s"
    by (auto simp: price_should_run_def condition_view_def fresh_price_def wps fresh_def age
        split: option.split call_result.splits direction.splits if_splits dest!: decode_price_Some)
  from wp_OkD [OF this assms] show ?thesis .
qed

definition stop_loss :: "(price_store, ledger, unit, unit) ctx" where
  "stop_loss = \<lparr>storage = \<lparr>price_admin = Some (Address 1),
     price_condition = Some \<lparr>price_oracle = Address 7, price_asset = Other ''BTC'',
       price_threshold = 50, price_direction = Below, price_max_age = 300\<rparr>\<rparr>,
     world = (\<lambda>_ _. 0, []), published = [], extensions = []\<rparr>"

theorem price_triggers_need_fresh_data_witness:
  "\<exists>t. price_should_run (ledger_host (\<lambda>_ _ _. Some (Returned (ValMap
        [(ValSymbol ''price'', ValI128 40), (ValSymbol ''timestamp'', ValU64 900)]))))
      \<lparr>now = 1000, ledger = 0, me = Address 2, authorized = (\<lambda>_. False)\<rparr> 3 stop_loss = (Ok True, t)
    \<and> storage t = storage stop_loss"
proof -
  let ?h = "ledger_host (\<lambda>_ _ _. Some (Returned (ValMap
    [(ValSymbol ''price'', ValI128 40), (ValSymbol ''timestamp'', ValU64 900)])))"
  let ?m = "price_should_run ?h \<lparr>now = 1000, ledger = 0, me = Address 2, authorized = (\<lambda>_. False)\<rparr> 3"
  have "wp ?m (\<lambda>b _. b) (\<lambda>_ _. False) False stop_loss"
    by (simp add: price_should_run_def condition_view_def fresh_price_def wps stop_loss_def
        ledger_host_def fresh_def sat_sub_def)
  from wp_returns [OF this] obtain b t where t: "?m stop_loss = (Ok b, t)" "b" by blast
  have "storage t = storage stop_loss" using price_triggers_need_fresh_data [OF t(1)] by blast
  then show ?thesis using t by auto
qed

end
