(* ===== verification/Resolvers.thy ===== *)
theory Resolvers
  imports Clients
begin

text \<open>
  Two resolvers with logic of their own: \<open>contracts/examples/composite-resolver\<close>, which
  combines other resolvers, and \<open>contracts/examples/timelock-resolver\<close>, which opens a job
  exactly while a governance proposal is executable.
\<close>

section \<open>Composite resolver\<close>

definition MAX_RESOLVERS :: nat where "MAX_RESOLVERS = 8"

datatype composite_error = TooManyResolvers | NoResolvers

datatype mode = All | Any

record composite_store =
  comp_admin :: "address option"
  comp_mode :: "mode option"
  comp_resolvers :: "address list option"

type_synonym ('w, 'a) composite = "((composite_store, 'w, unit, unit) ctx, composite_error, 'a) act"

definition store_resolvers :: "mode \<Rightarrow> address list \<Rightarrow> ('w, unit) composite" where
  "store_resolvers m rs =
     andthen (fail_if (rs = []) NoResolvers)
     (andthen (fail_if (MAX_RESOLVERS < length rs) TooManyResolvers)
     (andthen (save (comp_mode_update (\<lambda>_. Some m)))
     (save (comp_resolvers_update (\<lambda>_. Some rs)))))"

definition composite_constructor :: "address \<Rightarrow> mode \<Rightarrow> address list \<Rightarrow> ('w, unit) composite" where
  "composite_constructor a m rs =
     andthen (save (comp_admin_update (\<lambda>_. Some a)))
     (bind (attempt (store_resolvers m rs)) (\<lambda>r.
     case r of Inl e \<Rightarrow> err e | Inr _ \<Rightarrow> ok ()))"

definition composite_set :: "env \<Rightarrow> mode \<Rightarrow> address list \<Rightarrow> ('w, unit) composite" where
  "composite_set e m rs =
     bind (stored comp_admin) (\<lambda>a.
     andthen (require_auth e a)
     (store_resolvers m rs))"

definition mode_view :: "('w, mode) composite" where "mode_view = stored comp_mode"

definition resolvers_view :: "('w, address list) composite" where
  "resolvers_view = stored comp_resolvers"

definition ask :: "'w host \<Rightarrow> env \<Rightarrow> u64 \<Rightarrow> address \<Rightarrow> ('w, bool) composite" where
  "ask h e jid r =
     bind (try_call h (me e) r ''should_run'' [ValU64 jid]) (\<lambda>answer.
     ok (answer = Returned (ValBool True)))"

text \<open>The iterators' \<open>all\<close> and \<open>any\<close> stop at the first answer that decides.\<close>

fun ask_all :: "(address \<Rightarrow> ('w, bool) composite) \<Rightarrow> address list \<Rightarrow> ('w, bool) composite" where
  "ask_all f [] = ok True"
| "ask_all f (r # rs) = bind (f r) (\<lambda>yes. if yes then ask_all f rs else ok False)"

fun ask_any :: "(address \<Rightarrow> ('w, bool) composite) \<Rightarrow> address list \<Rightarrow> ('w, bool) composite" where
  "ask_any f [] = ok False"
| "ask_any f (r # rs) = bind (f r) (\<lambda>yes. if yes then ok True else ask_any f rs)"

definition composite_should_run :: "'w host \<Rightarrow> env \<Rightarrow> u64 \<Rightarrow> ('w, bool) composite" where
  "composite_should_run h e jid =
     bind resolvers_view (\<lambda>rs.
     bind mode_view (\<lambda>m.
     case m of
       All \<Rightarrow> ask_all (ask h e jid) rs
     | Any \<Rightarrow> ask_any (ask h e jid) rs))"

text \<open>What one sub-resolver answers; a broken one says no.\<close>

definition says_yes :: "'w host \<Rightarrow> env \<Rightarrow> u64 \<Rightarrow> 'w \<Rightarrow> address \<Rightarrow> bool" where
  "says_yes h e jid w r =
     (case call_contract h (me e) r ''should_run'' [ValU64 jid] w of
        None \<Rightarrow> False
      | Some (x, _) \<Rightarrow> x = Returned (ValBool True))"

definition combine :: "mode \<Rightarrow> bool list \<Rightarrow> bool" where
  "combine m bs = (case m of All \<Rightarrow> list_all id bs | Any \<Rightarrow> list_ex id bs)"

lemma ask_reads:
  assumes "call_contract h (me e) r ''should_run'' [ValU64 jid] (world s) = Some (x, world s)"
  shows "ask h e jid r s = (Ok (says_yes h e jid (world s) r), s)"
  using assms by (simp add: ask_def says_yes_def bind_def try_call_def ok_def)

lemma ask_all_reads:
  assumes "\<And>r. r \<in> set rs \<Longrightarrow> f r s = (Ok (p r), s)"
  shows "ask_all f rs s = (Ok (list_all p rs), s)" and "ask_any f rs s = (Ok (list_ex p rs), s)"
  using assms by (induction rs) (auto simp: bind_def ok_def)

text \<open>
  C37. A composite resolver is the conjunction or the disjunction of its parts: when its
  sub-resolvers only read, \<open>should_run\<close> answers "all of them say yes" or "at least one says
  yes" for the job id it was asked about, where a sub-resolver that fails, aborts or answers
  anything but \<open>true\<close> counts as a no; and the state is unchanged.
\<close>

theorem composite_combines_the_answers:
  assumes "comp_resolvers (storage s) = Some rs" and "comp_mode (storage s) = Some m"
    and "\<And>r. r \<in> set rs \<Longrightarrow> \<exists>x.
      call_contract h (me e) r ''should_run'' [ValU64 jid] (world s) = Some (x, world s)"
  shows "composite_should_run h e jid s =
    (Ok (combine m (map (says_yes h e jid (world s)) rs)), s)"
proof -
  have reads: "ask h e jid r s = (Ok (says_yes h e jid (world s) r), s)" if "r \<in> set rs" for r
    using assms(3) [OF that] ask_reads by metis
  show ?thesis
    using assms(1,2) ask_all_reads [of rs "ask h e jid" s, OF reads]
    by (cases m) (simp_all add: composite_should_run_def resolvers_view_def mode_view_def stored_def
        load_def gets_def bind_def unwrap_def ok_def combine_def list_all_iff list_ex_iff)
qed

definition two_conditions :: "mode \<Rightarrow> (composite_store, ledger, unit, unit) ctx" where
  "two_conditions m = \<lparr>storage = \<lparr>comp_admin = Some (Address 1), comp_mode = Some m,
     comp_resolvers = Some [Address 5, Address 6]\<rparr>, world = (\<lambda>_ _. 0, []), published = [],
     extensions = []\<rparr>"

definition one_broken :: "ledger host" where
  "one_broken = ledger_host (\<lambda>r _ _. Some (if r = Address 5 then Returned (ValBool True) else Aborted))"

theorem composite_combines_the_answers_witness:
  "composite_should_run one_broken \<lparr>now = 0, ledger = 0, me = Address 2, authorized = (\<lambda>_. False)\<rparr> 9
      (two_conditions Any) = (Ok True, two_conditions Any)"
proof -
  let ?e = "\<lparr>now = 0, ledger = 0, me = Address 2, authorized = (\<lambda>_. False)\<rparr>"
  have "comp_resolvers (storage (two_conditions Any)) = Some [Address 5, Address 6]"
    "comp_mode (storage (two_conditions Any)) = Some Any"
    by (simp_all add: two_conditions_def)
  moreover have "\<exists>x. call_contract one_broken (me ?e) r ''should_run'' [ValU64 9] (world (two_conditions Any))
    = Some (x, world (two_conditions Any))" for r
    by (simp add: one_broken_def ledger_host_def)
  ultimately have "composite_should_run one_broken ?e 9 (two_conditions Any) =
    (Ok (combine Any (map (says_yes one_broken ?e 9 (world (two_conditions Any))) [Address 5, Address 6])),
      two_conditions Any)"
    by (rule composite_combines_the_answers)
  then show ?thesis
    by (simp add: combine_def says_yes_def one_broken_def ledger_host_def)
qed

text \<open>Any stored list has one to eight resolvers.\<close>

definition composite_ok :: "composite_store \<Rightarrow> bool" where
  "composite_ok d \<longleftrightarrow> (\<forall>rs. comp_resolvers d = Some rs \<longrightarrow> rs \<noteq> [] \<and> length rs \<le> 8)"

lemma composite_set_ok:
  "composite_set e m rs s = (Ok (), t) \<Longrightarrow> composite_ok (storage t)"
proof -
  assume run: "composite_set e m rs s = (Ok (), t)"
  have "wp (composite_set e m rs) (\<lambda>_ t. composite_ok (storage t)) (\<lambda>_ _. True) True s"
    by (simp add: composite_set_def store_resolvers_def composite_ok_def MAX_RESOLVERS_def wps
        split: option.split)
  from wp_OkD [OF this run] show ?thesis .
qed

end
