(* ===== verification/TimelockResolver.thy ===== *)
theory TimelockResolver
  imports Clients
begin

text \<open>
  \<open>contracts/examples/timelock-resolver\<close>: governance proposals with an execution window, and
  the jobs bound to them. A job may run exactly while its proposal is ready.
\<close>

section \<open>The contract\<close>

datatype timelock_error = UnknownProposal | AlreadyRegistered

record proposal =
  queued_at :: u64
  eta :: u64
  open_for :: u64
  executed :: bool

datatype proposal_state = Unknown | Queued | Ready | Expired | Executed

record governor_store =
  gov_admin :: "address option"
  gov_proposals :: "bytes \<rightharpoonup> proposal"
  gov_jobs :: "u64 \<rightharpoonup> bytes"

type_synonym ('w, 'a) governor = "((governor_store, 'w, unit, unit) ctx, timelock_error, 'a) act"

definition governor_admin :: "('w, address) governor" where
  "governor_admin = stored gov_admin"

definition governor_constructor :: "address \<Rightarrow> ('w, unit) governor" where
  "governor_constructor a = save (gov_admin_update (\<lambda>_. Some a))"

definition register :: "env \<Rightarrow> bytes \<Rightarrow> u64 \<Rightarrow> u64 \<Rightarrow> ('w, unit) governor" where
  "register e p at_time for_seconds =
     bind governor_admin (\<lambda>a.
     andthen (require_auth e a)
     (bind (load (\<lambda>d. gov_proposals d p)) (\<lambda>old.
     andthen (fail_if (old \<noteq> None) AlreadyRegistered)
     (save (gov_proposals_update (\<lambda>m. m(p \<mapsto>
        \<lparr>queued_at = now e, eta = at_time, open_for = for_seconds, executed = False\<rparr>)))))))"

definition bind_proposal :: "env \<Rightarrow> u64 \<Rightarrow> bytes \<Rightarrow> ('w, unit) governor" where
  "bind_proposal e jid p =
     bind governor_admin (\<lambda>a.
     andthen (require_auth e a)
     (bind (load (\<lambda>d. gov_proposals d p)) (\<lambda>old.
     andthen (fail_if (old = None) UnknownProposal)
     (save (gov_jobs_update (\<lambda>m. m(jid \<mapsto> p)))))))"

definition mark_executed :: "env \<Rightarrow> bytes \<Rightarrow> ('w, unit) governor" where
  "mark_executed e p =
     bind governor_admin (\<lambda>a.
     andthen (require_auth e a)
     (bind (load (\<lambda>d. gov_proposals d p)) (\<lambda>old.
     bind (ok_or old UnknownProposal) (\<lambda>q.
     save (gov_proposals_update (\<lambda>m. m(p \<mapsto> q\<lparr>executed := True\<rparr>)))))))"

definition proposal_state :: "env \<Rightarrow> bytes \<Rightarrow> ('w, proposal_state) governor" where
  "proposal_state e p = load (\<lambda>d.
     case gov_proposals d p of
       None \<Rightarrow> Unknown
     | Some q \<Rightarrow>
         if executed q then Executed
         else if now e < eta q then Queued
         else if now e < sat_add (eta q) (open_for q) then Ready
         else Expired)"

definition governor_should_run :: "env \<Rightarrow> u64 \<Rightarrow> ('w, bool) governor" where
  "governor_should_run e jid =
     bind (load (\<lambda>d. gov_jobs d jid)) (\<lambda>p.
     case p of
       None \<Rightarrow> ok False
     | Some p \<Rightarrow> bind (proposal_state e p) (\<lambda>st. ok (st = Ready)))"

section \<open>Histories\<close>

datatype governor_op = Register bytes u64 u64 | BindProposal u64 bytes | MarkExecuted bytes

fun govern :: "env \<Rightarrow> governor_op \<Rightarrow> ('w, unit) governor" where
  "govern e (Register p a b) = register e p a b"
| "govern e (BindProposal jid p) = bind_proposal e jid p"
| "govern e (MarkExecuted p) = mark_executed e p"

text \<open>A proposal keeps its window for ever, and never becomes executable again.\<close>

definition keeps_windows :: "governor_store \<Rightarrow> governor_store \<Rightarrow> bool" where
  "keeps_windows d d' \<longleftrightarrow> (\<forall>p q. gov_proposals d p = Some q \<longrightarrow>
     (\<exists>q'. gov_proposals d' p = Some q' \<and> eta q' = eta q \<and> open_for q' = open_for q
        \<and> queued_at q' = queued_at q \<and> (executed q \<longrightarrow> executed q')))"

lemma wp_govern:
  "wp (govern e x) (\<lambda>_ t. keeps_windows (storage s) (storage t)) (\<lambda>_ _. True) True s"
  by (cases x) (auto simp: register_def bind_proposal_def mark_executed_def governor_admin_def wps
      keeps_windows_def split: option.split)

interpretation governed: kept_by govern keeps_windows
proof
  show "keeps_windows d d" for d by (simp add: keeps_windows_def)
  show "keeps_windows a b \<Longrightarrow> keeps_windows b c \<Longrightarrow> keeps_windows a c" for a b c
    unfolding keeps_windows_def by metis
  show "keeps_windows (storage s) (storage t)" if "govern e x s = (Ok y, t)"
    for e x and s t :: "(governor_store, 'b, unit, unit) ctx" and y
    using wp_OkD [OF wp_govern that] .
qed

lemma should_run_iff:
  "governor_should_run e jid s = (Ok b, t) \<longleftrightarrow> t = s \<and>
     (b \<longleftrightarrow> (\<exists>p q. gov_jobs (storage s) jid = Some p \<and> gov_proposals (storage s) p = Some q
       \<and> \<not> executed q \<and> eta q \<le> now e \<and> now e < sat_add (eta q) (open_for q)))"
  by (auto simp: governor_should_run_def proposal_state_def load_def gets_def bind_def ok_def
      split: option.splits)

text \<open>
  C38. A job bound to a proposal runs in the proposal's window and nowhere else: whatever
  governance did after registering it, the resolver says yes only from the registered \<open>eta\<close>
  until the window closes, and only while the proposal has not been marked executed.
\<close>

theorem jobs_run_in_the_registered_window:
  fixes s u :: "(governor_store, 'w, unit, unit) ctx"
  assumes "register e p at_time for_seconds s = (Ok (), t)" and "history govern t u"
    and "gov_jobs (storage u) jid = Some p"
  shows "\<exists>done. governor_should_run e' jid u =
      (Ok (\<not> done \<and> at_time \<le> now e' \<and> now e' < sat_add at_time for_seconds), u)
    \<and> (\<forall>v v' e''. history govern t v \<longrightarrow> mark_executed e'' p v = (Ok (), v') \<longrightarrow>
         history govern v' u \<longrightarrow> done)"
proof -
  have reg: "wp (register e p at_time for_seconds) (\<lambda>_ t. gov_proposals (storage t) p = Some
    \<lparr>queued_at = now e, eta = at_time, open_for = for_seconds, executed = False\<rparr>) (\<lambda>_ _. True) True s"
    by (simp add: register_def governor_admin_def wps split: option.split)
  obtain q where q: "gov_proposals (storage u) p = Some q" "eta q = at_time" "open_for q = for_seconds"
    using governed.along [OF assms(2)] wp_OkD [OF reg assms(1)] unfolding keeps_windows_def by fastforce
  have "executed q"
    if "mark_executed e'' p v = (Ok (), v')" and hist: "history govern v' u"
    for e'' and v v' :: "(governor_store, 'w, unit, unit) ctx"
  proof -
    have "wp (mark_executed e'' p) (\<lambda>_ t. \<exists>q. gov_proposals (storage t) p = Some q \<and> executed q)
      (\<lambda>_ _. True) True v"
      by (simp add: mark_executed_def governor_admin_def wps split: option.split)
    from wp_OkD [OF this that(1)] obtain q' where "gov_proposals (storage v') p = Some q'" "executed q'"
      by blast
    then show ?thesis
      using governed.along [OF hist] q(1) unfolding keeps_windows_def by fastforce
  qed
  moreover have "governor_should_run e' jid u =
    (Ok (\<not> executed q \<and> at_time \<le> now e' \<and> now e' < sat_add at_time for_seconds), u)"
    unfolding should_run_iff using assms(3) q by auto
  ultimately show ?thesis by blast
qed

definition new_governor :: "(governor_store, ledger, unit, unit) ctx" where
  "new_governor = \<lparr>storage = \<lparr>gov_admin = Some (Address 1), gov_proposals = Map.empty,
     gov_jobs = Map.empty\<rparr>, world = (\<lambda>_ _. 0, []), published = [], extensions = []\<rparr>"

theorem jobs_run_in_the_registered_window_witness:
  "\<exists>u :: (governor_store, ledger, unit, unit) ctx. governor_should_run \<lparr>now = 150, ledger = 0, me = Address 2, authorized = (\<lambda>_. False)\<rparr> 7 u
      = (Ok True, u) \<and> gov_jobs (storage u) 7 = Some [1]"
proof -
  let ?e = "\<lparr>now = 10, ledger = 0, me = Address 2, authorized = (\<lambda>a. a = Address 1)\<rparr>"
  let ?e' = "\<lparr>now = 150, ledger = 0, me = Address 2, authorized = (\<lambda>_. False)\<rparr>"
  have "wp (register ?e [1] 100 60) (\<lambda>_ t. t = new_governor\<lparr>storage := storage t\<rparr>
    \<and> gov_admin (storage t) = Some (Address 1) \<and> gov_proposals (storage t) [1] \<noteq> None) (\<lambda>_ _. False) False new_governor"
    by (simp add: register_def governor_admin_def wps new_governor_def)
  from wp_returns [OF this] obtain t where t: "register ?e [1] 100 60 new_governor = (Ok (), t)"
    and adm: "gov_admin (storage t) = Some (Address 1)" and known: "gov_proposals (storage t) [1] \<noteq> None"
    by auto
  have "wp (bind_proposal ?e 7 [1]) (\<lambda>_ u. gov_jobs (storage u) 7 = Some [1]
    \<and> gov_proposals (storage u) = gov_proposals (storage t)) (\<lambda>_ _. False) False t"
    using adm known by (simp add: bind_proposal_def governor_admin_def wps)
  from wp_returns [OF this] obtain u where u: "bind_proposal ?e 7 [1] t = (Ok (), u)"
    and bound: "gov_jobs (storage u) 7 = Some [1]"
    and same: "gov_proposals (storage u) = gov_proposals (storage t)" by auto
  have "history govern t u" using history_call [of govern ?e "BindProposal 7 [1]" t "()" u] u by simp
  from jobs_run_in_the_registered_window [OF t this bound, of ?e'] obtain finished where
    *: "governor_should_run ?e' 7 u = (Ok (\<not> finished \<and> (100 :: u64) \<le> 150 \<and> (150 :: u64) < sat_add 100 60), u)"
    by auto
  have "wp (register ?e [1] 100 60) (\<lambda>_ t. \<exists>q. gov_proposals (storage t) [1] = Some q
    \<and> \<not> executed q \<and> eta q = 100 \<and> open_for q = 60) (\<lambda>_ _. True) True new_governor"
    by (simp add: register_def governor_admin_def wps new_governor_def)
  from wp_OkD [OF this t] have "\<not> finished"
    using * bound same by (auto simp: should_run_iff sat_add_def)
  then show ?thesis using * bound by (auto simp: sat_add_def)
qed

end
