(* ===== verification/SelfExtending.thy ===== *)
theory SelfExtending
  imports Clients
begin

text \<open>
  \<open>contracts/examples/self-extending\<close>: a contract that keeps its own persistent entries
  alive. The model records every extension it asks for; an entry that is not asked for is
  the one that would be archived.
\<close>

section \<open>The contract\<close>

definition SELF_EXTEND_TO :: u32 where "SELF_EXTEND_TO = 30 * 17280"

definition SELF_THRESHOLD :: u32 where "SELF_THRESHOLD = 20 * 17280"

definition MAX_KEYS :: nat where "MAX_KEYS = 50"

datatype self_error = TooManyKeys

datatype self_key = SelfAdmin | SelfIndex | Entry symbol

record self_store =
  self_admin :: "address option"
  self_index :: "symbol list option"
  self_entries :: "symbol \<rightharpoonup> bytes"

type_synonym ('w, 'a) self = "((self_store, 'w, unit, self_key) ctx, self_error, 'a) act"

definition self_constructor :: "address \<Rightarrow> ('w, unit) self" where
  "self_constructor a =
     andthen (save (self_admin_update (\<lambda>_. Some a)))
     (save (self_index_update (\<lambda>_. Some [])))"

definition self_put :: "env \<Rightarrow> symbol \<Rightarrow> bytes \<Rightarrow> ('w, unit) self" where
  "self_put e k v =
     bind (stored self_admin) (\<lambda>a.
     andthen (require_auth e a)
     (bind (stored self_index) (\<lambda>index.
     andthen (only_if (k \<notin> set index)
        (andthen (fail_if (MAX_KEYS \<le> length index) TooManyKeys)
        (save (self_index_update (\<lambda>_. Some (index @ [k]))))))
     (andthen (save (self_entries_update (\<lambda>m. m(k \<mapsto> v))))
     (extend_ttl (ExtendPersistent (Entry k) SELF_THRESHOLD SELF_EXTEND_TO))))))"

definition self_get :: "symbol \<Rightarrow> ('w, bytes option) self" where
  "self_get k = load (\<lambda>d. self_entries d k)"

definition extend_entry :: "symbol \<Rightarrow> ('w, unit) self" where
  "extend_entry k =
     bind (load (\<lambda>d. self_entries d k)) (\<lambda>v.
     only_if (v \<noteq> None) (extend_ttl (ExtendPersistent (Entry k) SELF_THRESHOLD SELF_EXTEND_TO)))"

definition extend_all_entries :: "('w, u32) self" where
  "extend_all_entries =
     andthen (extend_ttl (ExtendInstance SELF_THRESHOLD SELF_EXTEND_TO))
     (bind (stored self_index) (\<lambda>index.
     andthen (collect extend_entry index)
     (ok (of_nat (length index)))))"

datatype self_op = Put symbol bytes | ExtendAll

fun self_perform :: "env \<Rightarrow> self_op \<Rightarrow> ('w, unit) self" where
  "self_perform e (Put k v) = self_put e k v"
| "self_perform e ExtendAll = bind extend_all_entries (\<lambda>_. ok ())"

section \<open>Every stored entry is in the index\<close>

definition self_ok :: "self_store \<Rightarrow> bool" where
  "self_ok d \<longleftrightarrow> (\<exists>index. self_index d = Some index \<and> distinct index \<and> length index \<le> 50
     \<and> dom (self_entries d) = set index)"

lemma wp_extend_entry [wps]:
  "wp (extend_entry k) Q E T s = Q () (noted (self_entries (storage s) k \<noteq> None)
     (ExtendPersistent (Entry k) SELF_THRESHOLD SELF_EXTEND_TO) s)"
  by (auto simp: extend_entry_def wps)

lemma wp_extend_entries:
  "wp (collect extend_entry ks) (\<lambda>_ t. storage t = storage s \<and> extensions t = extensions s
     @ map (\<lambda>k. ExtendPersistent (Entry k) SELF_THRESHOLD SELF_EXTEND_TO)
         (filter (\<lambda>k. self_entries (storage s) k \<noteq> None) ks))
     (\<lambda>_ _. False) False s"
proof (induction ks arbitrary: s)
  case Nil
  then show ?case by (simp add: wps)
next
  case (Cons k ks)
  show ?case
    using Cons.IH [of "noted (self_entries (storage s) k \<noteq> None)
      (ExtendPersistent (Entry k) SELF_THRESHOLD SELF_EXTEND_TO) s"]
    by (auto simp: wps wp_ok [abs_def] extensions_noted elim!: wp_mono)
qed

lemma wp_self_perform:
  assumes "self_ok (storage s)"
  shows "wp (self_perform e x) (\<lambda>_ t. self_ok (storage t)) (\<lambda>_ _. True) True s"
proof (cases x)
  case (Put k v)
  obtain index where "self_index (storage s) = Some index" "distinct index" "length index \<le> 50"
    "dom (self_entries (storage s)) = set index"
    using assms unfolding self_ok_def by blast
  then show ?thesis
    by (auto simp: Put self_put_def self_ok_def MAX_KEYS_def wps split: option.split)
next
  case ExtendAll
  obtain index where index: "self_index (storage s) = Some index"
    using assms unfolding self_ok_def by blast
  show ?thesis
    using assms wp_extend_entries [of index "noted True (ExtendInstance SELF_THRESHOLD SELF_EXTEND_TO) s"]
    by (auto simp: ExtendAll extend_all_entries_def wps index elim!: wp_mono)
qed

interpretation self_extending: kept_by self_perform "\<lambda>d d'. self_ok d \<longrightarrow> self_ok d'"
  by unfold_locales (auto dest: wp_OkD [OF wp_self_perform])

text \<open>
  No entry is forgotten: along every history of a deployed contract, \<open>extend_ttl\<close>
  succeeds for everybody, asks for the instance and for exactly the stored entries, each once,
  at most 50 of them, and reports how many it checked.
\<close>

theorem no_entry_is_forgotten:
  assumes "self_constructor a s = (Ok (), t)" and "self_entries (storage s) = Map.empty"
    and "history self_perform t u"
  shows "\<exists>keys v. extend_all_entries u = (Ok (of_nat (length keys)), v)
    \<and> distinct keys \<and> length keys \<le> 50 \<and> set keys = dom (self_entries (storage u))
    \<and> storage v = storage u
    \<and> extensions v = extensions u @ ExtendInstance SELF_THRESHOLD SELF_EXTEND_TO #
        map (\<lambda>k. ExtendPersistent (Entry k) SELF_THRESHOLD SELF_EXTEND_TO) keys"
proof -
  have "self_ok (storage t)"
    using assms(1,2) by (auto simp: self_constructor_def save_def modify_def andthen_def bind_def self_ok_def)
  then have "self_ok (storage u)" using self_extending.along [OF assms(3)] by blast
  then obtain keys where keys: "self_index (storage u) = Some keys" "distinct keys" "length keys \<le> 50"
    "dom (self_entries (storage u)) = set keys"
    unfolding self_ok_def by blast
  then have all: "filter (\<lambda>k. \<exists>y. self_entries (storage u) k = Some y) keys = keys"
    by (auto simp: filter_id_conv)
  have "wp extend_all_entries (\<lambda>n v. n = of_nat (length keys) \<and> storage v = storage u
    \<and> extensions v = extensions u @ ExtendInstance SELF_THRESHOLD SELF_EXTEND_TO #
        map (\<lambda>k. ExtendPersistent (Entry k) SELF_THRESHOLD SELF_EXTEND_TO) keys)
    (\<lambda>_ _. False) False u"
    using wp_extend_entries [of keys "noted True (ExtendInstance SELF_THRESHOLD SELF_EXTEND_TO) u"]
    by (auto simp: extend_all_entries_def wps keys(1) all extensions_noted elim!: wp_mono)
  from wp_returns [OF this] show ?thesis using keys by blast
qed

definition fresh_self :: "(self_store, ledger, unit, self_key) ctx" where
  "fresh_self = \<lparr>storage = \<lparr>self_admin = None, self_index = None, self_entries = Map.empty\<rparr>,
     world = (\<lambda>_ _. 0, []), published = [], extensions = []\<rparr>"

theorem no_entry_is_forgotten_witness:
  "\<exists>(u :: (self_store, ledger, unit, self_key) ctx) keys v. self_get ''a'' u = (Ok (Some [1]), u)
    \<and> extend_all_entries u = (Ok (of_nat (length keys)), v) \<and> ''a'' \<in> set keys"
proof -
  let ?e = "\<lparr>now = 0, ledger = 0, me = Address 2, authorized = (\<lambda>a. a = Address 1)\<rparr>"
  let ?t = "fresh_self\<lparr>storage := \<lparr>self_admin = Some (Address 1), self_index = Some [], self_entries = Map.empty\<rparr>\<rparr>"
  have t: "self_constructor (Address 1) fresh_self = (Ok (), ?t)"
    by (simp add: self_constructor_def save_def modify_def andthen_def bind_def fresh_self_def)
  have "wp (self_put ?e ''a'' [1]) (\<lambda>_ u. self_entries (storage u) ''a'' = Some [1]) (\<lambda>_ _. False) False ?t"
    by (simp add: self_put_def wps MAX_KEYS_def)
  from wp_returns [OF this] obtain u where u: "self_perform ?e (Put ''a'' [1]) ?t = (Ok (), u)"
    and a: "self_entries (storage u) ''a'' = Some [1]" by auto
  have "self_entries (storage fresh_self) = Map.empty" by (simp add: fresh_self_def)
  from no_entry_is_forgotten [OF t this history_call [of self_perform ?e "Put ''a'' [1]" ?t "()" u, OF u]] obtain keys v where
    "extend_all_entries u = (Ok (of_nat (length keys)), v)" "set keys = dom (self_entries (storage u))"
    by blast
  moreover have "self_get ''a'' u = (Ok (Some [1]), u)" using a by (simp add: self_get_def load_def gets_def)
  ultimately show ?thesis using a domI [of "self_entries (storage u)"] by blast
qed

end
