(* ===== verification/Subscription.thy ===== *)
theory Subscription
  imports Clients
begin

text \<open>
  \<open>contracts/examples/subscription\<close>: a merchant's plan, its subscribers, and the charge that
  a scheduled job makes each period. The token's allowance functions are parameters.
\<close>

section \<open>Allowances\<close>

record 'w spending =
  allowance :: "'w \<Rightarrow> address \<Rightarrow> address \<Rightarrow> address \<Rightarrow> int"
  transfer_from :: "address \<Rightarrow> address \<Rightarrow> address \<Rightarrow> address \<Rightarrow> int \<Rightarrow> 'w \<Rightarrow> 'w option"

text \<open>
  SEP-41 \<open>transfer_from(spender, from, to, amount)\<close>: it needs an allowance of at least the
  amount, uses it up, and moves exactly the amount.
\<close>

definition spending_laws :: "'w host \<Rightarrow> 'w spending \<Rightarrow> bool" where
  "spending_laws h k \<longleftrightarrow>
     (\<forall>token spender a b n w w'. transfer_from k token spender a b n w = Some w' \<longrightarrow>
        0 \<le> n \<and> n \<le> allowance k w token a spender \<and>
        allowance k w' token a spender = allowance k w token a spender - n \<and>
        (\<forall>u x. token_balance h w' u x =
           token_balance h w u x - (if u = token \<and> x = a then n else 0)
             + (if u = token \<and> x = b then n else 0)))"

definition pull ::
  "'w spending \<Rightarrow> address \<Rightarrow> address \<Rightarrow> address \<Rightarrow> address \<Rightarrow> int \<Rightarrow>
   (('d, 'w, 'v, 'k) ctx, 'e, unit) act" where
  "pull k token spender a b n s =
     (case transfer_from k token spender a b n (world s) of
        None \<Rightarrow> (Trap, s)
      | Some w \<Rightarrow> (Ok (), s\<lparr>world := w\<rparr>))"

lemma wp_pull [wps]:
  "wp (pull k token x a b n) Q E T s =
     (case transfer_from k token x a b n (world s) of
        None \<Rightarrow> T | Some w \<Rightarrow> Q () (s\<lparr>world := w\<rparr>))"
  by (simp add: pull_def wp_def split: option.split)

section \<open>The contract\<close>

datatype subscription_error =
    InvalidPlan
  | NotSubscribed
  | AlreadyCharged
  | InsufficientAllowance
  | AlreadySubscribed

record plan =
  merchant :: address
  plan_token :: address
  plan_price :: int
  plan_period :: u64

record subscription =
  started :: u64
  last_charged :: "u64 option"
  payments :: u32

record subscription_store =
  sub_plan :: "plan option"
  subs :: "address \<rightharpoonup> subscription"
  sub_jobs :: "u64 \<rightharpoonup> address"

type_synonym ('w, 'a) billing = "((subscription_store, 'w, unit, unit) ctx, subscription_error, 'a) act"

definition subscription_constructor :: "address \<Rightarrow> address \<Rightarrow> int \<Rightarrow> u64 \<Rightarrow> ('w, unit) billing" where
  "subscription_constructor m token n period =
     andthen (fail_if (n \<le> 0 \<or> period = 0) InvalidPlan)
     (save (sub_plan_update (\<lambda>_. Some
        \<lparr>merchant = m, plan_token = token, plan_price = n, plan_period = period\<rparr>)))"

definition plan_view :: "('w, plan) billing" where "plan_view = stored sub_plan"

definition subscribe :: "env \<Rightarrow> address \<Rightarrow> ('w, unit) billing" where
  "subscribe e a =
     andthen (require_auth e a)
     (bind (load (\<lambda>d. subs d a)) (\<lambda>old.
     andthen (fail_if (old \<noteq> None) AlreadySubscribed)
     (save (subs_update (\<lambda>m. m(a \<mapsto>
        \<lparr>started = now e, last_charged = None, payments = 0\<rparr>))))))"

definition bind_job :: "env \<Rightarrow> address \<Rightarrow> u64 \<Rightarrow> ('w, unit) billing" where
  "bind_job e a jid =
     andthen (require_auth e a)
     (save (sub_jobs_update (\<lambda>m. m(jid \<mapsto> a))))"

text \<open>A \<open>u64\<close> division: by zero it panics (no stored plan has a zero period).\<close>

definition current_period :: "env \<Rightarrow> plan \<Rightarrow> subscription \<Rightarrow> u64" where
  "current_period e p x = sat_sub (now e) (started x) div plan_period p"

definition already_charged :: "subscription \<Rightarrow> u64 \<Rightarrow> bool" where
  "already_charged x period = (case last_charged x of None \<Rightarrow> False | Some p \<Rightarrow> period \<le> p)"

definition charge :: "'w spending \<Rightarrow> env \<Rightarrow> address \<Rightarrow> ('w, u32) billing" where
  "charge k e a =
     bind plan_view (\<lambda>p.
     bind (load (\<lambda>d. subs d a)) (\<lambda>r.
     bind (ok_or r NotSubscribed) (\<lambda>x.
     andthen (require (plan_period p \<noteq> 0))
     (andthen (fail_if (already_charged x (current_period e p x)) AlreadyCharged)
     (bind (gets (\<lambda>s. allowance k (world s) (plan_token p) a (me e))) (\<lambda>allowed.
     andthen (fail_if (allowed < plan_price p) InsufficientAllowance)
     (bind (unwrap (checked_add (payments x) 1)) (\<lambda>n.
     andthen (save (subs_update (\<lambda>m. m(a \<mapsto>
        x\<lparr>last_charged := Some (current_period e p x), payments := n\<rparr>))))
     (andthen (pull k (plan_token p) (me e) a (merchant p) (plan_price p))
     (ok n))))))))))"

definition cancel_subscription :: "env \<Rightarrow> address \<Rightarrow> ('w, unit) billing" where
  "cancel_subscription e a =
     andthen (require_auth e a)
     (save (subs_update (\<lambda>m. m(a := None))))"

definition subscription_view :: "address \<Rightarrow> ('w, subscription option) billing" where
  "subscription_view a = load (\<lambda>d. subs d a)"

definition is_billable :: "'w spending \<Rightarrow> env \<Rightarrow> address \<Rightarrow> ('w, bool) billing" where
  "is_billable k e a =
     bind plan_view (\<lambda>p.
     bind (load (\<lambda>d. subs d a)) (\<lambda>r.
     case r of
       None \<Rightarrow> ok False
     | Some x \<Rightarrow>
         andthen (require (plan_period p \<noteq> 0))
         (bind (gets (\<lambda>s. allowance k (world s) (plan_token p) a (me e))) (\<lambda>allowed.
         ok (\<not> already_charged x (current_period e p x) \<and> plan_price p \<le> allowed)))))"

definition billing_should_run :: "'w spending \<Rightarrow> env \<Rightarrow> u64 \<Rightarrow> ('w, bool) billing" where
  "billing_should_run k e jid =
     bind (load (\<lambda>d. sub_jobs d jid)) (\<lambda>r.
     case r of None \<Rightarrow> ok False | Some a \<Rightarrow> is_billable k e a)"

section \<open>Asking before charging\<close>

text \<open>What a successful charge needs and does, in one place.\<close>

lemma wp_charge:
  "wp (charge k e a) Q E True s =
     (case sub_plan (storage s) of None \<Rightarrow> True | Some p \<Rightarrow>
      case subs (storage s) a of None \<Rightarrow> E NotSubscribed s | Some x \<Rightarrow>
        plan_period p \<noteq> 0 \<longrightarrow>
        (if already_charged x (current_period e p x) then E AlreadyCharged s
         else if allowance k (world s) (plan_token p) a (me e) < plan_price p
           then E InsufficientAllowance s
         else case checked_add (payments x) 1 of None \<Rightarrow> True | Some n \<Rightarrow>
           case transfer_from k (plan_token p) (me e) a (merchant p) (plan_price p) (world s) of
             None \<Rightarrow> True
           | Some w \<Rightarrow> Q n (s\<lparr>storage := subs_update (\<lambda>m. m(a \<mapsto>
               x\<lparr>last_charged := Some (current_period e p x), payments := n\<rparr>)) (storage s),
               world := w\<rparr>)))"
  by (simp add: charge_def plan_view_def wps split: option.split)

interpretation billing: self_resolver "is_billable k e a" "charge k e a" for k e a
proof
  show "quiet s t" if "is_billable k e a s = (Ok b, t)" for s t b
  proof -
    have "wp (is_billable k e a) (\<lambda>_ t. quiet s t) (\<lambda>_ _. True) True s"
      by (simp add: is_billable_def plan_view_def quiet_def wps split: option.split)
    from wp_OkD [OF this that] show ?thesis .
  qed
  show "\<exists>u. is_billable k e a s = (Ok True, u)" if "charge k e a s = (Ok x, t)" for s t x
  proof -
    have "wp (charge k e a) (\<lambda>_ _. is_billable k e a s = (Ok True, s)) (\<lambda>_ _. True) True s"
      by (auto simp: wp_charge is_billable_def plan_view_def stored_def load_def gets_def bind_def
          unwrap_def ok_def andthen_def require_def split: option.split)
    from wp_OkD [OF this that] show ?thesis by blast
  qed
qed

section \<open>Histories of a subscription\<close>

datatype billing_op =
    Subscribe address
  | BindJob address u64
  | Charge address
  | CancelSubscription address

fun bill :: "'w spending \<Rightarrow> env \<Rightarrow> billing_op \<Rightarrow> ('w, unit) billing" where
  "bill k e (Subscribe a) = subscribe e a"
| "bill k e (BindJob a jid) = bind_job e a jid"
| "bill k e (Charge a) = bind (charge k e a) (\<lambda>_. ok ())"
| "bill k e (CancelSubscription a) = cancel_subscription e a"

text \<open>The histories in which \<open>a\<close> does not cancel.\<close>

definition bill_while ::
  "address \<Rightarrow> 'w spending \<Rightarrow> env \<Rightarrow> billing_op \<Rightarrow> ('w, unit) billing" where
  "bill_while a k e x = (if x = CancelSubscription a then trap else bill k e x)"

text \<open>The number of periods a subscription is charged up to.\<close>

definition charged_up_to :: "subscription \<Rightarrow> nat" where
  "charged_up_to x = (case last_charged x of None \<Rightarrow> 0 | Some p \<Rightarrow> Suc (unat p))"

definition keeps_subscription :: "address \<Rightarrow> subscription_store \<Rightarrow> subscription_store \<Rightarrow> bool" where
  "keeps_subscription a d d' \<longleftrightarrow> sub_plan d' = sub_plan d \<and>
     (\<forall>x. subs d a = Some x \<longrightarrow> (\<exists>y. subs d' a = Some y \<and> started y = started x
        \<and> charged_up_to x \<le> charged_up_to y
        \<and> unat (payments y) + charged_up_to x \<le> unat (payments x) + charged_up_to y))"

lemma already_charged_iff: "already_charged x p \<longleftrightarrow> unat p < charged_up_to x"
  by (auto simp: already_charged_def charged_up_to_def word_le_nat_alt split: option.split)

lemma charge_advances:
  assumes "\<not> already_charged x p" and "checked_add (payments x) 1 = Some n"
  shows "charged_up_to x < charged_up_to (x\<lparr>last_charged := Some p, payments := n\<rparr>)"
    and "unat n + charged_up_to x
      \<le> unat (payments x) + charged_up_to (x\<lparr>last_charged := Some p, payments := n\<rparr>)"
  using assms
  by (auto simp: already_charged_iff charged_up_to_def checked_add_def unat_word_ariths split: if_splits)

lemma wp_bill_while:
  "wp (bill_while a k e x) (\<lambda>_ t. keeps_subscription a (storage s) (storage t)) (\<lambda>_ _. True) True s"
proof (cases x)
  case (Charge b)
  show ?thesis
    using charge_advances
    by (auto simp: Charge bill_while_def wps wp_ok [abs_def] wp_charge keeps_subscription_def less_imp_le
        split: option.split)
qed (auto simp: bill_while_def subscribe_def bind_job_def cancel_subscription_def wps keeps_subscription_def)

interpretation billed: kept_by "bill_while a k" "keeps_subscription a" for a k
proof
  show "keeps_subscription a d d" for d by (simp add: keeps_subscription_def)
  show "keeps_subscription a b d" if "keeps_subscription a b c" "keeps_subscription a c d" for b c d
    using that unfolding keeps_subscription_def by fastforce
  show "keeps_subscription a (storage s) (storage t)" if "bill_while a k e x s = (Ok y, t)" for e x s t y
    using wp_OkD [OF wp_bill_while that] .
qed

text \<open>
  C31. At most one charge per billing period: once a subscriber has been charged in a period,
  whatever anybody does afterwards short of the subscriber cancelling, every further charge in
  that period or an earlier one is refused with \<open>AlreadyCharged\<close> and changes nothing, and the
  payments made meanwhile never exceed the number of new periods.
\<close>

theorem at_most_one_charge_per_period:
  fixes s u :: "(subscription_store, 'w, unit, unit) ctx"
  assumes "sub_plan (storage s) = Some p" and "subs (storage s) a = Some x" and "plan_period p \<noteq> 0"
    and "charge k e a s = (Ok n, t)" and "history (bill_while a k) t u"
  shows "\<exists>y. subs (storage u) a = Some y \<and> started y = started x
    \<and> unat (payments y) + Suc (unat (current_period e p x)) \<le> unat n + charged_up_to y
    \<and> (current_period e' p x \<le> current_period e p x \<longrightarrow>
         charge k e' a u = (Err AlreadyCharged, u))"
proof -
  have "wp (charge k e a) (\<lambda>n t. sub_plan (storage t) = Some p \<and> subs (storage t) a =
    Some (x\<lparr>last_charged := Some (current_period e p x), payments := n\<rparr>)) (\<lambda>_ _. True) True s"
    using assms(1,2) by (auto simp: wp_charge split: option.split)
  from wp_OkD [OF this assms(4)] have t: "sub_plan (storage t) = Some p" "subs (storage t) a =
    Some (x\<lparr>last_charged := Some (current_period e p x), payments := n\<rparr>)" by auto
  have "charged_up_to (x\<lparr>last_charged := Some (current_period e p x), payments := n\<rparr>)
    = Suc (unat (current_period e p x))" by (simp add: charged_up_to_def)
  then obtain y where y: "subs (storage u) a = Some y" "started y = started x"
    "Suc (unat (current_period e p x)) \<le> charged_up_to y"
    "unat (payments y) + Suc (unat (current_period e p x)) \<le> unat n + charged_up_to y"
    and plan: "sub_plan (storage u) = Some p"
    using billed.along [OF assms(5)] t unfolding keeps_subscription_def by auto
  have "charge k e' a u = (Err AlreadyCharged, u)" if "current_period e' p x \<le> current_period e p x"
  proof -
    have "already_charged y (current_period e' p y)"
      using that y(2,3) by (simp add: already_charged_iff current_period_def word_le_nat_alt)
    then show ?thesis
      using plan y(1) assms(3)
      by (simp add: charge_def plan_view_def stored_def load_def gets_def bind_def unwrap_def ok_def
          ok_or_def andthen_def require_def fail_if_def err_def)
  qed
  then show ?thesis using y by blast
qed

definition allowing :: "ledger spending" where
  "allowing = \<lparr>allowance = (\<lambda>w token a b. 1000),
     transfer_from = (\<lambda>token x a b n w. ledger_transfer token a b n w)\<rparr>"

definition subscribed :: "(subscription_store, ledger, unit, unit) ctx" where
  "subscribed = \<lparr>storage = \<lparr>sub_plan = Some \<lparr>merchant = Address 3, plan_token = Address 4,
       plan_price = 10, plan_period = 100\<rparr>,
     subs = [Address 5 \<mapsto> \<lparr>started = 1000, last_charged = None, payments = 0\<rparr>], sub_jobs = Map.empty\<rparr>,
     world = (\<lambda>_ a. if a = Address 5 then 500 else 0, []), published = [], extensions = []\<rparr>"

theorem at_most_one_charge_per_period_witness:
  "\<exists>t. charge allowing \<lparr>now = 1250, ledger = 0, me = Address 2, authorized = (\<lambda>_. False)\<rparr> (Address 5)
      subscribed = (Ok 1, t)
    \<and> charge allowing \<lparr>now = 1299, ledger = 0, me = Address 2, authorized = (\<lambda>_. False)\<rparr> (Address 5)
      t = (Err AlreadyCharged, t)"
proof -
  let ?e = "\<lparr>now = 1250, ledger = 0, me = Address 2, authorized = (\<lambda>_. False)\<rparr>"
  let ?e' = "\<lparr>now = 1299, ledger = 0, me = Address 2, authorized = (\<lambda>_. False)\<rparr>"
  let ?p = "\<lparr>merchant = Address 3, plan_token = Address 4, plan_price = 10, plan_period = 100\<rparr>"
  let ?x = "\<lparr>started = 1000, last_charged = None, payments = 0\<rparr>"
  have s: "sub_plan (storage subscribed) = Some ?p" "subs (storage subscribed) (Address 5) = Some ?x"
    by (simp_all add: subscribed_def)
  have "wp (charge allowing ?e (Address 5)) (\<lambda>n _. n = 1) (\<lambda>_ _. False) False subscribed"
    by (simp add: charge_def plan_view_def wps s already_charged_def allowing_def checked_add_def)
      (simp add: subscribed_def ledger_transfer_def ledger_balance_def wps)
  from wp_returns [OF this] obtain t where t: "charge allowing ?e (Address 5) subscribed = (Ok 1, t)" by blast
  have "current_period ?e' ?p ?x \<le> current_period ?e ?p ?x"
    by (simp add: current_period_def sat_sub_def)
  then show ?thesis
    using at_most_one_charge_per_period [OF s _ t, of t ?e'] t by auto
qed

text \<open>What one charge moves, under the documented behaviour of the token.\<close>

lemma charge_pulls_one_payment:
  assumes "spending_laws h k" and "sub_plan (storage s) = Some p" and "plan_period p \<noteq> 0"
    and "charge k e a s = (Ok n, t)"
  shows "plan_price p \<le> allowance k (world s) (plan_token p) a (me e)
    \<and> allowance k (world t) (plan_token p) a (me e)
        = allowance k (world s) (plan_token p) a (me e) - plan_price p
    \<and> (\<forall>u y. token_balance h (world t) u y = token_balance h (world s) u y
        - (if u = plan_token p \<and> y = a then plan_price p else 0)
        + (if u = plan_token p \<and> y = merchant p then plan_price p else 0))"
proof -
  have "wp (charge k e a) (\<lambda>n t. transfer_from k (plan_token p) (me e) a (merchant p) (plan_price p)
    (world s) = Some (world t)) (\<lambda>_ _. True) True s"
    using assms(2,3) by (auto simp: wp_charge split: option.split)
  from wp_OkD [OF this assms(4)] show ?thesis
    using assms(1) unfolding spending_laws_def by blast
qed

end
