(* ===== verification/Timelock.thy ===== *)
theory Timelock
  imports Clients
begin

text \<open>
  \<open>contracts/examples/timelock\<close>: calls queued by governance, executed by anybody once their
  delay is over, and expired after a grace period.
\<close>

section \<open>The contract\<close>

definition MAX_PER_RUN :: u32 where "MAX_PER_RUN = 10"

datatype queue_error = EtaTooSoon | UnknownCall

record queued_call =
  call_target_of :: address
  call_function :: symbol
  call_args :: "val list"
  call_eta :: u64

datatype timelock_event = CallExecuted (event_id: u64) | CallExpired (event_id: u64)

record timelock_store =
  lock_admin :: "address option"
  lock_delay :: "u64 option"
  lock_grace :: "u64 option"
  lock_next :: "u64 option"
  lock_queue :: "u64 list option"
  lock_calls :: "u64 \<rightharpoonup> queued_call"

type_synonym ('w, 'a) timelock = "((timelock_store, 'w, timelock_event, unit) ctx, queue_error, 'a) act"

definition timelock_constructor :: "address \<Rightarrow> u64 \<Rightarrow> u64 \<Rightarrow> ('w, unit) timelock" where
  "timelock_constructor a delay grace =
     andthen (save (lock_admin_update (\<lambda>_. Some a)))
     (andthen (save (lock_delay_update (\<lambda>_. Some delay)))
     (andthen (save (lock_grace_update (\<lambda>_. Some grace)))
     (andthen (save (lock_next_update (\<lambda>_. Some 0)))
     (save (lock_queue_update (\<lambda>_. Some []))))))"

definition timelock_admin :: "('w, address) timelock" where
  "timelock_admin = stored lock_admin"

definition queue_ids :: "('w, u64 list) timelock" where
  "queue_ids = andthen (extend_ttl (ExtendInstance 17280 (30 * 17280))) (stored lock_queue)"

text \<open>\<open>remove\<close>: drops the first occurrence of the id; \<open>None\<close> when it is not queued.\<close>

definition remove_call :: "u64 \<Rightarrow> ('w, bool) timelock" where
  "remove_call i =
     bind queue_ids (\<lambda>q.
     if i \<notin> set q then ok False
     else andthen (save (lock_queue_update (\<lambda>_. Some (remove1 i q))))
       (andthen (save (lock_calls_update (\<lambda>m. m(i := None))))
       (ok True)))"

definition queue_call ::
  "env \<Rightarrow> address \<Rightarrow> symbol \<Rightarrow> val list \<Rightarrow> u64 \<Rightarrow> ('w, u64) timelock" where
  "queue_call e callee f xs at_time =
     bind timelock_admin (\<lambda>a.
     andthen (require_auth e a)
     (bind (stored lock_delay) (\<lambda>delay.
     andthen (fail_if (at_time < sat_add (now e) delay) EtaTooSoon)
     (bind (stored lock_next) (\<lambda>i.
     bind (unwrap (checked_add i 1)) (\<lambda>j.
     andthen (save (lock_next_update (\<lambda>_. Some j)))
     (andthen (save (lock_calls_update (\<lambda>m. m(i \<mapsto>
        \<lparr>call_target_of = callee, call_function = f, call_args = xs, call_eta = at_time\<rparr>))))
     (bind queue_ids (\<lambda>q.
     andthen (save (lock_queue_update (\<lambda>_. Some (q @ [i]))))
     (ok i))))))))))"

definition cancel_call :: "env \<Rightarrow> u64 \<Rightarrow> ('w, unit) timelock" where
  "cancel_call e i =
     bind timelock_admin (\<lambda>a.
     andthen (require_auth e a)
     (bind (remove_call i) (\<lambda>known.
     if known then ok () else err UnknownCall)))"

text \<open>One round of the loop of \<open>execute_ready\<close>: whether the call was executed.\<close>

definition execute_call :: "'w host \<Rightarrow> env \<Rightarrow> u64 \<Rightarrow> u64 \<Rightarrow> ('w, bool) timelock" where
  "execute_call h e grace i =
     bind (load (\<lambda>d. lock_calls d i)) (\<lambda>r.
     case r of
       None \<Rightarrow> ok False
     | Some c \<Rightarrow>
         if now e < call_eta c then ok False
         else if sat_add (call_eta c) grace \<le> now e then
           bind (remove_call i) (\<lambda>_. andthen (publish (CallExpired i)) (ok False))
         else
           bind (try_call h (me e) (call_target_of c) (call_function c) (call_args c)) (\<lambda>outcome.
           case outcome of
             Returned _ \<Rightarrow>
               bind (remove_call i) (\<lambda>_. andthen (publish (CallExecuted i)) (ok True))
           | Failed _ \<Rightarrow> ok False
           | Aborted \<Rightarrow> ok False))"

fun execute_calls ::
  "'w host \<Rightarrow> env \<Rightarrow> u64 \<Rightarrow> u32 \<Rightarrow> u64 list \<Rightarrow> ('w, u32) timelock" where
  "execute_calls h e grace n [] = ok n"
| "execute_calls h e grace n (i # is) =
     (if MAX_PER_RUN \<le> n then ok n
      else bind (execute_call h e grace i) (\<lambda>ran.
        execute_calls h e grace (if ran then n + 1 else n) is))"

definition execute_ready :: "'w host \<Rightarrow> env \<Rightarrow> ('w, u32) timelock" where
  "execute_ready h e =
     bind (stored lock_grace) (\<lambda>grace.
     bind queue_ids (\<lambda>q.
     execute_calls h e grace 0 q))"

definition get_call :: "u64 \<Rightarrow> ('w, queued_call option) timelock" where
  "get_call i = load (\<lambda>d. lock_calls d i)"

definition queued_ids :: "('w, u64 list) timelock" where "queued_ids = queue_ids"

definition timelock_should_run :: "env \<Rightarrow> u64 \<Rightarrow> ('w, bool) timelock" where
  "timelock_should_run e jid =
     bind queue_ids (\<lambda>q.
     load (\<lambda>d. list_ex (\<lambda>i. case lock_calls d i of None \<Rightarrow> False | Some c \<Rightarrow> call_eta c \<le> now e) q))"

section \<open>The queue\<close>

text \<open>The queue lists exactly the stored calls, each once, with ids already given out.\<close>

definition queue_ok :: "timelock_store \<Rightarrow> bool" where
  "queue_ok d \<longleftrightarrow> (\<exists>q n. lock_queue d = Some q \<and> lock_next d = Some n \<and> distinct q
     \<and> dom (lock_calls d) = set q \<and> (\<forall>i \<in> set q. i < n) \<and> lock_grace d \<noteq> None
     \<and> lock_delay d \<noteq> None \<and> lock_admin d \<noteq> None)"

definition without_call :: "u64 \<Rightarrow> timelock_store \<Rightarrow> timelock_store" where
  "without_call i d = (case lock_queue d of None \<Rightarrow> d | Some q \<Rightarrow>
     if i \<in> set q then lock_calls_update (\<lambda>m. m(i := None)) (d\<lparr>lock_queue := Some (remove1 i q)\<rparr>) else d)"

lemma wp_queue_ids [wps]:
  "wp queue_ids Q E T s = (case lock_queue (storage s) of None \<Rightarrow> T
     | Some q \<Rightarrow> Q q (noted True (ExtendInstance 17280 (30 * 17280)) s))"
  by (simp add: queue_ids_def wps split: option.split)

lemma wp_remove_call [wps]:
  "wp (remove_call i) Q E T s = (case lock_queue (storage s) of None \<Rightarrow> T
     | Some q \<Rightarrow> Q (i \<in> set q) (noted True (ExtendInstance 17280 (30 * 17280))
         (s\<lparr>storage := without_call i (storage s)\<rparr>)))"
  by (auto simp: remove_call_def wps without_call_def split: option.split)

lemma without_call_ok: "queue_ok d \<Longrightarrow> queue_ok (without_call i d)"
  by (auto simp: queue_ok_def without_call_def set_remove1_eq split: if_splits)

lemma without_call_simps [simp]:
  "lock_queue (without_call i d) = map_option (remove1 i) (lock_queue d)"
  "lock_next (without_call i d) = lock_next d"
  by (auto simp: without_call_def remove1_idem split: option.split)

lemma without_call_other: "j \<noteq> i \<Longrightarrow> lock_calls (without_call i d) j = lock_calls d j"
  by (simp add: without_call_def split: option.split)

lemma eta_le_end: "call_eta c \<le> sat_add (call_eta c) grace"
  using unat_u64_bound [of "call_eta c"] by (simp add: word_le_nat_alt unat_sat_add)

section \<open>One pass over the queue\<close>

text \<open>
  The pass from \<open>s\<close> to \<open>t\<close> over the ids \<open>is\<close> published \<open>evs\<close> and raised the count from \<open>n\<close> to
  \<open>m\<close>: exactly the calls of \<open>evs\<close> left the queue, each inside its execution window or, when
  expired, after it; and unless the limit was reached no expired call is left.
\<close>

definition swept ::
  "env \<Rightarrow> u64 \<Rightarrow> (timelock_store, 'w, timelock_event, unit) ctx \<Rightarrow> u64 list \<Rightarrow> u32 \<Rightarrow> u32 \<Rightarrow>
   (timelock_store, 'w, timelock_event, unit) ctx \<Rightarrow> timelock_event list \<Rightarrow> bool" where
  "swept e grace s is n m t evs \<longleftrightarrow>
     published t = published s @ evs \<and> storage t = fold without_call (map event_id evs) (storage s) \<and>
     distinct (map event_id evs) \<and> event_id ` set evs \<subseteq> set is \<and>
     (\<forall>v \<in> set evs. \<exists>c. lock_calls (storage s) (event_id v) = Some c \<and> call_eta c \<le> now e
        \<and> (is_CallExecuted v \<longleftrightarrow> now e < sat_add (call_eta c) grace)) \<and>
     unat m = unat n + length (filter is_CallExecuted evs) \<and> unat m \<le> 10 \<and>
     (unat m < 10 \<longrightarrow> (\<forall>i \<in> set is. \<forall>c. lock_calls (storage s) i = Some c \<longrightarrow>
        sat_add (call_eta c) grace \<le> now e \<longrightarrow> CallExpired i \<in> set evs))"

lemma wp_execute_call:
  assumes "lock_queue (storage s) \<noteq> None"
  shows "wp (execute_call h e grace i) Q E True s =
    (let removed = (\<lambda>s v. noted True (ExtendInstance 17280 (30 * 17280))
           (s\<lparr>storage := without_call i (storage s), published := published s @ [v]\<rparr>))
     in case lock_calls (storage s) i of None \<Rightarrow> Q False s | Some c \<Rightarrow>
       if now e < call_eta c then Q False s
       else if sat_add (call_eta c) grace \<le> now e
         then Q False (removed s (CallExpired i))
       else case call_contract h (me e) (call_target_of c) (call_function c) (call_args c) (world s) of
           None \<Rightarrow> True
         | Some (Returned v, w) \<Rightarrow> Q True (removed (s\<lparr>world := w\<rparr>) (CallExecuted i))
         | Some (_, w) \<Rightarrow> Q False (s\<lparr>world := w\<rparr>))"
  using assms
  by (auto simp: execute_call_def wps Let_def split: option.split call_result.split)

lemma swept_Nil: "unat n \<le> 10 \<Longrightarrow> swept e grace s [] n n s []"
  by (simp add: swept_def)

lemma swept_full: "unat n = 10 \<Longrightarrow> swept e grace s is n n s []"
  by (simp add: swept_def)

lemma swept_skip:
  assumes "swept e grace s' is n m t evs" and "i \<notin> set is"
    and "storage s' = storage s" and "published s' = published s"
    and "\<And>c. lock_calls (storage s) i = Some c \<Longrightarrow> now e < sat_add (call_eta c) grace"
  shows "swept e grace s (i # is) n m t evs"
  using assms unfolding swept_def by (auto simp: not_le)

lemma swept_event:
  assumes "swept e grace s' is n' m t evs" and "i \<notin> set is"
    and "storage s' = without_call i (storage s)" and "published s' = published s @ [v]"
    and "event_id v = i" and "lock_calls (storage s) i = Some c" and "call_eta c \<le> now e"
    and "is_CallExecuted v \<longleftrightarrow> now e < sat_add (call_eta c) grace"
    and "unat n' = unat n + (if is_CallExecuted v then 1 else 0)"
  shows "swept e grace s (i # is) n m t (v # evs)"
proof -
  have same: "lock_calls (storage s') j = lock_calls (storage s) j" if "j \<in> set is" for j
    using that assms(2) by (metis assms(3) without_call_other)
  have fresh: "i \<notin> event_id ` set evs" using assms(1,2) unfolding swept_def by blast
  have "v = CallExpired i" if "lock_calls (storage s) i = Some b" "sat_add (call_eta b) grace \<le> now e" for b
    using that assms(5,6,8) by (cases v) (auto simp: not_less)
  moreover have "\<exists>b. lock_calls (storage s) (event_id x) = Some b \<and> call_eta b \<le> now e
      \<and> (is_CallExecuted x \<longleftrightarrow> now e < sat_add (call_eta b) grace)" if "x \<in> set evs" for x
  proof -
    have "event_id x \<in> set is" using that assms(1) unfolding swept_def by blast
    have "\<forall>v \<in> set evs. \<exists>b. lock_calls (storage s') (event_id v) = Some b
        \<and> call_eta b \<le> now e \<and> (is_CallExecuted v \<longleftrightarrow> now e < sat_add (call_eta b) grace)"
      using assms(1) unfolding swept_def by (elim conjE)
    from this [rule_format, OF that] show ?thesis
      unfolding same [OF \<open>event_id x \<in> set is\<close>] .
  qed
  ultimately show ?thesis
    using assms same fresh unfolding swept_def by (auto simp: image_subset_iff)
qed

lemma wp_execute_calls:
  assumes "distinct is" and "unat n \<le> 10" and "lock_queue (storage s) \<noteq> None"
  shows "wp (execute_calls h e grace n is) (\<lambda>m t. \<exists>evs. swept e grace s is n m t evs)
    (\<lambda>_ _. False) True s"
  using assms
proof (induction "is" arbitrary: n s)
  case Nil
  then show ?case by (simp add: wps) (blast intro: swept_Nil)
next
  case (Cons i "is")
  show ?case
  proof (cases "MAX_PER_RUN \<le> n")
    case True
    then have "unat n = 10" using Cons.prems(2) by (simp add: MAX_PER_RUN_def word_le_nat_alt)
    then show ?thesis using True by (simp add: wps) (blast intro: swept_full)
  next
    case False
    then have n: "unat n < 10" by (simp add: MAX_PER_RUN_def word_le_nat_alt)
    then have n1: "unat (n + 1) = unat n + 1" by (simp add: unat_word_ariths)
    have i: "i \<notin> set is" "distinct is" using Cons.prems(1) by simp_all
    have skip: "wp (execute_calls h e grace n is) (\<lambda>m t. \<exists>evs. swept e grace s (i # is) n m t evs)
        (\<lambda>_ _. False) True s'"
      if "storage s' = storage s" "published s' = published s"
        "\<And>c. lock_calls (storage s) i = Some c \<Longrightarrow> now e < sat_add (call_eta c) grace" for s'
      using Cons.IH [OF i(2), of n s'] n that Cons.prems(3)
      by (auto elim!: wp_mono intro: swept_skip [OF _ i(1)])
    have event: "wp (execute_calls h e grace n' is) (\<lambda>m t. \<exists>evs. swept e grace s (i # is) n m t evs)
        (\<lambda>_ _. False) True s'"
      if "storage s' = without_call i (storage s)" "published s' = published s @ [v]" "event_id v = i"
        "lock_calls (storage s) i = Some c" "call_eta c \<le> now e"
        "is_CallExecuted v \<longleftrightarrow> now e < sat_add (call_eta c) grace"
        "unat n' = unat n + (if is_CallExecuted v then 1 else 0)" for s' n' v c
    proof (rule wp_mono [OF Cons.IH [OF i(2), of n' s']])
      show "unat n' \<le> 10" "lock_queue (storage s') \<noteq> None" using n that Cons.prems(3) by auto
    qed (use swept_event [OF _ i(1) that] in blast)+
    note goal = wps wp_execute_call [OF Cons.prems(3)] Let_def
    show ?thesis
    proof (cases "lock_calls (storage s) i")
      case None
      then show ?thesis using False by (simp add: goal) (rule skip, simp_all)
    next
      case (Some c)
      consider "now e < call_eta c" | "call_eta c \<le> now e" "sat_add (call_eta c) grace \<le> now e"
        | "call_eta c \<le> now e" "now e < sat_add (call_eta c) grace"
        by (meson not_le)
      then show ?thesis
      proof cases
        case 1
        then have "now e < sat_add (call_eta c) grace" using eta_le_end [of c grace] by (rule less_le_trans)
        then show ?thesis using False Some 1 by (simp add: goal) (rule skip, simp_all)
      next
        case 2
        then have "\<not> now e < call_eta c" "\<not> now e < sat_add (call_eta c) grace" by (simp_all add: not_less)
        then show ?thesis using False Some 2
          by (simp add: goal) (rule event [where v = "CallExpired i"], simp_all)
      next
        case 3
        then have ready: "\<not> now e < call_eta c" "\<not> sat_add (call_eta c) grace \<le> now e"
          by (simp_all add: not_less not_le)
        show ?thesis
        proof (cases "call_contract h (me e) (call_target_of c) (call_function c) (call_args c) (world s)")
          case None
          then show ?thesis using False Some \<open>lock_calls (storage s) i = Some c\<close> ready by (simp add: goal)
        next
          case (Some rw)
          obtain r w where rw: "rw = (r, w)" by (cases rw)
          show ?thesis
          proof (cases r)
            case (Returned v)
            then show ?thesis using False Some \<open>lock_calls (storage s) i = Some c\<close> ready rw n1
              by (simp add: goal) (rule event [where v = "CallExecuted i"], simp_all add: not_less not_le)
          next
            case (Failed y)
            then show ?thesis using False Some \<open>lock_calls (storage s) i = Some c\<close> ready rw
              by (simp add: goal) (rule skip, simp_all add: not_le)
          next
            case Aborted
            then show ?thesis using False Some \<open>lock_calls (storage s) i = Some c\<close> ready rw
              by (simp add: goal) (rule skip, simp_all add: not_le)
          qed
        qed
      qed
    qed
  qed
qed

section \<open>Histories\<close>

datatype timelock_op =
    QueueCall address symbol "val list" u64
  | CancelCall u64
  | ExecuteReady

fun timelock_perform :: "'w host \<Rightarrow> env \<Rightarrow> timelock_op \<Rightarrow> ('w, unit) timelock" where
  "timelock_perform h e (QueueCall a f xs at_time) = bind (queue_call e a f xs at_time) (\<lambda>_. ok ())"
| "timelock_perform h e (CancelCall i) = cancel_call e i"
| "timelock_perform h e ExecuteReady = bind (execute_ready h e) (\<lambda>_. ok ())"

text \<open>
  The invariant: the queue is consistent, and every id that was executed or expired is past,
  out of the queue and announced once.
\<close>

definition timelock_inv :: "(timelock_store, 'w, timelock_event, unit) ctx \<Rightarrow> bool" where
  "timelock_inv s \<longleftrightarrow> queue_ok (storage s) \<and> distinct (map event_id (published s)) \<and>
     (\<forall>v \<in> set (published s). lock_calls (storage s) (event_id v) = None
        \<and> event_id v < the (lock_next (storage s)))"

lemma fold_without_call:
  assumes "queue_ok d" and "lock_queue d = Some q"
  shows "queue_ok (fold without_call xs d)"
    and "lock_queue (fold without_call xs d) = Some (filter (\<lambda>i. i \<notin> set xs) q)"
    and "lock_calls (fold without_call xs d) j = (if j \<in> set xs then None else lock_calls d j)"
    and "lock_next (fold without_call xs d) = lock_next d"
  using assms
proof (induction xs arbitrary: d q)
  case Nil
  {
    case 1 then show ?case by simp
  next
    case 2 then show ?case by simp
  next
    case 3 then show ?case by simp
  next
    case 4 then show ?case by simp
  }
next
  case (Cons x xs)
  {
    case 1
    then show ?case using Cons.IH(1) [of "without_call x d"] without_call_ok [of d x] by simp
  next
    case 2
    then have "distinct q" by (auto simp: queue_ok_def)
    then show ?case using 2 Cons.IH(2) [of "without_call x d" "remove1 x q"] without_call_ok [of d x]
      by (simp add: distinct_remove1_removeAll removeAll_filter_not_eq conj_commute eq_commute
          [of x])
  next
    case 3
    then have "x \<notin> set q \<Longrightarrow> lock_calls d x = None" by (auto simp: queue_ok_def)
    then have "lock_calls (without_call x d) x = None"
      using 3(2) by (auto simp: without_call_def)
    then show ?case using 3 without_call_other [of j x d] Cons.IH(3) [of "without_call x d" "remove1 x q"] without_call_ok [of d x] by simp
  next
    case 4
    then show ?case using Cons.IH(4) [of "without_call x d"] without_call_ok [of d x] by simp
  }
qed

lemma wp_execute_ready:
  assumes "queue_ok (storage s)"
  shows "wp (execute_ready h e) (\<lambda>n t. \<exists>grace q evs. lock_grace (storage s) = Some grace
      \<and> lock_queue (storage s) = Some q \<and> swept e grace s q 0 n t evs) (\<lambda>_ _. False) True s"
proof -
  obtain q grace where q: "lock_queue (storage s) = Some q" "distinct q" "lock_grace (storage s) = Some grace"
    using assms unfolding queue_ok_def by blast
  let ?s = "noted True (ExtendInstance 17280 (30 * 17280)) s"
  have "wp (execute_calls h e grace 0 q) (\<lambda>n t. \<exists>evs. swept e grace s q 0 n t evs) (\<lambda>_ _. False) True ?s"
    by (rule wp_mono [OF wp_execute_calls [of q 0 ?s h e grace]]) (use q in \<open>auto simp: swept_def\<close>)
  then show ?thesis using q by (simp add: execute_ready_def wps)
qed

lemma timelock_inv_swept:
  assumes "timelock_inv s" and "lock_queue (storage s) = Some q" and "swept e grace s q n m t evs"
  shows "timelock_inv t"
proof -
  note ok = assms(1) [unfolded timelock_inv_def, THEN conjunct1]
  note after = fold_without_call [OF ok assms(2)]
  have evs: "event_id v \<in> set q" if "v \<in> set evs" for v
    using assms(3) that unfolding swept_def by blast
  obtain k where "lock_next (storage s) = Some k" "\<forall>i \<in> set q. i < k" "dom (lock_calls (storage s)) = set q"
    using ok assms(2) unfolding queue_ok_def by auto
  then show ?thesis
    using assms(1,3) evs unfolding timelock_inv_def swept_def
    by (auto simp: after) (metis domI domIff)+
qed

lemma wp_timelock_perform:
  assumes "timelock_inv s"
  shows "wp (timelock_perform h e x) (\<lambda>_ t. timelock_inv t) (\<lambda>_ _. True) True s"
proof -
  obtain q n where q: "lock_queue (storage s) = Some q" "lock_next (storage s) = Some n"
    "\<forall>i \<in> set q. i < n" "distinct q" "dom (lock_calls (storage s)) = set q"
    using assms unfolding timelock_inv_def queue_ok_def by blast
  have next_id: "i < m \<Longrightarrow> i \<noteq> m" "n < m \<Longrightarrow> i < n \<Longrightarrow> i < m" for i m :: u64 by auto
  show ?thesis
  proof (cases x)
    case (QueueCall a f xs at_time)
    have "n < m" if "checked_add n 1 = Some m" for m
      using that by (auto simp: checked_add_def word_less_nat_alt unat_word_ariths split: if_splits)
    then show ?thesis
      using assms q unfolding QueueCall
      by (auto simp: queue_call_def timelock_admin_def wps wp_ok [abs_def] timelock_inv_def queue_ok_def
          split: option.split dest: less_trans intro: less_trans)
  next
    case (CancelCall i)
    have "timelock_inv (noted True y (s\<lparr>storage := without_call i (storage s)\<rparr>))" for y
      using assms fold_without_call [of "storage s" q "[i]"] q(1)
      by (auto simp: timelock_inv_def)
    then show ?thesis
      using q by (simp add: CancelCall cancel_call_def timelock_admin_def wps split: option.split)
  next
    case ExecuteReady
    have "queue_ok (storage s)" using assms by (simp add: timelock_inv_def)
    then show ?thesis
      unfolding ExecuteReady timelock_perform.simps wp_bind wp_ok [abs_def]
      by (rule wp_execute_ready [THEN wp_mono]) (auto intro: timelock_inv_swept [OF assms])
  qed
qed

interpretation timelocked: kept_along "timelock_perform h" "\<lambda>s t. timelock_inv s \<longrightarrow> timelock_inv t" for h
proof
  show "timelock_inv s \<longrightarrow> timelock_inv t" if "timelock_perform h e x s = (Ok y, t)" for e x s t y
    using wp_OkD [OF wp_timelock_perform that] by blast
qed (auto simp: timelock_inv_def)

definition timelock_deployed :: "(timelock_store, 'w, timelock_event, unit) ctx \<Rightarrow> bool" where
  "timelock_deployed t \<longleftrightarrow> (\<exists>a delay grace w. timelock_constructor a delay grace
     \<lparr>storage = \<lparr>lock_admin = None, lock_delay = None, lock_grace = None, lock_next = None,
        lock_queue = None, lock_calls = Map.empty\<rparr>,
      world = w, published = [], extensions = []\<rparr> = (Ok (), t))"

lemma timelock_inv_reachable:
  assumes "timelock_deployed t" and "history (timelock_perform h) t u"
  shows "timelock_inv u"
proof -
  have "timelock_inv t"
    using assms(1)
    by (auto simp: timelock_deployed_def timelock_constructor_def andthen_def bind_def save_def modify_def
        timelock_inv_def queue_ok_def)
  then show ?thesis using timelocked.along [OF assms(2)] by blast
qed

text \<open>
  C32. The timelock executes each queued call at most once and only in its window: after any
  history, \<open>execute_ready\<close> executes at most ten calls; what leaves the queue is exactly what it
  announced, each executed call from its \<open>eta\<close> on and before its grace period ends, each
  expired one after; a call that failed stays queued; unless the limit was reached no expired
  call is left; and over the whole history no call is announced twice.
\<close>

theorem ready_calls_run_once_in_their_window:
  assumes "timelock_deployed s0" and "history (timelock_perform h) s0 s"
    and "execute_ready h e s = (Ok n, t)"
  shows "\<exists>grace q evs. lock_grace (storage s) = Some grace \<and> lock_queue (storage s) = Some q
    \<and> published t = published s @ evs \<and> distinct (map event_id (published t))
    \<and> unat n = length (filter is_CallExecuted evs) \<and> unat n \<le> 10
    \<and> (\<forall>v \<in> set evs. \<exists>c. lock_calls (storage s) (event_id v) = Some c \<and> call_eta c \<le> now e
          \<and> (is_CallExecuted v \<longleftrightarrow> now e < sat_add (call_eta c) grace))
    \<and> lock_queue (storage t) = Some (filter (\<lambda>i. i \<notin> event_id ` set evs) q)
    \<and> (\<forall>i. lock_calls (storage t) i
          = (if i \<in> event_id ` set evs then None else lock_calls (storage s) i))
    \<and> (unat n < 10 \<longrightarrow> (\<forall>i c. lock_calls (storage t) i = Some c \<longrightarrow> now e < sat_add (call_eta c) grace))"
proof -
  have inv: "timelock_inv s" by (rule timelock_inv_reachable [OF assms(1,2)])
  then have ok: "queue_ok (storage s)" by (simp add: timelock_inv_def)
  from wp_OkD [OF wp_execute_ready [OF ok] assms(3)] obtain grace q evs where
    q: "lock_grace (storage s) = Some grace" "lock_queue (storage s) = Some q"
    and swept: "swept e grace s q 0 n t evs" by blast
  have dist: "distinct (map event_id (published t))"
    using timelock_inv_swept [OF inv q(2) swept] by (simp add: timelock_inv_def)
  note after = fold_without_call [OF ok q(2), of "map event_id evs"]
  have left: "now e < sat_add (call_eta c) grace"
    if "unat n < 10" "lock_calls (storage s) i = Some c" "i \<notin> event_id ` set evs" for i c
  proof (rule ccontr)
    assume "\<not> ?thesis"
    moreover have "i \<in> set q" using ok q(2) that(2) by (auto simp: queue_ok_def)
    ultimately have "CallExpired i \<in> set evs" using swept that(1,2) by (auto simp: swept_def not_less)
    then show False using that(3) by force
  qed
  show ?thesis
    by (rule exI [of _ grace], rule exI [of _ q], rule exI [of _ evs])
      (use swept q dist left in \<open>auto simp: swept_def after split: if_splits\<close>)
qed

definition empty_timelock :: "(timelock_store, ledger, timelock_event, unit) ctx" where
  "empty_timelock = \<lparr>storage = \<lparr>lock_admin = Some (Address 1), lock_delay = Some 100,
     lock_grace = Some 1000, lock_next = Some 0, lock_queue = Some [], lock_calls = Map.empty\<rparr>,
     world = (\<lambda>_ _. 0, []), published = [], extensions = []\<rparr>"

lemma empty_timelock_deployed: "timelock_deployed empty_timelock"
  unfolding timelock_deployed_def
  by (rule exI [of _ "Address 1"], rule exI [of _ 100], rule exI [of _ 1000], rule exI [of _ "(\<lambda>_ _. 0, [])"])
    (simp add: timelock_constructor_def andthen_def bind_def save_def modify_def empty_timelock_def)

theorem ready_calls_run_once_in_their_window_witness:
  "\<exists>(s :: (timelock_store, ledger, timelock_event, unit) ctx) t.
    execute_ready (ledger_host (\<lambda>_ _ _. Some (Returned ValVoid)))
      \<lparr>now = 200, ledger = 0, me = Address 2, authorized = (\<lambda>_. False)\<rparr> s = (Ok 1, t)
    \<and> published t = [CallExecuted 0] \<and> distinct (map event_id (published t))"
proof -
  let ?h = "ledger_host (\<lambda>_ _ _. Some (Returned ValVoid))"
  let ?e = "\<lparr>now = 0, ledger = 0, me = Address 2, authorized = (\<lambda>a. a = Address 1)\<rparr>"
  let ?e' = "\<lparr>now = 200, ledger = 0, me = Address 2, authorized = (\<lambda>_. False)\<rparr>"
  let ?c = "\<lparr>call_target_of = Address 9, call_function = ''go'', call_args = [], call_eta = 150\<rparr>"
  have "wp (timelock_perform ?h ?e (QueueCall (Address 9) ''go'' [] 150))
    (\<lambda>_ s. lock_queue (storage s) = Some [0] \<and> lock_calls (storage s) 0 = Some ?c
       \<and> lock_grace (storage s) = Some 1000 \<and> published s = []) (\<lambda>_ _. False) False empty_timelock"
    by (simp add: queue_call_def timelock_admin_def wps empty_timelock_def sat_add_def checked_add_def)
  from wp_returns [OF this] obtain s where
    s: "timelock_perform ?h ?e (QueueCall (Address 9) ''go'' [] 150) empty_timelock = (Ok (), s)"
    and st: "lock_queue (storage s) = Some [0]" "lock_calls (storage s) 0 = Some ?c"
      "lock_grace (storage s) = Some 1000" "published s = []" by auto
  have "wp (execute_ready ?h ?e') (\<lambda>n t. n = 1 \<and> published t = [CallExecuted 0]) (\<lambda>_ _. False) False s"
    using st by (simp add: execute_ready_def execute_call_def wps MAX_PER_RUN_def sat_add_def ledger_host_def)
  from wp_returns [OF this] obtain t where t: "execute_ready ?h ?e' s = (Ok 1, t)"
    "published t = [CallExecuted 0]" by blast
  have "distinct (map event_id (published t))"
    using ready_calls_run_once_in_their_window [OF empty_timelock_deployed
      history_call [of "timelock_perform ?h" ?e "QueueCall (Address 9) ''go'' [] 150", OF s] t(1)] by blast
  then show ?thesis using t by blast
qed

text \<open>
  No empty runs: when the resolver says no, \<open>execute_ready\<close> would execute nothing and change
  nothing.
\<close>

lemma no_empty_runs:
  assumes "queue_ok (storage s)" and "timelock_should_run e jid s = (Ok False, u)"
    and "execute_ready h e s = (Ok n, t)"
  shows "n = 0 \<and> storage t = storage s \<and> published t = published s"
proof -
  obtain q grace evs where q: "lock_queue (storage s) = Some q"
    and swept: "swept e grace s q 0 n t evs"
    using wp_OkD [OF wp_execute_ready [OF assms(1)] assms(3)] by blast
  have "\<not> list_ex (\<lambda>i. case lock_calls (storage s) i of None \<Rightarrow> False | Some c \<Rightarrow> call_eta c \<le> now e) q"
    using assms(2) q
    by (simp add: timelock_should_run_def queue_ids_def extend_ttl_def modify_def stored_def andthen_def
        bind_def load_def gets_def unwrap_def ok_def)
  then have "evs = []"
    using swept by (cases evs) (auto simp: swept_def list_ex_iff split: option.splits)
  then show ?thesis using swept by (simp add: swept_def unat_eq_zero)
qed

end
