(* ===== verification/Vesting.thy ===== *)
theory Vesting
  imports Clients
begin

text \<open>
  \<open>contracts/examples/vesting\<close>: linear vesting with a cliff, released by anybody to the
  beneficiary. Sums of \<open>u64\<close> times and the \<open>i128\<close> product panic on overflow, as compiled.
\<close>

section \<open>The contract\<close>

datatype vesting_error =
    NotAdmin
  | ScheduleExists
  | ScheduleNotFound
  | NothingToRelease
  | AlreadyRevoked
  | NotRevocable
  | InvalidSchedule

record vesting_schedule =
  beneficiary :: address
  total_amount :: int
  released_amount :: int
  start_time :: u64
  cliff_duration :: u64
  total_duration :: u64
  revocable :: bool
  revoked :: bool

record vesting_store =
  vest_admin :: "address option"
  vest_token :: "address option"
  vest_schedules :: "address \<rightharpoonup> vesting_schedule"

type_synonym ('w, 'a) vesting = "((vesting_store, 'w, unit, address) ctx, vesting_error, 'a) act"

definition vesting_constructor :: "address \<Rightarrow> address \<Rightarrow> ('w, unit) vesting" where
  "vesting_constructor a token =
     andthen (save (vest_admin_update (\<lambda>_. Some a)))
     (andthen (save (vest_token_update (\<lambda>_. Some token)))
     (extend_ttl (ExtendInstance 100000 500000)))"

definition create_schedule ::
  "'w host \<Rightarrow> env \<Rightarrow> address \<Rightarrow> int \<Rightarrow> u64 \<Rightarrow> u64 \<Rightarrow> u64 \<Rightarrow> bool \<Rightarrow> ('w, unit) vesting" where
  "create_schedule h e b n start cliff duration can_revoke =
     bind (stored vest_admin) (\<lambda>a.
     andthen (require_auth e a)
     (andthen (require (\<not> (n \<le> 0 \<or> duration = 0 \<or> duration < cliff)))
     (bind (load (\<lambda>d. vest_schedules d b)) (\<lambda>old.
     andthen (require (old = None))
     (bind (stored vest_token) (\<lambda>token.
     andthen (transfer h token a (me e) n)
     (andthen (save (vest_schedules_update (\<lambda>m. m(b \<mapsto>
        \<lparr>beneficiary = b, total_amount = n, released_amount = 0, start_time = start,
         cliff_duration = cliff, total_duration = duration, revocable = can_revoke, revoked = False\<rparr>))))
     (extend_ttl (ExtendPersistent b 100000 500000)))))))))"

text \<open>The vested amount of one schedule; \<open>None\<close> is a panic.\<close>

definition vested_at :: "vesting_schedule \<Rightarrow> u64 \<Rightarrow> int option" where
  "vested_at x t =
     (if revoked x then Some (released_amount x)
      else case checked_add (start_time x) (cliff_duration x) of
        None \<Rightarrow> None
      | Some cliff \<Rightarrow>
          if t < cliff then Some 0
          else case checked_add (start_time x) (total_duration x) of
            None \<Rightarrow> None
          | Some over \<Rightarrow>
              if over \<le> t then Some (total_amount x)
              else if in_i128 (total_amount x * uint (sat_sub t (start_time x)))
                then Some (trunc_div (total_amount x * uint (sat_sub t (start_time x)))
                       (uint (total_duration x)))
              else None)"

definition vested_amount :: "env \<Rightarrow> address \<Rightarrow> ('w, int) vesting" where
  "vested_amount e b =
     bind (load (\<lambda>d. vest_schedules d b)) (\<lambda>r.
     case r of None \<Rightarrow> ok 0 | Some x \<Rightarrow> unwrap (vested_at x (now e)))"

text \<open>\<open>i128::saturating_sub\<close>.\<close>

definition sat_sub_i128 :: "int \<Rightarrow> int \<Rightarrow> int" where
  "sat_sub_i128 a b = max (- (2 ^ 127)) (min (2 ^ 127 - 1) (a - b))"

definition releasable_amount :: "env \<Rightarrow> address \<Rightarrow> ('w, int) vesting" where
  "releasable_amount e b =
     bind (load (\<lambda>d. vest_schedules d b)) (\<lambda>r.
     case r of
       None \<Rightarrow> ok 0
     | Some x \<Rightarrow> bind (vested_amount e b) (\<lambda>v. ok (sat_sub_i128 v (released_amount x))))"

definition release_vested :: "'w host \<Rightarrow> env \<Rightarrow> address \<Rightarrow> ('w, int) vesting" where
  "release_vested h e b =
     bind (load (\<lambda>d. vest_schedules d b)) (\<lambda>r.
     bind (unwrap r) (\<lambda>x.
     bind (releasable_amount e b) (\<lambda>n.
     andthen (require (0 < n))
     (bind (i128 (released_amount x + n)) (\<lambda>released.
     andthen (save (vest_schedules_update (\<lambda>m. m(b \<mapsto> x\<lparr>released_amount := released\<rparr>))))
     (andthen (extend_ttl (ExtendPersistent b 100000 500000))
     (bind (stored vest_token) (\<lambda>token.
     andthen (transfer h token (me e) b n)
     (ok n)))))))))"

definition should_run_for :: "env \<Rightarrow> address \<Rightarrow> ('w, bool) vesting" where
  "should_run_for e b = bind (releasable_amount e b) (\<lambda>n. ok (0 < n))"

definition get_schedule :: "address \<Rightarrow> ('w, vesting_schedule) vesting" where
  "get_schedule b = stored (\<lambda>d. vest_schedules d b)"

section \<open>The vested amount\<close>

definition sound_terms :: "vesting_schedule \<Rightarrow> bool" where
  "sound_terms x \<longleftrightarrow> 0 < total_amount x \<and> total_duration x \<noteq> 0
     \<and> cliff_duration x \<le> total_duration x \<and> \<not> revoked x
     \<and> 0 \<le> released_amount x \<and> released_amount x \<le> total_amount x"

text \<open>The closed form: nothing before the cliff, then linear, everything at the end.\<close>

definition vested_linear :: "vesting_schedule \<Rightarrow> u64 \<Rightarrow> int" where
  "vested_linear x t =
     (if uint t < uint (start_time x) + uint (cliff_duration x) then 0
      else if uint (start_time x) + uint (total_duration x) \<le> uint t then total_amount x
      else total_amount x * (uint t - uint (start_time x)) div uint (total_duration x))"

lemma checked_add_uint:
  "checked_add a b = Some c \<Longrightarrow> uint c = uint a + uint b" for a b c :: "'a::len word"
proof -
  assume "checked_add a b = Some c"
  then have "unat c = unat a + unat b" by (auto simp: checked_add_def unat_word_ariths split: if_splits)
  then have "int (unat c) = int (unat a) + int (unat b)" by (simp only: of_nat_add)
  then show ?thesis by simp
qed

lemma uint_sat_sub: "b \<le> a \<Longrightarrow> uint (sat_sub a b) = uint a - uint b" for a b :: "'a::len word"
proof -
  assume "b \<le> a"
  then have "int (unat (sat_sub a b)) = int (unat a) - int (unat b)"
    by (simp only: unat_sat_sub word_le_nat_alt of_nat_diff)
  then show ?thesis by simp
qed

lemma vested_at_value:
  assumes "sound_terms x" and "vested_at x t = Some v"
  shows "v = vested_linear x t"
proof -
  have "\<not> revoked x" and d: "0 < uint (total_duration x)" and n: "0 < total_amount x"
    using assms(1) by (auto simp: sound_terms_def uint_pos)
  then obtain cliff where cliff: "checked_add (start_time x) (cliff_duration x) = Some cliff"
    using assms(2) by (auto simp: vested_at_def split: option.splits)
  note c = checked_add_uint [OF cliff]
  show ?thesis
  proof (cases "t < cliff")
    case True
    then show ?thesis
      using assms(2) cliff c \<open>\<not> revoked x\<close> by (simp add: vested_at_def vested_linear_def word_less_def)
  next
    case False
    then obtain over where over: "checked_add (start_time x) (total_duration x) = Some over"
      using assms(2) cliff \<open>\<not> revoked x\<close> by (auto simp: vested_at_def split: option.splits)
    note o = checked_add_uint [OF over]
    have t: "uint (start_time x) + uint (cliff_duration x) \<le> uint t"
      using False c by (simp add: word_less_def)
    then have le: "start_time x \<le> t" using uint_ge_0 [of "cliff_duration x"] unfolding word_le_def by linarith
    show ?thesis
    proof (cases "over \<le> t")
      case True
      then show ?thesis
        using assms(2) cliff over False t o \<open>\<not> revoked x\<close>
        by (simp add: vested_at_def vested_linear_def word_le_def)
    next
      case False
      moreover have "trunc_div (total_amount x * uint (sat_sub t (start_time x))) (uint (total_duration x))
        = total_amount x * uint (sat_sub t (start_time x)) div uint (total_duration x)"
        using n d by (intro trunc_div_nonneg) simp_all
      ultimately show ?thesis
        using assms(2) cliff over \<open>\<not> t < cliff\<close> t o \<open>\<not> revoked x\<close>
        by (simp add: vested_at_def vested_linear_def word_le_def uint_sat_sub [OF le] split: if_splits)
    qed
  qed
qed

lemma vested_linear_bounds:
  assumes "sound_terms x"
  shows "0 \<le> vested_linear x t \<and> vested_linear x t \<le> total_amount x"
proof -
  let ?k = "uint t - uint (start_time x)" and ?d = "uint (total_duration x)"
  have d: "0 < ?d" and n: "0 < total_amount x" using assms by (auto simp: sound_terms_def uint_pos)
  have "0 \<le> total_amount x * ?k div ?d \<and> total_amount x * ?k div ?d \<le> total_amount x"
    if "0 \<le> ?k" "?k < ?d"
  proof
    show "0 \<le> total_amount x * ?k div ?d" using d n that(1) by (simp add: pos_imp_zdiv_nonneg_iff)
    have "total_amount x * ?k \<le> total_amount x * ?d" using n that(2) by simp
    then have "total_amount x * ?k div ?d \<le> total_amount x * ?d div ?d" using d by (rule zdiv_mono1)
    then show "total_amount x * ?k div ?d \<le> total_amount x" using d by simp
  qed
  moreover have "0 \<le> ?k" if "\<not> uint t < uint (start_time x) + uint (cliff_duration x)"
    using that uint_ge_0 [of "cliff_duration x"] by linarith
  ultimately show ?thesis using n by (auto simp: vested_linear_def)
qed

lemma vested_linear_mono:
  assumes "sound_terms x" and "t \<le> t'"
  shows "vested_linear x t \<le> vested_linear x t'"
proof -
  have "total_amount x * (uint t - uint (start_time x)) div uint (total_duration x)
    \<le> total_amount x * (uint t' - uint (start_time x)) div uint (total_duration x)"
    using assms by (intro zdiv_mono1) (auto simp: sound_terms_def word_le_def uint_pos)
  then show ?thesis
    using vested_linear_bounds [OF assms(1), of t] vested_linear_bounds [OF assms(1), of t'] assms(2)
    by (auto simp: vested_linear_def word_le_def split: if_splits)
qed

section \<open>Histories\<close>

datatype vesting_op =
    CreateSchedule address int u64 u64 u64 bool
  | ReleaseVested address

text \<open>Amounts are \<open>i128\<close> arguments.\<close>

fun vesting_perform :: "'w host \<Rightarrow> env \<Rightarrow> vesting_op \<Rightarrow> ('w, unit) vesting" where
  "vesting_perform h e (CreateSchedule b n start cliff duration can_revoke) =
     andthen (require (in_i128 n)) (create_schedule h e b n start cliff duration can_revoke)"
| "vesting_perform h e (ReleaseVested b) = bind (release_vested h e b) (\<lambda>_. ok ())"

definition good_schedule :: "vesting_schedule \<Rightarrow> bool" where
  "good_schedule x \<longleftrightarrow> sound_terms x \<and> in_i128 (total_amount x)"

text \<open>Only the released amount of a schedule moves, and only up.\<close>

definition later_schedule :: "vesting_schedule \<Rightarrow> vesting_schedule \<Rightarrow> bool" where
  "later_schedule x y \<longleftrightarrow> good_schedule y \<and> y = x\<lparr>released_amount := released_amount y\<rparr>
     \<and> released_amount x \<le> released_amount y"

definition keeps_schedules :: "vesting_store \<Rightarrow> vesting_store \<Rightarrow> bool" where
  "keeps_schedules d d' \<longleftrightarrow> (\<forall>b x. vest_schedules d b = Some x \<longrightarrow> good_schedule x \<longrightarrow>
     (\<exists>y. vest_schedules d' b = Some y \<and> later_schedule x y))"

lemma later_schedule_refl: "good_schedule x \<Longrightarrow> later_schedule x x"
  by (simp add: later_schedule_def)

lemma later_schedule_trans: "later_schedule x y \<Longrightarrow> later_schedule y z \<Longrightarrow> later_schedule x z"
  unfolding later_schedule_def by (metis order_trans vesting_schedule.select_convs(3)
      vesting_schedule.surjective vesting_schedule.update_convs(3))

text \<open>What a release needs and does.\<close>

lemma wp_release_vested:
  assumes "vest_schedules (storage s) b = Some x" and "good_schedule x"
  shows "wp (release_vested h e b) (\<lambda>n t. \<exists>token.
      n = vested_linear x (now e) - released_amount x \<and> 0 < n \<and> should_run_for e b s = (Ok True, s)
      \<and> vest_schedules (storage t) = (vest_schedules (storage s))(b \<mapsto>
          x\<lparr>released_amount := vested_linear x (now e)\<rparr>)
      \<and> vest_token (storage s) = Some token
      \<and> token_transfer h token (me e) b n (world s) = Some (world t)) (\<lambda>_ _. False) True s"
proof -
  have sound: "sound_terms x" and range: "in_i128 (total_amount x)"
    using assms(2) by (auto simp: good_schedule_def)
  have exact: "sat_sub_i128 v (released_amount x) = v - released_amount x"
    if "vested_at x (now e) = Some v" for v
    using vested_linear_bounds [OF sound, of "now e"] vested_at_value [OF sound that] sound range
    by (auto simp: sat_sub_i128_def sound_terms_def in_i128_def)
  have yes: "should_run_for e b s = (Ok (0 < v - released_amount x), s)"
    if "vested_at x (now e) = Some v" for v
    using assms(1) that exact [OF that]
    by (simp add: should_run_for_def releasable_amount_def vested_amount_def load_def gets_def bind_def
        unwrap_def ok_def)
  show ?thesis
    using assms(1) vested_at_value [OF sound]
    by (auto simp: release_vested_def releasable_amount_def vested_amount_def wps exact yes
        split: option.split)
qed

lemma wp_vesting_perform:
  "wp (vesting_perform h e x) (\<lambda>_ t. keeps_schedules (storage s) (storage t)) (\<lambda>_ _. True) True s"
proof (cases x)
  case (CreateSchedule b n start cliff duration can_revoke)
  then show ?thesis
    by (auto simp: create_schedule_def wps keeps_schedules_def later_schedule_refl split: option.split)
next
  case (ReleaseVested b)
  show ?thesis
  proof (cases "\<exists>x. vest_schedules (storage s) b = Some x \<and> good_schedule x")
    case True
    then obtain y where y: "vest_schedules (storage s) b = Some y" "good_schedule y" by blast
    have "sound_terms y" using y(2) by (simp add: good_schedule_def)
    then have "later_schedule y (y\<lparr>released_amount := vested_linear y (now e)\<rparr>)"
      if "0 < vested_linear y (now e) - released_amount y"
      using that y(2) vested_linear_bounds [of y "now e"]
      by (auto simp: later_schedule_def good_schedule_def sound_terms_def)
    then show ?thesis
      unfolding ReleaseVested vesting_perform.simps wp_bind wp_ok [abs_def]
      by (intro wp_mono [OF wp_release_vested [OF y]])
        (auto simp: keeps_schedules_def y intro: later_schedule_refl)
  next
    case False
    then show ?thesis
      by (auto simp: ReleaseVested release_vested_def releasable_amount_def vested_amount_def wps
          keeps_schedules_def intro: later_schedule_refl split: option.split)
  qed
qed

interpretation vested: kept_by "vesting_perform h" keeps_schedules for h
proof
  show "keeps_schedules d d" for d by (auto simp: keeps_schedules_def intro: later_schedule_refl)
  show "keeps_schedules a c" if "keeps_schedules a b" "keeps_schedules b c" for a b c
    using that unfolding keeps_schedules_def by (metis later_schedule_def later_schedule_trans)
  show "keeps_schedules (storage s) (storage t)" if "vesting_perform h e x s = (Ok y, t)" for e x s t y
    using wp_OkD [OF wp_vesting_perform that] .
qed

text \<open>
  C33. A beneficiary is paid exactly what has vested: whatever happened since the schedule was
  created, a successful release pays the vested amount (zero before the cliff, linear and
  rounded down after it, everything at the end) less what was released before, transfers
  exactly that to the beneficiary, and leaves the released amount equal to the vested one,
  which never exceeds the total; the terms are those of the creation, and the resolver had
  said yes.
\<close>

theorem releases_exactly_what_has_vested:
  assumes "create_schedule h e0 b n start cliff duration rv s0 = (Ok (), s1)" and "in_i128 n"
    and "history (vesting_perform h) s1 s" and "release_vested h e b s = (Ok amount, t)"
  shows "\<exists>x token. vest_schedules (storage s) b = Some x
    \<and> total_amount x = n \<and> start_time x = start \<and> cliff_duration x = cliff \<and> total_duration x = duration
    \<and> amount = vested_linear x (now e) - released_amount x \<and> 0 < amount
    \<and> vest_schedules (storage t) b = Some (x\<lparr>released_amount := vested_linear x (now e)\<rparr>)
    \<and> vested_linear x (now e) \<le> n
    \<and> vest_token (storage s) = Some token \<and> token_transfer h token (me e) b amount (world s) = Some (world t)
    \<and> should_run_for e b s = (Ok True, s)"
proof -
  let ?x = "\<lparr>beneficiary = b, total_amount = n, released_amount = 0, start_time = start,
    cliff_duration = cliff, total_duration = duration, revocable = rv, revoked = False\<rparr>"
  have "wp (create_schedule h e0 b n start cliff duration rv) (\<lambda>_ t. vest_schedules (storage t) b = Some ?x
    \<and> good_schedule ?x) (\<lambda>_ _. True) True s0"
    using assms(2) by (auto simp: create_schedule_def wps good_schedule_def sound_terms_def split: option.split)
  from wp_OkD [OF this assms(1)] have new: "vest_schedules (storage s1) b = Some ?x" "good_schedule ?x" by auto
  then obtain x where x: "vest_schedules (storage s) b = Some x" "later_schedule ?x x"
    using vested.along [OF assms(3)] unfolding keeps_schedules_def by blast
  then have good: "good_schedule x" and terms: "total_amount x = n" "start_time x = start"
    "cliff_duration x = cliff" "total_duration x = duration"
    unfolding later_schedule_def by (metis vesting_schedule.select_convs vesting_schedule.update_convs(3))+
  then have "vested_linear x (now e) \<le> n"
    using vested_linear_bounds [of x "now e"] by (simp add: good_schedule_def)
  then show ?thesis
    using wp_OkD [OF wp_release_vested [OF x(1) good] assms(4)] x(1) terms by auto
qed

definition granting :: "(vesting_store, ledger, unit, address) ctx" where
  "granting = \<lparr>storage = \<lparr>vest_admin = Some (Address 1), vest_token = Some (Address 4),
     vest_schedules = Map.empty\<rparr>,
     world = (\<lambda>_ a. if a = Address 1 then 5000 else 0, []), published = [], extensions = []\<rparr>"

text \<open>A thousand tokens from time 100, cliff 200, over 1000 seconds: half way, 500 are paid.\<close>

theorem releases_exactly_what_has_vested_witness:
  "\<exists>(s :: (vesting_store, ledger, unit, address) ctx) t x.
     release_vested (ledger_host (\<lambda>_ _ _. None))
       \<lparr>now = 600, ledger = 0, me = Address 2, authorized = (\<lambda>_. False)\<rparr> (Address 5) s = (Ok 500, t)
     \<and> vest_schedules (storage t) (Address 5) = Some x \<and> released_amount x = 500"
proof -
  let ?h = "ledger_host (\<lambda>_ _ _. None)"
  let ?early = "\<lparr>now = 50, ledger = 0, me = Address 2, authorized = (\<lambda>a. a = Address 1)\<rparr>"
  let ?e = "\<lparr>now = 600, ledger = 0, me = Address 2, authorized = (\<lambda>_. False)\<rparr>"
  let ?x = "\<lparr>beneficiary = Address 5, total_amount = 1000, released_amount = 0, start_time = 100,
    cliff_duration = 200, total_duration = 1000, revocable = True, revoked = False\<rparr>"
  let ?create = "create_schedule ?h ?early (Address 5) 1000 100 200 1000 True"
  have "wp ?create (\<lambda>_ s. vest_schedules (storage s) (Address 5) = Some ?x
    \<and> vest_token (storage s) = Some (Address 4)
    \<and> ledger_balance (world s) (Address 4) (Address 2) = 1000
    \<and> ledger_balance (world s) (Address 4) (Address 5) = 0) (\<lambda>_ _. False) False granting"
    by (simp add: create_schedule_def wps granting_def)
      (simp add: ledger_transfer_def ledger_balance_def ledger_set_def wps)
  from wp_returns [OF this] obtain s where s: "?create granting = (Ok (), s)"
    and st: "vest_schedules (storage s) (Address 5) = Some ?x" "vest_token (storage s) = Some (Address 4)"
      "ledger_balance (world s) (Address 4) (Address 2) = 1000"
      "ledger_balance (world s) (Address 4) (Address 5) = 0" by auto
  have "wp (release_vested ?h ?e (Address 5)) (\<lambda>n _. n = 500) (\<lambda>_ _. False) False s"
    using st by (simp add: release_vested_def releasable_amount_def vested_amount_def vested_at_def
        checked_add_def sat_sub_def in_i128_def trunc_div_def sat_sub_i128_def wps ledger_transfer_def)
  from wp_returns [OF this] obtain t where t: "release_vested ?h ?e (Address 5) s = (Ok 500, t)" by blast
  have "in_i128 1000" by (simp add: in_i128_def)
  from releases_exactly_what_has_vested [OF s this _ t]
  have "\<exists>x. vest_schedules (storage t) (Address 5) = Some x \<and> released_amount x = 500"
    using st by (auto simp: vested_linear_def)
  then show ?thesis using t by blast
qed

section \<open>The resolver\<close>

interpretation vesting: self_resolver "should_run_for e b" "release_vested h e b" for h e b
proof
  show "quiet s t" if "should_run_for e b s = (Ok c, t)" for s t c
  proof -
    have "wp (should_run_for e b) (\<lambda>_ t. quiet s t) (\<lambda>_ _. True) True s"
      by (simp add: should_run_for_def releasable_amount_def vested_amount_def quiet_def wps
          split: option.split)
    from wp_OkD [OF this that] show ?thesis .
  qed
  show "\<exists>u. should_run_for e b s = (Ok True, u)" if "release_vested h e b s = (Ok n, t)" for s n t
  proof -
    have "wp (release_vested h e b) (\<lambda>_ _. should_run_for e b s = (Ok True, s)) (\<lambda>_ _. True) True s"
      by (auto simp: release_vested_def should_run_for_def releasable_amount_def vested_amount_def wps
          load_def gets_def bind_def unwrap_def ok_def split: option.split)
    from wp_OkD [OF this that] show ?thesis by blast
  qed
qed

end
