(* ===== verification/Router.thy ===== *)
theory Router
  imports Clients
begin

text \<open>
  What the trading contracts (\<open>dca\<close>, \<open>limit-order\<close>) use of the host and of a
  Soroswap-compatible router. A call made after \<open>authorize_as_current_contract\<close> may use the
  granted authorizations; such calls are a parameter of their own.
\<close>

record grant =
  grant_contract :: address
  grant_function :: symbol
  grant_args :: "val list"

record 'w authority =
  granted_call ::
    "grant list \<Rightarrow> address \<Rightarrow> address \<Rightarrow> symbol \<Rightarrow> val list \<Rightarrow> 'w \<Rightarrow> (call_result \<times> 'w) option"

text \<open>A call under grants; a failing callee or a result of another type is a panic.\<close>

definition invoke_with ::
  "'w authority \<Rightarrow> grant list \<Rightarrow> address \<Rightarrow> address \<Rightarrow> symbol \<Rightarrow> val list \<Rightarrow> (val \<Rightarrow> 'a option) \<Rightarrow>
   (('d, 'w, 'v, 'k) ctx, 'e, 'a) act" where
  "invoke_with g gs caller callee f xs decode s =
     (case granted_call g gs caller callee f xs (world s) of
        Some (Returned v, w) \<Rightarrow>
          (case decode v of None \<Rightarrow> (Trap, s) | Some x \<Rightarrow> (Ok x, s\<lparr>world := w\<rparr>))
      | _ \<Rightarrow> (Trap, s))"

lemma wp_invoke_with [wps]:
  "wp (invoke_with g gs a c f xs decode) Q E T s =
     (case granted_call g gs a c f xs (world s) of
        Some (Returned v, w) \<Rightarrow> (case decode v of None \<Rightarrow> T | Some x \<Rightarrow> Q x (s\<lparr>world := w\<rparr>))
      | _ \<Rightarrow> T)"
  by (auto simp: invoke_with_def wp_def split: option.split call_result.split)

section \<open>Results of the router\<close>

definition as_amounts :: "val \<Rightarrow> int list option" where
  "as_amounts v = (case v of ValVec vs \<Rightarrow> those (map as_i128 vs) | _ \<Rightarrow> None)"

definition as_address :: "val \<Rightarrow> address option" where
  "as_address v = (case v of ValAddress a \<Rightarrow> Some a | _ \<Rightarrow> None)"

definition last_amount :: "int list \<Rightarrow> int" where
  "last_amount xs = (if xs = [] then 0 else last xs)"

definition pair_for ::
  "'w host \<Rightarrow> env \<Rightarrow> address \<Rightarrow> address \<Rightarrow> address \<Rightarrow> (('d, 'w, 'v, 'k) ctx, 'e, address) act" where
  "pair_for h e router sell buy =
     bind (invoke h (me e) router ''router_pair_for'' [ValAddress sell, ValAddress buy]) (\<lambda>v.
     unwrap (as_address v))"

text \<open>
  The swap both contracts make: they grant the router's pair exactly one transfer of the input
  and ask for at least \<open>least\<close> of the output, to themselves, by now.
\<close>

definition swap_for ::
  "'w authority \<Rightarrow> env \<Rightarrow> address \<Rightarrow> address \<Rightarrow> address \<Rightarrow> address \<Rightarrow> int \<Rightarrow> int \<Rightarrow>
   (('d, 'w, 'v, 'k) ctx, 'e, int list) act" where
  "swap_for g e router pair sell buy n least =
     invoke_with g
       [\<lparr>grant_contract = sell, grant_function = ''transfer'',
         grant_args = [ValAddress (me e), ValAddress pair, ValI128 n]\<rparr>]
       (me e) router ''swap_exact_tokens_for_tokens''
       [ValI128 n, ValI128 least, ValVec [ValAddress sell, ValAddress buy], ValAddress (me e),
        ValU64 (now e)]
       as_amounts"

section \<open>Documented behaviour\<close>

text \<open>
  A granted authorization is good for one matching call: under grants, the caller's balance of
  a token falls by at most the transfers of that token it granted.
\<close>

fun moved_from :: "address \<Rightarrow> val list \<Rightarrow> int" where
  "moved_from a [ValAddress b, c, ValI128 n] = (if b = a then n else 0)"
| "moved_from a xs = 0"

definition granted_transfer :: "address \<Rightarrow> address \<Rightarrow> grant \<Rightarrow> int" where
  "granted_transfer u a x =
     (if grant_contract x = u \<and> grant_function x = ''transfer'' then moved_from a (grant_args x) else 0)"

definition grants_bound :: "'w host \<Rightarrow> 'w authority \<Rightarrow> bool" where
  "grants_bound h g \<longleftrightarrow>
     (\<forall>gs caller callee f xs w r w'. granted_call g gs caller callee f xs w = Some (r, w') \<longrightarrow>
        (\<forall>u. token_balance h w u caller - (\<Sum>x\<leftarrow>gs. granted_transfer u caller x)
           \<le> token_balance h w' u caller))"

text \<open>
  \<open>swap_exact_tokens_for_tokens\<close> fails rather than pay less than the minimum asked for; the
  last of the amounts it returns is the output.
\<close>

definition router_laws :: "'w authority \<Rightarrow> address \<Rightarrow> bool" where
  "router_laws g router \<longleftrightarrow>
     (\<forall>gs caller n least p a t w v w' outs.
        granted_call g gs caller router ''swap_exact_tokens_for_tokens''
          [ValI128 n, ValI128 least, p, a, t] w = Some (Returned v, w') \<longrightarrow>
        as_amounts v = Some outs \<longrightarrow> outs \<noteq> [] \<and> least \<le> last outs)"

text \<open>From one world to another, \<open>a\<close> lost at most \<open>n\<close> of one token and nothing else.\<close>

definition spends_at_most :: "'w host \<Rightarrow> address \<Rightarrow> address \<Rightarrow> int \<Rightarrow> 'w \<Rightarrow> 'w \<Rightarrow> bool" where
  "spends_at_most h a token n w w' \<longleftrightarrow>
     (\<forall>u. token_balance h w u a - (if u = token then n else 0) \<le> token_balance h w' u a)"

lemma spends_after:
  assumes "\<And>u. token_balance h w u a \<le> token_balance h v u a" and "spends_at_most h a token n v w'"
  shows "spends_at_most h a token n w w'"
  using assms unfolding spends_at_most_def by (metis diff_right_mono order_trans)

text \<open>The interface the trading contracts rely on: what a swap through the router does.\<close>

locale router_venue =
  fixes h :: "'w host" and g :: "'w authority" and router :: address
  assumes bound: "grants_bound h g" and laws: "router_laws g router"
begin

lemma swap:
  "wp (swap_for g e router pair sell buy n least) (\<lambda>outs t. storage t = storage s
      \<and> least \<le> last_amount outs \<and> spends_at_most h (me e) sell n (world s) (world t)) E True s"
proof -
  let ?gs = "[\<lparr>grant_contract = sell, grant_function = ''transfer'',
    grant_args = [ValAddress (me e), ValAddress pair, ValI128 n]\<rparr>]"
  have "spends_at_most h (me e) sell n w w'"
    if "granted_call g ?gs (me e) c f xs w = Some (r, w')" for c f xs w r w'
    unfolding spends_at_most_def
  proof
    fix u
    show "token_balance h w u (me e) - (if u = sell then n else 0) \<le> token_balance h w' u (me e)"
      using bound [unfolded grants_bound_def, rule_format, OF that, of u]
      by (cases "u = sell") (simp_all add: granted_transfer_def)
  qed
  moreover have "least \<le> last_amount outs"
    if "granted_call g gs c router ''swap_exact_tokens_for_tokens''
          [ValI128 n, ValI128 least, p, a, t] w = Some (Returned v, w')" "as_amounts v = Some outs"
    for gs c p a t w v w' outs
    using laws [unfolded router_laws_def, rule_format, OF that] by (simp add: last_amount_def)
  ultimately show ?thesis
    unfolding swap_for_def wp_invoke_with by (auto split: option.split call_result.split)
qed

end

lemmas wp_swap_for = router_venue.swap [OF router_venue.intro]

lemma wp_pair_for:
  assumes "calls_keep_funds h (me e)"
  shows "wp (pair_for h e router sell buy) (\<lambda>_ t. storage t = storage s
      \<and> (\<forall>u. token_balance h (world s) u (me e) \<le> token_balance h (world t) u (me e))) E True s"
proof -
  have "token_balance h w u (me e) \<le> token_balance h w' u (me e)"
    if "call_contract h (me e) d f xs w = Some (r, w')" for d f xs w r w' u
    using assms that unfolding calls_keep_funds_def by blast
  then show ?thesis
    by (auto simp: pair_for_def wps split: option.split call_result.split)
qed

lemma wp_pair_for_storage:
  "wp (pair_for h e router sell buy) (\<lambda>_ t. storage t = storage s) E True s"
  by (auto simp: pair_for_def wps split: option.split call_result.split)

lemma wp_swap_for_storage:
  "wp (swap_for g e router pair sell buy n least) (\<lambda>_ t. storage t = storage s) E True s"
  by (auto simp: swap_for_def wps split: option.split call_result.split)

section \<open>A concrete router\<close>

text \<open>
  The pair is the contract 8. The router uses the granted transfer for the input and pays the
  minimum asked for, if the pair has it.
\<close>

definition as_path :: "val \<Rightarrow> (address \<times> address) option" where
  "as_path v = (case v of
     ValVec [a, b] \<Rightarrow> (case (as_address a, as_address b) of (Some x, Some y) \<Rightarrow> Some (x, y) | _ \<Rightarrow> None)
   | _ \<Rightarrow> None)"

definition trade ::
  "grant list \<Rightarrow> address \<Rightarrow> int \<Rightarrow> int \<Rightarrow> address \<Rightarrow> address \<Rightarrow> ledger \<Rightarrow>
   (call_result \<times> ledger) option" where
  "trade gs caller n least sell buy w =
     (if gs = [\<lparr>grant_contract = sell, grant_function = ''transfer'',
             grant_args = [ValAddress caller, ValAddress (Address 8), ValI128 n]\<rparr>]
      then case ledger_transfer sell caller (Address 8) n w of
          None \<Rightarrow> None
        | Some v \<Rightarrow> (case ledger_transfer buy (Address 8) caller least v of
            None \<Rightarrow> None
          | Some u \<Rightarrow> Some (Returned (ValVec [ValI128 n, ValI128 least]), u))
      else None)"

definition exchange_call ::
  "grant list \<Rightarrow> address \<Rightarrow> val list \<Rightarrow> ledger \<Rightarrow> (call_result \<times> ledger) option" where
  "exchange_call gs caller xs w = (case xs of
     [a, b, c, d, t] \<Rightarrow> (case (as_i128 a, as_i128 b, as_path c) of
         (Some n, Some least, Some (sell, buy)) \<Rightarrow> trade gs caller n least sell buy w
       | _ \<Rightarrow> None)
   | _ \<Rightarrow> None)"

definition exchange :: "ledger authority" where
  "exchange = \<lparr>granted_call = (\<lambda>gs caller callee f xs w. exchange_call gs caller xs w)\<rparr>"

lemma as_i128_Some: "as_i128 v = Some n \<longleftrightarrow> v = ValI128 n"
  by (auto simp: as_i128_def split: val.split)

lemma exchange_call_Some:
  assumes "exchange_call gs caller xs w = Some (r, u)"
  obtains n least sell buy c d t v where
    "gs = [\<lparr>grant_contract = sell, grant_function = ''transfer'',
       grant_args = [ValAddress caller, ValAddress (Address 8), ValI128 n]\<rparr>]"
    "xs = [ValI128 n, ValI128 least, c, d, t]"
    "ledger_transfer sell caller (Address 8) n w = Some v"
    "ledger_transfer buy (Address 8) caller least v = Some u"
    "r = Returned (ValVec [ValI128 n, ValI128 least])"
  using assms
  by (auto simp: exchange_call_def trade_def as_i128_Some split: list.splits option.splits if_splits)

lemma exchange_grants_bound: "grants_bound (ledger_host answers) exchange"
  unfolding grants_bound_def
proof (intro allI impI)
  fix gs caller callee f xs w r w' u
  assume "granted_call exchange gs caller callee f xs w = Some (r, w')"
  then have "exchange_call gs caller xs w = Some (r, w')" by (simp add: exchange_def)
  then obtain n least sell buy c d t v where
    gs: "gs = [\<lparr>grant_contract = sell, grant_function = ''transfer'',
       grant_args = [ValAddress caller, ValAddress (Address 8), ValI128 n]\<rparr>]"
    and t1: "ledger_transfer sell caller (Address 8) n w = Some v"
    and t2: "ledger_transfer buy (Address 8) caller least v = Some w'"
    by (rule exchange_call_Some)
  show "token_balance (ledger_host answers) w u caller - (\<Sum>x\<leftarrow>gs. granted_transfer u caller x)
      \<le> token_balance (ledger_host answers) w' u caller"
    using ledger_transfer_balance [OF t1, of u caller] ledger_transfer_balance [OF t2, of u caller]
      ledger_transfer_nonneg [OF t1] ledger_transfer_nonneg [OF t2]
    by (auto simp: gs granted_transfer_def)
qed

lemma exchange_router_laws: "router_laws exchange router"
  unfolding router_laws_def
proof (intro allI impI)
  fix gs caller n least p a t w v w' outs
  assume "granted_call exchange gs caller router ''swap_exact_tokens_for_tokens''
      [ValI128 n, ValI128 least, p, a, t] w = Some (Returned v, w')" and outs: "as_amounts v = Some outs"
  then have "exchange_call gs caller [ValI128 n, ValI128 least, p, a, t] w = Some (Returned v, w')"
    by (simp add: exchange_def)
  then have "v = ValVec [ValI128 n, ValI128 least]" by (rule exchange_call_Some) simp
  then show "outs \<noteq> [] \<and> least \<le> last outs" using outs by (auto simp: as_amounts_def as_i128_def)
qed

interpretation sample: router_venue "ledger_host answers" exchange router for answers router
  by (rule router_venue.intro [OF exchange_grants_bound exchange_router_laws])

end
