(* ===== verification/Dca.thy ===== *)
theory Dca
  imports Router
begin

text \<open>
  \<open>contracts/examples/dca\<close>: a vault that swaps a fixed tranche per interval for its owner.
\<close>

section \<open>The contract\<close>

definition PRICE_SCALE :: int where "PRICE_SCALE = 10000000"

datatype dca_error =
    InvalidParameters
  | PlanNotActive
  | NotDueYet
  | MaxSwapsReached
  | InsufficientBalance

record dca_plan =
  dca_owner :: address
  dca_router :: address
  dca_sell :: address
  dca_buy :: address
  amount_per_swap :: int
  dca_interval :: u64
  max_swaps :: u32
  min_price :: int
  executed_swaps :: u32
  next_swap_at :: u64
  dca_active :: bool

record dca_store =
  dca_plan_entry :: "dca_plan option"

type_synonym ('w, 'a) dca = "((dca_store, 'w, unit, unit) ctx, dca_error, 'a) act"

definition dca_load :: "('w, dca_plan) dca" where
  "dca_load = andthen (extend_ttl (ExtendInstance 17280 (30 * 17280))) (stored dca_plan_entry)"

definition dca_save :: "dca_plan \<Rightarrow> ('w, unit) dca" where
  "dca_save p = save (dca_plan_entry_update (\<lambda>_. Some p))"

definition dca_constructor ::
  "env \<Rightarrow> address \<Rightarrow> address \<Rightarrow> address \<Rightarrow> address \<Rightarrow> int \<Rightarrow> u64 \<Rightarrow> u32 \<Rightarrow> int \<Rightarrow> ('w, unit) dca" where
  "dca_constructor e holder router sell buy n every most least =
     andthen (fail_if (n \<le> 0 \<or> every = 0 \<or> most = 0 \<or> least < 0 \<or> sell = buy) InvalidParameters)
     (dca_save \<lparr>dca_owner = holder, dca_router = router, dca_sell = sell, dca_buy = buy,
        amount_per_swap = n, dca_interval = every, max_swaps = most, min_price = least,
        executed_swaps = 0, next_swap_at = now e, dca_active = True\<rparr>)"

definition dca_deposit :: "'w host \<Rightarrow> env \<Rightarrow> address \<Rightarrow> int \<Rightarrow> ('w, unit) dca" where
  "dca_deposit h e a n =
     andthen (require_auth e a)
     (andthen (fail_if (n \<le> 0) InvalidParameters)
     (bind dca_load (\<lambda>p.
     transfer h (dca_sell p) a (me e) n)))"

definition dca_ensure_due :: "env \<Rightarrow> dca_plan \<Rightarrow> dca_error + unit" where
  "dca_ensure_due e p =
     (if max_swaps p \<le> executed_swaps p then Inl MaxSwapsReached
      else if \<not> dca_active p then Inl PlanNotActive
      else if now e < next_swap_at p then Inl NotDueYet
      else Inr ())"

text \<open>The plan after a tranche: counted, postponed, and over once the last one is spent.\<close>

definition spend_tranche :: "env \<Rightarrow> dca_plan \<Rightarrow> dca_plan option" where
  "spend_tranche e p =
     (case checked_add (executed_swaps p) 1 of
        None \<Rightarrow> None
      | Some n \<Rightarrow> (case checked_add (now e) (dca_interval p) of
          None \<Rightarrow> None
        | Some t \<Rightarrow> Some (p\<lparr>executed_swaps := n, next_swap_at := t, dca_active := n < max_swaps p\<rparr>)))"

definition swap_tranche :: "'w host \<Rightarrow> 'w authority \<Rightarrow> env \<Rightarrow> ('w, int) dca" where
  "swap_tranche h g e =
     bind dca_load (\<lambda>p.
     andthen (lift_result (dca_ensure_due e p))
     (bind (balance_of h (dca_sell p) (me e)) (\<lambda>held.
     andthen (fail_if (held < amount_per_swap p) InsufficientBalance)
     (bind (unwrap (spend_tranche e p)) (\<lambda>p.
     andthen (dca_save p)
     (bind (pair_for h e (dca_router p) (dca_sell p) (dca_buy p)) (\<lambda>pair.
     bind (i128 (amount_per_swap p * min_price p)) (\<lambda>scaled.
     bind (swap_for g e (dca_router p) pair (dca_sell p) (dca_buy p) (amount_per_swap p)
        (trunc_div scaled PRICE_SCALE)) (\<lambda>amounts.
     andthen (transfer h (dca_buy p) (me e) (dca_owner p) (last_amount amounts))
     (ok (last_amount amounts)))))))))))"

definition dca_should_run :: "'w host \<Rightarrow> env \<Rightarrow> u64 \<Rightarrow> ('w, bool) dca" where
  "dca_should_run h e jid =
     bind dca_load (\<lambda>p.
     case dca_ensure_due e p of
       Inl _ \<Rightarrow> ok False
     | Inr _ \<Rightarrow> bind (balance_of h (dca_sell p) (me e)) (\<lambda>held.
         ok (amount_per_swap p \<le> held)))"

definition dca_cancel :: "'w host \<Rightarrow> env \<Rightarrow> ('w, int) dca" where
  "dca_cancel h e =
     bind dca_load (\<lambda>p.
     andthen (require_auth e (dca_owner p))
     (andthen (dca_save (p\<lparr>dca_active := False\<rparr>))
     (bind (balance_of h (dca_sell p) (me e)) (\<lambda>held.
     andthen (only_if (0 < held) (transfer h (dca_sell p) (me e) (dca_owner p) held))
     (ok held)))))"

definition get_plan :: "('w, dca_plan) dca" where "get_plan = dca_load"

section \<open>The vault is its own resolver\<close>

lemma wp_dca_load [wps]:
  "wp dca_load Q E T s = (case dca_plan_entry (storage s) of None \<Rightarrow> T
     | Some p \<Rightarrow> Q p (noted True (ExtendInstance 17280 (30 * 17280)) s))"
  by (simp add: dca_load_def wps split: option.split)

lemma wp_dca_save [wps]:
  "wp (dca_save p) Q E T s = Q () (s\<lparr>storage := dca_plan_entry_update (\<lambda>_. Some p) (storage s)\<rparr>)"
  by (simp add: dca_save_def wps)

interpretation vault: self_resolver "dca_should_run h e jid" "swap_tranche h g e" for h g e jid
proof
  show "quiet s t" if "dca_should_run h e jid s = (Ok b, t)" for s t b
  proof -
    have "wp (dca_should_run h e jid) (\<lambda>_ t. quiet s t) (\<lambda>_ _. True) True s"
      by (simp add: dca_should_run_def quiet_def wps split: option.split sum.split)
    from wp_OkD [OF this that] show ?thesis .
  qed
  show "\<exists>u. dca_should_run h e jid s = (Ok True, u)" if "swap_tranche h g e s = (Ok n, t)" for s n t
  proof -
    have yes: "\<exists>u. dca_should_run h e jid s = (Ok True, u)"
      if "dca_plan_entry (storage s) = Some p" "dca_ensure_due e p = Inr ()"
        "amount_per_swap p \<le> token_balance h (world s) (dca_sell p) (me e)" for p
    proof -
      have "wp (dca_should_run h e jid) (\<lambda>b _. b) (\<lambda>_ _. False) False s"
        using that by (simp add: dca_should_run_def wps)
      from wp_returns [OF this] show ?thesis by auto
    qed
    have "wp (swap_tranche h g e) (\<lambda>_ _. \<exists>p. dca_plan_entry (storage s) = Some p
      \<and> dca_ensure_due e p = Inr () \<and> amount_per_swap p \<le> token_balance h (world s) (dca_sell p) (me e))
      (\<lambda>_ _. True) True s"
    proof (cases "\<exists>p. dca_plan_entry (storage s) = Some p \<and> dca_ensure_due e p = Inr ()
        \<and> amount_per_swap p \<le> token_balance h (world s) (dca_sell p) (me e)")
      case True
      then show ?thesis by (simp add: wp_def split: prod.split outcome.split)
    next
      case False
      then show ?thesis by (auto simp: swap_tranche_def wps split: option.split sum.split)
    qed
    from wp_OkD [OF this that] show ?thesis using yes by blast
  qed
qed

section \<open>One tranche\<close>

definition sound_plan :: "dca_plan \<Rightarrow> bool" where
  "sound_plan p \<longleftrightarrow> 0 < amount_per_swap p \<and> dca_interval p \<noteq> 0 \<and> 0 \<le> min_price p
     \<and> dca_sell p \<noteq> dca_buy p \<and> executed_swaps p \<le> max_swaps p"

lemma dca_ensure_due_ok:
  "dca_ensure_due e p = Inr () \<longleftrightarrow>
     executed_swaps p < max_swaps p \<and> dca_active p \<and> next_swap_at p \<le> now e"
  by (auto simp: dca_ensure_due_def not_le not_less)

lemma wp_swap_tranche:
  assumes "grants_bound h g" and "router_laws g (dca_router p)" and "calls_keep_funds h (me e)"
    and "token_laws h" and "dca_plan_entry (storage s) = Some p" and "sound_plan p"
  shows "wp (swap_tranche h g e) (\<lambda>n t. \<exists>q w. dca_ensure_due e p = Inr ()
      \<and> amount_per_swap p \<le> token_balance h (world s) (dca_sell p) (me e)
      \<and> spend_tranche e p = Some q \<and> dca_plan_entry (storage t) = Some q
      \<and> amount_per_swap p * min_price p div PRICE_SCALE \<le> n
      \<and> spends_at_most h (me e) (dca_sell p) (amount_per_swap p) (world s) w
      \<and> token_transfer h (dca_buy p) (me e) (dca_owner p) n w = Some (world t)) (\<lambda>_ _. True) True s"
proof (cases "dca_ensure_due e p = Inr () \<and> amount_per_swap p \<le> token_balance h (world s) (dca_sell p) (me e)")
  case False
  then show ?thesis
    using assms(5) by (auto simp: swap_tranche_def wps split: sum.split)
next
  case True
  show ?thesis
  proof (cases "spend_tranche e p")
    case None
    then show ?thesis using True assms(5) by (simp add: swap_tranche_def wps)
  next
    case (Some q)
    then have same: "dca_sell q = dca_sell p" "dca_buy q = dca_buy p" "dca_router q = dca_router p"
      "amount_per_swap q = amount_per_swap p" "min_price q = min_price p" "dca_owner q = dca_owner p"
      by (auto simp: spend_tranche_def split: option.splits)
    have div: "trunc_div (amount_per_swap p * min_price p) PRICE_SCALE
      = amount_per_swap p * min_price p div PRICE_SCALE"
      using assms(6) by (intro trunc_div_nonneg) (simp_all add: sound_plan_def PRICE_SCALE_def)
    let ?s = "noted True (ExtendInstance 17280 (30 * 17280))
      (s\<lparr>storage := dca_plan_entry_update (\<lambda>_. Some q) (storage s)\<rparr>)"
    let ?Q = "\<lambda>n t. dca_plan_entry (storage t) = Some q
      \<and> amount_per_swap p * min_price p div PRICE_SCALE \<le> n
      \<and> (\<exists>w. spends_at_most h (me e) (dca_sell p) (amount_per_swap p) (world s) w
         \<and> token_transfer h (dca_buy p) (me e) (dca_owner p) n w = Some (world t))"
    have swap: "wp (swap_for g e (dca_router p) pair (dca_sell p) (dca_buy p) (amount_per_swap p)
        (amount_per_swap p * min_price p div PRICE_SCALE))
        (\<lambda>amounts. wp (transfer h (dca_buy p) (me e) (dca_owner p) (last_amount amounts))
           (\<lambda>_. ?Q (last_amount amounts)) (\<lambda>_ _. True) True) (\<lambda>_ _. True) True u"
      if "dca_plan_entry (storage u) = Some q"
        "\<And>x. token_balance h (world s) x (me e) \<le> token_balance h (world u) x (me e)" for pair u
      by (rule wp_mono [OF wp_swap_for [OF assms(1,2)]])
        (use that in \<open>auto simp: wps intro: spends_after split: option.split\<close>)
    have "wp (pair_for h e (dca_router p) (dca_sell p) (dca_buy p)) (\<lambda>pair.
        wp (i128 (amount_per_swap p * min_price p)) (\<lambda>scaled.
        wp (swap_for g e (dca_router p) pair (dca_sell p) (dca_buy p) (amount_per_swap p)
          (trunc_div scaled PRICE_SCALE))
        (\<lambda>amounts. wp (transfer h (dca_buy p) (me e) (dca_owner p) (last_amount amounts))
           (\<lambda>_. ?Q (last_amount amounts)) (\<lambda>_ _. True) True) (\<lambda>_ _. True) True)
        (\<lambda>_ _. True) True) (\<lambda>_ _. True) True ?s"
      by (rule wp_mono [OF wp_pair_for [OF assms(3)]]) (auto simp: wp_i128 div intro: swap)
    then show ?thesis
      using True Some assms(5) by (simp add: swap_tranche_def wps wp_funs same)
  qed
qed

section \<open>Histories\<close>

datatype dca_op = DcaDeposit address int | SwapTranche | DcaCancel

fun dca_perform :: "'w host \<Rightarrow> 'w authority \<Rightarrow> env \<Rightarrow> dca_op \<Rightarrow> ('w, unit) dca" where
  "dca_perform h g e (DcaDeposit a n) = dca_deposit h e a n"
| "dca_perform h g e SwapTranche = bind (swap_tranche h g e) (\<lambda>_. ok ())"
| "dca_perform h g e DcaCancel = bind (dca_cancel h e) (\<lambda>_. ok ())"

text \<open>Later plans have the same terms, at least as many tranches, and never an earlier clock.\<close>

definition later_plan :: "dca_plan \<Rightarrow> dca_plan \<Rightarrow> bool" where
  "later_plan p q \<longleftrightarrow> q = p\<lparr>executed_swaps := executed_swaps q, next_swap_at := next_swap_at q,
       dca_active := dca_active q\<rparr>
     \<and> executed_swaps p \<le> executed_swaps q \<and> next_swap_at p \<le> next_swap_at q
     \<and> (sound_plan p \<longrightarrow> sound_plan q)"

definition keeps_plan :: "dca_store \<Rightarrow> dca_store \<Rightarrow> bool" where
  "keeps_plan d d' \<longleftrightarrow> (\<forall>p. dca_plan_entry d = Some p \<longrightarrow>
     (\<exists>q. dca_plan_entry d' = Some q \<and> later_plan p q))"

lemma later_plan_refl: "later_plan p p"
  by (simp add: later_plan_def)

lemma later_plan_trans: "later_plan p q \<Longrightarrow> later_plan q r \<Longrightarrow> later_plan p r"
  by (cases p; cases q; cases r) (auto simp: later_plan_def)

lemma later_plan_terms:
  assumes "later_plan p q"
  shows "dca_owner q = dca_owner p" "dca_router q = dca_router p" "dca_sell q = dca_sell p"
    "dca_buy q = dca_buy p" "amount_per_swap q = amount_per_swap p" "dca_interval q = dca_interval p"
    "max_swaps q = max_swaps p" "min_price q = min_price p"
  using assms by (cases p; cases q; simp add: later_plan_def)+

lemma spend_tranche_Some:
  assumes "dca_ensure_due e p = Inr ()" and "spend_tranche e p = Some q"
  shows "later_plan p q" and "unat (executed_swaps q) = unat (executed_swaps p) + 1"
    and "executed_swaps q \<le> max_swaps p" and "unat (next_swap_at q) = unat (now e) + unat (dca_interval p)"
    and "dca_active q \<longleftrightarrow> executed_swaps q < max_swaps p"
proof -
  obtain n t where n: "checked_add (executed_swaps p) 1 = Some n"
    and t: "checked_add (now e) (dca_interval p) = Some t"
    and q: "q = p\<lparr>executed_swaps := n, next_swap_at := t, dca_active := n < max_swaps p\<rparr>"
    using assms(2) by (auto simp: spend_tranche_def split: option.splits)
  have n': "unat n = unat (executed_swaps p) + 1" and t': "unat t = unat (now e) + unat (dca_interval p)"
    using n t by (auto simp: checked_add_def unat_word_ariths split: if_splits)
  have due: "executed_swaps p < max_swaps p" "next_swap_at p \<le> now e"
    using assms(1) by (auto simp: dca_ensure_due_ok)
  show "later_plan p q"
    using due n' t' by (simp add: later_plan_def q sound_plan_def word_le_nat_alt word_less_nat_alt)
  show "unat (executed_swaps q) = unat (executed_swaps p) + 1"
    "unat (next_swap_at q) = unat (now e) + unat (dca_interval p)"
    "executed_swaps q \<le> max_swaps p" "dca_active q \<longleftrightarrow> executed_swaps q < max_swaps p"
    using due n' t' by (simp_all add: q word_le_nat_alt word_less_nat_alt)
qed

lemma wp_swap_tranche_plan:
  "wp (swap_tranche h g e) (\<lambda>_ t. \<exists>p q. dca_plan_entry (storage s) = Some p
     \<and> dca_ensure_due e p = Inr () \<and> spend_tranche e p = Some q
     \<and> dca_plan_entry (storage t) = Some q) (\<lambda>_ _. True) True s"
proof (cases "\<exists>p q. dca_plan_entry (storage s) = Some p \<and> dca_ensure_due e p = Inr ()
    \<and> spend_tranche e p = Some q")
  case True
  then obtain p q where pq: "dca_plan_entry (storage s) = Some p" "dca_ensure_due e p = Inr ()"
    "spend_tranche e p = Some q" by blast
  have swap: "wp (swap_for g e r pair a b n m) (\<lambda>amounts. wp (transfer h c d x (last_amount amounts))
      (\<lambda>_ t. dca_plan_entry (storage t) = Some q) (\<lambda>_ _. True) True) (\<lambda>_ _. True) True u"
    if "dca_plan_entry (storage u) = Some q" for r pair a b n m c d x u
    by (rule wp_mono [OF wp_swap_for_storage]) (use that in \<open>auto simp: wps split: option.split\<close>)
  have pairing: "wp (pair_for h e r a b) (\<lambda>pair. wp (i128 i) (\<lambda>scaled. wp (swap_for g e r pair a b n (f scaled))
      (\<lambda>amounts. wp (transfer h c d x (last_amount amounts))
      (\<lambda>_ t. dca_plan_entry (storage t) = Some q) (\<lambda>_ _. True) True) (\<lambda>_ _. True) True)
      (\<lambda>_ _. True) True) (\<lambda>_ _. True) True u"
    if "dca_plan_entry (storage u) = Some q" for r a b i n f c d x u
    by (rule wp_mono [OF wp_pair_for_storage]) (use that in \<open>auto simp: wps intro: swap\<close>)
  show ?thesis
    using pq by (simp add: swap_tranche_def wps wp_funs)
      (intro impI, rule pairing, simp)
next
  case False
  then show ?thesis by (auto simp: swap_tranche_def wps split: option.split sum.split)
qed

lemma wp_dca_perform:
  "wp (dca_perform h g e x) (\<lambda>_ t. keeps_plan (storage s) (storage t)) (\<lambda>_ _. True) True s"
proof (cases x)
  case (DcaDeposit a n)
  then show ?thesis
    by (auto simp: dca_deposit_def wps keeps_plan_def later_plan_refl split: option.split)
next
  case SwapTranche
  show ?thesis
    unfolding SwapTranche dca_perform.simps wp_funs
    by (rule wp_mono [OF wp_swap_tranche_plan]) (auto simp: keeps_plan_def dest: spend_tranche_Some(1))
next
  case DcaCancel
  have "later_plan p (p\<lparr>dca_active := False\<rparr>)" for p by (simp add: later_plan_def sound_plan_def)
  then show ?thesis
    by (auto simp: DcaCancel dca_cancel_def wps keeps_plan_def split: option.split)
qed

interpretation dca: kept_by "dca_perform h g" keeps_plan for h g
proof
  show "keeps_plan d d" for d by (auto simp: keeps_plan_def later_plan_refl)
  show "keeps_plan a c" if "keeps_plan a b" "keeps_plan b c" for a b c
    using that unfolding keeps_plan_def by (metis later_plan_trans)
  show "keeps_plan (storage s) (storage t)" if "dca_perform h g e x s = (Ok y, t)" for e x s t y
    using wp_OkD [OF wp_dca_perform that] .
qed

text \<open>
  C34. A tranche is traded as the owner ordered: after any history of the vault, a successful
  \<open>swap_tranche\<close> by whomever happens when one is due, sells at most the tranche and lets no
  other token go before the payout, pays the owner at least the tranche at the minimum price
  and exactly what the router reported, counts the tranche, and closes the plan with the last.
\<close>

theorem tranches_trade_as_ordered:
  assumes "grants_bound h g" and "router_laws g router" and "calls_keep_funds h (me e)" and "token_laws h"
    and "dca_constructor e0 holder router sell buy amount every most least s0 = (Ok (), s1)"
    and "history (dca_perform h g) s1 s" and "swap_tranche h g e s = (Ok n, t)"
  shows "\<exists>p q w. dca_plan_entry (storage s) = Some p \<and> dca_plan_entry (storage t) = Some q
    \<and> dca_active p \<and> next_swap_at p \<le> now e \<and> amount \<le> token_balance h (world s) sell (me e)
    \<and> amount * least div PRICE_SCALE \<le> n
    \<and> spends_at_most h (me e) sell amount (world s) w
    \<and> token_transfer h buy (me e) holder n w = Some (world t)
    \<and> unat (executed_swaps q) = unat (executed_swaps p) + 1 \<and> executed_swaps q \<le> most
    \<and> (dca_active q \<longleftrightarrow> executed_swaps q < most)
    \<and> unat (next_swap_at q) = unat (now e) + unat every"
proof -
  let ?p = "\<lparr>dca_owner = holder, dca_router = router, dca_sell = sell, dca_buy = buy,
        amount_per_swap = amount, dca_interval = every, max_swaps = most, min_price = least,
        executed_swaps = 0, next_swap_at = now e0, dca_active = True\<rparr>"
  have "wp (dca_constructor e0 holder router sell buy amount every most least)
    (\<lambda>_ t. dca_plan_entry (storage t) = Some ?p \<and> sound_plan ?p) (\<lambda>_ _. True) True s0"
    by (auto simp: dca_constructor_def wps sound_plan_def not_le not_less)
  from wp_OkD [OF this assms(5)] have s1: "dca_plan_entry (storage s1) = Some ?p" and sound: "sound_plan ?p"
    by auto
  then obtain p where p: "dca_plan_entry (storage s) = Some p" and later: "later_plan ?p p"
    using dca.along [OF assms(6)] unfolding keeps_plan_def by blast
  note terms = later_plan_terms [OF later, simplified]
  have "sound_plan p" using sound later by (simp add: later_plan_def)
  have "router_laws g (dca_router p)" using assms(2) terms by simp
  from wp_OkD [OF wp_swap_tranche [OF assms(1) this assms(3,4) p \<open>sound_plan p\<close>] assms(7)] obtain q w where
    q: "dca_ensure_due e p = Inr ()" "spend_tranche e p = Some q" "dca_plan_entry (storage t) = Some q"
    and w: "amount \<le> token_balance h (world s) sell (me e)" "amount * least div PRICE_SCALE \<le> n"
      "spends_at_most h (me e) sell amount (world s) w"
      "token_transfer h buy (me e) holder n w = Some (world t)"
    unfolding terms by blast
  show ?thesis
    using p q(1,3) w spend_tranche_Some [OF q(1,2)] terms
    by (intro exI [of _ p] exI [of _ q] exI [of _ w]) (simp add: dca_ensure_due_ok)
qed

definition no_plan :: "(dca_store, ledger, unit, unit) ctx" where
  "no_plan = \<lparr>storage = \<lparr>dca_plan_entry = None\<rparr>,
     world = (\<lambda>token a. if token = Address 4 \<and> a = Address 2 then 1000
       else if token = Address 5 \<and> a = Address 8 then 1000 else 0, []),
     published = [], extensions = []\<rparr>"

theorem tranches_trade_as_ordered_witness:
  "\<exists>(s :: (dca_store, ledger, unit, unit) ctx) t q.
     swap_tranche (ledger_host (\<lambda>_ _ _. Some (Returned (ValAddress (Address 8))))) exchange
       \<lparr>now = 60, ledger = 0, me = Address 2, authorized = (\<lambda>_. False)\<rparr> s = (Ok 50, t)
     \<and> dca_plan_entry (storage t) = Some q \<and> unat (next_swap_at q) = 160"
proof -
  let ?h = "ledger_host (\<lambda>_ _ _. Some (Returned (ValAddress (Address 8))))"
  let ?early = "\<lparr>now = 10, ledger = 0, me = Address 2, authorized = (\<lambda>_. False)\<rparr>"
  let ?e = "\<lparr>now = 60, ledger = 0, me = Address 2, authorized = (\<lambda>_. False)\<rparr>"
  let ?new = "dca_constructor ?early (Address 1) (Address 9) (Address 4) (Address 5) 100 100 3 5000000"
  let ?p = "\<lparr>dca_owner = Address 1, dca_router = Address 9, dca_sell = Address 4, dca_buy = Address 5,
        amount_per_swap = 100, dca_interval = 100, max_swaps = 3, min_price = 5000000,
        executed_swaps = 0, next_swap_at = 10, dca_active = True\<rparr>"
  let ?s = "no_plan\<lparr>storage := \<lparr>dca_plan_entry = Some ?p\<rparr>\<rparr>"
  have new: "?new no_plan = (Ok (), ?s)"
    by (simp add: dca_constructor_def dca_save_def andthen_def bind_def fail_if_def save_def modify_def
        ok_def no_plan_def)
  have "wp (swap_tranche ?h exchange ?e) (\<lambda>n _. n = 50) (\<lambda>_ _. False) False ?s"
    by (simp add: swap_tranche_def dca_ensure_due_def spend_tranche_def checked_add_def wps pair_for_def
        swap_for_def exchange_def exchange_call_def trade_def as_path_def as_amounts_def as_address_def as_i128_def in_i128_def trunc_div_def
        PRICE_SCALE_def last_amount_def ledger_host_def)
      (simp add: no_plan_def ledger_transfer_def ledger_balance_def ledger_set_def ledger_host_def wps
        as_amounts_def as_i128_def last_amount_def)
  from wp_returns [OF this] obtain t where t: "swap_tranche ?h exchange ?e ?s = (Ok 50, t)" by blast
  have "calls_keep_funds ?h (me ?e)" by (rule calls_ignore_imp_keep [OF ledger_calls_ignore_funds])
  from tranches_trade_as_ordered [OF exchange_grants_bound exchange_router_laws this ledger_token_laws new
      rtranclp.rtrancl_refl t]
  obtain q where "dca_plan_entry (storage t) = Some q" "unat (next_swap_at q) = unat (60 :: u64) + unat (100 :: u64)"
    by auto
  then show ?thesis using t by auto
qed

text \<open>
  Between two tranches at least an interval passes, whoever calls and whatever happens in
  between, and the count never exceeds what the owner ordered.
\<close>

theorem tranches_are_spaced_and_counted:
  assumes "swap_tranche h g e s = (Ok n, t)" and "history (dca_perform h g) t u"
    and "swap_tranche h g e' u = (Ok n', v)"
  shows "\<exists>p q. dca_plan_entry (storage s) = Some p \<and> dca_plan_entry (storage v) = Some q
    \<and> unat (now e) + unat (dca_interval p) \<le> unat (now e')
    \<and> unat (executed_swaps p) + 2 \<le> unat (executed_swaps q) \<and> executed_swaps q \<le> max_swaps p"
proof -
  from wp_OkD [OF wp_swap_tranche_plan assms(1)] obtain p q where
    p: "dca_plan_entry (storage s) = Some p" "dca_ensure_due e p = Inr ()" "spend_tranche e p = Some q"
    and q: "dca_plan_entry (storage t) = Some q" by blast
  from wp_OkD [OF wp_swap_tranche_plan assms(3)] obtain x y where
    x: "dca_plan_entry (storage u) = Some x" "dca_ensure_due e' x = Inr ()" "spend_tranche e' x = Some y"
    and y: "dca_plan_entry (storage v) = Some y" by blast
  have later: "later_plan q x" using dca.along [OF assms(2)] q x(1) unfolding keeps_plan_def by auto
  then have "next_swap_at q \<le> next_swap_at x" "executed_swaps q \<le> executed_swaps x"
    unfolding later_plan_def by blast+
  moreover note later_plan_terms(7) [OF later]
  moreover have "next_swap_at x \<le> now e'" using x(2) by (simp add: dca_ensure_due_ok)
  moreover have "max_swaps q = max_swaps p" "dca_interval q = dca_interval p"
    using later_plan_terms(6,7) [OF spend_tranche_Some(1) [OF p(2,3)]] by simp_all
  ultimately show ?thesis
    using p(1) y spend_tranche_Some [OF p(2,3)] spend_tranche_Some [OF x(2,3)]
    by (intro exI [of _ p] exI [of _ y]) (auto simp: word_le_nat_alt)
qed

end
