(* ===== verification/LimitOrder.thy ===== *)
theory LimitOrder
  imports Router
begin

text \<open>
  \<open>contracts/examples/limit-order\<close>: one order, filled by anybody through the router as soon as
  the market pays the limit.
\<close>

section \<open>The contract\<close>

datatype order_error = InvalidOrder | NotFunded | Closed | OrderExpired | PriceNotReached

record order =
  order_owner :: address
  order_router :: address
  sell_token :: address
  buy_token :: address
  amount_in :: int
  min_amount_out :: int
  expires_at :: u64
  order_funded :: bool
  order_open :: bool
  filled_out :: int

record order_store =
  order_entry :: "order option"

type_synonym ('w, 'a) trading = "((order_store, 'w, unit, unit) ctx, order_error, 'a) act"

definition order_load :: "('w, order) trading" where
  "order_load = andthen (extend_ttl (ExtendInstance 17280 (30 * 17280))) (stored order_entry)"

definition order_save :: "order \<Rightarrow> ('w, unit) trading" where
  "order_save x = save (order_entry_update (\<lambda>_. Some x))"

definition order_constructor ::
  "address \<Rightarrow> address \<Rightarrow> address \<Rightarrow> address \<Rightarrow> int \<Rightarrow> int \<Rightarrow> u64 \<Rightarrow> ('w, unit) trading" where
  "order_constructor holder router sell buy n least expiry =
     andthen (fail_if (n \<le> 0 \<or> least \<le> 0 \<or> sell = buy) InvalidOrder)
     (order_save \<lparr>order_owner = holder, order_router = router, sell_token = sell, buy_token = buy,
        amount_in = n, min_amount_out = least, expires_at = expiry, order_funded = False,
        order_open = True, filled_out = 0\<rparr>)"

definition order_fund :: "'w host \<Rightarrow> env \<Rightarrow> ('w, unit) trading" where
  "order_fund h e =
     bind order_load (\<lambda>x.
     andthen (require_auth e (order_owner x))
     (andthen (fail_if (\<not> order_open x \<or> order_funded x) Closed)
     (andthen (transfer h (sell_token x) (order_owner x) (me e) (amount_in x))
     (order_save (x\<lparr>order_funded := True\<rparr>)))))"

definition order_path :: "order \<Rightarrow> val" where
  "order_path x = ValVec [ValAddress (sell_token x), ValAddress (buy_token x)]"

definition order_quote :: "'w host \<Rightarrow> env \<Rightarrow> ('w, int) trading" where
  "order_quote h e =
     bind order_load (\<lambda>x.
     bind (try_read h (me e) (order_router x) ''router_get_amounts_out''
        [ValI128 (amount_in x), order_path x] as_amounts) (\<lambda>r.
     ok (case r of None \<Rightarrow> 0 | Some amounts \<Rightarrow> last_amount amounts)))"

definition ensure_fillable :: "env \<Rightarrow> order \<Rightarrow> order_error + unit" where
  "ensure_fillable e x =
     (if \<not> order_open x then Inl Closed
      else if \<not> order_funded x then Inl NotFunded
      else if expires_at x \<noteq> 0 \<and> expires_at x \<le> now e then Inl OrderExpired
      else Inr ())"

definition order_fill :: "'w host \<Rightarrow> 'w authority \<Rightarrow> env \<Rightarrow> ('w, int) trading" where
  "order_fill h g e =
     bind order_load (\<lambda>x.
     andthen (lift_result (ensure_fillable e x))
     (bind (order_quote h e) (\<lambda>offer.
     andthen (fail_if (offer < min_amount_out x) PriceNotReached)
     (andthen (order_save (x\<lparr>order_open := False\<rparr>))
     (bind (pair_for h e (order_router x) (sell_token x) (buy_token x)) (\<lambda>pair.
     bind (swap_for g e (order_router x) pair (sell_token x) (buy_token x) (amount_in x)
        (min_amount_out x)) (\<lambda>amounts.
     andthen (transfer h (buy_token x) (me e) (order_owner x) (last_amount amounts))
     (andthen (order_save (x\<lparr>order_open := False, filled_out := last_amount amounts\<rparr>))
     (ok (last_amount amounts))))))))))"

definition order_cancel :: "'w host \<Rightarrow> env \<Rightarrow> ('w, int) trading" where
  "order_cancel h e =
     bind order_load (\<lambda>x.
     andthen (require_auth e (order_owner x))
     (andthen (fail_if (\<not> order_open x) Closed)
     (andthen (order_save (x\<lparr>order_open := False\<rparr>))
     (if order_funded x
      then andthen (transfer h (sell_token x) (me e) (order_owner x) (amount_in x)) (ok (amount_in x))
      else ok 0))))"

definition order_view :: "('w, order) trading" where "order_view = order_load"

definition order_should_run :: "'w host \<Rightarrow> env \<Rightarrow> u64 \<Rightarrow> ('w, bool) trading" where
  "order_should_run h e jid =
     bind order_load (\<lambda>x.
     case ensure_fillable e x of
       Inl _ \<Rightarrow> ok False
     | Inr _ \<Rightarrow> bind (order_quote h e) (\<lambda>offer. ok (min_amount_out x \<le> offer)))"

section \<open>The order is its own resolver\<close>

lemma wp_order_load [wps]:
  "wp order_load Q E T s = (case order_entry (storage s) of None \<Rightarrow> T
     | Some x \<Rightarrow> Q x (noted True (ExtendInstance 17280 (30 * 17280)) s))"
  by (simp add: order_load_def wps split: option.split)

lemma wp_order_save [wps]:
  "wp (order_save x) Q E T s = Q () (s\<lparr>storage := order_entry_update (\<lambda>_. Some x) (storage s)\<rparr>)"
  by (simp add: order_save_def wps)

interpretation order: self_resolver "order_should_run h e jid" "order_fill h g e" for h g e jid
proof
  show "quiet s t" if "order_should_run h e jid s = (Ok b, t)" for s t b
  proof -
    have "wp (order_should_run h e jid) (\<lambda>_ t. quiet s t) (\<lambda>_ _. True) True s"
      by (simp add: order_should_run_def order_quote_def quiet_def wps split: option.split sum.split)
    from wp_OkD [OF this that] show ?thesis .
  qed
  show "\<exists>u. order_should_run h e jid s = (Ok True, u)" if "order_fill h g e s = (Ok n, t)" for s n t
  proof (rule ccontr)
    assume no: "\<nexists>u. order_should_run h e jid s = (Ok True, u)"
    have "wp (order_should_run h e jid) (\<lambda>b _. \<not> b) (\<lambda>_ _. False) True s"
      by (rule wpI) (use no in \<open>auto simp: order_should_run_def order_quote_def order_load_def stored_def
        load_def gets_def extend_ttl_def modify_def unwrap_def bind_def andthen_def ok_def trap_def
        try_read_def try_call_def split: option.splits sum.splits prod.splits\<close>)
    then have "wp (order_fill h g e) (\<lambda>_ _. False) (\<lambda>_ _. True) True s"
      by (auto simp: order_should_run_def order_fill_def order_quote_def wps not_le
          split: option.splits sum.splits)
    from wp_OkD [OF this that] show False .
  qed
qed

section \<open>Filling\<close>

lemma ensure_fillable_ok:
  "ensure_fillable e x = Inr () \<longleftrightarrow>
     order_open x \<and> order_funded x \<and> (expires_at x = 0 \<or> now e < expires_at x)"
  by (auto simp: ensure_fillable_def not_le)

lemma wp_order_quote:
  "wp (order_quote h e) (\<lambda>_ t. storage t = storage s
     \<and> (calls_keep_funds h (me e) \<longrightarrow>
          (\<forall>u. token_balance h (world s) u (me e) \<le> token_balance h (world t) u (me e)))) E True s"
proof -
  have "token_balance h w u (me e) \<le> token_balance h w' u (me e)"
    if "calls_keep_funds h (me e)" "call_contract h (me e) d f xs w = Some (r, w')" for d f xs w r w' u
    using that unfolding calls_keep_funds_def by blast
  then show ?thesis
    by (auto simp: order_quote_def wps split: option.split call_result.split)
qed

text \<open>
  What a fill leaves: the order closed, whatever the router is; and under the documented
  behaviour of router and host, at least the limit for at most the amount sold.
\<close>

definition router_keeps_its_word :: "'w host \<Rightarrow> 'w authority \<Rightarrow> env \<Rightarrow> order \<Rightarrow> bool" where
  "router_keeps_its_word h g e x \<longleftrightarrow>
     grants_bound h g \<and> router_laws g (order_router x) \<and> calls_keep_funds h (me e)"

definition held_since :: "'w host \<Rightarrow> env \<Rightarrow> 'w \<Rightarrow> 'w \<Rightarrow> bool" where
  "held_since h e w w' \<longleftrightarrow> (\<forall>u. token_balance h w u (me e) \<le> token_balance h w' u (me e))"

definition fill_result ::
  "'w host \<Rightarrow> 'w authority \<Rightarrow> env \<Rightarrow> order \<Rightarrow> 'w \<Rightarrow> int \<Rightarrow> (order_store, 'w, unit, unit) ctx \<Rightarrow> bool" where
  "fill_result h g e x v n t \<longleftrightarrow>
     order_entry (storage t) = Some (x\<lparr>order_open := False, filled_out := n\<rparr>) \<and>
     (router_keeps_its_word h g e x \<longrightarrow> min_amount_out x \<le> n \<and>
        (\<exists>w. spends_at_most h (me e) (sell_token x) (amount_in x) v w
           \<and> token_transfer h (buy_token x) (me e) (order_owner x) n w = Some (world t)))"

lemma held_since_trans: "held_since h e w v \<Longrightarrow> held_since h e v u \<Longrightarrow> held_since h e w u"
  unfolding held_since_def by (blast intro: order_trans)

lemma wp_fill_swap:
  assumes "router_keeps_its_word h g e x \<longrightarrow> held_since h e v (world u)"
  shows "wp (swap_for g e (order_router x) pair (sell_token x) (buy_token x) (amount_in x)
      (min_amount_out x)) (\<lambda>amounts. wp (transfer h (buy_token x) (me e) (order_owner x) (last_amount amounts))
      (\<lambda>_. wp (order_save (x\<lparr>order_open := False, filled_out := last_amount amounts\<rparr>))
      (\<lambda>_. fill_result h g e x v (last_amount amounts)) (\<lambda>_ _. True) True) (\<lambda>_ _. True) True)
      (\<lambda>_ _. True) True u"
proof (cases "router_keeps_its_word h g e x")
  case True
  then have gs: "grants_bound h g" "router_laws g (order_router x)" by (auto simp: router_keeps_its_word_def)
  have "\<And>y. token_balance h v y (me e) \<le> token_balance h (world u) y (me e)"
    using assms True by (simp add: held_since_def)
  then show ?thesis
    by (intro wp_mono [OF wp_swap_for [OF gs]])
      (auto simp: wps fill_result_def intro: spends_after split: option.split)
next
  case False
  then show ?thesis
    by (intro wp_mono [OF wp_swap_for_storage]) (auto simp: wps fill_result_def split: option.split)
qed

lemma wp_fill_pair:
  assumes "router_keeps_its_word h g e x \<longrightarrow> held_since h e v (world u)"
  shows "wp (pair_for h e (order_router x) (sell_token x) (buy_token x)) (\<lambda>pair.
      wp (swap_for g e (order_router x) pair (sell_token x) (buy_token x) (amount_in x)
      (min_amount_out x)) (\<lambda>amounts. wp (transfer h (buy_token x) (me e) (order_owner x) (last_amount amounts))
      (\<lambda>_. wp (order_save (x\<lparr>order_open := False, filled_out := last_amount amounts\<rparr>))
      (\<lambda>_. fill_result h g e x v (last_amount amounts)) (\<lambda>_ _. True) True) (\<lambda>_ _. True) True)
      (\<lambda>_ _. True) True) (\<lambda>_ _. True) True u"
proof (cases "router_keeps_its_word h g e x")
  case True
  then have keep: "calls_keep_funds h (me e)" by (simp add: router_keeps_its_word_def)
  show ?thesis
    by (rule wp_mono [OF wp_pair_for [OF keep]])
      (use assms True in \<open>auto simp: held_since_def [of h e "world u"]
         intro!: wp_fill_swap held_since_trans [of h e v "world u"]\<close>)
next
  case False
  then show ?thesis
    by (intro wp_mono [OF wp_pair_for_storage]) (auto intro!: wp_fill_swap)
qed

lemma wp_fill_order:
  assumes "order_entry (storage s) = Some x"
  shows "wp (order_fill h g e) (\<lambda>n t. ensure_fillable e x = Inr () \<and> fill_result h g e x (world s) n t)
    (\<lambda>_ _. True) True s"
proof (cases "ensure_fillable e x = Inr ()")
  case False
  then show ?thesis using assms by (auto simp: order_fill_def wps split: sum.split)
next
  case True
  let ?s = "noted True (ExtendInstance 17280 (30 * 17280)) s"
  have "wp (order_quote h e) (\<lambda>_ t. router_keeps_its_word h g e x \<longrightarrow> held_since h e (world s) (world t))
      (\<lambda>_ _. True) True ?s"
    by (rule wp_mono [OF wp_order_quote]) (auto simp: router_keeps_its_word_def held_since_def)
  then have "wp (order_fill h g e) (fill_result h g e x (world s)) (\<lambda>_ _. True) True s"
    using assms True
    by (simp add: order_fill_def wps wp_funs) (erule wp_mono, auto simp: wp_fail_if wp_order_save intro!: wp_fill_pair)
  then show ?thesis by (rule wp_mono) (use True in auto)
qed

section \<open>Histories\<close>

datatype order_op = FundOrder | FillOrder | CancelOrder

fun order_perform :: "'w host \<Rightarrow> 'w authority \<Rightarrow> env \<Rightarrow> order_op \<Rightarrow> ('w, unit) trading" where
  "order_perform h g e FundOrder = order_fund h e"
| "order_perform h g e FillOrder = bind (order_fill h g e) (\<lambda>_. ok ())"
| "order_perform h g e CancelOrder = bind (order_cancel h e) (\<lambda>_. ok ())"

text \<open>The terms stay, and a closed order is final.\<close>

definition later_order :: "order \<Rightarrow> order \<Rightarrow> bool" where
  "later_order x y \<longleftrightarrow> y = x\<lparr>order_funded := order_funded y, order_open := order_open y, filled_out := filled_out y\<rparr>
     \<and> (\<not> order_open x \<longrightarrow> y = x)"

definition keeps_order :: "order_store \<Rightarrow> order_store \<Rightarrow> bool" where
  "keeps_order d d' \<longleftrightarrow> (\<forall>x. order_entry d = Some x \<longrightarrow>
     (\<exists>y. order_entry d' = Some y \<and> later_order x y))"

lemma later_order_trans: "later_order x y \<Longrightarrow> later_order y z \<Longrightarrow> later_order x z"
  by (cases x; cases y; cases z) (auto simp: later_order_def)

lemma wp_order_perform:
  "wp (order_perform h g e x) (\<lambda>_ t. keeps_order (storage s) (storage t)) (\<lambda>_ _. True) True s"
proof (cases "order_entry (storage s)")
  case None
  have "keeps_order (storage s) d" for d using None by (simp add: keeps_order_def)
  then show ?thesis by (simp add: wp_def split: prod.split outcome.split)
next
  case (Some y)
  show ?thesis
  proof (cases x)
    case FundOrder
    then show ?thesis
      by (auto simp: order_fund_def wps keeps_order_def later_order_def Some split: option.split)
  next
    case FillOrder
    show ?thesis
      unfolding FillOrder order_perform.simps wp_funs
      by (rule wp_mono [OF wp_fill_order [OF Some]])
        (auto simp: keeps_order_def later_order_def fill_result_def Some ensure_fillable_ok)
  next
    case CancelOrder
    then show ?thesis
      by (auto simp: order_cancel_def wps keeps_order_def later_order_def Some split: option.split)
  qed
qed

interpretation ordered: kept_by "order_perform h g" keeps_order for h g
proof
  show "keeps_order d d" for d by (auto simp: keeps_order_def later_order_def)
  show "keeps_order a c" if "keeps_order a b" "keeps_order b c" for a b c
    using that unfolding keeps_order_def by (metis later_order_trans)
  show "keeps_order (storage s) (storage t)" if "order_perform h g e x s = (Ok y, t)" for e x s t y
    using wp_OkD [OF wp_order_perform that] .
qed

text \<open>
  C35. A limit order fills once, at the limit or better: whatever happened since it was placed, a
  successful \<open>fill\<close> finds it open, funded and not expired, pays the owner what the swap yielded
  and at least the limit, lets go of at most the amount sold before the payout, and closes the
  order for good: every later fill is refused, along every further history.
\<close>

theorem orders_fill_once_at_the_limit:
  fixes s t :: "(order_store, 'w, unit, unit) ctx"
  assumes "grants_bound h g" and "router_laws g router" and "calls_keep_funds h (me e)"
    and "order_constructor holder router sell buy n least expiry s0 = (Ok (), s1)"
    and "history (order_perform h g) s1 s" and "order_fill h g e s = (Ok out, t)"
  shows "least \<le> out \<and> (expiry = 0 \<or> now e < expiry)
    \<and> (\<exists>x. order_entry (storage s) = Some x \<and> order_open x \<and> order_funded x)
    \<and> (\<exists>w. spends_at_most h (me e) sell n (world s) w
        \<and> token_transfer h buy (me e) holder out w = Some (world t))
    \<and> (\<forall>u e'. history (order_perform h g) t u \<longrightarrow> fst (order_fill h g e' u) = Err Closed)"
proof -
  let ?x = "\<lparr>order_owner = holder, order_router = router, sell_token = sell, buy_token = buy,
        amount_in = n, min_amount_out = least, expires_at = expiry, order_funded = False,
        order_open = True, filled_out = 0\<rparr>"
  have "wp (order_constructor holder router sell buy n least expiry)
    (\<lambda>_ t. order_entry (storage t) = Some ?x) (\<lambda>_ _. True) True s0"
    by (simp add: order_constructor_def wps)
  from wp_OkD [OF this assms(4)] have "order_entry (storage s1) = Some ?x" .
  then obtain x where x: "order_entry (storage s) = Some x" and later: "later_order ?x x"
    using ordered.along [OF assms(5)] unfolding keeps_order_def by blast
  have terms: "order_owner x = holder" "order_router x = router" "sell_token x = sell" "buy_token x = buy"
    "amount_in x = n" "min_amount_out x = least" "expires_at x = expiry"
    using later by (cases x; simp add: later_order_def)+
  from wp_OkD [OF wp_fill_order [OF x] assms(6)] have fill: "ensure_fillable e x = Inr ()"
    "order_entry (storage t) = Some (x\<lparr>order_open := False, filled_out := out\<rparr>)"
    "least \<le> out" "\<exists>w. spends_at_most h (me e) sell n (world s) w
        \<and> token_transfer h buy (me e) holder out w = Some (world t)"
    using assms(1-3) unfolding fill_result_def router_keeps_its_word_def terms by blast+
  have "fst (order_fill h g e' u) = Err Closed" if hist: "history (order_perform h g) t u"
    for u :: "(order_store, 'w, unit, unit) ctx" and e'
  proof -
    obtain y where "order_entry (storage u) = Some y" "\<not> order_open y"
      using ordered.along [OF hist] fill(2) unfolding keeps_order_def later_order_def by fastforce
    then show ?thesis
      by (simp add: order_fill_def order_load_def ensure_fillable_def stored_def load_def gets_def
          extend_ttl_def modify_def unwrap_def bind_def andthen_def ok_def lift_result_def err_def)
  qed
  then show ?thesis using fill x terms by (auto simp: ensure_fillable_ok)
qed

definition market :: "ledger host" where
  "market = ledger_host (\<lambda>callee f xs. Some (Returned
     (if f = ''router_pair_for'' then ValAddress (Address 8) else ValVec [ValI128 100, ValI128 60])))"

definition no_order :: "(order_store, ledger, unit, unit) ctx" where
  "no_order = \<lparr>storage = \<lparr>order_entry = None\<rparr>,
     world = (\<lambda>token a. if token = Address 4 \<and> a = Address 1 then 1000
       else if token = Address 5 \<and> a = Address 8 then 1000 else 0, []),
     published = [], extensions = []\<rparr>"

theorem orders_fill_once_at_the_limit_witness:
  "\<exists>(s :: (order_store, ledger, unit, unit) ctx) t.
     order_fill market exchange \<lparr>now = 60, ledger = 0, me = Address 2, authorized = (\<lambda>_. False)\<rparr> s
       = (Ok 50, t)
     \<and> fst (order_fill market exchange \<lparr>now = 61, ledger = 0, me = Address 2, authorized = (\<lambda>_. False)\<rparr> t)
       = Err Closed"
proof -
  let ?own = "\<lparr>now = 10, ledger = 0, me = Address 2, authorized = (\<lambda>a. a = Address 1)\<rparr>"
  let ?e = "\<lparr>now = 60, ledger = 0, me = Address 2, authorized = (\<lambda>_. False)\<rparr>"
  let ?new = "order_constructor (Address 1) (Address 9) (Address 4) (Address 5) 100 50 0"
  let ?x = "\<lparr>order_owner = Address 1, order_router = Address 9, sell_token = Address 4, buy_token = Address 5,
        amount_in = 100, min_amount_out = 50, expires_at = 0, order_funded = False,
        order_open = True, filled_out = 0\<rparr>"
  let ?s = "no_order\<lparr>storage := \<lparr>order_entry = Some ?x\<rparr>\<rparr>"
  have new: "?new no_order = (Ok (), ?s)"
    by (simp add: order_constructor_def order_save_def andthen_def bind_def fail_if_def save_def modify_def
        ok_def no_order_def)
  have "wp (order_perform market exchange ?own FundOrder) (\<lambda>_ s. order_entry (storage s) = Some (?x\<lparr>order_funded := True\<rparr>)
      \<and> ledger_balance (world s) (Address 4) (Address 2) = 100
      \<and> ledger_balance (world s) (Address 5) (Address 2) = 0
      \<and> ledger_balance (world s) (Address 4) (Address 8) = 0
      \<and> ledger_balance (world s) (Address 5) (Address 8) = 1000
      \<and> ledger_balance (world s) (Address 5) (Address 1) = 0) (\<lambda>_ _. False) False ?s"
    by (simp add: order_fund_def market_def no_order_def wps)
      (simp add: ledger_transfer_def ledger_balance_def ledger_set_def wps)
  from wp_returns [OF this] obtain u where u: "order_perform market exchange ?own FundOrder ?s = (Ok (), u)"
    and st: "order_entry (storage u) = Some (?x\<lparr>order_funded := True\<rparr>)"
      "ledger_balance (world u) (Address 4) (Address 2) = 100"
      "ledger_balance (world u) (Address 5) (Address 2) = 0"
      "ledger_balance (world u) (Address 4) (Address 8) = 0"
      "ledger_balance (world u) (Address 5) (Address 8) = 1000"
      "ledger_balance (world u) (Address 5) (Address 1) = 0" by auto
  have "wp (order_fill market exchange ?e) (\<lambda>n _. n = 50) (\<lambda>_ _. False) False u"
    using st
    by (simp add: order_fill_def order_quote_def ensure_fillable_def wps pair_for_def swap_for_def
        exchange_def exchange_call_def trade_def as_path_def as_amounts_def as_address_def as_i128_def
        last_amount_def market_def ledger_host_def)
      (simp add: ledger_transfer_def ledger_balance_set ledger_host_def as_amounts_def as_i128_def
        last_amount_def wps)
  from wp_returns [OF this] obtain t where t: "order_fill market exchange ?e u = (Ok 50, t)" by blast
  have laws: "grants_bound market exchange" "calls_keep_funds market (me ?e)"
    by (simp_all add: market_def exchange_grants_bound calls_ignore_imp_keep ledger_calls_ignore_funds)
  from orders_fill_once_at_the_limit [OF laws(1) exchange_router_laws laws(2) new
      history_call [of "order_perform market exchange" ?own FundOrder, OF u] t]
  have "fst (order_fill market exchange \<lparr>now = 61, ledger = 0, me = Address 2, authorized = (\<lambda>_. False)\<rparr> t)
       = Err Closed" by blast
  then show ?thesis using t by blast
qed

end
