(* ===== verification/KeeperText.thy ===== *)
theory KeeperText
  imports Types "HOL-Library.Sublist"
begin

text \<open>
  Text and numbers as the keeper bot (\<open>keeper-rs/src\<close>) handles them: decimal output and
  input, searching a message, and \<open>i128\<close> arithmetic of a release build, which wraps.
\<close>

section \<open>Decimal numbers\<close>

definition DIGITS :: string where "DIGITS = ''0123456789''"

fun show_nat :: "nat \<Rightarrow> string" where
  "show_nat n = (if n < 10 then [DIGITS ! n] else show_nat (n div 10) @ [DIGITS ! (n mod 10)])"

declare show_nat.simps [simp del]

definition digit_value :: "char \<Rightarrow> nat option" where
  "digit_value c = map_of (zip DIGITS [0..<10]) c"

fun read_digits :: "nat \<Rightarrow> string \<Rightarrow> nat option" where
  "read_digits n [] = Some n"
| "read_digits n (c # cs) =
     (case digit_value c of None \<Rightarrow> None | Some d \<Rightarrow> read_digits (10 * n + d) cs)"

text \<open>\<open>str::parse\<close> for an unsigned type with values below \<open>m\<close>: an optional plus, then digits.\<close>

definition parse_below :: "nat \<Rightarrow> string \<Rightarrow> nat option" where
  "parse_below m s =
     (let t = (case s of [] \<Rightarrow> [] | c # cs \<Rightarrow> if c = CHR ''+'' then cs else s)
      in if t = [] then None
         else case read_digits 0 t of
           None \<Rightarrow> None
         | Some n \<Rightarrow> if n < m then Some n else None)"

lemma nth_DIGITS: "i < 10 \<Longrightarrow> digit_value (DIGITS ! i) = Some i \<and> DIGITS ! i \<noteq> CHR ''+''"
  by (simp add: less_Suc_eq numeral_eq_Suc DIGITS_def digit_value_def) (elim disjE, simp_all)

lemma read_digits_append:
  "read_digits n (s @ t) = (case read_digits n s of None \<Rightarrow> None | Some m \<Rightarrow> read_digits m t)"
  by (induction s arbitrary: n) (simp_all split: option.split)

lemma read_show_nat: "read_digits 0 (show_nat n) = Some n"
proof (induction n rule: show_nat.induct)
  case (1 n)
  then show ?case
    by (cases "n < 10")
      (simp_all add: show_nat.simps [of n] read_digits_append nth_DIGITS)
qed

lemma show_nat_plain:
  "show_nat n \<noteq> []" "hd (show_nat n) \<noteq> CHR ''+''"
proof (induction n rule: show_nat.induct)
  case (1 n)
  {
    case 1
    then show ?case by (simp add: show_nat.simps [of n])
  next
    case 2
    then show ?case
      using "1.IH" by (cases "n < 10") (simp_all add: show_nat.simps [of n] nth_DIGITS hd_append)
  }
qed

lemma parse_show_nat: "n < m \<Longrightarrow> parse_below m (show_nat n) = Some n"
  using show_nat_plain [of n] read_show_nat [of n]
  by (cases "show_nat n") (simp_all add: parse_below_def)

section \<open>Messages\<close>

text \<open>The first occurrence of a (non-empty) pattern: the text before and after it.\<close>

fun find_text :: "string \<Rightarrow> string \<Rightarrow> (string \<times> string) option" where
  "find_text p [] = (if p = [] then Some ([], []) else None)"
| "find_text p (c # cs) =
     (if prefix p (c # cs) then Some ([], drop (length p) (c # cs))
      else map_option (\<lambda>(a, b). (c # a, b)) (find_text p cs))"

text \<open>\<open>s.split(p).nth(1)\<close>: what stands between the first two occurrences.\<close>

definition second_part :: "string \<Rightarrow> string \<Rightarrow> string option" where
  "second_part p s =
     (case find_text p s of
        None \<Rightarrow> None
      | Some (_, rest) \<Rightarrow> (case find_text p rest of None \<Rightarrow> Some rest | Some (part, _) \<Rightarrow> Some part))"

text \<open>\<open>s.lines().next().unwrap_or(s)\<close>.\<close>

definition first_line :: "string \<Rightarrow> string" where
  "first_line s =
     (let l = takeWhile (\<lambda>c. c \<noteq> CHR 0x0A) s
      in if l \<noteq> s \<and> l \<noteq> [] \<and> last l = CHR 0x0D then butlast l else l)"

lemma find_text_join: "find_text p s = Some (a, b) \<Longrightarrow> s = a @ p @ b"
proof (induction s arbitrary: a)
  case (Cons c cs)
  then show ?case by (auto simp: prefix_def split: if_splits)
qed (simp split: if_splits)

section \<open>Signed arithmetic that wraps\<close>

definition wrap_i128 :: "int \<Rightarrow> int" where
  "wrap_i128 n = (n + 2 ^ 127) mod 2 ^ 128 - 2 ^ 127"

lemma wrap_i128_id [simp]: "in_i128 n \<Longrightarrow> wrap_i128 n = n"
  by (simp add: wrap_i128_def in_i128_def)

lemma wrap_i128_range: "in_i128 (wrap_i128 n)"
proof -
  have "0 \<le> (n + 2 ^ 127) mod 2 ^ 128 \<and> (n + 2 ^ 127) mod 2 ^ 128 < (2 :: int) ^ 128" by simp
  then show ?thesis by (simp add: wrap_i128_def in_i128_def)
qed

end
