(* ===== verification/KeeperConfig.thy ===== *)
theory KeeperConfig
  imports KeeperText
begin

text \<open>
  \<open>keeper-rs/src/config.rs\<close>: the configuration the bot reads from its environment. The
  process environment and the deployments file are the state that is read; decoding of
  addresses and keys (\<open>stellar_strkey\<close>) is a parameter.
\<close>

section \<open>Networks\<close>

definition TESTNET_PASSPHRASE :: string where
  "TESTNET_PASSPHRASE = ''Test SDF Network ; September 2015''"

definition MAINNET_PASSPHRASE :: string where
  "MAINNET_PASSPHRASE = ''Public Global Stellar Network ; September 2015''"

definition LOCAL_PASSPHRASE :: string where
  "LOCAL_PASSPHRASE = ''Standalone Network ; February 2017''"

definition network_defaults :: "string \<Rightarrow> string + string \<times> string" where
  "network_defaults n =
     (if n = ''testnet'' then Inr (TESTNET_PASSPHRASE, ''https://soroban-testnet.stellar.org'')
      else if n = ''mainnet'' then Inr (MAINNET_PASSPHRASE, [])
      else if n = ''local'' then Inr (LOCAL_PASSPHRASE, ''http://localhost:8000/rpc'')
      else Inl (''STELLAR_NETWORK must be testnet, mainnet or local (got '' @ n @ '')''))"

section \<open>The configuration\<close>

record 'k bot_config =
  bot_network :: string
  rpc_url :: string
  passphrase :: string
  registry_id :: bytes
  keeper_key :: 'k
  poll_interval :: u64
  inclusion_fee :: u32
  run_once :: bool
  dry_run :: bool
  batch_size :: nat
  min_profit :: int
  metrics_port :: nat
  max_cost_per_job :: int

text \<open>
  What the process can read: its variables, its working directory (innermost component first)
  and the files in a directory; and what \<open>stellar_strkey\<close>, \<open>ed25519_dalek\<close> and
  \<open>serde_json\<close> make of a text.
\<close>

record surroundings =
  env_var :: "string \<Rightarrow> string option"
  current_dir :: "string list option"
  file_text :: "string list \<Rightarrow> string \<Rightarrow> string option"

record 'k strkeys =
  decode_contract :: "string \<Rightarrow> bytes option"
  decode_private :: "string \<Rightarrow> bytes option"
  key_of_bytes :: "bytes \<Rightarrow> 'k"
  json_registry :: "string \<Rightarrow> string option"

type_synonym 'a configuring = "(surroundings, string, 'a) act"

text \<open>\<open>str::trim\<close>, for the white space among the first 256 characters.\<close>

definition white :: "char \<Rightarrow> bool" where
  "white c \<longleftrightarrow> of_char c \<in> {9, 10, 11, 12, 13, 32, 133, 160 :: nat}"

definition trim :: "string \<Rightarrow> string" where
  "trim x = rev (dropWhile white (rev (dropWhile white x)))"

definition parse_contract :: "'k strkeys \<Rightarrow> string \<Rightarrow> string + bytes" where
  "parse_contract k x =
     (case decode_contract k (trim x) of
        None \<Rightarrow> Inl (x @ '' is not a contract address (C...)'')
      | Some b \<Rightarrow> Inr b)"

definition parse_secret :: "'k strkeys \<Rightarrow> string \<Rightarrow> string + 'k" where
  "parse_secret k x =
     (case decode_private k (trim x) of
        None \<Rightarrow> Inl ''STELLAR_SECRET_KEY must be a secret key (S...)''
      | Some b \<Rightarrow> Inr (key_of_bytes k b))"

text \<open>\<open>env::var(x).ok()\<close>, and the same with the empty value filtered out.\<close>

definition var :: "string \<Rightarrow> string option configuring" where
  "var x = gets (\<lambda>s. env_var s x)"

definition filled :: "string option \<Rightarrow> string option" where
  "filled v = (if v = Some [] then None else v)"

definition nonempty_var :: "string \<Rightarrow> string option configuring" where
  "nonempty_var x = gets (\<lambda>s. filled (env_var s x))"

text \<open>\<open>str::parse::<i128>\<close>: an optional sign, digits, and the range of the type.\<close>

definition parse_i128 :: "string \<Rightarrow> int option" where
  "parse_i128 s =
     (case s of
        c # cs \<Rightarrow>
          if c = CHR ''-'' then
            (if cs = [] then None else
             case read_digits 0 cs of
               None \<Rightarrow> None
             | Some n \<Rightarrow> if in_i128 (- int n) then Some (- int n) else None)
          else map_option int (parse_below (2 ^ 127) s)
      | [] \<Rightarrow> None)"

definition number :: "string \<Rightarrow> int \<Rightarrow> int configuring" where
  "number x otherwise =
     bind (nonempty_var x) (\<lambda>v.
     case v of
       None \<Rightarrow> ok otherwise
     | Some v \<Rightarrow> ok_or (parse_i128 v) (x @ '' must be a number (got '' @ v @ '')''))"

fun value_or :: "'a \<Rightarrow> 'a option \<Rightarrow> 'a" where
  "value_or x None = x"
| "value_or x (Some y) = y"

text \<open>
  \<open>registry_from_deployments\<close>: the nearest \<open>deployments/<network>.json\<close> above the working
  directory decides, even when it names no registry.
\<close>

fun deployments_above :: "'k strkeys \<Rightarrow> (string list \<Rightarrow> string \<Rightarrow> string option) \<Rightarrow> string \<Rightarrow>
    string list \<Rightarrow> string option" where
  "deployments_above k files network dir =
     (case files (''deployments'' # dir) (network @ ''.json'') of
        Some text \<Rightarrow> json_registry k text
      | None \<Rightarrow> (case dir of [] \<Rightarrow> None | d # up \<Rightarrow> deployments_above k files network up))"

declare deployments_above.simps [simp del]

definition registry_from_deployments :: "'k strkeys \<Rightarrow> string \<Rightarrow> string option configuring" where
  "registry_from_deployments k network =
     gets (\<lambda>s. Option.bind (current_dir s) (deployments_above k (file_text s) network))"

definition chosen_registry :: "'k strkeys \<Rightarrow> string \<Rightarrow> string configuring" where
  "chosen_registry k network =
     bind (nonempty_var ''SOROCRON_CONTRACT_ID'') (\<lambda>r.
     case r of
       Some x \<Rightarrow> ok x
     | None \<Rightarrow> bind (registry_from_deployments k network) (\<lambda>d.
         ok_or d ''Set SOROCRON_CONTRACT_ID or add deployments/<network>.json''))"

definition signing_key :: "'k strkeys \<Rightarrow> bool \<Rightarrow> 'k configuring" where
  "signing_key k dry =
     bind (nonempty_var ''STELLAR_SECRET_KEY'') (\<lambda>secret.
     case secret of
       Some x \<Rightarrow> lift_result (parse_secret k x)
     | None \<Rightarrow>
         if dry then ok (key_of_bytes k (replicate 32 7))
         else err ''Set STELLAR_SECRET_KEY (or pass --dry-run to only simulate)'')"

definition numeric_settings :: "(nat \<times> int \<times> nat \<times> int) configuring" where
  "numeric_settings =
     bind (number ''BATCH_SIZE'' 10) (\<lambda>most.
     bind (number ''MIN_PROFIT_STROOPS'' 0) (\<lambda>least.
     bind (number ''METRICS_PORT'' 0) (\<lambda>port.
     andthen (fail_if (port < 0 \<or> 2 ^ 16 \<le> port) ''METRICS_PORT must be a port number'')
     (bind (number ''MAX_COST_PER_JOB_STROOPS'' 10000000) (\<lambda>cost.
     ok (nat (max 1 (min 20 most)), least, nat port, cost))))))"

definition from_env :: "'k strkeys \<Rightarrow> string list \<Rightarrow> 'k bot_config configuring" where
  "from_env k argv =
     bind (var ''STELLAR_NETWORK'') (\<lambda>n.
     let network = value_or ''testnet'' n; dry = (''--dry-run'' \<in> set argv) in
     bind (lift_result (network_defaults network)) (\<lambda>(pass, default_rpc).
     bind (nonempty_var ''STELLAR_RPC_URL'') (\<lambda>u.
     andthen (fail_if (value_or default_rpc u = []) ''Set STELLAR_RPC_URL for mainnet'')
     (bind (chosen_registry k network) (\<lambda>registry.
     bind (signing_key k dry) (\<lambda>key.
     bind (var ''POLL_INTERVAL_MS'') (\<lambda>poll.
     bind (var ''INCLUSION_FEE'') (\<lambda>fee.
     bind (lift_result (parse_contract k registry)) (\<lambda>contract.
     bind numeric_settings (\<lambda>(most, least, port, cost).
     ok \<lparr>bot_network = network, rpc_url = value_or default_rpc u, passphrase = pass,
        registry_id = contract, keeper_key = key,
        poll_interval = of_nat (value_or 10000 (Option.bind poll (parse_below (2 ^ 64)))),
        inclusion_fee = of_nat (value_or 1000 (Option.bind fee (parse_below (2 ^ 32)))),
        run_once = (''--once'' \<in> set argv), dry_run = dry, batch_size = most,
        min_profit = least, metrics_port = port, max_cost_per_job = cost\<rparr>))))))))))"

section \<open>What a configuration guarantees\<close>

lemma parse_i128_range: "parse_i128 x = Some n \<Longrightarrow> in_i128 n"
proof (cases x)
  case (Cons c cs)
  assume "parse_i128 x = Some n"
  then show ?thesis
    by (auto simp: parse_i128_def Cons parse_below_def Let_def in_i128_def split: if_splits option.splits)
qed (simp add: parse_i128_def)

lemma wp_var [wps]: "wp (var x) Q E T s = Q (env_var s x) s"
  by (simp add: var_def wps)

lemma wp_nonempty_var [wps]: "wp (nonempty_var x) Q E T s = Q (filled (env_var s x)) s"
  by (simp add: nonempty_var_def wps)

lemma wp_keep: "wp m (\<lambda>x t. t = s \<and> P x) (\<lambda>_ _. True) False s \<Longrightarrow>
  (\<And>x. P x \<Longrightarrow> wp (f x) Q (\<lambda>_ _. True) False s) \<Longrightarrow> wp (bind m f) Q (\<lambda>_ _. True) False s"
  unfolding wp_bind by (erule wp_mono) auto

lemma wp_guard: "(\<not> p \<Longrightarrow> wp m Q (\<lambda>_ _. True) False s) \<Longrightarrow>
  wp (andthen (fail_if p e) m) Q (\<lambda>_ _. True) False s"
  by (simp add: wps)

lemma wp_number:
  "in_i128 otherwise \<Longrightarrow> wp (number x otherwise) (\<lambda>n t. t = s \<and> in_i128 n) (\<lambda>_ _. True) False s"
  by (auto simp: number_def wps dest: parse_i128_range split: option.split)

lemma wp_numeric_settings:
  "wp numeric_settings (\<lambda>x t. t = s \<and> (case x of (most, least, port, cost) \<Rightarrow>
       1 \<le> most \<and> most \<le> 20 \<and> port < 2 ^ 16 \<and> in_i128 least \<and> in_i128 cost)) (\<lambda>_ _. True) False s"
  unfolding numeric_settings_def
  by (rule wp_keep, rule wp_number, simp add: in_i128_def,
      rule wp_keep, rule wp_number, simp add: in_i128_def,
      rule wp_keep, rule wp_number, simp add: in_i128_def,
      rule wp_guard,
      rule wp_keep, rule wp_number, simp add: in_i128_def)
    (auto simp: wps)

lemma wp_chosen_registry: "wp (chosen_registry k n) (\<lambda>_ t. t = s \<and> True) (\<lambda>_ _. True) False s"
  by (simp add: chosen_registry_def registry_from_deployments_def wps split: option.split)

lemma wp_signing_key:
  "wp (signing_key k dry) (\<lambda>key t. t = s \<and> (\<not> dry \<longrightarrow> (\<exists>x. env_var s ''STELLAR_SECRET_KEY'' = Some x
     \<and> map_option (key_of_bytes k) (decode_private k (trim x)) = Some key))) (\<lambda>_ _. True) False s"
  by (auto simp: signing_key_def parse_secret_def filled_def wps split: option.split if_splits)

definition usable :: "'k strkeys \<Rightarrow> surroundings \<Rightarrow> string list \<Rightarrow> 'k bot_config \<Rightarrow> bool" where
  "usable k s argv c \<longleftrightarrow>
     1 \<le> batch_size c \<and> batch_size c \<le> 20 \<and> metrics_port c < 2 ^ 16 \<and> rpc_url c \<noteq> []
     \<and> in_i128 (min_profit c) \<and> in_i128 (max_cost_per_job c)
     \<and> (dry_run c \<longleftrightarrow> ''--dry-run'' \<in> set argv)
     \<and> (\<not> dry_run c \<longrightarrow> (\<exists>x. env_var s ''STELLAR_SECRET_KEY'' = Some x
          \<and> map_option (key_of_bytes k) (decode_private k (trim x)) = Some (keeper_key c)))
     \<and> (\<exists>url. network_defaults (bot_network c) = Inr (passphrase c, url))"

lemma wp_from_env:
  "wp (from_env k argv) (\<lambda>c t. t = s \<and> usable k s argv c) (\<lambda>_ _. True) False s"
proof -
  have read: "wp (gets g) (\<lambda>v t. t = s \<and> v = g s) (\<lambda>_ _. True) False s" for g :: "surroundings \<Rightarrow> 'b"
    by (simp add: wps)
  have pure: "wp (lift_result r) (\<lambda>v t. t = s \<and> r = Inr v) (\<lambda>_ _. True) False s" for r :: "string + 'c"
    by (cases r) (simp_all add: wps)
  show ?thesis
    unfolding from_env_def var_def nonempty_var_def Let_def split_beta
    by (rule wp_keep, rule read, rule wp_keep, rule pure, rule wp_keep, rule read, rule wp_guard,
        rule wp_keep, rule wp_chosen_registry, rule wp_keep, rule wp_signing_key,
        rule wp_keep, rule read, rule wp_keep, rule read, rule wp_keep, rule pure,
        rule wp_keep, rule wp_numeric_settings)
      (auto simp: wps usable_def)
qed

text \<open>
  C40. Whatever the environment, reading the configuration neither panics nor changes anything,
  and a configuration it accepts is usable: a batch has one to twenty jobs, the port fits,
  there is an RPC address, the passphrase belongs to the network, the limits are \<open>i128\<close>
  values, and anything but a dry run signs with the secret key that was given.
\<close>

theorem accepted_configurations_are_usable:
  "case from_env k argv s of
     (Ok c, t) \<Rightarrow> t = s \<and> usable k s argv c
   | (Err e, t) \<Rightarrow> True
   | (Trap, t) \<Rightarrow> False"
  using wp_from_env [of k argv s] by (simp add: wp_def)

end
