(* ===== verification/KeeperCalls.thy ===== *)
theory KeeperCalls
  imports KeeperText
begin

text \<open>
  The pure part of \<open>keeper-rs/src/registry.rs\<close>: describing simulation errors, refusing
  foreign authorizations, forming and splitting batches, and reading results. XDR values are
  the constructors the source names; \<open>stellar_strkey\<close> and \<open>Debug\<close> output are parameters.
\<close>

section \<open>XDR values\<close>

datatype sc_address = ScAccount bytes | ScContract bytes | ScOtherAddress nat

datatype scval =
    ScVoid
  | ScBool bool
  | ScU64 u64
  | ScI128 (i128_hi: "64 word") (i128_lo: u64)
  | ScSymbol symbol
  | ScAddress sc_address
  | ScVec "scval list option"
  | ScMap "(scval \<times> scval) list option"
  | ScOther nat

datatype authorized_function = ContractFn sc_address symbol "scval list" | DeployContract nat

datatype invocation = Invocation (invoked: authorized_function) (sub_invocations: "invocation list")

datatype credentials = SourceAccount | AddressCredentials nat

record auth_entry =
  auth_credentials :: credentials
  root_invocation :: invocation

section \<open>Error messages\<close>

definition ERRORS :: "string list" where
  "ERRORS =
     [''Paused'', ''JobNotFound'', ''InvalidInterval'', ''InvalidFee'', ''InvalidAmount'',
      ''ForbiddenTarget'', ''JobNotDue'', ''InsufficientJobBalance'', ''MaxRunsReached'',
      ''ResolverRejected'', ''KeeperNotFound'', ''InsufficientStake'', ''KeeperUnbonding'',
      ''UnbondingNotStarted'', ''UnbondingNotFinished'', ''ExecutorNotSet'', ''ExecutorAlreadySet'',
      ''NoPendingAdmin'', ''JobPaused'', ''JobExpired'', ''IntervalTooShort'', ''TooManyArgs'',
      ''TargetFailed'', ''InvalidBatchSize'', ''LengthMismatch'', ''KeeperNotAllowed'',
      ''NotAssignedKeeper'', ''TargetHalted'', ''InvalidCalendar'', ''InvalidSetting'',
      ''TooManyKeepers'', ''AwaitingDependency'', ''NoPendingUpgrade'', ''UpgradeNotReady'',
      ''NoPendingOwner'']"

definition describe_error :: "string \<Rightarrow> string" where
  "describe_error message =
     (case (case second_part ''Error(Contract, #'' message of
              None \<Rightarrow> None
            | Some rest \<Rightarrow> parse_below (2 ^ 64) (takeWhile (\<lambda>c. c \<noteq> CHR '')'') rest)) of
        Some c \<Rightarrow>
          if 1 \<le> c \<and> c \<le> length ERRORS then ERRORS ! (c - 1) @ '' (#'' @ show_nat c @ '')''
          else ''contract error #'' @ show_nat c
      | None \<Rightarrow> first_line message)"

section \<open>Authorizations\<close>

definition describe ::
  "(bytes \<Rightarrow> string) \<Rightarrow> (sc_address \<Rightarrow> string) \<Rightarrow> invocation \<Rightarrow> string" where
  "describe strkey debug x =
     (case invoked x of
        ContractFn a f xs \<Rightarrow>
          f @ '' on '' @ (case a of
            ScContract i \<Rightarrow> strkey i
          | ScAccount i \<Rightarrow> debug a
          | ScOtherAddress i \<Rightarrow> debug a)
      | DeployContract i \<Rightarrow> ''a contract deployment'')"

definition expected_call :: "bytes \<Rightarrow> symbol \<Rightarrow> authorized_function \<Rightarrow> bool" where
  "expected_call registry f x =
     (case x of
        ContractFn a g xs \<Rightarrow> a = ScContract registry \<and> g = f
      | DeployContract i \<Rightarrow> False)"

fun check_auth ::
  "(invocation \<Rightarrow> string) \<Rightarrow> auth_entry list \<Rightarrow> bytes \<Rightarrow> symbol \<Rightarrow> string + unit" where
  "check_auth name [] registry f = Inr ()"
| "check_auth name (x # xs) registry f =
     (if \<not> expected_call registry f (invoked (root_invocation x)) then
        Inl (''refusing to sign: the call would also authorize '' @ name (root_invocation x))
      else case sub_invocations (root_invocation x) of
        inner # _ \<Rightarrow>
          Inl (''refusing to sign: the call would also authorize '' @ name inner @ '' inside '' @ f)
      | [] \<Rightarrow> check_auth name xs registry f)"

section \<open>Batches\<close>

fun chunks :: "nat \<Rightarrow> 'a list \<Rightarrow> 'a list list" where
  "chunks n xs = (if n = 0 \<or> xs = [] then [] else take n xs # chunks n (drop n xs))"

declare chunks.simps [simp del]

definition batches :: "'a list \<Rightarrow> nat \<Rightarrow> 'a list list" where
  "batches ids per_batch = chunks (max 1 (min 20 per_batch)) ids"

definition halves :: "'a list \<Rightarrow> 'a list \<times> 'a list" where
  "halves ids = (take ((length ids + 1) div 2) ids, drop ((length ids + 1) div 2) ids)"

definition ran_flags :: "scval \<Rightarrow> nat \<Rightarrow> bool list" where
  "ran_flags v n =
     (let flags = (case v of
          ScVec (Some items) \<Rightarrow> map (\<lambda>x. x = ScBool True) items
        | _ \<Rightarrow> [])
      in map (\<lambda>i. if i < length flags then flags ! i else False) [0..<n])"

definition ran_jobs :: "u64 list \<Rightarrow> bool list \<Rightarrow> u64 list" where
  "ran_jobs ids flags = map fst (filter snd (zip ids flags))"

definition profitable :: "int \<Rightarrow> int \<Rightarrow> int \<Rightarrow> bool" where
  "profitable earned cost least = (least \<le> wrap_i128 (earned - cost))"

unbundle bit_operations_syntax

definition i128_of :: "scval \<Rightarrow> int option" where
  "i128_of v =
     (case v of
        ScI128 hi lo \<Rightarrow>
          Some (sint (push_bit 64 (scast hi :: 128 word) OR (ucast lo :: 128 word)))
      | _ \<Rightarrow> None)"

text \<open>What happened to one attempt.\<close>

datatype batch_outcome =
    BatchExecuted (ran_of: "u64 list") int string
  | BatchSimulated (ran_of: "u64 list")
  | BatchSkipped string
  | BatchUnprofitable (ran_of: "u64 list") int int
  | BatchJobProblem string

section \<open>Laws\<close>

text \<open>Batches: nothing lost, nothing repeated, in order, one to twenty jobs each.\<close>

lemma concat_chunks: "0 < n \<Longrightarrow> concat (chunks n xs) = xs"
  by (induction n xs rule: chunks.induct) (simp add: chunks.simps)

lemma chunk_sizes: "0 < n \<Longrightarrow> ys \<in> set (chunks n xs) \<Longrightarrow> ys \<noteq> [] \<and> length ys \<le> n"
proof (induction n xs rule: chunks.induct)
  case (1 n xs)
  show ?case
  proof (cases "xs = []")
    case True
    then show ?thesis using 1(3) by (simp add: chunks.simps)
  next
    case False
    then have "ys = take n xs \<or> ys \<in> set (chunks n (drop n xs))"
      using 1(2,3) by (subst (asm) chunks.simps) simp
    then show ?thesis using 1(1) False 1(2) by auto
  qed
qed

lemma full_chunks: "0 < n \<Longrightarrow> chunks n xs = yss @ [ys] \<Longrightarrow> zs \<in> set yss \<Longrightarrow> length zs = n"
proof (induction n xs arbitrary: yss rule: chunks.induct)
  case (1 n xs)
  have ne: "xs \<noteq> []" using 1(3) by (auto simp: chunks.simps)
  then have cs: "chunks n xs = take n xs # chunks n (drop n xs)" using 1(2) by (subst chunks.simps) simp
  show ?case
  proof (cases yss)
    case Nil
    then show ?thesis using 1(4) by simp
  next
    case (Cons y rest)
    then have y: "y = take n xs" "chunks n (drop n xs) = rest @ [ys]" using cs 1(3) by auto
    then have "drop n xs \<noteq> []" by (auto simp: chunks.simps)
    then have "length y = n" using y(1) by simp
    then show ?thesis using 1(1) [OF _ 1(2) y(2)] ne 1(2,4) Cons by auto
  qed
qed

lemma halves_append: "halves ids = (a, b) \<Longrightarrow> a @ b = ids"
  by (auto simp: halves_def)

lemma halves_lengths:
  "halves ids = (a, b) \<Longrightarrow> length b \<le> length a \<and> length a \<le> length b + 1"
  by (auto simp: halves_def)

lemma halves_nonempty: "1 < length ids \<Longrightarrow> halves ids = (a, b) \<Longrightarrow> a \<noteq> [] \<and> b \<noteq> []"
  by (auto simp: halves_def)

lemma length_ran_flags [simp]: "length (ran_flags v n) = n"
  by (simp add: ran_flags_def Let_def)

text \<open>A short or odd result never claims that a job ran.\<close>

lemma ran_flags_iff:
  "i < n \<Longrightarrow> ran_flags v n ! i \<longleftrightarrow>
     (\<exists>items. v = ScVec (Some items) \<and> i < length items \<and> items ! i = ScBool True)"
  by (cases v) (auto simp: ran_flags_def Let_def split: option.split)

lemma ran_jobs_subseq: "subseq (ran_jobs ids flags) ids"
proof (induction ids arbitrary: flags)
  case (Cons x ids)
  then show ?case by (cases flags) (auto simp: ran_jobs_def)
qed (simp add: ran_jobs_def)

lemma check_auth_ok_iff:
  "check_auth name entries registry f = Inr () \<longleftrightarrow>
     (\<forall>x \<in> set entries. \<exists>xs. root_invocation x = Invocation (ContractFn (ScContract registry) f xs) [])"
proof (induction entries)
  case (Cons x entries)
  show ?case
  proof (cases "root_invocation x")
    case (Invocation g inner)
    then show ?thesis using Cons
      by (cases g; cases inner) (auto simp: expected_call_def)
  qed
qed simp

section \<open>The error table\<close>

text \<open>The names of the registry's errors.\<close>

fun error_name :: "error \<Rightarrow> string" where
  "error_name Paused = ''Paused''"
| "error_name JobNotFound = ''JobNotFound''"
| "error_name InvalidInterval = ''InvalidInterval''"
| "error_name InvalidFee = ''InvalidFee''"
| "error_name InvalidAmount = ''InvalidAmount''"
| "error_name ForbiddenTarget = ''ForbiddenTarget''"
| "error_name JobNotDue = ''JobNotDue''"
| "error_name InsufficientJobBalance = ''InsufficientJobBalance''"
| "error_name MaxRunsReached = ''MaxRunsReached''"
| "error_name ResolverRejected = ''ResolverRejected''"
| "error_name KeeperNotFound = ''KeeperNotFound''"
| "error_name InsufficientStake = ''InsufficientStake''"
| "error_name KeeperUnbonding = ''KeeperUnbonding''"
| "error_name UnbondingNotStarted = ''UnbondingNotStarted''"
| "error_name UnbondingNotFinished = ''UnbondingNotFinished''"
| "error_name ExecutorNotSet = ''ExecutorNotSet''"
| "error_name ExecutorAlreadySet = ''ExecutorAlreadySet''"
| "error_name NoPendingAdmin = ''NoPendingAdmin''"
| "error_name JobPaused = ''JobPaused''"
| "error_name JobExpired = ''JobExpired''"
| "error_name IntervalTooShort = ''IntervalTooShort''"
| "error_name TooManyArgs = ''TooManyArgs''"
| "error_name TargetFailed = ''TargetFailed''"
| "error_name InvalidBatchSize = ''InvalidBatchSize''"
| "error_name LengthMismatch = ''LengthMismatch''"
| "error_name KeeperNotAllowed = ''KeeperNotAllowed''"
| "error_name NotAssignedKeeper = ''NotAssignedKeeper''"
| "error_name TargetHalted = ''TargetHalted''"
| "error_name InvalidCalendar = ''InvalidCalendar''"
| "error_name InvalidSetting = ''InvalidSetting''"
| "error_name TooManyKeepers = ''TooManyKeepers''"
| "error_name AwaitingDependency = ''AwaitingDependency''"
| "error_name NoPendingUpgrade = ''NoPendingUpgrade''"
| "error_name UpgradeNotReady = ''UpgradeNotReady''"
| "error_name NoPendingOwner = ''NoPendingOwner''"

lemma error_code_table: "1 \<le> error_code x \<and> error_code x \<le> length ERRORS \<and> ERRORS ! (error_code x - 1) = error_name x"
  by (cases x) (simp_all add: ERRORS_def)

lemma find_plain:
  assumes "\<And>c. c \<in> set s \<Longrightarrow> c \<noteq> hd p" and "p \<noteq> []"
  shows "find_text p (s @ t) = map_option (\<lambda>(a, b). (s @ a, b)) (find_text p t)"
  using assms(1)
proof (induction s)
  case Nil
  then show ?case by (simp add: option.map_ident_strong split_beta)
next
  case (Cons c s)
  have "\<not> prefix p (c # s @ t)" using Cons.prems [of c] assms(2) by (cases p) auto
  then show ?case using Cons by (simp add: option.map_comp comp_def split_beta)
qed

lemma show_nat_digits: "c \<in> set (show_nat n) \<Longrightarrow> c \<in> set DIGITS"
proof (induction n rule: show_nat.induct)
  case (1 n)
  have "length DIGITS = 10" by (simp add: DIGITS_def)
  then have "DIGITS ! i \<in> set DIGITS" if "i < 10" for i using that nth_mem [of i DIGITS] by simp
  then show ?case using 1 by (cases "n < 10") (auto simp: show_nat.simps [of n])
qed

text \<open>A message of the host that reports a contract error by its number.\<close>

definition contract_failure :: "nat \<Rightarrow> string \<Rightarrow> string" where
  "contract_failure n rest = ''HostError: Error(Contract, #'' @ show_nat n @ '')'' @ rest"

lemma describe_contract_failure:
  assumes "n < 2 ^ 64"
  shows "describe_error (contract_failure n rest) =
    (if 1 \<le> n \<and> n \<le> length ERRORS then ERRORS ! (n - 1) @ '' (#'' @ show_nat n @ '')''
     else ''contract error #'' @ show_nat n)"
proof -
  let ?p = "''Error(Contract, #''"
  let ?n = "show_nat n @ '')''"
  have plain: "c \<noteq> hd ?p \<and> (c \<noteq> CHR '')'' \<or> c \<in> set '')'')" if "c \<in> set ?n" for c
    using that show_nat_digits [of c n] by (auto simp: DIGITS_def)
  have digits: "c \<noteq> CHR '')''" if "c \<in> set (show_nat n)" for c
    using that show_nat_digits [of c n] by (auto simp: DIGITS_def)
  have tail: "find_text ?p (?n @ rest) = map_option (\<lambda>(a, b). (?n @ a, b)) (find_text ?p rest)"
    by (rule find_plain) (use plain in auto)
  have head: "find_text ?p (''HostError: Error(Contract, #'' @ t) = Some (''HostError: '', t)" for t
    by simp
  have "second_part ?p (''HostError: Error(Contract, #'' @ ?n @ rest) =
      Some (?n @ (case find_text ?p rest of None \<Rightarrow> rest | Some (a, b) \<Rightarrow> a))"
    by (cases "find_text ?p rest")
      (simp_all only: second_part_def head tail option.case option.map prod.case split_beta fst_conv snd_conv)
  moreover have "takeWhile (\<lambda>c. c \<noteq> CHR '')'') (?n @ t) = show_nat n" for t
    using digits by (simp add: takeWhile_append2)
  ultimately have "(case second_part ?p (''HostError: Error(Contract, #'' @ ?n @ rest) of
      None \<Rightarrow> None | Some r \<Rightarrow> parse_below (2 ^ 64) (takeWhile (\<lambda>c. c \<noteq> CHR '')'') r)) = Some n"
    by (simp only: option.case parse_show_nat [OF assms])
  moreover have "contract_failure n rest = ''HostError: Error(Contract, #'' @ ?n @ rest"
    by (simp add: contract_failure_def)
  ultimately show ?thesis unfolding describe_error_def by (simp only: option.case)
qed

text \<open>The codes are the numbers from 1 to 35, each of one error.\<close>

lemma error_codes: "range error_code = {1..35}"
proof -
  have "error_code ` set [Paused, JobNotFound, InvalidInterval, InvalidFee, InvalidAmount, ForbiddenTarget,
      JobNotDue, InsufficientJobBalance, MaxRunsReached, ResolverRejected, KeeperNotFound, InsufficientStake,
      KeeperUnbonding, UnbondingNotStarted, UnbondingNotFinished, ExecutorNotSet, ExecutorAlreadySet,
      NoPendingAdmin, JobPaused, JobExpired, IntervalTooShort, TooManyArgs, TargetFailed, InvalidBatchSize,
      LengthMismatch, KeeperNotAllowed, NotAssignedKeeper, TargetHalted, InvalidCalendar, InvalidSetting,
      TooManyKeepers, AwaitingDependency, NoPendingUpgrade, UpgradeNotReady, NoPendingOwner] = set [1..<36]"
    (is "error_code ` ?all = _")
    by (simp add: upt_conv_Cons del: One_nat_def)
  moreover have "set [1..<36] = {1..35 :: nat}" by auto
  moreover have "error_code x \<in> {1..35}" for x
    using error_code_table [of x] by (simp add: ERRORS_def)
  ultimately show ?thesis by blast
qed

lemma error_name_own: "error_name x @ u \<noteq> ''contract error #'' @ v"
  by (cases x) simp_all

text \<open>
  C39. The keeper names the registry's errors the way the contract does. When a simulation
  reports one of the contract's errors by its number, whatever text follows, the keeper reads the
  number back and describes the failure by the error's own name and number; and the numbers it
  has a name for are exactly the contract's codes, every other 64-bit number being described as an
  unknown contract error. So the keeper's table is the contract's, entry by entry and no longer.
\<close>

theorem errors_are_named_as_in_the_contract:
  "describe_error (contract_failure (error_code x) rest)
     = error_name x @ '' (#'' @ show_nat (error_code x) @ '')''
   \<and> (describe_error (contract_failure (unat (n :: u64)) rest) = ''contract error #'' @ show_nat (unat n))
     = (unat n \<notin> range error_code)"
proof -
  have len: "length ERRORS = 35" by (simp add: ERRORS_def)
  have "error_code y < 2 ^ 64" for y using error_code_table [of y] by (simp add: len)
  then have named: "describe_error (contract_failure (error_code y) rest)
      = error_name y @ '' (#'' @ show_nat (error_code y) @ '')''" for y
    using error_code_table [of y] by (simp add: describe_contract_failure)
  show ?thesis
  proof (cases "unat n \<in> range error_code")
    case True
    then obtain y where "unat n = error_code y" by blast
    then show ?thesis using named error_name_own by simp
  next
    case False
    then have "\<not> (1 \<le> unat n \<and> unat n \<le> length ERRORS)" by (simp add: error_codes len)
    moreover have "unat n < 2 ^ 64" using unat_lt_two_power [of n] by simp
    ultimately show ?thesis using False named by (simp only: describe_contract_failure) simp
  qed
qed

section \<open>Amounts\<close>

text \<open>XDR splits an \<open>i128\<close> into a signed high and an unsigned low half.\<close>

definition parts_of :: "int \<Rightarrow> scval" where
  "parts_of n = ScI128 (word_of_int (n div 2 ^ 64)) (word_of_int n)"

text \<open>Reading an amount back from its two halves gives the amount, for every \<open>i128\<close>.\<close>

theorem amounts_survive_the_wire:
  assumes "in_i128 n"
  shows "i128_of (parts_of n) = Some n"
proof -
  have "push_bit 64 (scast (word_of_int (n div 2 ^ 64) :: 64 word)) OR ucast (word_of_int n :: u64)
      = (word_of_int n :: 128 word)"
    unfolding drop_bit_eq_div [symmetric]
    by (rule bit_word_eqI) (auto simp: bit_simps not_le not_less)
  moreover have "sint (word_of_int n :: 128 word) = n"
    using assms by (simp add: sint_sbintrunc' signed_take_bit_int_eq_self in_i128_def)
  ultimately show ?thesis by (simp add: i128_of_def parts_of_def)
qed

theorem amounts_survive_the_wire_witness: "i128_of (parts_of (- 5)) = Some (- 5)"
  by (rule amounts_survive_the_wire) (simp add: in_i128_def)

section \<open>Batches\<close>

text \<open>
  Batching loses nothing: the batches, put together, are the due jobs in order; each has at
  least one job and at most the configured number, which is cut to the registry's limit, and all
  but the last are full; and halving a batch keeps its jobs in order, in two parts that differ by
  at most one.
\<close>

lemma batches_and_halves_partition:
  "concat (batches ids n) = ids"
  "b \<in> set (batches ids n) \<Longrightarrow> b \<noteq> [] \<and> length b \<le> max 1 (min 20 n)"
  "batches ids n = bs @ [c] \<Longrightarrow> b \<in> set bs \<Longrightarrow> length b = max 1 (min 20 n)"
  "fst (halves ids) @ snd (halves ids) = ids"
  "length (snd (halves ids)) \<le> length (fst (halves ids))
   \<and> length (fst (halves ids)) \<le> length (snd (halves ids)) + 1"
proof -
  have pos: "0 < max 1 (min 20 n)" by simp
  show "concat (batches ids n) = ids"
    "b \<in> set (batches ids n) \<Longrightarrow> b \<noteq> [] \<and> length b \<le> max 1 (min 20 n)"
    "batches ids n = bs @ [c] \<Longrightarrow> b \<in> set bs \<Longrightarrow> length b = max 1 (min 20 n)"
    "fst (halves ids) @ snd (halves ids) = ids"
    "length (snd (halves ids)) \<le> length (fst (halves ids))
     \<and> length (fst (halves ids)) \<le> length (snd (halves ids)) + 1"
    unfolding batches_def
    by (rule concat_chunks [OF pos], erule chunk_sizes [OF pos], erule full_chunks [OF pos], assumption,
      use halves_append [of ids] halves_lengths [of ids] in \<open>auto simp: prod_eq_iff\<close>)
qed

end
