(* ===== verification/KeeperTx.thy ===== *)
theory KeeperTx
  imports KeeperCalls KeeperConfig
begin

text \<open>
  \<open>keeper-rs/src/tx.rs\<close> and the methods of \<open>Registry\<close> in \<open>keeper-rs/src/registry.rs\<close>: a call
  is built, simulated, checked, assembled, signed and sent. Cryptography, XDR hashing and the
  RPC server are parameters; the state keeps what the server knows and every envelope that
  was sent.
\<close>

section \<open>Transactions\<close>

type_synonym i64 = "64 word"

text \<open>\<open>SorobanTransactionData\<close>, as the server returned it.\<close>

type_synonym soroban_data = bytes

datatype operation_body =
    InvokeHostFunction (callee: sc_address) (called: symbol) (call_args: "scval list") (op_auth: "auth_entry list")
  | OtherOperation nat

record operation =
  op_source :: "bytes option"
  op_body :: operation_body

datatype preconditions = PrecondNone | OtherPreconditions nat

datatype memo = MemoNone | OtherMemo nat

record transaction =
  tx_source :: bytes
  tx_fee :: u32
  seq_num :: i64
  tx_cond :: preconditions
  tx_memo :: memo
  tx_operations :: "operation list"
  tx_ext :: "soroban_data option"

record envelope =
  env_tx :: transaction
  signatures :: "(bytes \<times> bytes) list"

text \<open>Errors of the libraries, and the bot's own messages.\<close>

datatype tx_error = LibraryError nat | Message string

record 'k crypto =
  public_key :: "'k \<Rightarrow> bytes"
  sign_bytes :: "'k \<Rightarrow> bytes \<Rightarrow> bytes"
  sha256 :: "bytes \<Rightarrow> bytes"
  hash_envelope :: "envelope \<Rightarrow> bytes \<Rightarrow> tx_error + bytes"
  native_preimage :: "bytes \<Rightarrow> bytes"
  account_strkey :: "bytes \<Rightarrow> string"
  contract_strkey :: "bytes \<Rightarrow> string"
  debug_address :: "sc_address \<Rightarrow> string"
  debug_value :: "scval \<Rightarrow> string"

text \<open>A bounded vector or string of XDR: too long a list does not convert.\<close>

definition within :: "nat \<Rightarrow> 'a list \<Rightarrow> ('s, tx_error, 'a list) act" where
  "within n xs = (if length xs \<le> n then ok xs else err (LibraryError 0))"

definition account_address :: "'k crypto \<Rightarrow> 'k \<Rightarrow> scval" where
  "account_address c key = ScAddress (ScAccount (public_key c key))"

definition tx_invoke ::
  "'k crypto \<Rightarrow> 'k \<Rightarrow> i64 \<Rightarrow> bytes \<Rightarrow> symbol \<Rightarrow> scval list \<Rightarrow> u32 \<Rightarrow> ('s, tx_error, transaction) act" where
  "tx_invoke c source sequence contract f xs fee =
     bind (within 32 f) (\<lambda>f.
     bind (within (2 ^ 32 - 1) xs) (\<lambda>xs.
     ok \<lparr>tx_source = public_key c source, tx_fee = fee, seq_num = sequence,
         tx_cond = PrecondNone, tx_memo = MemoNone,
         tx_operations = [\<lparr>op_source = None, op_body = InvokeHostFunction (ScContract contract) f xs []\<rparr>],
         tx_ext = None\<rparr>))"

text \<open>Only a host-function call that comes first takes the authorizations.\<close>

definition authorize :: "auth_entry list \<Rightarrow> operation \<Rightarrow> operation" where
  "authorize entries op =
     (case op_body op of
        InvokeHostFunction a f xs _ \<Rightarrow> op\<lparr>op_body := InvokeHostFunction a f xs entries\<rparr>
      | OtherOperation i \<Rightarrow> op)"

fun authorize_first :: "auth_entry list \<Rightarrow> operation list \<Rightarrow> operation list" where
  "authorize_first entries [] = []"
| "authorize_first entries (op # ops) = authorize entries op # ops"

definition tx_assemble ::
  "transaction \<Rightarrow> soroban_data \<Rightarrow> auth_entry list \<Rightarrow> u64 \<Rightarrow> ('s, tx_error, transaction) act" where
  "tx_assemble tx data entries min_fee =
     andthen (fail_if (2 ^ 32 \<le> unat min_fee) (LibraryError 1))
     (bind (ok_or (checked_add (tx_fee tx) (ucast min_fee)) (Message ''fee overflow'')) (\<lambda>fee.
     bind (within (2 ^ 32 - 1) entries) (\<lambda>entries.
     bind (within 100 (authorize_first entries (tx_operations tx))) (\<lambda>ops.
     ok (tx\<lparr>tx_fee := fee, tx_ext := Some data, tx_operations := ops\<rparr>)))))"

definition text_bytes :: "string \<Rightarrow> bytes" where
  "text_bytes x = map of_char x"

definition network_id :: "'k crypto \<Rightarrow> string \<Rightarrow> bytes" where
  "network_id c pass = sha256 c (text_bytes pass)"

definition unsigned_envelope :: "transaction \<Rightarrow> envelope" where
  "unsigned_envelope tx = \<lparr>env_tx = tx, signatures = []\<rparr>"

definition tx_sign :: "'k crypto \<Rightarrow> transaction \<Rightarrow> 'k \<Rightarrow> string \<Rightarrow> ('s, tx_error, envelope) act" where
  "tx_sign c tx key pass =
     bind (lift_result (hash_envelope c (unsigned_envelope tx) (network_id c pass))) (\<lambda>hash.
     bind (within 64 (sign_bytes c key hash)) (\<lambda>signature.
     let public = public_key c key in
     ok \<lparr>env_tx = tx,
         signatures = [([public ! 28, public ! 29, public ! 30, public ! 31], signature)]\<rparr>))"

definition hex_digit :: "nat \<Rightarrow> char" where
  "hex_digit n = ''0123456789abcdef'' ! n"

definition hex_byte :: "u8 \<Rightarrow> string" where
  "hex_byte b = [hex_digit (unat b div 16), hex_digit (unat b mod 16)]"

definition hex_hash :: "'k crypto \<Rightarrow> envelope \<Rightarrow> string \<Rightarrow> ('s, tx_error, string) act" where
  "hex_hash c e pass =
     bind (lift_result (hash_envelope c e (network_id c pass))) (\<lambda>hash.
     ok (concat (map hex_byte hash)))"

definition native_token_id :: "'k crypto \<Rightarrow> string \<Rightarrow> bytes" where
  "native_token_id c pass = sha256 c (native_preimage c (network_id c pass))"

section \<open>The RPC server\<close>

record simulation =
  sim_error :: "string option"
  sim_results :: "tx_error + (scval \<times> auth_entry list) list"
  sim_data :: "tx_error + soroban_data"
  min_resource_fee :: u64

text \<open>
  \<open>stellar_rpc_client::Client\<close>: an account's sequence number, a simulation, and the final
  status of a transaction, each with what the server is afterwards.
\<close>

record 'w rpc_client =
  get_account :: "string \<Rightarrow> 'w \<Rightarrow> (tx_error + i64) \<times> 'w"
  simulate_envelope :: "envelope \<Rightarrow> 'w \<Rightarrow> (tx_error + simulation) \<times> 'w"
  send_polling :: "envelope \<Rightarrow> 'w \<Rightarrow> (tx_error + string) \<times> 'w"

record 'w wire =
  net :: 'w
  sent :: "envelope list"

record ('k, 'w) bot_registry =
  bot_rpc :: "'w rpc_client"
  bot_conf :: "'k bot_config"
  bot_crypto :: "'k crypto"

type_synonym ('w, 'a) calling = "('w wire, tx_error, 'a) act"

definition ask :: "('w \<Rightarrow> (tx_error + 'a) \<times> 'w) \<Rightarrow> ('w, 'a) calling" where
  "ask f s = (case f (net s) of (r, n) \<Rightarrow> lift_result r (s\<lparr>net := n\<rparr>))"

definition keeper_address :: "('k, 'w) bot_registry \<Rightarrow> string" where
  "keeper_address r = account_strkey (bot_crypto r) (public_key (bot_crypto r) (keeper_key (bot_conf r)))"

definition next_sequence :: "('k, 'w) bot_registry \<Rightarrow> ('w, i64) calling" where
  "next_sequence r =
     bind (attempt (ask (get_account (bot_rpc r) (keeper_address r)))) (\<lambda>a.
     case a of Inr n \<Rightarrow> ok (n + 1) | Inl e \<Rightarrow> ok 0)"

definition first_result :: "(scval \<times> auth_entry list) list \<Rightarrow> scval \<times> auth_entry list" where
  "first_result rs = (case rs of [] \<Rightarrow> (ScVoid, []) | r # _ \<Rightarrow> r)"

definition bot_simulate ::
  "('k, 'w) bot_registry \<Rightarrow> symbol \<Rightarrow> scval list \<Rightarrow>
    ('w, string + transaction \<times> simulation \<times> scval) calling" where
  "bot_simulate r f xs =
     bind (next_sequence r) (\<lambda>sequence.
     bind (tx_invoke (bot_crypto r) (keeper_key (bot_conf r)) sequence (registry_id (bot_conf r)) f xs
       (inclusion_fee (bot_conf r))) (\<lambda>tx.
     bind (ask (simulate_envelope (bot_rpc r) (unsigned_envelope tx))) (\<lambda>sim.
     case sim_error sim of
       Some e \<Rightarrow> ok (Inl (describe_error e))
     | None \<Rightarrow>
         bind (lift_result (sim_results sim)) (\<lambda>rs.
         ok (Inr (tx, sim, fst (first_result rs)))))))"

section \<open>Reads\<close>

definition bot_job_count :: "('k, 'w) bot_registry \<Rightarrow> ('w, u64) calling" where
  "bot_job_count r =
     bind (bot_simulate r ''job_count'' []) (\<lambda>x.
     case x of
       Inl e \<Rightarrow> err (Message e)
     | Inr (_, _, v) \<Rightarrow>
         (case v of
            ScU64 n \<Rightarrow> ok n
          | _ \<Rightarrow> err (Message (''job_count returned '' @ debug_value (bot_crypto r) v))))"

definition bot_is_due :: "('k, 'w) bot_registry \<Rightarrow> u64 \<Rightarrow> ('w, bool) calling" where
  "bot_is_due r i =
     bind (bot_simulate r ''is_due'' [ScU64 i]) (\<lambda>x.
     ok (case x of Inl e \<Rightarrow> False | Inr (_, _, v) \<Rightarrow> v = ScBool True))"

definition bot_current_fee :: "('k, 'w) bot_registry \<Rightarrow> u64 \<Rightarrow> ('w, int) calling" where
  "bot_current_fee r i =
     bind (bot_simulate r ''current_fee'' [ScU64 i]) (\<lambda>x.
     ok (case x of
           Inl e \<Rightarrow> 0
         | Inr (_, _, v) \<Rightarrow> (case i128_of v of None \<Rightarrow> 0 | Some n \<Rightarrow> n)))"

definition fee_is_native :: "('k, 'w) bot_registry \<Rightarrow> ('w, bool) calling" where
  "fee_is_native r =
     bind (bot_simulate r ''config'' []) (\<lambda>x.
     case x of
       Inl e \<Rightarrow> err (Message e)
     | Inr (_, _, v) \<Rightarrow>
         ok (case v of
               ScMap (Some entries) \<Rightarrow>
                 list_ex (\<lambda>(k, w). k = ScSymbol ''fee_token''
                   \<and> w = ScAddress (ScContract (native_token_id (bot_crypto r) (passphrase (bot_conf r))))) entries
             | _ \<Rightarrow> False))"

section \<open>Sending a batch\<close>

definition bot_submit :: "('k, 'w) bot_registry \<Rightarrow> envelope \<Rightarrow> string \<Rightarrow> ('w, string) calling" where
  "bot_submit r e hash =
     andthen (modify (\<lambda>s. s\<lparr>sent := sent s @ [e]\<rparr>))
     (bind (ask (send_polling (bot_rpc r) e)) (\<lambda>status.
     andthen (fail_if (status \<noteq> ''SUCCESS'')
       (Message (''transaction '' @ hash @ '' finished with status '' @ status)))
     (ok hash)))"

definition bot_send :: "('k, 'w) bot_registry \<Rightarrow> transaction \<Rightarrow> simulation \<Rightarrow> ('w, string) calling" where
  "bot_send r tx sim =
     bind (lift_result (sim_results sim)) (\<lambda>rs.
     bind (lift_result (sim_data sim)) (\<lambda>data.
     bind (tx_assemble tx data (snd (first_result rs)) (min_resource_fee sim)) (\<lambda>tx.
     bind (tx_sign (bot_crypto r) tx (keeper_key (bot_conf r)) (passphrase (bot_conf r))) (\<lambda>e.
     bind (hex_hash (bot_crypto r) e (passphrase (bot_conf r))) (\<lambda>hash.
     bot_submit r e hash)))))"

fun total_fees :: "('k, 'w) bot_registry \<Rightarrow> int \<Rightarrow> u64 list \<Rightarrow> ('w, int) calling" where
  "total_fees r earned [] = ok earned"
| "total_fees r earned (i # ids) =
     bind (bot_current_fee r i) (\<lambda>fee. total_fees r (wrap_i128 (earned + fee)) ids)"

definition too_costly :: "bool \<Rightarrow> int \<Rightarrow> int \<Rightarrow> nat \<Rightarrow> bool" where
  "too_costly native most cost n \<longleftrightarrow> \<not> native \<and> 0 < most \<and> wrap_i128 (most * int n) < cost"

text \<open>The part of \<open>execute_batch\<close> after the runnable jobs are known: does sending them pay?\<close>

definition bot_decide ::
  "('k, 'w) bot_registry \<Rightarrow> transaction \<Rightarrow> simulation \<Rightarrow> bool \<Rightarrow> u64 list \<Rightarrow> ('w, batch_outcome) calling" where
  "bot_decide r tx sim native run =
     bind (total_fees r 0 run) (\<lambda>earned.
     let cost = uint (min_resource_fee sim) + uint (inclusion_fee (bot_conf r)) in
     if too_costly native (max_cost_per_job (bot_conf r)) cost (length run)
        \<or> native \<and> \<not> profitable earned cost (min_profit (bot_conf r))
     then ok (BatchUnprofitable run earned cost)
     else if dry_run (bot_conf r) then ok (BatchSimulated run)
     else bind (bot_send r tx sim) (\<lambda>hash. ok (BatchExecuted run earned hash)))"

definition bot_execute_batch ::
  "('k, 'w) bot_registry \<Rightarrow> u64 list \<Rightarrow> bool \<Rightarrow> ('w, batch_outcome) calling" where
  "bot_execute_batch r ids native =
     bind (within (2 ^ 32 - 1) (map ScU64 ids)) (\<lambda>xs.
     bind (bot_simulate r ''execute_batch''
       [account_address (bot_crypto r) (keeper_key (bot_conf r)), ScVec (Some xs)]) (\<lambda>x.
     case x of
       Inl reason \<Rightarrow>
         ok (if CHR ''#'' \<in> set reason then BatchSkipped reason else BatchJobProblem reason)
     | Inr (tx, sim, v) \<Rightarrow>
         bind (lift_result (sim_results sim)) (\<lambda>rs.
         case check_auth (describe (contract_strkey (bot_crypto r)) (debug_address (bot_crypto r)))
             (snd (first_result rs)) (registry_id (bot_conf r)) ''execute_batch'' of
           Inl reason \<Rightarrow> ok (BatchJobProblem reason)
         | Inr _ \<Rightarrow>
             let run = ran_jobs ids (ran_flags v (length ids)) in
             if run = [] then ok (BatchSkipped ''nothing would run'')
             else bot_decide r tx sim native run)))"

section \<open>What is sent\<close>

lemma wp_within [wps]: "wp (within n xs) Q E T s = (if length xs \<le> n then Q xs s else E (LibraryError 0) s)"
  by (simp add: within_def wps)

lemma wp_ask:
  "(\<And>r n. f (net s) = (r, n) \<Longrightarrow>
      (case r of Inl e \<Rightarrow> E e (s\<lparr>net := n\<rparr>) | Inr x \<Rightarrow> Q x (s\<lparr>net := n\<rparr>))) \<Longrightarrow> wp (ask f) Q E T s"
  by (cases "f (net s)") (auto simp: wp_def ask_def lift_result_def ok_def err_def split: sum.split)

text \<open>A step that sends nothing.\<close>

abbreviation quiet :: "('w, 'a) calling \<Rightarrow> ('a \<Rightarrow> bool) \<Rightarrow> 'w wire \<Rightarrow> bool" where
  "quiet m P s \<equiv> wp m (\<lambda>x t. sent t = sent s \<and> P x) (\<lambda>_ t. sent t = sent s) False s"

lemma quiet_ask: "quiet (ask f) (\<lambda>_. True) s"
  by (rule wp_ask) (simp split: sum.split)

lemma quiet_bind:
  "quiet m P s \<Longrightarrow> (\<And>x t. P x \<Longrightarrow> sent t = sent s \<Longrightarrow> quiet (f x) R t) \<Longrightarrow> quiet (bind m f) R s"
  unfolding wp_bind by (erule wp_mono) auto

lemma quiet_here: "wp m (\<lambda>x t. t = s \<and> P x) (\<lambda>_ t. t = s) False s \<Longrightarrow> quiet m P s"
  by (erule wp_mono) auto

lemma quiet_mono: "quiet m P s \<Longrightarrow> (\<And>x. P x \<Longrightarrow> R x) \<Longrightarrow> quiet m R s"
  by (erule wp_mono) auto

definition call_of :: "('k, 'w) bot_registry \<Rightarrow> symbol \<Rightarrow> scval list \<Rightarrow> auth_entry list \<Rightarrow> operation" where
  "call_of r f xs entries =
     \<lparr>op_source = None, op_body = InvokeHostFunction (ScContract (registry_id (bot_conf r))) f xs entries\<rparr>"

definition calls :: "('k, 'w) bot_registry \<Rightarrow> symbol \<Rightarrow> scval list \<Rightarrow> auth_entry list \<Rightarrow> transaction \<Rightarrow> bool" where
  "calls r f xs entries tx \<longleftrightarrow>
     tx_source tx = public_key (bot_crypto r) (keeper_key (bot_conf r))
     \<and> tx_operations tx = [call_of r f xs entries]"

lemma quiet_next_sequence: "quiet (next_sequence r) (\<lambda>_. True) s"
  unfolding next_sequence_def wp_bind wp_attempt
  by (rule wp_ask) (simp add: wps split: sum.split)

lemma quiet_simulate:
  "quiet (bot_simulate r f xs)
     (\<lambda>x. case x of Inl e \<Rightarrow> True | Inr (tx, sim, v) \<Rightarrow>
        calls r f xs [] tx \<and> tx_fee tx = inclusion_fee (bot_conf r)) s"
  unfolding bot_simulate_def
proof (rule quiet_bind [OF quiet_next_sequence])
  fix n and t :: "'a wire"
  let ?invoke = "tx_invoke (bot_crypto r) (keeper_key (bot_conf r)) n (registry_id (bot_conf r)) f xs
       (inclusion_fee (bot_conf r)) :: ('a, transaction) calling"
  have "quiet ?invoke (\<lambda>tx. calls r f xs [] tx \<and> tx_fee tx = inclusion_fee (bot_conf r)) t"
    by (simp add: tx_invoke_def calls_def call_of_def wps)
  then show "quiet (bind ?invoke (\<lambda>tx. bind (ask (simulate_envelope (bot_rpc r) (unsigned_envelope tx))) (\<lambda>sim.
     case sim_error sim of
       Some e \<Rightarrow> ok (Inl (describe_error e))
     | None \<Rightarrow> bind (lift_result (sim_results sim)) (\<lambda>rs. ok (Inr (tx, sim, fst (first_result rs)))))))
     (\<lambda>x. case x of Inl e \<Rightarrow> True | Inr (tx, sim, v) \<Rightarrow>
        calls r f xs [] tx \<and> tx_fee tx = inclusion_fee (bot_conf r)) t"
    by (rule quiet_bind) (rule quiet_bind [OF quiet_ask], simp add: wps split: option.split sum.split)
qed

lemma quiet_read: "(\<And>x t. quiet (f x) (\<lambda>_. True) t) \<Longrightarrow> quiet (bind (bot_simulate r g xs) f) (\<lambda>_. True) s"
  by (rule quiet_bind [OF quiet_simulate])

lemma quiet_reads:
  "quiet (bot_job_count r) (\<lambda>_. True) s"
  "quiet (bot_is_due r i) (\<lambda>_. True) s"
  "quiet (bot_current_fee r i) (\<lambda>_. True) s"
  "quiet (fee_is_native r) (\<lambda>_. True) s"
  unfolding bot_job_count_def bot_is_due_def bot_current_fee_def fee_is_native_def
  by (rule quiet_read, simp add: wps split: sum.split scval.split)+

lemma quiet_total_fees: "quiet (total_fees r earned ids) (\<lambda>_. True) s"
proof (induction ids arbitrary: earned s)
  case (Cons i ids)
  show ?case unfolding total_fees.simps by (rule quiet_bind [OF quiet_reads(3)]) (rule Cons.IH)
qed (simp add: wps)

text \<open>A signed call: its operation, its signature, and the fee it bids.\<close>

definition signed_call ::
  "('k, 'w) bot_registry \<Rightarrow> symbol \<Rightarrow> scval list \<Rightarrow> auth_entry list \<Rightarrow> int \<Rightarrow> envelope \<Rightarrow> bool" where
  "signed_call r f xs entries cost e \<longleftrightarrow>
     calls r f xs entries (env_tx e) \<and> uint (tx_fee (env_tx e)) = cost
     \<and> (\<exists>hash. hash_envelope (bot_crypto r) (unsigned_envelope (env_tx e))
            (network_id (bot_crypto r) (passphrase (bot_conf r))) = Inr hash
          \<and> map snd (signatures e) = [sign_bytes (bot_crypto r) (keeper_key (bot_conf r)) hash])"

lemma wp_assemble:
  assumes "calls r f xs [] tx"
  shows "wp (tx_assemble tx data entries fee) (\<lambda>tx' t. t = s \<and> calls r f xs entries tx'
      \<and> uint (tx_fee tx') = uint (tx_fee tx) + uint fee) (\<lambda>_ t. t = s) False s"
proof -
  have "uint (a + ucast fee) = uint a + uint fee"
    if "unat fee < 4294967296" "unat a + unat (ucast fee :: u32) < 4294967296" for a :: u32
  proof -
    have "unat (ucast fee :: u32) = unat fee"
      using that(1) by (simp add: unsigned_ucast_eq take_bit_nat_eq_self)
    then have "unat (a + ucast fee) = unat a + unat fee"
      using that(2) by (simp add: unat_word_ariths)
    then show ?thesis by (metis of_nat_add uint_nat)
  qed
  then show ?thesis
    using assms by (auto simp: tx_assemble_def calls_def call_of_def authorize_def checked_add_def wps)
qed

lemma wp_sign:
  assumes "calls r f xs entries tx" and "uint (tx_fee tx) = cost"
  shows "wp (tx_sign (bot_crypto r) tx (keeper_key (bot_conf r)) (passphrase (bot_conf r)))
      (\<lambda>e t. t = s \<and> signed_call r f xs entries cost e) (\<lambda>_ t. t = s) False s"
  using assms by (simp add: tx_sign_def signed_call_def Let_def wps split: sum.split)

lemma wp_stay: "wp m (\<lambda>x t. t = s \<and> P x) (\<lambda>_ t. t = s) False s \<Longrightarrow>
  (\<And>x. P x \<Longrightarrow> wp (f x) Q E False s) \<Longrightarrow> (\<And>e. E e s) \<Longrightarrow> wp (bind m f) Q E False s"
  unfolding wp_bind by (erule wp_mono) auto

text \<open>Sending: one envelope, and none when an error came before.\<close>

lemma wp_bot_send:
  assumes tx: "calls r f xs [] tx" "tx_fee tx = inclusion_fee (bot_conf r)" and sim: "sim_results sim = Inr rs"
  defines "good \<equiv> signed_call r f xs (snd (first_result rs))
      (uint (min_resource_fee sim) + uint (inclusion_fee (bot_conf r)))"
  shows "wp (bot_send r tx sim) (\<lambda>_ t. \<exists>e. sent t = sent s @ [e] \<and> good e)
      (\<lambda>_ t. sent t = sent s \<or> (\<exists>e. sent t = sent s @ [e] \<and> good e)) False s"
proof -
  have pure: "wp (lift_result x) (\<lambda>v t. t = s \<and> x = Inr v) (\<lambda>_ t. t = s) False s"
    for x :: "tx_error + 'c" and s :: "'b wire"
    by (cases x) (simp_all add: wps)
  have tail: "wp (bot_submit r e hash) (\<lambda>_ t. \<exists>e. sent t = sent s @ [e] \<and> good e)
      (\<lambda>_ t. sent t = sent s \<or> (\<exists>e. sent t = sent s @ [e] \<and> good e)) False s" if "good e" for e hash
    unfolding bot_submit_def wp_andthen wp_modify wp_bind
    by (rule wp_ask) (use that in \<open>simp add: wps split: sum.split\<close>)
  have hash: "wp (hex_hash (bot_crypto r) e (passphrase (bot_conf r))) (\<lambda>_ t. t = s \<and> True) (\<lambda>_ t. t = s) False s"
    for e :: envelope and s :: "'b wire"
    by (simp add: hex_hash_def wps split: sum.split)
  show ?thesis
    unfolding bot_send_def sim
    by (rule wp_stay, rule pure, rule wp_stay, rule pure, rule wp_stay, rule wp_assemble [OF tx(1)],
        rule wp_stay, rule wp_sign, blast, blast, rule wp_stay, rule hash, rule tail)
      (auto simp: good_def tx(2) add.commute)
qed

section \<open>What a batch does\<close>

definition batch_args :: "('k, 'w) bot_registry \<Rightarrow> u64 list \<Rightarrow> scval list" where
  "batch_args r ids =
     [account_address (bot_crypto r) (keeper_key (bot_conf r)), ScVec (Some (map ScU64 ids))]"

text \<open>
  An envelope that does nothing but \<open>execute_batch\<close> on the registry: one operation, signed by
  the keeper, with no authorization beyond the call itself.
\<close>

definition only_the_batch :: "('k, 'w) bot_registry \<Rightarrow> u64 list \<Rightarrow> int \<Rightarrow> envelope \<Rightarrow> bool" where
  "only_the_batch r ids cost e \<longleftrightarrow>
     (\<exists>entries. signed_call r ''execute_batch'' (batch_args r ids) entries cost e
        \<and> (\<forall>x \<in> set entries. \<exists>xs. root_invocation x
              = Invocation (ContractFn (ScContract (registry_id (bot_conf r))) ''execute_batch'' xs) []))"

text \<open>The keeper's limits, as the code computes them.\<close>

definition pays :: "('k, 'w) bot_registry \<Rightarrow> bool \<Rightarrow> nat \<Rightarrow> int \<Rightarrow> int \<Rightarrow> bool" where
  "pays r native n earned cost \<longleftrightarrow>
     \<not> too_costly native (max_cost_per_job (bot_conf r)) cost n
     \<and> (native \<longrightarrow> profitable earned cost (min_profit (bot_conf r)))"

definition sent_one :: "('k, 'w) bot_registry \<Rightarrow> u64 list \<Rightarrow> bool \<Rightarrow> 'w wire \<Rightarrow> 'w wire \<Rightarrow>
    u64 list \<Rightarrow> int \<Rightarrow> bool" where
  "sent_one r ids native s t run earned \<longleftrightarrow>
     \<not> dry_run (bot_conf r) \<and> run \<noteq> [] \<and> subseq run ids
     \<and> (\<exists>e cost. sent t = sent s @ [e] \<and> only_the_batch r ids cost e
          \<and> pays r native (length run) earned cost)"

definition batch_kept :: "('k, 'w) bot_registry \<Rightarrow> u64 list \<Rightarrow> bool \<Rightarrow> 'w wire \<Rightarrow>
    batch_outcome \<Rightarrow> 'w wire \<Rightarrow> bool" where
  "batch_kept r ids native s x t \<longleftrightarrow>
     (case x of
        BatchExecuted run earned hash \<Rightarrow> sent_one r ids native s t run earned
      | BatchSimulated run \<Rightarrow> sent t = sent s \<and> run \<noteq> [] \<and> subseq run ids
      | BatchUnprofitable run earned cost \<Rightarrow> sent t = sent s \<and> run \<noteq> [] \<and> subseq run ids
      | BatchSkipped reason \<Rightarrow> sent t = sent s
      | BatchJobProblem reason \<Rightarrow> sent t = sent s)"

definition batch_failed :: "('k, 'w) bot_registry \<Rightarrow> u64 list \<Rightarrow> bool \<Rightarrow> 'w wire \<Rightarrow> 'w wire \<Rightarrow> bool" where
  "batch_failed r ids native s t \<longleftrightarrow>
     sent t = sent s \<or> (\<exists>run earned. sent_one r ids native s t run earned)"

lemma quiet_then:
  fixes s :: "'w wire"
  assumes "quiet m P s" and "\<And>x t. P x \<Longrightarrow> sent t = sent s \<Longrightarrow>
     wp (f x) (\<lambda>y. batch_kept r ids native t y) (\<lambda>_. batch_failed r ids native t) False t"
  shows "wp (bind m f) (\<lambda>y. batch_kept r ids native s y) (\<lambda>_. batch_failed r ids native s) False s"
  unfolding wp_bind
proof (rule wp_mono [OF assms(1)])
  fix x and t :: "'w wire"
  assume x: "sent t = sent s \<and> P x"
  then have "batch_kept r ids native t = batch_kept r ids native s"
    "batch_failed r ids native t = batch_failed r ids native s"
    by (simp_all add: batch_kept_def batch_failed_def sent_one_def fun_eq_iff cong: batch_outcome.case_cong)
  then show "wp (f x) (\<lambda>y. batch_kept r ids native s y) (\<lambda>_. batch_failed r ids native s) False t"
    using assms(2) [of x t] x by simp
qed (simp_all add: batch_failed_def)

lemma wp_bot_decide:
  assumes "calls r ''execute_batch'' (batch_args r ids) [] tx" "tx_fee tx = inclusion_fee (bot_conf r)"
    and "sim_results sim = Inr rs"
    and "check_auth name (snd (first_result rs)) (registry_id (bot_conf r)) ''execute_batch'' = Inr u"
    and "run \<noteq> []" "subseq run ids"
  shows "wp (bot_decide r tx sim native run)
      (\<lambda>y. batch_kept r ids native s y) (\<lambda>_. batch_failed r ids native s) False s"
  unfolding bot_decide_def
proof (rule quiet_then [OF quiet_total_fees])
  fix earned and s :: "'b wire"
  let ?cost = "uint (min_resource_fee sim) + uint (inclusion_fee (bot_conf r))"
  have only: "only_the_batch r ids ?cost e"
    if "signed_call r ''execute_batch'' (batch_args r ids) (snd (first_result rs)) ?cost e" for e
    using that assms(4) check_auth_ok_iff [of name "snd (first_result rs)" "registry_id (bot_conf r)" "''execute_batch''"]
    unfolding only_the_batch_def by (cases u) blast
  have one: "sent_one r ids native s t run earned"
    if "\<not> dry_run (bot_conf r)" "pays r native (length run) earned ?cost" "sent t = sent s @ [e]"
      "signed_call r ''execute_batch'' (batch_args r ids) (snd (first_result rs)) ?cost e" for e and t :: "'b wire"
    using that assms(5,6) only unfolding sent_one_def by blast
  have "wp (bind (bot_send r tx sim) (\<lambda>hash. ok (BatchExecuted run earned hash)))
      (\<lambda>y. batch_kept r ids native s y) (\<lambda>_. batch_failed r ids native s) False s"
    if "\<not> dry_run (bot_conf r)" "pays r native (length run) earned ?cost"
    unfolding wp_bind
    by (rule wp_mono [OF wp_bot_send [OF assms(1-3)]])
      (use that in \<open>auto simp: wps batch_kept_def batch_failed_def intro: one\<close>)
  then show "wp (let cost = ?cost in
     if too_costly native (max_cost_per_job (bot_conf r)) cost (length run)
        \<or> native \<and> \<not> profitable earned cost (min_profit (bot_conf r))
     then ok (BatchUnprofitable run earned cost)
     else if dry_run (bot_conf r) then ok (BatchSimulated run)
     else bind (bot_send r tx sim) (\<lambda>hash. ok (BatchExecuted run earned hash)))
      (\<lambda>y. batch_kept r ids native s y) (\<lambda>_. batch_failed r ids native s) False s"
    using assms(5,6) by (auto simp: Let_def wp_if wp_ok batch_kept_def pays_def)
qed

lemma batch_kept_reason [simp]:
  "batch_kept r ids native s (BatchSkipped reason) s"
  "batch_kept r ids native s (BatchJobProblem reason) s"
  by (simp_all add: batch_kept_def)

lemma wp_bot_execute_batch:
  fixes s :: "'w wire"
  shows "wp (bot_execute_batch r ids native) (\<lambda>y. batch_kept r ids native s y)
     (\<lambda>_. batch_failed r ids native s) False s"
  unfolding bot_execute_batch_def
proof (rule quiet_then [where P = "\<lambda>xs. xs = map ScU64 ids"], simp add: wps, simp only:,
    rule quiet_then, rule quiet_simulate)
  fix x :: "string + transaction \<times> simulation \<times> scval" and t :: "'w wire"
  assume x: "case x of Inl e \<Rightarrow> True | Inr (tx, sim, v) \<Rightarrow>
      calls r ''execute_batch'' [account_address (bot_crypto r) (keeper_key (bot_conf r)), ScVec (Some (map ScU64 ids))] [] tx
      \<and> tx_fee tx = inclusion_fee (bot_conf r)"
  let ?name = "describe (contract_strkey (bot_crypto r)) (debug_address (bot_crypto r))"
  show "wp (case x of
       Inl reason \<Rightarrow>
         ok (if CHR ''#'' \<in> set reason then BatchSkipped reason else BatchJobProblem reason)
     | Inr (tx, sim, v) \<Rightarrow>
         bind (lift_result (sim_results sim)) (\<lambda>rs.
         case check_auth ?name (snd (first_result rs)) (registry_id (bot_conf r)) ''execute_batch'' of
           Inl reason \<Rightarrow> ok (BatchJobProblem reason)
         | Inr _ \<Rightarrow>
             let run = ran_jobs ids (ran_flags v (length ids)) in
             if run = [] then ok (BatchSkipped ''nothing would run'')
             else bot_decide r tx sim native run))
      (\<lambda>y. batch_kept r ids native t y) (\<lambda>_. batch_failed r ids native t) False t"
  proof (cases x)
    case (Inl e)
    then show ?thesis by (simp add: wps)
  next
    case (Inr y)
    obtain tx sim v where y: "y = (tx, sim, v)" by (cases y)
    have tx: "calls r ''execute_batch'' (batch_args r ids) [] tx" "tx_fee tx = inclusion_fee (bot_conf r)"
      using x by (simp_all add: Inr y batch_args_def)
    have "wp (bot_decide r tx sim native run) (\<lambda>y. batch_kept r ids native t y) (\<lambda>_. batch_failed r ids native t) False t"
      if "sim_results sim = Inr rs" "run = ran_jobs ids (ran_flags v (length ids))" "run \<noteq> []"
        "check_auth ?name (snd (first_result rs)) (registry_id (bot_conf r)) ''execute_batch'' = Inr u" for rs run u
      by (rule wp_bot_decide [OF tx that(1,4,3)]) (simp add: that(2) ran_jobs_subseq)
    then show ?thesis
      by (auto simp: Inr y Let_def wps batch_failed_def split: sum.split)
  qed
qed

text \<open>
  C23. The keeper signs nothing but its own batch: whatever the server answers, one attempt
  does not panic and sends at most one envelope; that envelope is a single \<open>execute_batch\<close> of
  the registry with exactly the given jobs, signed with the keeper's key, with no authorization
  beyond that call; its fee is the cost that was weighed, which the runnable jobs (a non-empty
  part of the batch, in order) were worth; a dry run sends nothing; and an attempt that reports
  success did send it.
\<close>

theorem only_its_own_batch_is_signed:
  "case bot_execute_batch r ids native s of
     (Ok x, t) \<Rightarrow> batch_kept r ids native s x t
   | (Err e, t) \<Rightarrow> batch_failed r ids native s t
   | (Trap, t) \<Rightarrow> False"
  using wp_bot_execute_batch [of r ids native s] by (simp add: wp_def)

end
