(* ===== verification/KeeperBot.thy ===== *)
theory KeeperBot
  imports KeeperTx "HOL-Library.Multiset"
begin

text \<open>
  \<open>keeper-rs/src/main.rs\<close>: one tick of the bot, the quarantine it keeps between ticks, and the
  queue of batches a tick works through. What running one batch must promise is the locale
  \<open>batch_runner\<close>, which \<open>Registry::execute_batch\<close> satisfies.
\<close>

section \<open>State\<close>

record tick_summary =
  ts_checked :: u64
  ts_due :: u64
  ts_batches :: u64
  ts_executed :: u64
  ts_skipped :: u64
  ts_unprofitable :: u64
  ts_failed :: u64
  ts_earned :: int
  ts_quarantined :: u64

definition no_summary :: tick_summary where
  "no_summary = \<lparr>ts_checked = 0, ts_due = 0, ts_batches = 0, ts_executed = 0, ts_skipped = 0,
     ts_unprofitable = 0, ts_failed = 0, ts_earned = 0, ts_quarantined = 0\<rparr>"

record quarantine =
  until_tick :: "u64 \<Rightarrow> u64 option"
  tick_no :: u64

definition QUARANTINE_TICKS :: u64 where "QUARANTINE_TICKS = 30"

definition next_tick :: "quarantine \<Rightarrow> quarantine" where
  "next_tick q =
     (let n = tick_no q + 1
      in q\<lparr>tick_no := n,
           until_tick := (\<lambda>i. case until_tick q i of None \<Rightarrow> None | Some u \<Rightarrow> if n < u then Some u else None)\<rparr>)"

definition set_aside :: "u64 \<Rightarrow> quarantine \<Rightarrow> quarantine" where
  "set_aside i q = q\<lparr>until_tick := (until_tick q)(i \<mapsto> tick_no q + QUARANTINE_TICKS)\<rparr>"

section \<open>The queue of batches\<close>

text \<open>The lengths of lists and counts are \<open>usize\<close>, cast to \<open>u64\<close>.\<close>

definition len64 :: "'a list \<Rightarrow> u64" where
  "len64 xs = of_nat (length xs)"

text \<open>
  What a tick does with the outcome of one batch: the rest of the queue, the summary, and the
  quarantine.
\<close>

type_synonym work = "u64 list list \<times> tick_summary \<times> quarantine"

fun after_batch :: "u64 list \<Rightarrow> 'e + batch_outcome \<Rightarrow> work \<Rightarrow> work" where
  "after_batch batch (Inr (BatchJobProblem reason)) (queue, s, q) =
     (if 1 < length batch then (queue @ map (\<lambda>i. [i]) batch, s, q)
      else (queue,
            s\<lparr>ts_quarantined := ts_quarantined s + 1, ts_skipped := ts_skipped s + 1\<rparr>,
            set_aside (hd batch) q))"
| "after_batch batch (Inr (BatchExecuted run earned hash)) (queue, s, q) =
     (queue,
      s\<lparr>ts_batches := ts_batches s + 1, ts_executed := ts_executed s + len64 run,
        ts_skipped := ts_skipped s + (len64 batch - len64 run),
        ts_earned := wrap_i128 (ts_earned s + earned)\<rparr>,
      q)"
| "after_batch batch (Inr (BatchSimulated run)) (queue, s, q) =
     (queue,
      s\<lparr>ts_executed := ts_executed s + len64 run,
        ts_skipped := ts_skipped s + (len64 batch - len64 run)\<rparr>,
      q)"
| "after_batch batch (Inr (BatchSkipped reason)) (queue, s, q) =
     (queue, s\<lparr>ts_skipped := ts_skipped s + len64 batch\<rparr>, q)"
| "after_batch batch (Inr (BatchUnprofitable run earned cost)) (queue, s, q) =
     (if 1 < length run then
        (fst (halves run) # snd (halves run) # queue,
         s\<lparr>ts_skipped := ts_skipped s + (len64 batch - len64 run)\<rparr>, q)
      else
        (queue,
         s\<lparr>ts_unprofitable := ts_unprofitable s + len64 run,
           ts_skipped := ts_skipped s + (len64 batch - len64 run)\<rparr>, q))"
| "after_batch batch (Inl e) (queue, s, q) =
     (queue, s\<lparr>ts_failed := ts_failed s + len64 batch\<rparr>, q)"

text \<open>
  The loop over the queue, for a given way to run a batch. Fuel bounds the number of batches;
  \<open>None\<close> means that it did not suffice.
\<close>

type_synonym ('w, 'e) runner = "u64 list \<Rightarrow> 'w \<Rightarrow> ('e, batch_outcome) outcome \<times> 'w"

fun drain :: "('w, 'e) runner \<Rightarrow> nat \<Rightarrow> work \<Rightarrow> 'w \<Rightarrow> ('e, (tick_summary \<times> quarantine) option) outcome \<times> 'w" where
  "drain run n ([], s, q) w = (Ok (Some (s, q)), w)"
| "drain run 0 (batch # queue, s, q) w = (Ok None, w)"
| "drain run (Suc n) (batch # queue, s, q) w =
     bind (attempt (run batch)) (\<lambda>x. drain run n (after_batch batch x (queue, s, q))) w"

text \<open>How many attempts a batch can lead to.\<close>

definition effort :: "'a list \<Rightarrow> nat" where
  "effort batch = 2 * length batch - 1"

definition efforts :: "'a list list \<Rightarrow> nat" where
  "efforts queue = sum_list (map effort queue)"

section \<open>One tick\<close>

record 'w bot =
  wire :: "'w wire"
  set_apart :: quarantine

definition on_wire :: "('w, 'a) calling \<Rightarrow> ('w bot, tx_error, 'a) act" where
  "on_wire m b = (case m (wire b) of (r, w) \<Rightarrow> (r, b\<lparr>wire := w\<rparr>))"

fun due_jobs :: "('k, 'w) bot_registry \<Rightarrow> u64 list \<Rightarrow> ('w, u64 list) calling" where
  "due_jobs r [] = ok []"
| "due_jobs r (i # ids) =
     bind (bot_is_due r i) (\<lambda>d. bind (due_jobs r ids) (\<lambda>due. ok (if d then i # due else due)))"

definition starting_work :: "quarantine \<Rightarrow> u64 \<Rightarrow> u64 list \<Rightarrow> nat \<Rightarrow> work" where
  "starting_work q n due most =
     (let waiting = filter (\<lambda>i. until_tick q i = None) due in
      (batches waiting most,
       no_summary\<lparr>ts_checked := n, ts_due := len64 due,
         ts_quarantined := of_nat (length due - length waiting),
         ts_skipped := of_nat (length due - length waiting)\<rparr>,
       q))"

definition drain_bot ::
  "('k, 'w) bot_registry \<Rightarrow> bool \<Rightarrow> work \<Rightarrow> ('w bot, tx_error, tick_summary option) act" where
  "drain_bot r native w b =
     (case drain (\<lambda>ids. bot_execute_batch r ids native) (efforts (fst w)) w (wire b) of
        (Ok (Some (s, q)), u) \<Rightarrow> (Ok (Some s), b\<lparr>wire := u, set_apart := q\<rparr>)
      | (Ok None, u) \<Rightarrow> (Ok None, b\<lparr>wire := u\<rparr>)
      | (Err e, u) \<Rightarrow> (Err e, b\<lparr>wire := u\<rparr>)
      | (Trap, u) \<Rightarrow> (Trap, b\<lparr>wire := u\<rparr>))"

definition tick ::
  "('k, 'w) bot_registry \<Rightarrow> nat \<Rightarrow> bool \<Rightarrow> ('w bot, tx_error, tick_summary option) act" where
  "tick r most native =
     andthen (modify (\<lambda>b. b\<lparr>set_apart := next_tick (set_apart b)\<rparr>))
     (bind (on_wire (bot_job_count r)) (\<lambda>n.
     bind (on_wire (due_jobs r (map of_nat [0..<unat n]))) (\<lambda>due.
     bind (gets set_apart) (\<lambda>q.
     drain_bot r native (starting_work q n due most)))))"

definition join :: "u64 list \<Rightarrow> string" where
  "join ids = concat (case map (\<lambda>i. show_nat (unat i)) ids of [] \<Rightarrow> [] | x # xs \<Rightarrow> x # map ((@) '','') xs)"

section \<open>One step of the queue\<close>

text \<open>The jobs an outcome names are a non-empty part of the batch, in order.\<close>

definition sound_outcome :: "u64 list \<Rightarrow> 'e + batch_outcome \<Rightarrow> bool" where
  "sound_outcome batch x \<longleftrightarrow>
     (case x of
        Inr (BatchExecuted run earned hash) \<Rightarrow> run \<noteq> [] \<and> subseq run batch
      | Inr (BatchSimulated run) \<Rightarrow> run \<noteq> [] \<and> subseq run batch
      | Inr (BatchUnprofitable run earned cost) \<Rightarrow> run \<noteq> [] \<and> subseq run batch
      | _ \<Rightarrow> True)"

text \<open>Every due job is in exactly one outcome, or still queued.\<close>

definition tallied :: "nat \<Rightarrow> work \<Rightarrow> bool" where
  "tallied n w \<longleftrightarrow>
     (case w of (queue, s, q) \<Rightarrow>
        \<exists>e k u f. ts_executed s = of_nat e \<and> ts_skipped s = of_nat k \<and> ts_unprofitable s = of_nat u
          \<and> ts_failed s = of_nat f \<and> e + k + u + f + length (concat queue) = n)"

lemma efforts_append [simp]: "efforts (xs @ ys) = efforts xs + efforts ys"
  by (simp add: efforts_def)

lemma efforts_Cons [simp]: "efforts (b # bs) = effort b + efforts bs"
  by (simp add: efforts_def)

lemma efforts_Nil [simp]: "efforts [] = 0"
  by (simp add: efforts_def)

lemma efforts_singles [simp]: "efforts (map (\<lambda>i. [i]) xs) = length xs"
  by (induction xs) (simp_all add: effort_def)

lemma concat_singles [simp]: "concat (map (\<lambda>i. [i]) xs) = xs"
  by (induction xs) simp_all

lemma effort_halves:
  assumes "1 < length run" and "length run \<le> length batch"
  shows "effort (fst (halves run)) + effort (snd (halves run)) < effort batch"
proof -
  let ?a = "length (fst (halves run))" and ?b = "length (snd (halves run))"
  have "?a + ?b = length run" "1 \<le> ?a" "1 \<le> ?b"
    using assms(1) by (simp_all add: halves_def)
  then show ?thesis using assms(2) unfolding effort_def by linarith
qed

lemma subseq_mset: "subseq xs ys \<Longrightarrow> mset xs \<subseteq># mset ys"
  by (induction rule: list_emb.induct) (auto intro: subset_mset.order_trans)

lemma halves_parts [simp]: "mset (fst (halves run)) + mset (snd (halves run)) = mset run"
  by (simp add: halves_def flip: mset_append)

lemma halves_sizes [simp]: "length (fst (halves run)) + length (snd (halves run)) = length run"
  by (simp add: halves_def)

lemma step_effort:
  assumes "sound_outcome batch x" and "after_batch batch x (queue, s, q) = (queue', s', q')" and "batch \<noteq> []"
  shows "efforts queue' < effort batch + efforts queue"
proof -
  have pos: "0 < effort batch" using assms(3) by (cases batch) (simp_all add: effort_def)
  have many: "length batch < effort batch" if "1 < length batch" using that by (simp add: effort_def)
  show ?thesis
    using assms pos many
    by (cases "(batch, x, queue, s, q)" rule: after_batch.cases)
      (auto simp: sound_outcome_def dest: list_emb_length intro!: effort_halves split: if_splits)
qed

lemma step_nonempty:
  assumes "after_batch batch x (queue, s, q) = (queue', s', q')" and "\<forall>b \<in> set queue. b \<noteq> []"
  shows "\<forall>b \<in> set queue'. b \<noteq> []"
  using assms halves_nonempty [of "ran_of (projr x)"]
  by (cases "(batch, x, queue, s, q)" rule: after_batch.cases) (auto split: if_splits simp: prod_eq_iff)

lemma step_part:
  assumes "sound_outcome batch x" and "after_batch batch x (queue, s, q) = (queue', s', q')"
  shows "mset (concat queue') \<subseteq># mset batch + mset (concat queue)"
proof -
  have part: "mset (fst (halves run)) + (mset (snd (halves run)) + m) \<subseteq># mset batch + m"
    if "subseq run batch" for run m
    using subseq_mset [OF that] by (simp flip: add.assoc)
  show ?thesis
    using assms part
    by (cases "(batch, x, queue, s, q)" rule: after_batch.cases)
      (auto simp: sound_outcome_def add.commute split: if_splits)
qed

lemma tallied_move:
  assumes "tallied n (batch # queue, s, q)"
    and "ts_executed s' = ts_executed s + of_nat a" "ts_skipped s' = ts_skipped s + of_nat b"
      "ts_unprofitable s' = ts_unprofitable s + of_nat c" "ts_failed s' = ts_failed s + of_nat d"
    and "a + b + c + d + length (concat queue') = length batch + length (concat queue)"
  shows "tallied n (queue', s', q')"
proof -
  obtain e k u f where "ts_executed s = of_nat e" "ts_skipped s = of_nat k" "ts_unprofitable s = of_nat u"
      "ts_failed s = of_nat f" "e + k + u + f + (length batch + length (concat queue)) = n"
    using assms(1) by (auto simp: tallied_def)
  then show ?thesis
    using assms(2-6) unfolding tallied_def prod.case
    by (intro exI [of _ "e + a"] exI [of _ "k + b"] exI [of _ "u + c"] exI [of _ "f + d"]) simp
qed

lemma step_tally:
  assumes "sound_outcome batch x" and "tallied n (batch # queue, s, q)" and "batch \<noteq> []"
  shows "tallied n (after_batch batch x (queue, s, q))"
proof -
  note move = tallied_move [OF assms(2)]
  have diff: "len64 batch - len64 r = of_nat (length batch - length r)" and le: "length r \<le> length batch"
    if "subseq r batch" for r
    using list_emb_length [OF that] by (simp_all add: len64_def of_nat_diff)
  have ran: "tallied n (queue, s\<lparr>ts_executed := ts_executed s + len64 r,
        ts_skipped := ts_skipped s + (len64 batch - len64 r)\<rparr>, q)"
    "tallied n (queue, s\<lparr>ts_batches := ts_batches s + 1, ts_executed := ts_executed s + len64 r,
        ts_skipped := ts_skipped s + (len64 batch - len64 r), ts_earned := y\<rparr>, q)"
    "tallied n (queue, s\<lparr>ts_unprofitable := ts_unprofitable s + len64 r,
        ts_skipped := ts_skipped s + (len64 batch - len64 r)\<rparr>, q)" if "subseq r batch" for r y
    using le [OF that]
    by (rule_tac [1-2] move [where a = "length r" and b = "length batch - length r" and c = 0 and d = 0],
        rule_tac [11] move [where a = 0 and b = "length batch - length r" and c = "length r" and d = 0])
      (simp_all add: diff [OF that], simp_all add: len64_def)
  have halved: "tallied n (fst (halves r) # snd (halves r) # queue,
        s\<lparr>ts_skipped := ts_skipped s + (len64 batch - len64 r)\<rparr>, q)" if "subseq r batch" for r
    using le [OF that]
    by (intro move [where a = 0 and b = "length batch - length r" and c = 0 and d = 0])
      (simp_all add: diff [OF that] flip: add.assoc)
  have alone: "length batch = 1" if "\<not> 1 < length batch" using that assms(3) by (cases batch) auto
  have rest: "tallied n (queue @ map (\<lambda>i. [i]) batch, s, q)"
    "tallied n (queue, s\<lparr>ts_skipped := ts_skipped s + len64 batch\<rparr>, q)"
    "tallied n (queue, s\<lparr>ts_failed := ts_failed s + len64 batch\<rparr>, q)"
    by (rule move [where a = 0 and b = 0 and c = 0 and d = 0], simp_all,
        rule move [where a = 0 and b = "length batch" and c = 0 and d = 0], simp_all add: len64_def,
        rule move [where a = 0 and b = 0 and c = 0 and d = "length batch"], simp_all)
  have one: "tallied n (queue, s\<lparr>ts_quarantined := y, ts_skipped := ts_skipped s + 1\<rparr>, q')"
    if "\<not> 1 < length batch" for q' y
    by (rule move [where a = 0 and b = 1 and c = 0 and d = 0]) (simp_all add: alone [OF that])
  show ?thesis
    using assms(1) ran halved rest one
    by (cases "(batch, x, queue, s, q)" rule: after_batch.cases) (simp_all add: sound_outcome_def)
qed

text \<open>Only jobs of the queue are set aside, all until the same tick.\<close>

definition asides :: "u64 set \<Rightarrow> quarantine \<Rightarrow> quarantine \<Rightarrow> bool" where
  "asides js q q' \<longleftrightarrow>
     tick_no q' = tick_no q
     \<and> (\<forall>i. until_tick q' i = until_tick q i
            \<or> i \<in> js \<and> until_tick q' i = Some (tick_no q + QUARANTINE_TICKS))"

lemma asides_refl [simp]: "asides js q q"
  by (simp add: asides_def)

lemma asides_trans: "asides js q q' \<Longrightarrow> asides ks q' q'' \<Longrightarrow> ks \<subseteq> js \<Longrightarrow> asides js q q''"
  unfolding asides_def by (metis subsetD)

lemma asides_mono: "asides ks q q' \<Longrightarrow> ks \<subseteq> js \<Longrightarrow> asides js q q'"
  unfolding asides_def by blast

lemma step_asides:
  assumes "after_batch batch x (queue, s, q) = (queue', s', q')" and "batch \<noteq> []"
  shows "asides (set batch) q q'"
  using assms
  by (cases "(batch, x, queue, s, q)" rule: after_batch.cases)
    (auto simp: asides_def set_aside_def split: if_splits)

section \<open>Working through the queue\<close>

text \<open>
  What the loop relies on: running a batch returns, reports part of the batch, and extends the
  log by at most one entry, about that batch, which it then counts as executed or failed.
\<close>

locale batch_runner =
  fixes run :: "('w, 'e) runner"
    and log :: "'w \<Rightarrow> 'l list"
    and about :: "u64 list \<Rightarrow> 'l \<Rightarrow> bool"
  assumes returns: "fst (run ids w) \<noteq> Trap"
    and sound: "run ids w = (Ok y, v) \<Longrightarrow> sound_outcome ids (Inr y :: 'e + batch_outcome)"
    and one_entry: "run ids w = (x, v) \<Longrightarrow> log v \<noteq> log w \<Longrightarrow> \<exists>l. about ids l \<and> log v = log w @ [l]"
    and counted: "run ids w = (x, v) \<Longrightarrow> log v \<noteq> log w \<Longrightarrow>
      (\<exists>e. x = Err e) \<or> (\<exists>r c h. x = Ok (BatchExecuted r c h))"
begin

lemma step:
  obtains x v where "attempt (run ids) w = ((Ok x, v) :: ('e, 'e + batch_outcome) outcome \<times> 'w)" and "sound_outcome ids x"
    and "log v = log w \<or> (\<exists>l. about ids l \<and> log v = log w @ [l])"
    and "log v \<noteq> log w \<longrightarrow> (\<exists>e. x = Inl e) \<or> (\<exists>r c h. x = Inr (BatchExecuted r c h))"
proof (cases "run ids w")
  case (Pair y v)
  have log: "log v = log w \<or> (\<exists>l. about ids l \<and> log v = log w @ [l])"
    using one_entry [OF Pair] by blast
  show ?thesis
  proof (cases y)
    case (Ok o1)
    show ?thesis
      by (rule that [of "Inr o1" v])
        (use Pair Ok log sound counted [OF Pair] in \<open>auto simp: attempt_def\<close>)
  next
    case (Err e)
    show ?thesis
      by (rule that [of "Inl e" v])
        (use Pair Err log in \<open>auto simp: attempt_def sound_outcome_def\<close>)
  next
    case Trap
    then show ?thesis using returns [of ids w] Pair by simp
  qed
qed

lemma drain_ends:
  assumes "efforts queue \<le> n" and "\<forall>b \<in> set queue. b \<noteq> []" and "tallied k (queue, s, q)"
  shows "\<exists>s' q' v bs ls. drain run n (queue, s, q) w = (Ok (Some (s', q')), v) \<and> tallied k ([], s', q')
    \<and> asides (set (concat queue)) q q'
    \<and> log v = log w @ ls \<and> list_all2 about bs ls \<and> mset (concat bs) \<subseteq># mset (concat queue)"
  using assms
proof (induction n arbitrary: queue s q w)
  case 0
  have "queue = []" using "0.prems" by (cases queue) (auto simp: effort_def neq_Nil_conv)
  then show ?case
    using "0.prems" by (intro exI [of _ s] exI [of _ q] exI [of _ w] exI [of _ "[]"]) simp
next
  case (Suc n)
  show ?case
  proof (cases queue)
    case Nil
    then show ?thesis
      using Suc.prems by (intro exI [of _ s] exI [of _ q] exI [of _ w] exI [of _ "[]"]) simp
  next
    case (Cons batch rest)
    have ne: "batch \<noteq> []" "\<forall>b \<in> set rest. b \<noteq> []" using Suc.prems(2) Cons by auto
    obtain x v where x: "attempt (run batch) w = ((Ok x, v) :: ('e, 'e + batch_outcome) outcome \<times> 'w)" and snd: "sound_outcome batch x"
      and log: "log v = log w \<or> (\<exists>l. about batch l \<and> log v = log w @ [l])"
      and counted: "log v \<noteq> log w \<longrightarrow> (\<exists>e. x = Inl e) \<or> (\<exists>r c h. x = Inr (BatchExecuted r c h))"
      by (rule step [of batch w])
    obtain queue1 s1 q1 where after: "after_batch batch x (rest, s, q) = (queue1, s1, q1)"
      by (cases "after_batch batch x (rest, s, q)")
    have less: "efforts queue1 \<le> n"
      using step_effort [OF snd after ne(1)] Suc.prems(1) Cons by simp
    have tally: "tallied k (queue1, s1, q1)"
      using step_tally [OF snd Suc.prems(3) [unfolded Cons] ne(1)] after by simp
    obtain s' q' u bs ls where IH:
      "drain run n (queue1, s1, q1) v = (Ok (Some (s', q')), u)" "tallied k ([], s', q')"
      "asides (set (concat queue1)) q1 q'" "log u = log v @ ls" "list_all2 about bs ls"
      "mset (concat bs) \<subseteq># mset (concat queue1)"
      using Suc.IH [OF less step_nonempty [OF after ne(2)] tally, of v] by blast
    have part: "mset (concat queue1) \<subseteq># mset (concat queue)"
      using step_part [OF snd after] Cons by simp
    have aside: "asides (set (concat queue)) q q'"
    proof (rule asides_trans)
      show "asides (set (concat queue)) q q1"
        using asides_mono [OF step_asides [OF after ne(1)]] Cons by simp
      show "set (concat queue1) \<subseteq> set (concat queue)" using set_mset_mono [OF part] by simp
    qed (rule IH(3))
    have run: "drain run (Suc n) (queue, s, q) w = (Ok (Some (s', q')), u)"
      using Cons x after IH(1) by (simp add: bind_def)
    have "\<exists>bs ls. log u = log w @ ls \<and> list_all2 about bs ls \<and> mset (concat bs) \<subseteq># mset (concat queue)"
    proof (cases "log v = log w")
      case True
      then show ?thesis
        using IH(4,5) subset_mset.order_trans [OF IH(6) part] by auto
    next
      case False
      then obtain l where l: "about batch l" "log v = log w @ [l]" using log by blast
      have "queue1 = rest"
        using mp [OF counted False] after by (elim disjE exE) simp_all
      then show ?thesis
        using l IH(4-6) Cons by (intro exI [of _ "batch # bs"] exI [of _ "l # ls"]) simp
    qed
    then obtain bs ls where "log u = log w @ ls" "list_all2 about bs ls" "mset (concat bs) \<subseteq># mset (concat queue)"
      by (elim exE conjE)
    then show ?thesis
      using run IH(2) aside
      by (intro exI [of _ s'] exI [of _ q'] exI [of _ u] exI [of _ bs] exI [of _ ls] conjI)
  qed
qed

end

text \<open>\<open>Registry::execute_batch\<close> keeps the contract of the loop.\<close>

definition own_batch :: "('k, 'w) bot_registry \<Rightarrow> u64 list \<Rightarrow> envelope \<Rightarrow> bool" where
  "own_batch r ids e \<longleftrightarrow> \<not> dry_run (bot_conf r) \<and> (\<exists>cost. only_the_batch r ids cost e)"

interpretation keeper: batch_runner "\<lambda>ids. bot_execute_batch r ids native" sent "own_batch r" for r native
proof unfold_locales
  fix ids w
  note batch = wp_bot_execute_batch [of r ids native w]
  show "fst (bot_execute_batch r ids native w) \<noteq> Trap"
    using batch by (cases "bot_execute_batch r ids native w") (auto simp: wp_def)
  fix x v
  assume x: "bot_execute_batch r ids native w = (x, v)" and new: "sent v \<noteq> sent w"
  have one: "\<exists>l. own_batch r ids l \<and> sent v = sent w @ [l]" if "sent_one r ids native w v run earned" for run earned
    using that unfolding sent_one_def own_batch_def by blast
  show "\<exists>l. own_batch r ids l \<and> sent v = sent w @ [l]"
    using batch x new by (cases x) (auto simp: wp_def batch_kept_def batch_failed_def split: batch_outcome.splits intro: one)
  show "(\<exists>e. x = Err e) \<or> (\<exists>r c h. x = Ok (BatchExecuted r c h))"
    using batch x new by (cases x) (auto simp: wp_def batch_kept_def split: batch_outcome.splits)
next
  fix ids w y v
  assume "bot_execute_batch r ids native w = (Ok y, v)"
  then have "batch_kept r ids native w y v"
    using wp_bot_execute_batch [of r ids native w] by (simp add: wp_def)
  then show "sound_outcome ids (Inr y :: tx_error + batch_outcome)"
    by (auto simp: batch_kept_def sent_one_def sound_outcome_def split: batch_outcome.splits)
qed

section \<open>A whole tick\<close>

lemma wp_on_wire:
  "wp (on_wire m) Q E T b = wp m (\<lambda>x w. Q x (b\<lparr>wire := w\<rparr>)) (\<lambda>e w. E e (b\<lparr>wire := w\<rparr>)) T (wire b)"
  by (simp add: wp_def on_wire_def split: prod.split outcome.split)

lemma quiet_due_jobs: "quiet (due_jobs r ids) (\<lambda>due. subseq due ids) s"
proof (induction ids arbitrary: s)
  case (Cons i ids)
  show ?case
    unfolding due_jobs.simps
    by (rule quiet_bind [OF quiet_reads(2)], rule quiet_bind [OF Cons.IH]) (simp add: wps list_emb_Cons)
qed (simp add: wps)

lemma subseq_distinct: "subseq xs ys \<Longrightarrow> distinct ys \<Longrightarrow> distinct xs"
  by (auto simp: subseq_conv_nths)

lemma starting_tally: "tallied (length due) (starting_work q n due most)"
proof -
  let ?w = "filter (\<lambda>i. until_tick q i = None) due"
  have "length ?w \<le> length due" by simp
  then show ?thesis
    unfolding starting_work_def Let_def tallied_def prod.case
    by (intro exI [of _ 0] exI [of _ "length due - length ?w"])
      (simp add: no_summary_def batches_def concat_chunks)
qed

text \<open>What a finished tick leaves behind.\<close>

definition tick_kept :: "('k, 'w) bot_registry \<Rightarrow> 'w bot \<Rightarrow> tick_summary option \<Rightarrow> 'w bot \<Rightarrow> bool" where
  "tick_kept r b x t \<longleftrightarrow>
     (\<exists>s n due. x = Some s \<and> length due \<le> unat (n :: u64) \<and> distinct due
        \<and> ts_due s = len64 due \<and> ts_checked s = n \<and> tallied (length due) ([], s, set_apart t)
        \<and> asides (set due) (next_tick (set_apart b)) (set_apart t)
        \<and> (\<exists>bs es. sent (wire t) = sent (wire b) @ es \<and> list_all2 (own_batch r) bs es
             \<and> mset (concat bs) \<subseteq># mset (filter (\<lambda>i. until_tick (next_tick (set_apart b)) i = None) due)))"

text \<open>The loop never touches what was read before it.\<close>

lemma after_batch_due: "after_batch batch x (queue, s, q) = (queue', s', q') \<Longrightarrow>
    ts_due s' = ts_due s \<and> ts_checked s' = ts_checked s"
  by (cases "(batch, x, queue, s, q)" rule: after_batch.cases) (auto split: if_splits)

lemma drain_due:
  fixes run :: "('w, 'e) runner"
  shows "drain run n (queue, s, q) w = (Ok (Some (s', q')), v) \<Longrightarrow>
    ts_due s' = ts_due s \<and> ts_checked s' = ts_checked s"
proof (induction n arbitrary: queue s q w)
  case 0
  then show ?case by (cases queue) auto
next
  case (Suc n)
  show ?case
  proof (cases queue)
    case Nil
    then show ?thesis using Suc.prems by simp
  next
    case (Cons batch rest)
    then obtain x :: "'e + batch_outcome" and u where "drain run n (after_batch batch x (rest, s, q)) u = (Ok (Some (s', q')), v)"
      using Suc.prems by (auto simp: bind_def split: prod.splits outcome.splits)
    moreover obtain queue1 s1 q1 where after: "after_batch batch x (rest, s, q) = (queue1, s1, q1)"
      by (cases "after_batch batch x (rest, s, q)")
    ultimately show ?thesis
      using Suc.IH [of queue1 s1 q1 u] after_batch_due [OF after] by simp
  qed
qed

lemma wp_drain_bot:
  assumes "length due \<le> unat n" and "distinct due"
    and "set_apart c = next_tick (set_apart b)" and "sent (wire c) = sent (wire b)"
  shows "wp (drain_bot r native (starting_work (set_apart c) n due most)) (tick_kept r b) E False c"
proof -
  let ?q = "set_apart c"
  let ?w = "filter (\<lambda>i. until_tick ?q i = None) due"
  obtain s where w: "starting_work ?q n due most = (batches ?w most, s, ?q)"
    and s: "ts_due s = len64 due" "ts_checked s = n"
    by (simp add: starting_work_def Let_def no_summary_def)
  have all: "concat (batches ?w most) = ?w" and ne: "\<forall>x \<in> set (batches ?w most). x \<noteq> []"
    using chunk_sizes [of "max 1 (min 20 most)" _ ?w] by (simp add: batches_def concat_chunks, force simp: batches_def)
  obtain s' q' v bs es where d:
    "drain (\<lambda>ids. bot_execute_batch r ids native) (efforts (batches ?w most)) (batches ?w most, s, ?q) (wire c)
       = (Ok (Some (s', q')), v)" "tallied (length due) ([], s', q')"
    "asides (set ?w) ?q q'" "sent v = sent (wire c) @ es" "list_all2 (own_batch r) bs es"
    "mset (concat bs) \<subseteq># mset ?w"
    using keeper.drain_ends [OF order_refl ne starting_tally [of due ?q n most, unfolded w], of r native "wire c"]
    unfolding all by blast
  have "asides (set due) ?q q'" using d(3) by (rule asides_mono) auto
  then have "tick_kept r b (Some s') (c\<lparr>wire := v, set_apart := q'\<rparr>)"
    unfolding tick_kept_def
    using d(2,4-6) drain_due [OF d(1)] s assms by (intro exI [of _ s'] exI [of _ n] exI [of _ due]) auto
  then show ?thesis by (simp add: wp_def drain_bot_def w d(1))
qed

lemma wire_bind:
  assumes "quiet m P (wire c)"
    and "\<And>x w. P x \<Longrightarrow> sent w = sent (wire c) \<Longrightarrow> wp (f x) Q E False (c\<lparr>wire := w\<rparr>)"
    and "\<And>e w. sent w = sent (wire c) \<Longrightarrow> E e (c\<lparr>wire := w\<rparr>)"
  shows "wp (bind (on_wire m) f) Q E False c"
  unfolding wp_bind wp_on_wire by (rule wp_mono [OF assms(1)]) (auto intro: assms(2,3))

lemma wp_tick:
  "wp (tick r most native) (tick_kept r b)
     (\<lambda>_ t. sent (wire t) = sent (wire b) \<and> set_apart t = next_tick (set_apart b)) False b"
  unfolding tick_def wp_andthen wp_modify
  by (rule wire_bind [OF quiet_reads(1)], rule wire_bind [OF quiet_due_jobs],
      unfold wp_bind wp_gets, rule wp_drain_bot)
    (auto dest: list_emb_length subseq_distinct [OF _ distinct_u64s])

text \<open>
  C26. A tick always finishes: whatever the server answers, one pass over the queue of batches
  (batches that fail are retried job by job, batches that do not pay are halved) ends within
  twice the number of due jobs; a tick does not panic; and one that fails has sent nothing and
  only moved the quarantine to the next tick.
\<close>

theorem every_tick_finishes:
  "case tick r most native b of
     (Ok x, t) \<Rightarrow> x \<noteq> None
   | (Err e, t) \<Rightarrow> sent (wire t) = sent (wire b) \<and> set_apart t = next_tick (set_apart b)
   | (Trap, t) \<Rightarrow> False"
  using wp_tick [of r most native b] by (auto simp: wp_def tick_kept_def split: prod.splits outcome.splits)

text \<open>
  C25. Every due job lands in exactly one outcome: the executed, skipped, unprofitable and
  failed jobs of a tick add up to the due ones, which are at most the checked ones.
\<close>

theorem every_due_job_is_counted_once:
  "case tick r most native b of
     (Ok (Some s), t) \<Rightarrow>
       unat (ts_executed s) + unat (ts_skipped s) + unat (ts_unprofitable s) + unat (ts_failed s) = unat (ts_due s)
       \<and> ts_due s \<le> ts_checked s
   | _ \<Rightarrow> True"
proof (cases "tick r most native b")
  case (Pair y t)
  have "unat (ts_executed s) + unat (ts_skipped s) + unat (ts_unprofitable s) + unat (ts_failed s) = unat (ts_due s)
       \<and> ts_due s \<le> ts_checked s" if "y = Ok (Some s)" for s
  proof -
    have "tick_kept r b (Some s) t"
      using wp_tick [of r most native b] Pair that by (simp add: wp_def)
    then obtain due :: "u64 list" where due: "length due \<le> unat (ts_checked s)" "ts_due s = len64 due"
      and tally: "tallied (length due) ([], s, set_apart t)"
      unfolding tick_kept_def by (metis option.inject)
    have small: "unat (of_nat m :: u64) = m" if "m \<le> length due" for m
      using that due(1) unat_u64_bound [of "ts_checked s"] by (simp add: unat_of_nat)
    obtain e k u f where "ts_executed s = of_nat e" "ts_skipped s = of_nat k" "ts_unprofitable s = of_nat u"
      "ts_failed s = of_nat f" "e + k + u + f = length due"
      using tally by (auto simp: tallied_def)
    then show ?thesis
      using small [of e] small [of k] small [of u] small [of f] small [of "length due"] due
      by (simp add: len64_def word_le_nat_alt)
  qed
  then show ?thesis using Pair by (simp split: outcome.split option.split)
qed

lemma distinct_part: "mset xs \<subseteq># mset ys \<Longrightarrow> distinct ys \<Longrightarrow> distinct xs"
proof -
  assume part: "mset xs \<subseteq># mset ys" and "distinct ys"
  then have "count (mset ys) a \<le> 1" for a
    by (simp add: distinct_count_atmost_1)
  then have "count (mset xs) a \<le> 1" for a
    using mset_subset_eq_count [OF part, of a] order_trans by blast
  then show "distinct xs"
    unfolding distinct_count_atmost_1
    by (metis One_nat_def count_mset_0_iff le_Suc_eq le_zero_eq)
qed

text \<open>
  C24. No job is sent twice in a tick, and no job that is set aside is sent: the envelopes a
  tick adds are the keeper's own batches, all of them over different jobs, none in quarantine.
\<close>

theorem no_job_is_sent_twice_in_a_tick:
  "case tick r most native b of
     (x, t) \<Rightarrow> \<exists>bs es. sent (wire t) = sent (wire b) @ es \<and> list_all2 (own_batch r) bs es
       \<and> distinct (concat bs) \<and> set (concat bs) \<inter> dom (until_tick (next_tick (set_apart b))) = {}"
proof (cases "tick r most native b")
  case (Pair y t)
  show ?thesis
  proof (cases y)
    case (Ok x)
    then have "tick_kept r b x t"
      using wp_tick [of r most native b] Pair by (simp add: wp_def)
    then obtain due bs es where d: "distinct due" "sent (wire t) = sent (wire b) @ es" "list_all2 (own_batch r) bs es"
      and part: "mset (concat bs) \<subseteq># mset (filter (\<lambda>i. until_tick (next_tick (set_apart b)) i = None) due)"
      unfolding tick_kept_def by blast
    have "distinct (concat bs)" by (rule distinct_part [OF part]) (simp add: d(1))
    moreover have "set (concat bs) \<inter> dom (until_tick (next_tick (set_apart b))) = {}"
      using set_mset_mono [OF part] by auto
    ultimately show ?thesis using Pair d by (simp only: prod.case) blast
  next
    case (Err e)
    then show ?thesis
      using wp_tick [of r most native b] Pair by (auto simp: wp_def intro: exI [of _ "[]"])
  next
    case Trap
    then show ?thesis using wp_tick [of r most native b] Pair by (simp add: wp_def)
  qed
qed

lemma tick_no_set_aside [simp]: "tick_no (set_aside i q) = tick_no q"
  by (simp add: set_aside_def)

lemma ticks_pass: "tick_no ((next_tick ^^ k) q) = tick_no q + of_nat k"
  by (induction k) (simp_all add: next_tick_def Let_def)

lemma until_next_tick:
  "until_tick (next_tick p) i = Option.bind (until_tick p i) (\<lambda>u. if tick_no p + 1 < u then Some u else None)"
  by (simp add: next_tick_def Let_def split: option.split)

text \<open>
  A job that stops its batch sits out: set aside in one tick, it stays aside for the next
  29 ticks and is back in the thirtieth.
\<close>

theorem trouble_sits_out_thirty_ticks:
  assumes "unat (tick_no q) + 30 < 2 ^ 64" and "k < 30"
  shows "until_tick ((next_tick ^^ k) (set_aside i q)) i = Some (tick_no q + QUARANTINE_TICKS)
    \<and> until_tick ((next_tick ^^ 30) (set_aside i q)) i = None"
proof -
  have add: "unat (tick_no q + of_nat m) = unat (tick_no q) + m" if "m \<le> 30" for m
    using that assms(1) by (simp add: unat_word_ariths unat_of_nat)
  have keep: "until_tick ((next_tick ^^ m) (set_aside i q)) i = Some (tick_no q + QUARANTINE_TICKS)" if "m < 30" for m
    using that
  proof (induction m)
    case 0
    then show ?case by (simp add: set_aside_def)
  next
    case (Suc m)
    have "tick_no q + of_nat m + 1 < tick_no q + QUARANTINE_TICKS"
      using add [of "Suc m"] add [of 30] Suc.prems by (simp add: word_less_nat_alt QUARANTINE_TICKS_def ac_simps)
    then show ?case
      using Suc by (simp add: until_next_tick ticks_pass)
  qed
  have "until_tick (next_tick ((next_tick ^^ 29) (set_aside i q))) i = None"
    using keep [of 29] unfolding until_next_tick ticks_pass by (simp add: QUARANTINE_TICKS_def add.commute)
  moreover have "(next_tick ^^ 30) p = next_tick ((next_tick ^^ 29) p)" for p
    by (simp add: numeral_eq_Suc)
  ultimately show ?thesis using keep assms(2) by simp
qed

theorem trouble_sits_out_thirty_ticks_witness:
  "until_tick ((next_tick ^^ 29) (set_aside 3 \<lparr>until_tick = \<lambda>_. None, tick_no = 5\<rparr>)) 3 = Some 35
   \<and> until_tick ((next_tick ^^ 30) (set_aside 3 \<lparr>until_tick = \<lambda>_. None, tick_no = 5\<rparr>)) 3 = None"
  using trouble_sits_out_thirty_ticks [of "\<lparr>until_tick = \<lambda>_. None, tick_no = 5\<rparr>" 29 3]
  by (simp add: QUARANTINE_TICKS_def)

end
