(* ===== verification/KeeperMetrics.thy ===== *)
theory KeeperMetrics
  imports KeeperBot
begin

text \<open>
  \<open>keeper-rs/src/metrics.rs\<close> and \<open>record\<close> of \<open>main.rs\<close>: the Prometheus store, its text form
  and the liveness probe. A \<open>BTreeMap\<close> is a list sorted by key; the \<open>f64\<close> values and their
  text form are a parameter, because floating point is not modelled.
\<close>

section \<open>Sorted maps with string keys\<close>

fun below :: "string \<Rightarrow> string \<Rightarrow> bool" where
  "below [] [] = False"
| "below [] (d # ds) = True"
| "below (c # cs) [] = False"
| "below (c # cs) (d # ds) =
     (if c = d then below cs ds else (of_char c :: nat) < of_char d)"

text \<open>\<open>entry(k).or_insert(v)\<close>, then a change in place.\<close>

fun alter :: "string \<Rightarrow> 'v \<Rightarrow> ('v \<Rightarrow> 'v) \<Rightarrow> (string \<times> 'v) list \<Rightarrow> (string \<times> 'v) list" where
  "alter k new f [] = [(k, f new)]"
| "alter k new f ((j, v) # m) =
     (if k = j then (j, f v) # m
      else if below k j then (k, f new) # (j, v) # m
      else (j, v) # alter k new f m)"

section \<open>The store\<close>

datatype metric_kind = Counter | Gauge

record 'f metric =
  m_kind :: metric_kind
  m_help :: string
  m_values :: "(string \<times> 'f) list"

record 'f metrics =
  entries :: "(string \<times> 'f metric) list"
  last_success_ms :: u64

text \<open>\<open>f64\<close>: zero, addition, casts from integers, a division, and its text.\<close>

record 'f floats =
  f_zero :: 'f
  f_add :: "'f \<Rightarrow> 'f \<Rightarrow> 'f"
  f_of_int :: "int \<Rightarrow> 'f"
  f_thousandth :: "'f \<Rightarrow> 'f"
  f_show :: "'f \<Rightarrow> string"

definition no_metrics :: "'f metrics" where
  "no_metrics = \<lparr>entries = [], last_success_ms = 0\<rparr>"

definition commas :: "string list \<Rightarrow> string" where
  "commas xs = concat (case xs of [] \<Rightarrow> [] | y # ys \<Rightarrow> y # map ((@) '','') ys)"

definition labels :: "(string \<times> string) list \<Rightarrow> string" where
  "labels pairs =
     (if pairs = [] then []
      else ''{'' @ commas (map (\<lambda>(k, v). k @ ''='' @ [CHR 0x22] @ v @ [CHR 0x22]) pairs) @ ''}'')"

definition update_metric ::
  "'f floats \<Rightarrow> string \<Rightarrow> metric_kind \<Rightarrow> string \<Rightarrow> (string \<times> string) list \<Rightarrow> ('f \<Rightarrow> 'f) \<Rightarrow>
    'f metrics \<Rightarrow> 'f metrics" where
  "update_metric fl name kind help pairs f m =
     m\<lparr>entries := alter name \<lparr>m_kind = kind, m_help = help, m_values = []\<rparr>
        (\<lambda>e. e\<lparr>m_values := alter (labels pairs) (f_zero fl) f (m_values e)\<rparr>) (entries m)\<rparr>"

definition inc_metric ::
  "'f floats \<Rightarrow> string \<Rightarrow> string \<Rightarrow> (string \<times> string) list \<Rightarrow> 'f \<Rightarrow> 'f metrics \<Rightarrow> 'f metrics" where
  "inc_metric fl name help pairs by = update_metric fl name Counter help pairs (\<lambda>v. f_add fl v by)"

definition set_metric :: "'f floats \<Rightarrow> string \<Rightarrow> string \<Rightarrow> 'f \<Rightarrow> 'f metrics \<Rightarrow> 'f metrics" where
  "set_metric fl name help x = update_metric fl name Gauge help [] (\<lambda>_. x)"

definition record_success :: "u64 \<Rightarrow> 'f metrics \<Rightarrow> 'f metrics" where
  "record_success at_ms m = m\<lparr>last_success_ms := at_ms\<rparr>"

definition healthy :: "u64 \<Rightarrow> nat \<Rightarrow> 'f metrics \<Rightarrow> bool" where
  "healthy at_now stale_after_ms m \<longleftrightarrow>
     0 < last_success_ms m \<and> sat_sub at_now (last_success_ms m) \<le> of_nat stale_after_ms"

section \<open>Text\<close>

definition newline :: string where "newline = [CHR 0x0A]"

definition render_metric :: "'f floats \<Rightarrow> string \<times> 'f metric \<Rightarrow> string" where
  "render_metric fl x =
     (case x of (name, m) \<Rightarrow>
        ''# HELP '' @ name @ '' '' @ m_help m @ newline
        @ ''# TYPE '' @ name @ '' '' @ (case m_kind m of Counter \<Rightarrow> ''counter'' | Gauge \<Rightarrow> ''gauge'') @ newline
        @ concat (map (\<lambda>(l, v). name @ l @ '' '' @ f_show fl v @ newline) (m_values m)))"

definition render :: "'f floats \<Rightarrow> 'f metrics \<Rightarrow> string" where
  "render fl m = concat (map (render_metric fl) (entries m))"

definition quoted :: "string \<Rightarrow> string" where
  "quoted s = [CHR 0x22] @ s @ [CHR 0x22]"

definition respond :: "'f floats \<Rightarrow> string \<Rightarrow> u64 \<Rightarrow> nat \<Rightarrow> 'f metrics \<Rightarrow> nat \<times> string \<times> string" where
  "respond fl path at_now stale_after_ms m =
     (if path = ''/metrics'' then (200, ''text/plain; version=0.0.4'', render fl m)
      else if path = ''/healthz'' then
        (let well = healthy at_now stale_after_ms m;
             last_ms = (if 0 < last_success_ms m then show_nat (unat (last_success_ms m)) else ''null'');
             body = ''{'' @ quoted ''ok'' @ '':'' @ (if well then ''true'' else ''false'') @ '',''
               @ quoted ''lastSuccessMs'' @ '':'' @ last_ms @ ''}''
         in (if well then 200 else 503, ''application/json'', body))
      else (404, ''text/plain'', ''not found'' @ newline))"

section \<open>Recording a tick\<close>

definition record_tick :: "'f floats \<Rightarrow> tick_summary \<Rightarrow> 'f \<Rightarrow> u64 \<Rightarrow> u32 \<Rightarrow> 'f metrics \<Rightarrow> 'f metrics" where
  "record_tick fl s duration at_now fee m0 =
     (let m1 = inc_metric fl ''sorocron_keeper_ticks_total'' ''Completed polling passes'' [] (f_of_int fl 1) m0;
          m2 = set_metric fl ''sorocron_keeper_tick_duration_seconds'' ''Duration of the last tick'' duration m1;
          m3 = set_metric fl ''sorocron_keeper_last_tick_timestamp_seconds''
            ''Unix time of the last completed tick'' (f_thousandth fl (f_of_int fl (uint at_now))) m2;
          m4 = set_metric fl ''sorocron_keeper_jobs_due'' ''Jobs that looked due in the last tick''
            (f_of_int fl (uint (ts_due s))) m3;
          m5 = set_metric fl ''sorocron_keeper_jobs_quarantined''
            ''Due jobs set aside after failing on their own'' (f_of_int fl (uint (ts_quarantined s))) m4;
          m6 = inc_metric fl ''sorocron_keeper_batches_total'' ''execute_batch transactions sent'' []
            (f_of_int fl (uint (ts_batches s))) m5;
          m7 = fold (\<lambda>(outcome, n). inc_metric fl ''sorocron_keeper_jobs_total'' ''Due jobs by outcome''
              [(''outcome'', outcome)] (f_of_int fl (uint n)))
            [(''executed'', ts_executed s), (''skipped'', ts_skipped s),
             (''unprofitable'', ts_unprofitable s), (''failed'', ts_failed s)] m6;
          m8 = inc_metric fl ''sorocron_keeper_fees_earned_stroops_total'' ''Fees earned from executed jobs'' []
            (f_of_int fl (ts_earned s)) m7
      in set_metric fl ''sorocron_keeper_inclusion_fee_stroops'' ''Current inclusion fee bid''
            (f_of_int fl (uint fee)) m8)"

section \<open>Laws\<close>

lemma below_irrefl [simp]: "\<not> below k k"
  by (induction k) simp_all

lemma below_trans: "below a b \<Longrightarrow> below b c \<Longrightarrow> below a c"
proof (induction a b arbitrary: c rule: below.induct)
  case (2 d ds)
  then show ?case by (cases c) auto
next
  case (4 x xs y ys)
  then show ?case by (cases c) (auto split: if_splits)
qed simp_all

lemma below_total: "a \<noteq> b \<Longrightarrow> \<not> below a b \<Longrightarrow> below b a"
  by (induction a b rule: below.induct) (auto simp: not_less le_less split: if_splits)

text \<open>Keys stay in order, so no key occurs twice.\<close>

definition in_order :: "(string \<times> 'v) list \<Rightarrow> bool" where
  "in_order m \<longleftrightarrow> sorted_wrt below (map fst m)"

lemma keys_alter: "set (map fst (alter k new f m)) = insert k (set (map fst m))"
  by (induction k new f m rule: alter.induct) auto

lemma in_order_alter: "in_order m \<Longrightarrow> in_order (alter k new f m)"
proof (induction k new f m rule: alter.induct)
  case (2 k new f j v m)
  then show ?case
    using keys_alter [of k new f m] below_total [of k j]
    by (auto simp: in_order_def intro: below_trans)
qed (simp add: in_order_def)

lemma in_order_distinct: "in_order m \<Longrightarrow> distinct (map fst m)"
  unfolding in_order_def by (induction m) auto

lemma lookup_alter:
  "in_order m \<Longrightarrow> map_of (alter k new f m) j =
     (if j = k then Some (f (case map_of m k of None \<Rightarrow> new | Some v \<Rightarrow> v)) else map_of m j)"
proof (induction k new f m rule: alter.induct)
  case (2 k new f i v m)
  have "map_of m k = None" if "below k i"
    using that 2(2) below_trans [of k i k] by (auto simp: in_order_def map_of_eq_None_iff)
  then show ?case using 2 by (auto simp: in_order_def)
qed auto

lemma alter_all:
  "(\<And>v. P (k, v) \<Longrightarrow> P (k, f v)) \<Longrightarrow> P (k, f new) \<Longrightarrow> \<forall>x \<in> set m. P x \<Longrightarrow> \<forall>x \<in> set (alter k new f m). P x"
  by (induction k new f m rule: alter.induct) auto

definition well_kept :: "'f metrics \<Rightarrow> bool" where
  "well_kept m \<longleftrightarrow> in_order (entries m) \<and> (\<forall>(n, e) \<in> set (entries m). in_order (m_values e))"

lemma well_kept_update:
  assumes "well_kept m"
  shows "well_kept (update_metric fl name kind help pairs f m)"
proof -
  have none: "in_order [(l, v :: 'a)]" for l v by (simp add: in_order_def)
  have "\<forall>x \<in> set (alter name \<lparr>m_kind = kind, m_help = help, m_values = []\<rparr>
      (\<lambda>e. e\<lparr>m_values := alter (labels pairs) (f_zero fl) f (m_values e)\<rparr>) (entries m)). in_order (m_values (snd x))"
    by (rule alter_all) (use assms none in \<open>auto simp: well_kept_def in_order_alter\<close>)
  then show ?thesis
    using assms by (auto simp: well_kept_def update_metric_def in_order_alter)
qed

lemma well_kept_ops [intro]:
  "well_kept m \<Longrightarrow> well_kept (inc_metric fl name help pairs x m)"
  "well_kept m \<Longrightarrow> well_kept (set_metric fl name help y m)"
  by (simp_all add: inc_metric_def set_metric_def well_kept_update)

definition metric_value :: "'f metrics \<Rightarrow> string \<Rightarrow> string \<Rightarrow> 'f option" where
  "metric_value m name l = Option.bind (map_of (entries m) name) (\<lambda>e. map_of (m_values e) l)"

lemma metric_value_update:
  assumes "well_kept m"
  shows "metric_value (update_metric fl name kind help pairs f m) n l =
    (if n = name \<and> l = labels pairs
     then Some (f (case metric_value m name l of None \<Rightarrow> f_zero fl | Some v \<Rightarrow> v))
     else metric_value m n l)"
proof -
  have "in_order (m_values e)" if "map_of (entries m) name = Some e" for e
    using assms map_of_SomeD [OF that] by (auto simp: well_kept_def)
  moreover have "in_order ([] :: (string \<times> 'a) list)" by (simp add: in_order_def)
  ultimately show ?thesis
    using assms
    by (auto simp: metric_value_def update_metric_def well_kept_def lookup_alter split: option.split)
qed

lemma metric_value_inc:
  "well_kept m \<Longrightarrow> metric_value (inc_metric fl name help pairs x m) n l =
    (if n = name \<and> l = labels pairs
     then Some (f_add fl (case metric_value m name l of None \<Rightarrow> f_zero fl | Some v \<Rightarrow> v) x)
     else metric_value m n l)"
  by (simp add: inc_metric_def metric_value_update)

lemma metric_value_set:
  "well_kept m \<Longrightarrow> metric_value (set_metric fl name help x m) n l =
    (if n = name \<and> l = [] then Some x else metric_value m n l)"
  by (simp add: set_metric_def metric_value_update labels_def)

definition outcome_total :: "'f metrics \<Rightarrow> string \<Rightarrow> 'f option" where
  "outcome_total m outcome = metric_value m ''sorocron_keeper_jobs_total'' (labels [(''outcome'', outcome)])"

definition grown :: "'f floats \<Rightarrow> 'f option \<Rightarrow> u64 \<Rightarrow> 'f option" where
  "grown fl v n = Some (f_add fl (case v of None \<Rightarrow> f_zero fl | Some x \<Rightarrow> x) (f_of_int fl (uint n)))"

lemmas recorded = record_tick_def Let_def well_kept_ops metric_value_inc metric_value_set

lemma record_well_kept: "well_kept m \<Longrightarrow> well_kept (record_tick fl s d n fee m)"
  by (simp add: recorded)

lemma record_totals:
  assumes "well_kept m" and "outcome \<in> {''executed'', ''skipped'', ''unprofitable'', ''failed''}"
  shows "outcome_total (record_tick fl s d n fee m) outcome =
    grown fl (outcome_total m outcome)
      (if outcome = ''executed'' then ts_executed s else if outcome = ''skipped'' then ts_skipped s
       else if outcome = ''unprofitable'' then ts_unprofitable s else ts_failed s)"
  using assms(2)
  by (elim insertE emptyE) (simp_all add: outcome_total_def grown_def labels_def commas_def assms(1) recorded)

lemma record_due:
  "well_kept m \<Longrightarrow> metric_value (record_tick fl s d n fee m) ''sorocron_keeper_jobs_due'' [] = Some (f_of_int fl (uint (ts_due s)))"
  by (simp add: recorded)

text \<open>
  Recording a tick adds its outcomes to the running totals, one per outcome, and keeps the
  store in order, with no metric and no label twice; the gauge of due jobs shows the last tick.
\<close>

theorem ticks_add_up_in_the_metrics:
  assumes "well_kept m"
  shows "well_kept (record_tick fl s duration t fee m)
    \<and> outcome_total (record_tick fl s duration t fee m) ''executed'' = grown fl (outcome_total m ''executed'') (ts_executed s)
    \<and> outcome_total (record_tick fl s duration t fee m) ''skipped'' = grown fl (outcome_total m ''skipped'') (ts_skipped s)
    \<and> outcome_total (record_tick fl s duration t fee m) ''unprofitable''
        = grown fl (outcome_total m ''unprofitable'') (ts_unprofitable s)
    \<and> outcome_total (record_tick fl s duration t fee m) ''failed'' = grown fl (outcome_total m ''failed'') (ts_failed s)
    \<and> metric_value (record_tick fl s duration t fee m) ''sorocron_keeper_jobs_due'' []
        = Some (f_of_int fl (uint (ts_due s)))"
  using assms by (simp add: record_well_kept record_totals record_due)

definition int_floats :: "int floats" where
  "int_floats = \<lparr>f_zero = 0, f_add = (+), f_of_int = (\<lambda>n. n), f_thousandth = (\<lambda>n. n div 1000),
     f_show = (\<lambda>n. show_nat (nat n))\<rparr>"

theorem ticks_add_up_in_the_metrics_witness:
  "outcome_total (record_tick int_floats (no_summary\<lparr>ts_executed := 3\<rparr>) 1 1000 100 no_metrics) ''executed'' = Some 3"
  using ticks_add_up_in_the_metrics [of no_metrics int_floats "no_summary\<lparr>ts_executed := 3\<rparr>" 1 1000 100]
  by (simp add: well_kept_def in_order_def no_metrics_def grown_def int_floats_def outcome_total_def metric_value_def)

end
