(* ===== verification/KeeperMain.thy ===== *)
theory KeeperMain
  imports KeeperConfig KeeperMetrics
begin

text \<open>
  \<open>main\<close> of \<open>keeper-rs/src/main.rs\<close> and \<open>serve\<close> of \<open>metrics.rs\<close>: starting the bot, its loop over
  ticks, and the metrics server's reading of a request and writing of a response. Clocks, signals
  and sockets are inputs: every pass comes with what the clock says and whether Ctrl+C arrived.
  What is printed to the terminal is not modelled.
\<close>

section \<open>The metrics server\<close>

text \<open>The path of a request line \<open>GET path ...\<close> among the first 2048 bytes.\<close>

definition first_word :: "string \<Rightarrow> string" where
  "first_word x = takeWhile (\<lambda>c. \<not> white c) (dropWhile white x)"

definition request_path :: "string \<Rightarrow> string" where
  "request_path request =
     (let line = takeWhile (\<lambda>c. c \<noteq> CHR 0x0A) (take 2048 request)
      in if take 4 line = ''GET '' then first_word (drop 4 line) else [])"

definition reason_phrase :: "nat \<Rightarrow> string" where
  "reason_phrase status =
     (if status = 200 then ''OK'' else if status = 503 then ''Service Unavailable'' else ''Not Found'')"

definition crlf :: string where "crlf = [CHR 0x0D, CHR 0x0A]"

definition http_response :: "nat \<times> string \<times> string \<Rightarrow> string" where
  "http_response x =
     (case x of (status, content_type, body) \<Rightarrow>
        ''HTTP/1.1 '' @ show_nat status @ '' '' @ reason_phrase status @ crlf
        @ ''content-type: '' @ content_type @ crlf
        @ ''content-length: '' @ show_nat (length body) @ crlf
        @ ''connection: close'' @ crlf @ crlf @ body)"

definition serve_request :: "'f floats \<Rightarrow> nat \<Rightarrow> u64 \<Rightarrow> 'f metrics \<Rightarrow> string \<Rightarrow> string" where
  "serve_request fl stale_after_ms at_now m request =
     http_response (respond fl (request_path request) at_now stale_after_ms m)"

section \<open>The process\<close>

record ('f, 'w) process =
  pr_bot :: "'w bot"
  pr_metrics :: "'f metrics"

text \<open>What surrounds one pass: its duration, the clock when it ends, and Ctrl+C while it waits.\<close>

record 'f moment =
  took :: 'f
  ended_at :: u64
  ended_ms :: u64
  interrupted :: bool

definition no_quarantine :: quarantine where
  "no_quarantine = \<lparr>until_tick = (\<lambda>_. None), tick_no = 0\<rparr>"

text \<open>One pass of the loop. \<open>None\<close>: the tick panicked, or its queue never emptied.\<close>

definition tick_failed :: "'f floats \<Rightarrow> 'f metrics \<Rightarrow> 'f metrics" where
  "tick_failed fl m =
     inc_metric fl ''sorocron_keeper_tick_errors_total'' ''Ticks that threw before finishing'' [] (f_of_int fl 1) m"

definition pass ::
  "'f floats \<Rightarrow> ('k, 'w) bot_registry \<Rightarrow> bool \<Rightarrow> 'f moment \<Rightarrow> ('f, 'w) process \<Rightarrow> ('f, 'w) process option" where
  "pass fl r native x p =
     (case tick r (batch_size (bot_conf r)) native (pr_bot p) of
        (Ok (Some s), b) \<Rightarrow>
          Some (p\<lparr>pr_bot := b,
            pr_metrics := record_success (ended_ms x)
              (record_tick fl s (took x) (ended_at x) (inclusion_fee (bot_conf r)) (pr_metrics p))\<rparr>)
      | (Err e, b) \<Rightarrow> Some (p\<lparr>pr_bot := b, pr_metrics := tick_failed fl (pr_metrics p)\<rparr>)
      | (Ok None, b) \<Rightarrow> None
      | (Trap, b) \<Rightarrow> None)"

datatype stop =
    BadConfig string
  | NoClient tx_error
  | PortTaken nat
  | NoRegistryConfig tx_error
  | DoneOnce
  | ShutDown
  | StillRunning

text \<open>The loop, over the passes that happen before the process is looked at.\<close>

fun bot_loop ::
  "'f floats \<Rightarrow> ('k, 'w) bot_registry \<Rightarrow> bool \<Rightarrow> 'f moment list \<Rightarrow> ('f, 'w) process \<Rightarrow>
    (stop \<times> ('f, 'w) process) option" where
  "bot_loop fl r native [] p = Some (StillRunning, p)"
| "bot_loop fl r native (x # xs) p =
     (case pass fl r native x p of
        None \<Rightarrow> None
      | Some q \<Rightarrow>
          if run_once (bot_conf r) then Some (DoneOnce, q)
          else if interrupted x then Some (ShutDown, q)
          else bot_loop fl r native xs q)"

text \<open>What a start needs of the machine: the RPC client for an address, and whether a port is free.\<close>

record ('k, 'w) machine =
  connect :: "string \<Rightarrow> tx_error + 'w rpc_client"
  port_free :: "nat \<Rightarrow> bool"
  keys :: "'k strkeys"
  cryptography :: "'k crypto"

definition run_bot ::
  "'f floats \<Rightarrow> ('k, 'w) machine \<Rightarrow> string list \<Rightarrow> surroundings \<Rightarrow> 'w \<Rightarrow> 'f moment list \<Rightarrow>
    (stop \<times> ('f, 'w) process) option" where
  "run_bot fl m argv s server xs =
     (let idle = \<lparr>pr_bot = \<lparr>wire = \<lparr>net = server, sent = []\<rparr>, set_apart = no_quarantine\<rparr>, pr_metrics = no_metrics\<rparr>
      in case from_env (keys m) argv s of
           (Trap, _) \<Rightarrow> None
         | (Err e, _) \<Rightarrow> Some (BadConfig e, idle)
         | (Ok conf, _) \<Rightarrow>
             (case connect m (rpc_url conf) of
                Inl e \<Rightarrow> Some (NoClient e, idle)
              | Inr rpc \<Rightarrow>
                  let r = \<lparr>bot_rpc = rpc, bot_conf = conf, bot_crypto = cryptography m\<rparr>
                  in if metrics_port conf \<noteq> 0 \<and> \<not> port_free m (metrics_port conf)
                     then Some (PortTaken (metrics_port conf), idle)
                     else (case fee_is_native r (wire (pr_bot idle)) of
                         (Trap, _) \<Rightarrow> None
                       | (Err e, w) \<Rightarrow> Some (NoRegistryConfig e, idle\<lparr>pr_bot := (pr_bot idle)\<lparr>wire := w\<rparr>\<rparr>)
                       | (Ok native, w) \<Rightarrow> bot_loop fl r native xs (idle\<lparr>pr_bot := (pr_bot idle)\<lparr>wire := w\<rparr>\<rparr>))))"

text \<open>How long a success counts: three polls, at least a minute.\<close>

definition stale_after :: "'k bot_config \<Rightarrow> nat" where
  "stale_after conf = max (3 * unat (poll_interval conf)) 60000"

section \<open>The loop never breaks and sends only its own batches\<close>

definition sends_own :: "('k, 'w) bot_registry \<Rightarrow> envelope list \<Rightarrow> bool" where
  "sends_own r es \<longleftrightarrow> (\<forall>e \<in> set es. \<exists>ids. own_batch r ids e)"

lemma own_batches: "list_all2 (own_batch r) bs es \<Longrightarrow> sends_own r es"
  by (induction rule: list_all2_induct) (auto simp: sends_own_def)

lemma tick_failed_kept: "well_kept m \<Longrightarrow> well_kept (tick_failed fl m)"
  by (auto simp: tick_failed_def)

lemma well_kept_success [simp]: "well_kept (record_success t m) \<longleftrightarrow> well_kept m"
  by (simp add: well_kept_def record_success_def)

lemma pass_goes_on:
  "\<exists>q. pass fl r native x p = Some q
     \<and> (\<exists>es. sent (wire (pr_bot q)) = sent (wire (pr_bot p)) @ es \<and> sends_own r es)
     \<and> (well_kept (pr_metrics p) \<longrightarrow> well_kept (pr_metrics q))"
proof (cases "tick r (batch_size (bot_conf r)) native (pr_bot p)")
  case (Pair y b)
  note t = wp_tick [of r "batch_size (bot_conf r)" native "pr_bot p"]
  show ?thesis
  proof (cases y)
    case (Ok z)
    then have "tick_kept r (pr_bot p) z b" using t Pair by (simp add: wp_def)
    then obtain s bs es where "z = Some s" "sent (wire b) = sent (wire (pr_bot p)) @ es" "list_all2 (own_batch r) bs es"
      unfolding tick_kept_def by blast
    then show ?thesis using Pair Ok own_batches by (auto simp: pass_def record_well_kept)
  next
    case (Err e)
    then have "sent (wire b) = sent (wire (pr_bot p))" using t Pair by (simp add: wp_def)
    then show ?thesis using Pair Err by (auto simp: pass_def sends_own_def tick_failed_kept)
  next
    case Trap
    then show ?thesis using t Pair by (simp add: wp_def)
  qed
qed

lemma loop_goes_on:
  "\<exists>z q. bot_loop fl r native xs p = Some (z, q)
     \<and> (\<exists>es. sent (wire (pr_bot q)) = sent (wire (pr_bot p)) @ es \<and> sends_own r es)
     \<and> (well_kept (pr_metrics p) \<longrightarrow> well_kept (pr_metrics q))"
proof (induction xs arbitrary: p)
  case Nil
  then show ?case by (simp add: sends_own_def)
next
  case (Cons x xs)
  obtain q es where q: "pass fl r native x p = Some q"
    "sent (wire (pr_bot q)) = sent (wire (pr_bot p)) @ es" "sends_own r es"
    "well_kept (pr_metrics p) \<longrightarrow> well_kept (pr_metrics q)"
    using pass_goes_on [of fl r native x p] by blast
  obtain z v fs where v: "bot_loop fl r native xs q = Some (z, v)"
    "sent (wire (pr_bot v)) = sent (wire (pr_bot q)) @ fs" "sends_own r fs"
    "well_kept (pr_metrics q) \<longrightarrow> well_kept (pr_metrics v)"
    using Cons.IH [of q] by blast
  have "sends_own r (es @ fs)" using q(3) v(3) by (auto simp: sends_own_def)
  then show ?case using q v by auto
qed

text \<open>How a whole run looks from outside.\<close>

definition clean_run :: "('k, 'w) machine \<Rightarrow> string list \<Rightarrow> surroundings \<Rightarrow> ('f, 'w) process \<Rightarrow> bool" where
  "clean_run m argv s p \<longleftrightarrow> well_kept (pr_metrics p) \<and>
     (sent (wire (pr_bot p)) = [] \<or>
      (\<exists>r :: ('k, 'w) bot_registry. usable (keys m) s argv (bot_conf r) \<and> bot_crypto r = cryptography m \<and> \<not> dry_run (bot_conf r)
         \<and> sends_own r (sent (wire (pr_bot p)))))"

lemma well_kept_none [simp]: "well_kept no_metrics"
  by (simp add: well_kept_def no_metrics_def in_order_def)

lemma nothing_sent: "well_kept (pr_metrics p) \<Longrightarrow> sent (wire (pr_bot p)) = [] \<Longrightarrow> clean_run m argv s p"
  by (simp add: clean_run_def)

lemma sends_own_live: "sends_own r es \<Longrightarrow> es \<noteq> [] \<Longrightarrow> \<not> dry_run (bot_conf r)"
  by (cases es) (auto simp: sends_own_def own_batch_def)

text \<open>
  C27. A run of the bot, from reading its configuration through any number of passes, never panics
  or hangs, whatever the environment and the server answer. Everything it ever sends is one of its
  own signed \<open>execute_batch\<close> transactions under a usable configuration that is not a dry run, and
  its metrics stay in order. A failing tick is counted and the loop goes on.
\<close>

theorem the_bot_only_sends_its_own_batches:
  "case run_bot fl m argv s server xs of None \<Rightarrow> False | Some (z, p) \<Rightarrow> clean_run m argv s p"
proof -
  let ?w = "\<lparr>net = server, sent = []\<rparr>"
  obtain y t where env: "from_env (keys m) argv s = (y, t)" by (cases "from_env (keys m) argv s")
  show ?thesis
  proof (cases y)
    case (Ok conf)
    have use: "usable (keys m) s argv conf" using wp_from_env [of "keys m" argv s] env Ok by (simp add: wp_def)
    show ?thesis
    proof (cases "connect m (rpc_url conf)")
      case (Inl e)
      then show ?thesis using env Ok by (simp add: run_bot_def nothing_sent)
    next
      case (Inr rpc)
      define r where "r = \<lparr>bot_rpc = rpc, bot_conf = conf, bot_crypto = cryptography m\<rparr>"
      obtain f w where fee: "fee_is_native r ?w = (f, w)" by (cases "fee_is_native r ?w")
      have quiet: "f \<noteq> Trap" "sent w = []"
        using quiet_reads(4) [of r ?w] fee by (auto simp: wp_def split: outcome.splits)
      show ?thesis
      proof (cases "f = Trap \<or> (\<exists>e. f = Err e) \<or> metrics_port conf \<noteq> 0 \<and> \<not> port_free m (metrics_port conf)")
        case True
        then show ?thesis using env Ok Inr fee quiet
          by (auto simp: run_bot_def Let_def r_def [symmetric] nothing_sent)
      next
        case False
        then obtain native where native: "f = Ok native" by (cases f) auto
        let ?p = "\<lparr>pr_bot = \<lparr>wire = w, set_apart = no_quarantine\<rparr>, pr_metrics = no_metrics\<rparr>"
        obtain z q where q: "bot_loop fl r native xs ?p = Some (z, q)" "sends_own r (sent (wire (pr_bot q)))"
          "well_kept (pr_metrics q)"
          using loop_goes_on [of fl r native xs ?p] quiet(2) by auto
        have "run_bot fl m argv s server xs = Some (z, q)"
          using env Ok Inr fee native False q(1) by (auto simp: run_bot_def Let_def r_def [symmetric])
        moreover have "clean_run m argv s q"
        proof (cases "sent (wire (pr_bot q)) = []")
          case False
          have "usable (keys m) s argv (bot_conf r)" "bot_crypto r = cryptography m"
            using use by (simp_all add: r_def)
          then show ?thesis
            using q(2,3) sends_own_live [OF q(2) False] unfolding clean_run_def by blast
        qed (simp add: nothing_sent q(3))
        ultimately show ?thesis by simp
      qed
    qed
  next
    case (Err e)
    then show ?thesis using env by (simp add: run_bot_def nothing_sent)
  next
    case Trap
    then show ?thesis using wp_from_env [of "keys m" argv s] env by (simp add: wp_def)
  qed
qed

section \<open>The probe\<close>

lemma healthz_path: "request_path (''GET /healthz '' @ rest) = ''/healthz''"
  by (simp add: request_path_def first_word_def white_def)

lemma status_lines:
  "take 15 (http_response (200, t, x)) = ''HTTP/1.1 200 OK''"
  "take 15 (http_response (503, t, x)) = ''HTTP/1.1 503 Se''"
  by (simp_all add: http_response_def reason_phrase_def show_nat.simps DIGITS_def)

lemma probe_status:
  "take 15 (serve_request fl n t m (''GET /healthz '' @ rest)) = ''HTTP/1.1 200 OK'' \<longleftrightarrow> healthy t n m"
  unfolding serve_request_def healthz_path
  by (cases "healthy t n m") (simp_all add: respond_def Let_def status_lines)

text \<open>
  The liveness probe answers for the last successful tick: after a pass whose tick succeeded, a
  request for \<open>/healthz\<close> is answered with 200 exactly as long as that tick ended no longer than
  three polling intervals (at least a minute) ago.
\<close>

theorem probe_answers_for_the_last_tick:
  assumes "tick r (batch_size (bot_conf r)) native (pr_bot p) = (Ok (Some s), b)"
    and "pass fl r native x p = Some q" and "0 < ended_ms x" and "stale_after (bot_conf r) < 2 ^ 64"
  shows "take 15 (serve_request fl (stale_after (bot_conf r)) t (pr_metrics q) (''GET /healthz '' @ rest))
      = ''HTTP/1.1 200 OK'' \<longleftrightarrow> unat t - unat (ended_ms x) \<le> stale_after (bot_conf r)"
proof -
  have "last_success_ms (pr_metrics q) = ended_ms x"
    using assms(1,2) by (auto simp: pass_def record_success_def)
  then show ?thesis
    using assms(3,4) unfolding probe_status
    by (simp add: healthy_def word_le_nat_alt unat_sat_sub unat_of_nat)
qed

end
