(* ===== verification/Batches.thy ===== *)
theory Batches
  imports Demo
begin

text \<open>
  What the answer of \<open>execute_batch\<close> means: one flag per listed job, true exactly for the jobs
  that ran, and nothing else changed.
\<close>

definition ran_once :: "reg_store \<Rightarrow> reg_store \<Rightarrow> u64 \<Rightarrow> bool" where
  "ran_once d d' j \<longleftrightarrow>
     (\<exists>spec st st'. parts d j = Some (spec, st) \<and> parts d' j = Some (spec, st') \<and> runs st' = sat_add (runs st) 1)"

definition told :: "u64 list \<Rightarrow> bool list \<Rightarrow> reg_store \<Rightarrow> reg_store \<Rightarrow> bool" where
  "told ids did d d' \<longleftrightarrow>
     list_all2 (\<lambda>j b. if b then ran_once d d' j else parts d' j = parts d j) ids did
     \<and> (\<forall>j. j \<notin> set ids \<longrightarrow> parts d' j = parts d j)"

lemma parts_booked: "parts d j = Some (spec, st) \<Longrightarrow> parts (booked e c j spec st w b n d) i =
    (if i = j then Some (spec, state_after e c spec st b n) else parts d i)"
  by (auto simp: parts_def booked_def split: option.splits)

lemma parts_saved [simp]: "parts (saved_record a rec d) j = parts d j"
  by (simp add: parts_def split: option.split)

lemma told_saved [simp]: "told ids did d (saved_record a rec d') \<longleftrightarrow> told ids did d d'"
  by (simp add: told_def ran_once_def)

lemma told_Nil [simp]: "told [] [] d d"
  by (simp add: told_def)

lemma told_skipped:
  assumes "told ids did d' u" and "d' = d" and "j \<notin> set ids"
  shows "told (j # ids) (False # did) d u"
  using assms by (auto simp: told_def)

lemma told_ran:
  assumes "told ids did d' u" and "j \<notin> set ids" and "ran_once d d' j"
    and "\<And>i. i \<noteq> j \<Longrightarrow> parts d' i = parts d i"
  shows "told (j # ids) (True # did) d u"
proof -
  have old: "parts d' i = parts d i" if "i \<in> set ids" for i
    by (rule assms(4)) (use that assms(2) in auto)
  have same: "parts u j = parts d' j" using assms(1,2) by (simp add: told_def)
  have "list_all2 (\<lambda>i b. if b then ran_once d u i else parts u i = parts d i) ids did"
    using assms(1) unfolding told_def
    by (elim conjE list.rel_mono_strong) (simp add: ran_once_def old split: if_splits)
  then show ?thesis using assms same by (auto simp: told_def ran_once_def)
qed

lemma run_does_told:
  "run_does h e c exec a j acc s r t \<Longrightarrow>
   ran_once (storage s) (storage t) j \<and> (\<forall>i. i \<noteq> j \<longrightarrow> parts (storage t) i = parts (storage s) i)"
  by (auto simp: run_does_def became_def ran_once_def parts_booked)

lemma wp_run_jobs_told:
  "distinct ids \<Longrightarrow> wp (run_jobs h e c exec a acc ids)
     (\<lambda>(did, acc') t. told ids did (storage s) (storage t)) (\<lambda>_ _. False) True s"
proof (induction ids arbitrary: acc s)
  case (Cons j ids)
  then have ids: "distinct ids" "j \<notin> set ids" by simp_all
  have tail: "wp (run_jobs h e c exec a acc' ids) (\<lambda>p. wp (case p of (did, final) \<Rightarrow> ok (b # did, final))
      (\<lambda>(did, acc') u. told (j # ids) did (storage s) (storage u)) (\<lambda>_ _. False) True) (\<lambda>_ _. False) True t"
    if "\<And>did d. told ids did (storage t) d \<Longrightarrow> told (j # ids) (b # did) (storage s) d"
    for acc' b t
    by (rule wp_mono [OF Cons.IH [OF ids(1)]]) (use that in \<open>auto simp: wp_ok\<close>)
  show ?case
    unfolding run_jobs.simps wp_bind wp_attempt
  proof (rule wp_mono [OF wp_run_job])
    fix r t assume "run_does h e c exec a j acc s r t"
    from run_does_told [OF this]
    show "wp (run_jobs h e c exec a (case Inr r of Inl _ \<Rightarrow> acc | Inr acc' \<Rightarrow> acc') ids)
        (\<lambda>p. wp (case p of (did, final) \<Rightarrow> ok ((case Inr r of Inl _ \<Rightarrow> False | Inr _ \<Rightarrow> True) # did, final))
          (\<lambda>(did, acc') u. told (j # ids) did (storage s) (storage u)) (\<lambda>_ _. False) True) (\<lambda>_ _. False) True t"
      by (auto intro!: tail told_ran ids)
  next
    fix x t assume "run_refuses h e c a j s x t"
    then have "storage t = storage s" by (simp add: run_refuses_frame)
    then show "wp (run_jobs h e c exec a (case Inl x of Inl _ \<Rightarrow> acc | Inr acc' \<Rightarrow> acc') ids)
        (\<lambda>p. wp (case p of (did, final) \<Rightarrow> ok ((case Inl x of Inl _ \<Rightarrow> False | Inr _ \<Rightarrow> True) # did, final))
          (\<lambda>(did, acc') u. told (j # ids) did (storage s) (storage u)) (\<lambda>_ _. False) True) (\<lambda>_ _. False) True t"
      by (auto intro!: tail told_skipped ids)
  qed simp
qed (simp add: wp_ok)

lemma wp_batch_told:
  assumes "distinct ids"
  shows "wp (execute_batch h e a ids) (\<lambda>did t. told ids did (storage s) (storage t)) (\<lambda>_ _. True) True s"
proof -
  have loop: "wp (run_jobs h e c exec a acc ids)
      (\<lambda>p. wp (case p of (did, rec', pay) \<Rightarrow>
          andthen (save_record a rec') (andthen (settle h e c a pay) (ok did)))
        (\<lambda>did u. told ids did (storage s) (storage u)) (\<lambda>_ _. True) True) (\<lambda>_ _. True) True t"
    if "storage t = storage s" for c exec acc t
    by (rule wp_mono [OF wp_run_jobs_told [OF assms]])
      (use that in \<open>auto simp: wp_andthen [abs_def] wp_save_record wp_ok intro!: wp_settle_frame\<close>)
  show ?thesis
    by (auto simp: execute_batch_def authorize_keeper_def load_record_def wps loop
        split: option.split sum.split)
qed

text \<open>
  A batch tells what it did: for different jobs, a successful \<open>execute_batch\<close> answers true
  exactly for those that ran, each of which counts exactly one more run, leaves the terms of every
  job alone, and changes no other job, listed or not.
\<close>

theorem batch_tells_what_ran:
  assumes "execute_batch h e a ids s = (Ok did, t)" and "distinct ids"
  shows "told ids did (storage s) (storage t)"
  using wp_OkD [OF wp_batch_told [OF assms(2)] assms(1)] .

end
