(* ===== verification/KeeperChain.thy ===== *)
theory KeeperChain
  imports Batches RunLaws KeeperBot
begin

text \<open>
  The bot and the registry together. The interface between them is an RPC server on a chain that
  does not stand still: before every request anybody may act and time may pass, so a simulation
  answers for a state that can be gone when the transaction is applied. What the bot reports is
  related to what was applied on such a chain; a concrete server that runs the registry's code with
  foreign transactions in between meets the interface, and shows a tick whose report is wrong.
\<close>

section \<open>A moving chain\<close>

text \<open>Any number of steps of the registry: transactions of anybody, at any time, and the outside.\<close>

abbreviation moved :: "'w host \<Rightarrow> address \<Rightarrow> 'w registry \<Rightarrow> 'w registry \<Rightarrow> bool" where
  "moved h a \<equiv> (step h a)\<^sup>*\<^sup>*"

text \<open>The registry is called at its own address, and it does not sign for itself.\<close>

abbreviation lawful :: "address \<Rightarrow> env \<Rightarrow> bool" where
  "lawful a e \<equiv> me e = a \<and> \<not> authorized e a"

text \<open>
  A history from one state to another in which the keeper had batches applied, in order. Each
  entry has the ids of its batch, the answer its simulation gave at some state of the history,
  and the answer the registry gave when the batch was applied, at a state that may lie any number
  of steps later; by the latter answer each job of the batch either counts one run more or is as it
  was, and so are all others.
\<close>

type_synonym batch_entry = "u64 list \<times> bool list \<times> bool list"

inductive history ::
  "'w host \<Rightarrow> address \<Rightarrow> address \<Rightarrow> batch_entry list \<Rightarrow> 'w registry \<Rightarrow> 'w registry \<Rightarrow> bool"
  for h a k where
  quiet: "moved h a s t \<Longrightarrow> history h a k [] s t"
| applied: "moved h a s s0 \<Longrightarrow> lawful a e0 \<Longrightarrow> execute_batch h e0 k ids s0 = (Ok expected, u)
    \<Longrightarrow> moved h a s0 s1 \<Longrightarrow> lawful a e1 \<Longrightarrow> execute_batch h e1 k ids s1 = (Ok did, s2)
    \<Longrightarrow> told ids did (storage s1) (storage s2) \<Longrightarrow> history h a k entries s2 t
    \<Longrightarrow> history h a k ((ids, expected, did) # entries) s t"

lemma moved_history: "moved h a s s0 \<Longrightarrow> history h a k entries s0 t \<Longrightarrow> history h a k entries s t"
  by (erule history.cases) (auto intro: history.intros rtranclp_trans)

text \<open>How many jobs the simulations of a history promised.\<close>

definition promised :: "batch_entry list \<Rightarrow> nat" where
  "promised entries = sum_list (map (\<lambda>(ids, expected, did). length (ran_jobs ids expected)) entries)"

lemma promised_simps [simp]:
  "promised [] = 0"
  "promised ((ids, expected, did) # entries) = length (ran_jobs ids expected) + promised entries"
  by (simp_all add: promised_def)

lemma batch_size_ok:
  "wp (execute_batch h e a ids) (\<lambda>_ _. ids \<noteq> []) (\<lambda>_ _. True) True s"
  by (cases "ids = []") (simp_all add: execute_batch_def wps)

text \<open>Every entry has a job, and no simulation promises more jobs than it was given.\<close>

lemma history_sizes:
  "history h a k entries s t \<Longrightarrow>
    length entries \<le> length (concat (map fst entries)) \<and> promised entries \<le> length (concat (map fst entries))"
proof (induction rule: history.induct)
  case (applied s s0 e0 ids expected u s1 e1 did s2 entries t)
  have "ids \<noteq> []" using wp_OkD [OF batch_size_ok applied(3)] .
  then have "1 \<le> length ids" by (cases ids) simp_all
  moreover have "length (ran_jobs ids expected) \<le> length ids"
    by (rule list_emb_length [OF ran_jobs_subseq])
  ultimately show ?case using applied.IH by simp
qed simp

lemma history_append:
  "history h a k entries s t \<Longrightarrow> history h a k later t u \<Longrightarrow> history h a k (entries @ later) s u"
  by (induction rule: history.induct) (auto intro: moved_history history.applied)

lemma batch_step: "lawful a e \<Longrightarrow> execute_batch h e k ids s = (Ok did, t) \<Longrightarrow> step h a s t"
  by (rule step.call [where e = e and x = "ExecuteBatch k ids" and r = "Ok ()"])
    (simp_all add: void_def bind_def ok_def)

text \<open>A history is itself a sequence of steps: what the bot did is part of what happened.\<close>

lemma history_moved: "history h a k entries s t \<Longrightarrow> moved h a s t"
proof (induction rule: history.induct)
  case (applied s s0 e0 ids expected u s1 e1 did s2 entries t)
  show ?case
    using applied(1,4) batch_step [OF applied(5,6)] applied.IH
    by (meson rtranclp.rtrancl_into_rtrancl rtranclp_trans)
qed

section \<open>The interface\<close>

locale live_server =
  fixes r :: "('k, 'c) bot_registry" and chain :: "'c \<Rightarrow> 'w registry"
    and h :: "'w host" and a :: address and keeper :: address
  assumes account_moves: "get_account (bot_rpc r) x w = (n, w') \<Longrightarrow> moved h a (chain w) (chain w')"
    and simulation_moves: "simulate_envelope (bot_rpc r) e w = (y, w') \<Longrightarrow> moved h a (chain w) (chain w')"
    and sending_moves: "send_polling (bot_rpc r) e w = (z, w') \<Longrightarrow> moved h a (chain w) (chain w')"
    and simulated_batch:
      "simulate_envelope (bot_rpc r) (unsigned_envelope tx) w = (Inr sim, w') \<Longrightarrow>
       tx_operations tx = [call_of r ''execute_batch'' (batch_args r ids) []] \<Longrightarrow>
       sim_error sim = None \<Longrightarrow> sim_results sim = Inr rs \<Longrightarrow>
       \<exists>e0 expected u. lawful a e0 \<and> execute_batch h e0 keeper ids (chain w') = (Ok expected, u)
         \<and> fst (first_result rs) = ScVec (Some (map ScBool expected))"
    and sent_batch:
      "send_polling (bot_rpc r) e w = (Inr ''SUCCESS'', w') \<Longrightarrow>
       tx_operations (env_tx e) = [call_of r ''execute_batch'' (batch_args r ids) entries] \<Longrightarrow>
       \<exists>s1 e1 did s2. moved h a (chain w) s1 \<and> lawful a e1
         \<and> execute_batch h e1 keeper ids s1 = (Ok did, s2) \<and> moved h a s2 (chain w')"

section \<open>What the bot does on it\<close>

lemma length_ran_flags_bools: "ran_flags (ScVec (Some (map ScBool did))) (length did) = did"
  by (rule nth_equalityI) (simp_all add: ran_flags_def)

text \<open>What a simulation that was answered at \<open>w'\<close> returns.\<close>

definition simulated :: "('k, 'c) bot_registry \<Rightarrow> symbol \<Rightarrow> scval list \<Rightarrow> 'c \<Rightarrow>
    string + transaction \<times> simulation \<times> scval \<Rightarrow> bool" where
  "simulated r f xs w' x \<longleftrightarrow>
     (case x of
        Inl _ \<Rightarrow> True
      | Inr (tx, sim, v) \<Rightarrow>
          tx_operations tx = [call_of r f xs []] \<and> sim_error sim = None
          \<and> (\<exists>w. simulate_envelope (bot_rpc r) (unsigned_envelope tx) w = (Inr sim, w'))
          \<and> (\<exists>rs. sim_results sim = Inr rs \<and> v = fst (first_result rs)))"

text \<open>A transaction that does nothing but the call succeeded.\<close>

definition delivered :: "('k, 'c) bot_registry \<Rightarrow> symbol \<Rightarrow> scval list \<Rightarrow> 'c \<Rightarrow> 'c \<Rightarrow> bool" where
  "delivered r f xs w w' \<longleftrightarrow>
     (\<exists>e entries. tx_operations (env_tx e) = [call_of r f xs entries]
        \<and> send_polling (bot_rpc r) e w = (Inr ''SUCCESS'', w'))"

lemma wp_ask_case:
  "wp (ask f) Q E T s = (case f (net s) of (x, n) \<Rightarrow>
     (case x of Inl e \<Rightarrow> E e (s\<lparr>net := n\<rparr>) | Inr y \<Rightarrow> Q y (s\<lparr>net := n\<rparr>)))"
  by (simp add: wp_def ask_def lift_result_def ok_def err_def split: prod.split sum.split)

text \<open>A request: what it answered, and that the server went on.\<close>

lemma wp_request:
  assumes "\<And>w x w'. f w = (x, w') \<Longrightarrow> R w w'" and "\<And>x n. f (net s) = (Inr x, n) \<Longrightarrow> R (net s) n \<Longrightarrow> Q x (s\<lparr>net := n\<rparr>)"
    and "\<And>e n. R (net s) n \<Longrightarrow> E e (s\<lparr>net := n\<rparr>)"
  shows "wp (ask f) Q E T s"
  using assms
  by (cases "f (net s)") (auto simp: wp_def ask_def lift_result_def ok_def err_def split: sum.split)

text \<open>What one outcome adds: the batch, when it was executed, and the jobs promised by its simulation.\<close>

fun sent_jobs :: "u64 list \<Rightarrow> 'e + batch_outcome \<Rightarrow> u64 list" where
  "sent_jobs batch (Inr (BatchExecuted run earned hash)) = batch"
| "sent_jobs batch _ = []"

fun promising :: "'e + batch_outcome \<Rightarrow> u64 list" where
  "promising (Inr (BatchExecuted run earned hash)) = run"
| "promising (Inr (BatchSimulated run)) = run"
| "promising _ = []"

fun executions :: "'e + batch_outcome \<Rightarrow> nat" where
  "executions (Inr (BatchExecuted run earned hash)) = 1"
| "executions _ = 0"

lemma step_counts:
  assumes "sound_outcome batch x" and "after_batch batch x (queue, s, q) = (queue', s', q')"
  shows "ts_executed s' = ts_executed s + of_nat (length (promising x))"
    and "ts_batches s' = ts_batches s + of_nat (executions x)"
    and "mset (sent_jobs batch x) + mset (concat queue') \<subseteq># mset batch + mset (concat queue)"
proof -
  show "ts_executed s' = ts_executed s + of_nat (length (promising x))"
    "ts_batches s' = ts_batches s + of_nat (executions x)"
    using assms(2)
    by (cases "(batch, x, queue, s, q)" rule: after_batch.cases; auto simp: len64_def split: if_splits)+
  show "mset (sent_jobs batch x) + mset (concat queue') \<subseteq># mset batch + mset (concat queue)"
  proof (cases "sent_jobs batch x = []")
    case True
    then show ?thesis using step_part [OF assms] by simp
  next
    case False
    then show ?thesis
      using assms(2) by (cases "(batch, x, queue, s, q)" rule: after_batch.cases) auto
  qed
qed

context live_server
begin

definition went_on :: "'c wire \<Rightarrow> 'c wire \<Rightarrow> bool" where
  "went_on s t \<longleftrightarrow> moved h a (chain (net s)) (chain (net t))"

lemma went_on_refl [simp]: "went_on s s"
  by (simp add: went_on_def)

lemma went_on_trans [trans]: "went_on s t \<Longrightarrow> went_on t u \<Longrightarrow> went_on s u"
  by (auto simp: went_on_def)

lemma wp_next_sequence: "wp (next_sequence r) (\<lambda>_. went_on s) (\<lambda>_. went_on s) T s"
  unfolding next_sequence_def wp_bind wp_attempt
  by (rule wp_request [where R = "\<lambda>w w'. moved h a (chain w) (chain w')"], erule account_moves)
    (simp_all add: wps went_on_def)

lemma wp_simulate:
  "wp (bot_simulate r f xs) (\<lambda>x t. went_on s t \<and> simulated r f xs (net t) x) (\<lambda>_. went_on s) T s"
proof -
  have sim: "wp (ask (simulate_envelope (bot_rpc r) (unsigned_envelope tx))) (\<lambda>sim. wp
      (case sim_error sim of Some e \<Rightarrow> ok (Inl (describe_error e))
       | None \<Rightarrow> bind (lift_result (sim_results sim)) (\<lambda>rs. ok (Inr (tx, sim, fst (first_result rs)))))
      (\<lambda>x t. went_on s t \<and> simulated r f xs (net t) x) (\<lambda>_. went_on s) T) (\<lambda>_. went_on s) T v"
    if v: "went_on s v" and tx: "tx_operations tx = [call_of r f xs []]" for tx v
  proof (rule wp_request [where R = "\<lambda>w w'. moved h a (chain w) (chain w')"])
    fix sim n
    assume answer: "simulate_envelope (bot_rpc r) (unsigned_envelope tx) (net v) = (Inr sim, n)"
      and "moved h a (chain (net v)) (chain n)"
    then have on: "went_on s (v\<lparr>net := n\<rparr>)" using v by (simp add: went_on_def)
    show "wp (case sim_error sim of Some e \<Rightarrow> ok (Inl (describe_error e))
         | None \<Rightarrow> bind (lift_result (sim_results sim)) (\<lambda>rs. ok (Inr (tx, sim, fst (first_result rs)))))
        (\<lambda>x t. went_on s t \<and> simulated r f xs (net t) x) (\<lambda>_. went_on s) T (v\<lparr>net := n\<rparr>)"
      using on tx answer by (auto simp: wps simulated_def split: option.split sum.split)
  qed (use v in \<open>auto simp: went_on_def intro: simulation_moves\<close>)
  show ?thesis
    unfolding bot_simulate_def tx_invoke_def wp_bind wp_within wp_ok
    by (rule wp_mono [OF wp_next_sequence]) (auto simp: call_of_def intro!: sim)
qed

lemma wp_total_fees: "wp (total_fees r earned ids) (\<lambda>_. went_on s) (\<lambda>_. went_on s) T s"
proof (induction ids arbitrary: earned s)
  case (Cons i ids)
  have fee: "wp (bot_current_fee r i) (\<lambda>_. went_on s) (\<lambda>_. went_on s) T s"
    unfolding bot_current_fee_def wp_bind by (rule wp_mono [OF wp_simulate]) (auto simp: wp_ok)
  show ?case
    unfolding total_fees.simps wp_bind
    by (rule wp_mono [OF fee]) (auto intro!: wp_mono [OF Cons.IH] intro: went_on_trans)
qed (simp add: wp_ok)

lemma wp_send:
  assumes "tx_operations tx = [call_of r f xs []]"
  shows "wp (bot_send r tx sim) (\<lambda>_ t. delivered r f xs (net s) (net t)) (\<lambda>_. went_on s) T s"
proof -
  have submit: "wp (bot_submit r e hash) (\<lambda>_ t. delivered r f xs (net s) (net t)) (\<lambda>_. went_on s) T s"
    if "tx_operations (env_tx e) = [call_of r f xs entries]" for e hash entries
    unfolding bot_submit_def wp_andthen wp_modify wp_bind
    by (rule wp_request [where R = "\<lambda>w w'. moved h a (chain w) (chain w')"], erule sending_moves)
      (use that in \<open>auto simp: wps delivered_def went_on_def\<close>)
  show ?thesis
    unfolding bot_send_def tx_assemble_def tx_sign_def hex_hash_def Let_def
    using assms
    by (auto simp: wps call_of_def authorize_def split: sum.split option.split
        intro!: submit [unfolded call_of_def])
qed

lemma wp_decide:
  assumes "tx_operations tx = [call_of r f xs []]" and s: "went_on s0 s"
  shows "wp (bot_decide r tx sim native run) (\<lambda>x t. case x of
      BatchExecuted done earned hash \<Rightarrow> done = run \<and> (\<exists>m. went_on s m \<and> delivered r f xs (net m) (net t))
    | BatchSimulated done \<Rightarrow> dry_run (bot_conf r)
    | _ \<Rightarrow> went_on s0 t) (\<lambda>_. went_on s0) T s"
proof -
  have send: "wp (bot_send r tx sim) (\<lambda>_ t. \<exists>m. went_on s m \<and> delivered r f xs (net m) (net t)) (\<lambda>_. went_on s0) T u"
    if "went_on s u" for u
    by (rule wp_mono [OF wp_send [OF assms(1)]]) (use that s in \<open>auto intro: went_on_trans\<close>)
  show ?thesis
    unfolding bot_decide_def wp_bind Let_def
    by (rule wp_mono [OF wp_total_fees])
      (use s in \<open>auto simp: wp_ok wp_bind intro!: wp_mono [OF send] intro: went_on_trans\<close>)
qed

text \<open>One batch: executed means that it is in the history, with the jobs its simulation promised.\<close>

definition recorded :: "u64 list \<Rightarrow> 'c wire \<Rightarrow> batch_outcome \<Rightarrow> 'c wire \<Rightarrow> bool" where
  "recorded ids w x v \<longleftrightarrow>
     (case x of
        BatchExecuted run earned hash \<Rightarrow>
          \<exists>expected did. run = ran_jobs ids expected
            \<and> history h a keeper [(ids, expected, did)] (chain (net w)) (chain (net v))
      | BatchSimulated run \<Rightarrow> dry_run (bot_conf r)
      | _ \<Rightarrow> went_on w v)"

lemma wp_batch:
  assumes "distinct ids"
  shows "wp (bot_execute_batch r ids native) (recorded ids w) (\<lambda>_. went_on w) True w"
proof -
  have decided: "wp (bot_decide r tx sim native (ran_jobs ids (ran_flags v (length ids)))) (recorded ids w)
      (\<lambda>_. went_on w) True w0"
    if w0: "went_on w w0" and sim: "simulated r ''execute_batch'' (batch_args r ids) (net w0) (Inr (tx, sim, v))"
    for tx sim v w0
  proof -
    obtain rs w' where tx: "tx_operations tx = [call_of r ''execute_batch'' (batch_args r ids) []]" "sim_error sim = None"
      "simulate_envelope (bot_rpc r) (unsigned_envelope tx) w' = (Inr sim, net w0)"
      "sim_results sim = Inr rs" "v = fst (first_result rs)"
      using sim by (auto simp: simulated_def)
    obtain e0 expected u where e0: "lawful a e0" "execute_batch h e0 keeper ids (chain (net w0)) = (Ok expected, u)"
      "v = ScVec (Some (map ScBool expected))"
      using simulated_batch [OF tx(3,1,2,4)] tx(5) by auto
    have "told ids expected (storage (chain (net w0))) (storage u)"
      using wp_OkD [OF wp_batch_told [OF assms] e0(2)] .
    then have flags: "ran_flags v (length ids) = expected"
      by (auto simp: told_def e0(3) length_ran_flags_bools dest!: list_all2_lengthD)
    have entry: "\<exists>did. history h a keeper [(ids, expected, did)] (chain (net w)) (chain (net t))"
      if m: "went_on w0 m" "delivered r ''execute_batch'' (batch_args r ids) (net m) (net t)" for m t
    proof -
      obtain e entries where "tx_operations (env_tx e) = [call_of r ''execute_batch'' (batch_args r ids) entries]"
        "send_polling (bot_rpc r) e (net m) = (Inr ''SUCCESS'', net t)"
        using m(2) by (auto simp: delivered_def)
      from sent_batch [OF this(2,1)] obtain s1 e1 did s2 where s1: "moved h a (chain (net m)) s1"
        "lawful a e1" "execute_batch h e1 keeper ids s1 = (Ok did, s2)" "moved h a s2 (chain (net t))"
        by blast
      have "moved h a (chain (net w0)) s1" using m(1) s1(1) by (auto simp: went_on_def)
      from history.applied [OF w0 [unfolded went_on_def] e0(1,2) this s1(2,3)
          wp_OkD [OF wp_batch_told [OF assms] s1(3)] history.quiet [OF s1(4)]]
      show ?thesis by blast
    qed
    show ?thesis
      unfolding flags
      by (rule wp_mono [OF wp_decide [OF tx(1) w0]])
        (auto simp: recorded_def dest: entry split: batch_outcome.splits)
  qed
  then show ?thesis
    unfolding bot_execute_batch_def wp_bind wp_within
    by (auto intro!: wp_mono [OF wp_simulate] simp: batch_args_def wps Let_def recorded_def split: sum.split)
qed

text \<open>One batch as the loop sees it: its entry in the history, if it has one.\<close>

lemma batch_entries:
  assumes "\<not> dry_run (bot_conf r)" and "distinct batch"
    and "attempt (\<lambda>w. bot_execute_batch r batch native w) w = (Ok x, u)"
  obtains entries where "history h a keeper entries (chain (net w)) (chain (net u))"
    and "length entries = executions x" and "promised entries = length (promising x)"
    and "concat (map fst entries) = sent_jobs batch x"
proof (cases x)
  case (Inl e)
  then have "bot_execute_batch r batch native w = (Err e, u)"
    using assms(3) by (auto simp: attempt_def split: prod.splits outcome.splits)
  then have "went_on w u" using wp_batch [OF assms(2), of native w] by (simp add: wp_def)
  then show ?thesis by (intro that [of "[]"]) (simp_all add: Inl went_on_def history.quiet)
next
  case (Inr y)
  then have "bot_execute_batch r batch native w = (Ok y, u)"
    using assms(3) by (auto simp: attempt_def split: prod.splits outcome.splits)
  from wp_OkD [OF wp_batch [OF assms(2)] this] have y: "recorded batch w y u" .
  show ?thesis
  proof (cases "\<exists>run earned hash. y = BatchExecuted run earned hash")
    case True
    then obtain run earned hash expected did where "y = BatchExecuted run earned hash" "run = ran_jobs batch expected"
      "history h a keeper [(batch, expected, did)] (chain (net w)) (chain (net u))"
      using y by (auto simp: recorded_def)
    then show ?thesis by (intro that [of "[(batch, expected, did)]"]) (simp_all add: Inr)
  next
    case False
    then have "went_on w u" "executions x = 0" "promising x = []" "sent_jobs batch x = []"
      using y assms(1) by (cases y; simp add: recorded_def Inr)+
    then show ?thesis by (intro that [of "[]"]) (simp_all add: went_on_def history.quiet)
  qed
qed

lemma drain_recorded:
  assumes "\<not> dry_run (bot_conf r)"
  shows "drain (\<lambda>ids. bot_execute_batch r ids native) n (queue, s, q) w = (Ok (Some (s', q')), v) \<Longrightarrow>
    distinct (concat queue) \<Longrightarrow>
    \<exists>entries. history h a keeper entries (chain (net w)) (chain (net v))
      \<and> ts_batches s' = ts_batches s + of_nat (length entries)
      \<and> ts_executed s' = ts_executed s + of_nat (promised entries)
      \<and> mset (concat (map fst entries)) \<subseteq># mset (concat queue)"
proof (induction n arbitrary: queue s q w)
  case 0
  then show ?case by (cases queue) (auto intro!: exI [of _ "[]"] history.quiet)
next
  case (Suc n)
  show ?case
  proof (cases queue)
    case Nil
    then show ?thesis using Suc.prems by (auto intro!: exI [of _ "[]"] history.quiet)
  next
    case (Cons batch rest)
    have batch: "distinct batch" using Suc.prems(2) Cons by auto
    obtain x u where x: "attempt (\<lambda>w. bot_execute_batch r batch native w) w = ((Ok x, u) :: (tx_error, tx_error + batch_outcome) outcome \<times> 'c wire)"
      and snd: "sound_outcome batch x"
      by (rule keeper.step [where ids = batch and w = w and native = native and r = r]) blast
    obtain entries where e: "history h a keeper entries (chain (net w)) (chain (net u))"
      "length entries = executions x" "promised entries = length (promising x)"
      "concat (map fst entries) = sent_jobs batch x"
      by (rule batch_entries [OF assms batch x])
    obtain queue1 s1 q1 where after: "after_batch batch x (rest, s, q) = (queue1, s1, q1)"
      by (cases "after_batch batch x (rest, s, q)")
    note counts = step_counts [OF snd after]
    have whole: "mset (sent_jobs batch x) + mset (concat queue1) \<subseteq># mset (concat queue)"
      using counts(3) Cons by simp
    have apart: "distinct (sent_jobs batch x @ concat queue1)"
      by (rule distinct_part [of _ "concat queue"]) (use whole Suc.prems(2) in simp_all)
    have "drain (\<lambda>ids. bot_execute_batch r ids native) n (queue1, s1, q1) u = (Ok (Some (s', q')), v)"
      using Suc.prems(1) Cons x after by (simp add: bind_def)
    from Suc.IH [OF this] obtain later where IH:
      "history h a keeper later (chain (net u)) (chain (net v))"
      "ts_batches s' = ts_batches s1 + of_nat (length later)"
      "ts_executed s' = ts_executed s1 + of_nat (promised later)"
      "mset (concat (map fst later)) \<subseteq># mset (concat queue1)"
      using apart by auto
    have "mset (concat (map fst (entries @ later))) \<subseteq># mset (concat queue)"
      using whole IH(4) e(4) by (simp add: subset_mset.order_trans [OF subset_mset.add_left_mono])
    moreover have "promised (entries @ later) = length (promising x) + promised later"
      using e(3) by (simp add: promised_def)
    ultimately show ?thesis
      using history_append [OF e(1) IH(1)] IH(2,3) counts(1,2) e(2)
      by (intro exI [of _ "entries @ later"]) simp
  qed
qed

lemma wp_reads:
  "wp (bot_job_count r) (\<lambda>_. went_on w) (\<lambda>_. went_on w) T w"
  "wp (bot_is_due r i) (\<lambda>_. went_on w) (\<lambda>_. went_on w) T w"
  unfolding bot_job_count_def bot_is_due_def wp_bind
  by (rule wp_mono [OF wp_simulate], auto simp: wps split: sum.split scval.split)+

lemma wp_due: "wp (due_jobs r ids) (\<lambda>due t. went_on w t \<and> subseq due ids) (\<lambda>_. went_on w) T w"
proof (induction ids arbitrary: w)
  case (Cons i ids)
  have rest: "wp (due_jobs r ids) (\<lambda>due. wp (ok (if d then i # due else due))
      (\<lambda>due t. went_on w t \<and> subseq due (i # ids)) (\<lambda>_. went_on w) T) (\<lambda>_. went_on w) T v"
    if "went_on w v" for d v
    by (rule wp_mono [OF Cons.IH]) (use that in \<open>auto simp: wp_ok intro: went_on_trans\<close>)
  show ?case
    unfolding due_jobs.simps wp_bind by (rule wp_mono [OF wp_reads(2)]) (auto intro: rest)
qed (simp add: wp_ok)

lemma tick_recorded:
  assumes "\<not> dry_run (bot_conf r)"
  shows "wp (tick r most native) (\<lambda>x t. \<forall>s. x = Some s \<longrightarrow>
      (\<exists>entries. history h a keeper entries (chain (net (wire b))) (chain (net (wire t)))
        \<and> length entries = unat (ts_batches s) \<and> promised entries = unat (ts_executed s)
        \<and> distinct (concat (map fst entries)))) (\<lambda>_ _. True) True b"
    (is "wp _ ?Q _ _ _")
proof -
  have drained: "wp (drain_bot r native (starting_work (set_apart c) n due most)) ?Q (\<lambda>_ _. True) True c"
    if due: "subseq due (map of_nat [0..<unat n])" and c: "went_on (wire b) (wire c)" for c n due
  proof -
    let ?w = "filter (\<lambda>i. until_tick (set_apart c) i = None) due"
    have few: "length ?w \<le> unat n"
      using list_emb_length [OF due] by (intro order_trans [OF length_filter_le]) simp
    obtain s where w: "starting_work (set_apart c) n due most = (batches ?w most, s, set_apart c)"
      and s: "ts_executed s = 0" "ts_batches s = 0"
      by (simp add: starting_work_def Let_def no_summary_def)
    have all: "concat (batches ?w most) = ?w"
      by (simp add: batches_def concat_chunks)
    have distinct: "distinct (concat (batches ?w most))"
      unfolding all by (rule distinct_filter [OF subseq_distinct [OF due distinct_u64s]])
    have "\<exists>entries. history h a keeper entries (chain (net (wire b))) (chain (net v))
        \<and> length entries = unat (ts_batches s') \<and> promised entries = unat (ts_executed s')
        \<and> distinct (concat (map fst entries))"
      if d: "drain (\<lambda>ids. bot_execute_batch r ids native) (efforts (batches ?w most))
          (batches ?w most, s, set_apart c) (wire c) = (Ok (Some (s', q')), v)" for s' q' v
    proof -
      obtain entries where e: "history h a keeper entries (chain (net (wire c))) (chain (net v))"
        "ts_batches s' = of_nat (length entries)" "ts_executed s' = of_nat (promised entries)"
        "mset (concat (map fst entries)) \<subseteq># mset ?w"
        using drain_recorded [OF assms d distinct] s unfolding all by auto
      have "length (concat (map fst entries)) \<le> length ?w"
        using size_mset_mono [OF e(4)] by (simp only: size_mset)
      then have "length entries \<le> length ?w" "promised entries \<le> length ?w"
        using history_sizes [OF e(1)] by simp_all
      then have "length entries = unat (ts_batches s')" "promised entries = unat (ts_executed s')"
        using e(2,3) few unat_u64_bound [of n] by (simp_all add: unat_of_nat)
      moreover have "distinct (concat (map fst entries))" using distinct_part [OF e(4)] distinct all by simp
      ultimately show ?thesis using moved_history [OF c [unfolded went_on_def] e(1)] by blast
    qed
    then show ?thesis
      by (auto simp: wp_def drain_bot_def w split: prod.split outcome.split option.split)
  qed
  note drain_now = drained [where c = "b\<lparr>set_apart := next_tick (set_apart b), wire := v\<rparr>" for v, simplified]
  show ?thesis
    unfolding tick_def wp_andthen wp_modify wp_bind wp_on_wire wp_gets
    by (rule wp_mono [OF wp_reads(1)], simp_all)
      (rule wp_mono [OF wp_due], auto intro!: drain_now intro: went_on_trans)
qed

end

section \<open>A server that runs the registry\<close>

text \<open>What a transaction with one contract call asks for.\<close>

definition invocation_of :: "operation \<Rightarrow> (symbol \<times> scval list) option" where
  "invocation_of op = (case op_body op of InvokeHostFunction a f xs entries \<Rightarrow> Some (f, xs) | _ \<Rightarrow> None)"

definition request :: "envelope \<Rightarrow> (symbol \<times> scval list) option" where
  "request x = (case tx_operations (env_tx x) of [op] \<Rightarrow> invocation_of op | _ \<Rightarrow> None)"

definition u64_of :: "scval \<Rightarrow> u64 option" where
  "u64_of v = (case v of ScU64 n \<Rightarrow> Some n | _ \<Rightarrow> None)"

definition ids_of :: "scval \<Rightarrow> u64 list option" where
  "ids_of v = (case v of ScVec (Some vs) \<Rightarrow> those (map u64_of vs) | _ \<Rightarrow> None)"

definition first_u64 :: "scval list \<Rightarrow> u64 option" where
  "first_u64 xs = (case xs of [v] \<Rightarrow> u64_of v | _ \<Rightarrow> None)"

text \<open>A contract's answer, or the host's message about its error.\<close>

definition answered ::
  "('a \<Rightarrow> scval) \<Rightarrow> (error, 'a) outcome \<times> 's \<Rightarrow> (string + scval) \<times> 's" where
  "answered v x =
     (case fst x of
        Ok y \<Rightarrow> Inr (v y)
      | Err e \<Rightarrow> Inl (''HostError: Error(Contract, #'' @ show_nat (error_code e) @ '')'')
      | Trap \<Rightarrow> Inl ''HostError: Error(WasmVm, InvalidAction)'', snd x)"

definition registry_answer ::
  "'w host \<Rightarrow> env \<Rightarrow> (scval \<Rightarrow> address) \<Rightarrow> symbol \<Rightarrow> scval list \<Rightarrow> 'w registry \<Rightarrow>
    (string + scval) \<times> 'w registry" where
  "registry_answer h e who f xs s =
     (if f = ''job_count'' then answered ScU64 (job_count s)
      else if f = ''is_due'' then
        (case first_u64 xs of
           Some i \<Rightarrow> answered ScBool (is_due h e i s) | None \<Rightarrow> (Inl ''bad call'', s))
      else if f = ''current_fee'' then
        (case first_u64 xs of
           Some i \<Rightarrow> answered (\<lambda>fee. case fee of None \<Rightarrow> ScVoid | Some n \<Rightarrow> parts_of n) (current_fee e i s)
         | None \<Rightarrow> (Inl ''bad call'', s))
      else if f = ''execute_batch'' \<and> length xs = 2 then
        (case ids_of (xs ! 1) of
           Some ids \<Rightarrow>
             answered (\<lambda>did. ScVec (Some (map ScBool did))) (transact (execute_batch h e (who (xs ! 0)) ids) s)
         | None \<Rightarrow> (Inl ''bad call'', s))
      else (Inl ''no such function'', s))"

text \<open>
  What happens on the chain is a script: before request \<open>n\<close>, the clock shows \<open>script n\<close>'s time
  and the operations it lists are carried out, signed by anybody but the registry. The state is the
  registry and the number of requests so far. A simulation answers what the call would return then,
  and asks for the caller's signature as the transaction's source. A sent transaction that fails
  changes nothing, and one that only reads keeps what is there.
\<close>

type_synonym script = "nat \<Rightarrow> env \<times> op list"

definition lawful_env :: "address \<Rightarrow> env \<Rightarrow> env" where
  "lawful_env a e = e\<lparr>me := a, authorized := (\<lambda>x. x \<noteq> a \<and> authorized e x)\<rparr>"

fun foreign :: "'w host \<Rightarrow> env \<Rightarrow> op list \<Rightarrow> 'w registry \<Rightarrow> 'w registry" where
  "foreign h e [] s = s"
| "foreign h e (x # xs) s = foreign h e xs (if typed_op x then snd (transact (perform h e x) s) else s)"

definition moment :: "address \<Rightarrow> script \<Rightarrow> 'w registry \<times> nat \<Rightarrow> env" where
  "moment a script n = lawful_env a (fst (script (snd n)))"

definition advance :: "'w host \<Rightarrow> address \<Rightarrow> script \<Rightarrow> 'w registry \<times> nat \<Rightarrow> 'w registry \<times> nat" where
  "advance h a script n = (foreign h (moment a script n) (snd (script (snd n))) (fst n), Suc (snd n))"

definition simulation_of :: "(string + scval) \<Rightarrow> auth_entry list \<Rightarrow> simulation" where
  "simulation_of x entries =
     (case x of
        Inl m \<Rightarrow> \<lparr>sim_error = Some m, sim_results = Inr [], sim_data = Inr [], min_resource_fee = 0\<rparr>
      | Inr v \<Rightarrow> \<lparr>sim_error = None, sim_results = Inr [(v, entries)], sim_data = Inr [], min_resource_fee = 100\<rparr>)"

definition registry_server ::
  "'w host \<Rightarrow> address \<Rightarrow> script \<Rightarrow> (scval \<Rightarrow> address) \<Rightarrow> bytes \<Rightarrow> ('w registry \<times> nat) rpc_client" where
  "registry_server h a script who contract =
     \<lparr>get_account = (\<lambda>_ n. (Inr 0, advance h a script n)),
      simulate_envelope = (\<lambda>x n.
        (case request x of
           None \<Rightarrow> (Inl (Message ''no call''), advance h a script n)
         | Some (f, xs) \<Rightarrow>
             (Inr (simulation_of
                (fst (registry_answer h (moment a script n) who f xs (fst (advance h a script n))))
                [\<lparr>auth_credentials = SourceAccount,
                  root_invocation = Invocation (ContractFn (ScContract contract) f xs) []\<rparr>]),
              advance h a script n))),
      send_polling = (\<lambda>x n.
        (case request x of
           None \<Rightarrow> (Inl (Message ''no call''), advance h a script n)
         | Some (f, xs) \<Rightarrow>
             (case registry_answer h (moment a script n) who f xs (fst (advance h a script n)) of
                (Inl m, t) \<Rightarrow> (Inr ''FAILED'', advance h a script n)
              | (Inr v, t) \<Rightarrow>
                  (Inr ''SUCCESS'',
                   if f = ''execute_batch'' then (t, Suc (snd n)) else advance h a script n))))\<rparr>"

abbreviation registry_client ::
  "'w host \<Rightarrow> address \<Rightarrow> script \<Rightarrow> (scval \<Rightarrow> address) \<Rightarrow> 'k bot_config \<Rightarrow> 'k crypto \<Rightarrow>
    ('k, 'w registry \<times> nat) bot_registry" where
  "registry_client h a script who conf crypto \<equiv>
     \<lparr>bot_rpc = registry_server h a script who (registry_id conf), bot_conf = conf, bot_crypto = crypto\<rparr>"

lemma u64_of_id [simp]: "u64_of (ScU64 i) = Some i"
  by (simp add: u64_of_def)

lemma those_u64 [simp]: "those (map (u64_of \<circ> ScU64) ids) = Some ids"
  by (induction ids) simp_all

lemma ids_of_batch [simp]: "ids_of (ScVec (Some (map ScU64 ids))) = Some ids"
  by (simp add: ids_of_def)

lemma request_call [simp]:
  "tx_operations tx = [call_of r f xs entries] \<Longrightarrow> request (unsigned_envelope tx) = Some (f, xs)"
  "tx_operations (env_tx x) = [call_of r f xs entries] \<Longrightarrow> request x = Some (f, xs)"
  by (simp_all add: request_def invocation_of_def unsigned_envelope_def call_of_def)

lemma answer_batch:
  "registry_answer h e who ''execute_batch'' (batch_args r ids) s =
     answered (\<lambda>did. ScVec (Some (map ScBool did)))
       (transact (execute_batch h e (who (account_address (bot_crypto r) (keeper_key (bot_conf r)))) ids) s)"
  by (simp add: registry_answer_def batch_args_def)

lemma answered_pair: "answered f x = (Inr v, t) \<Longrightarrow> \<exists>y. x = (Ok y, t)"
  by (cases x) (auto simp: answered_def split: outcome.splits)

lemma answered_value:
  "fst (answered f x) = Inr v \<Longrightarrow> \<exists>y. x = (Ok y, snd (answered f x)) \<and> v = f y"
  by (cases x) (auto simp: answered_def split: outcome.splits)

text \<open>Whatever the script says, the chain only takes steps of the registry.\<close>

lemma lawful_moment: "lawful a (moment a script n)"
  by (simp add: moment_def lawful_env_def)

lemma foreign_moves: "lawful a e \<Longrightarrow> moved h a s (foreign h e xs s)"
proof (induction xs arbitrary: s)
  case (Cons x xs)
  have "moved h a s (if typed_op x then snd (transact (perform h e x) s) else s)"
  proof (cases "typed_op x")
    case True
    have "step h a s (snd (transact (perform h e x) s))"
      by (rule step.call [where e = e and x = x and r = "fst (transact (perform h e x) s)"])
        (use Cons.prems True in simp_all)
    then show ?thesis by (simp add: True r_into_rtranclp)
  qed simp
  then show ?case
    unfolding foreign.simps by (rule rtranclp_trans [OF _ Cons.IH [OF Cons.prems]])
qed simp

lemma advance_moves: "moved h a (fst n) (fst (advance h a script n))"
  by (simp add: advance_def foreign_moves [OF lawful_moment])

lemma sent_moves:
  assumes "registry_answer h e who ''execute_batch'' xs s = (Inr v, t)" and "lawful a e"
  shows "moved h a s t"
proof -
  obtain ids did where "execute_batch h e (who (xs ! 0)) ids s = (Ok did, t)"
    using assms(1) by (auto simp: registry_answer_def split: if_splits option.splits dest!: answered_pair)
  from batch_step [OF assms(2) this] show ?thesis by (rule r_into_rtranclp)
qed

interpretation registry_server: live_server "registry_client h a script who conf crypto" fst h a
  "who (account_address crypto (keeper_key conf))"
  for h a script who conf crypto
proof unfold_locales
  fix x w t ids entries
  let ?r = "registry_client h a script who conf crypto"
  assume "send_polling (bot_rpc ?r) x w = (Inr ''SUCCESS'', t)"
    "tx_operations (env_tx x) = [call_of ?r ''execute_batch'' (batch_args ?r ids) entries]"
  then obtain v where
    "registry_answer h (moment a script w) who ''execute_batch'' (batch_args ?r ids) (fst (advance h a script w))
      = (Inr v, fst t)"
    by (auto simp: registry_server_def split: prod.splits sum.splits)
  then have "\<exists>did. execute_batch h (moment a script w) (who (account_address crypto (keeper_key conf))) ids
      (fst (advance h a script w)) = (Ok did, fst t)"
    unfolding answer_batch by (auto dest!: answered_pair)
  then show "\<exists>s1 e1 did s2. moved h a (fst w) s1 \<and> lawful a e1
      \<and> execute_batch h e1 (who (account_address crypto (keeper_key conf))) ids s1 = (Ok did, s2)
      \<and> moved h a s2 (fst t)"
    using advance_moves lawful_moment by blast
next
  fix tx w t sim rs ids
  let ?r = "registry_client h a script who conf crypto"
  assume "simulate_envelope (bot_rpc ?r) (unsigned_envelope tx) w = (Inr sim, t)"
    "tx_operations tx = [call_of ?r ''execute_batch'' (batch_args ?r ids) []]"
    "sim_error sim = None" "sim_results sim = Inr rs"
  then obtain v where
    "fst (registry_answer h (moment a script w) who ''execute_batch'' (batch_args ?r ids) (fst t)) = Inr v"
    "fst (first_result rs) = v"
    by (auto simp: registry_server_def simulation_of_def first_result_def split: sum.splits)
  then have "\<exists>did u. execute_batch h (moment a script w) (who (account_address crypto (keeper_key conf))) ids (fst t)
        = (Ok did, u) \<and> fst (first_result rs) = ScVec (Some (map ScBool did))"
    unfolding answer_batch by (auto dest!: answered_value)
  then show "\<exists>e0 expected u. lawful a e0
      \<and> execute_batch h e0 (who (account_address crypto (keeper_key conf))) ids (fst t) = (Ok expected, u)
      \<and> fst (first_result rs) = ScVec (Some (map ScBool expected))"
    using lawful_moment by blast
next
  fix x w z t
  assume sent: "send_polling (bot_rpc (registry_client h a script who conf crypto)) x w = (z, t)"
  show "moved h a (fst w) (fst t)"
  proof (cases "fst t = fst (advance h a script w)")
    case True
    then show ?thesis by (simp add: advance_moves)
  next
    case False
    then obtain v xs where
      "registry_answer h (moment a script w) who ''execute_batch'' xs (fst (advance h a script w)) = (Inr v, fst t)"
      using sent by (auto simp: registry_server_def split: option.splits prod.splits sum.splits if_splits)
    from sent_moves [OF this lawful_moment] advance_moves show ?thesis by (blast intro: rtranclp_trans)
  qed
qed (auto simp: registry_server_def advance_moves split: option.splits prod.splits)

text \<open>Seen from the bot: what a call to this server returns.\<close>

definition call_tx :: "'k bot_config \<Rightarrow> 'k crypto \<Rightarrow> symbol \<Rightarrow> scval list \<Rightarrow> transaction" where
  "call_tx conf crypto f xs =
     \<lparr>tx_source = public_key crypto (keeper_key conf), tx_fee = inclusion_fee conf, seq_num = 1,
      tx_cond = PrecondNone, tx_memo = MemoNone,
      tx_operations = [\<lparr>op_source = None, op_body = InvokeHostFunction (ScContract (registry_id conf)) f xs []\<rparr>],
      tx_ext = None\<rparr>"

lemma server_simulates:
  assumes "length f \<le> 32" "length xs \<le> 2"
  shows "bot_simulate (registry_client h a script who conf crypto) f xs w =
    (let n = advance h a script (net w); n' = advance h a script n in
    (Ok (case fst (registry_answer h (moment a script n) who f xs (fst n')) of
        Inl m \<Rightarrow> Inl (describe_error m)
      | Inr v \<Rightarrow> Inr (call_tx conf crypto f xs,
          simulation_of (Inr v) [\<lparr>auth_credentials = SourceAccount,
            root_invocation = Invocation (ContractFn (ScContract (registry_id conf)) f xs) []\<rparr>], v)),
     w\<lparr>net := n'\<rparr>))"
    (is "_ = (let n = ?n; n' = ?n' n in (?x n n', ?w n'))")
proof -
  have "wp (bot_simulate (registry_client h a script who conf crypto) f xs)
      (\<lambda>x t. t = ?w (?n' ?n) \<and> Ok x = ?x ?n (?n' ?n)) (\<lambda>_ _. False) False w"
    using assms
    by (cases "fst (registry_answer h (moment a script ?n) who f xs (fst (?n' ?n)))")
      (simp_all add: bot_simulate_def next_sequence_def tx_invoke_def wps wp_ask_case registry_server_def
        request_def invocation_of_def unsigned_envelope_def simulation_of_def first_result_def call_tx_def)
  then show ?thesis by (auto simp: wp_def Let_def split: prod.splits outcome.splits)
qed

section \<open>A tick whose report is wrong\<close>

text \<open>
  Keeper A's bot on the demo deployment, at a time when job 0 is due. The chain stands still until
  the bot has made eight requests; before the ninth, which sends the batch, the clock moves on and
  keeper B runs the job.
\<close>

definition demo_bot_config :: "unit bot_config" where
  "demo_bot_config =
     \<lparr>bot_network = ''local'', rpc_url = ''http://localhost'', passphrase = ''demo'',
      registry_id = replicate 32 1, keeper_key = (), poll_interval = 15, inclusion_fee = 100,
      run_once = True, dry_run = False, batch_size = 10, min_profit = 0, metrics_port = 0,
      max_cost_per_job = 0\<rparr>"

definition demo_crypto :: "unit crypto" where
  "demo_crypto =
     \<lparr>public_key = (\<lambda>_. replicate 32 2), sign_bytes = (\<lambda>_ _. replicate 64 3), sha256 = (\<lambda>_. replicate 32 4),
      hash_envelope = (\<lambda>_ _. Inr (replicate 32 5)), native_preimage = (\<lambda>x. x), account_strkey = (\<lambda>_. ''GA''),
      contract_strkey = (\<lambda>_. ''CA''), debug_address = (\<lambda>_. ''address''), debug_value = (\<lambda>_. ''value'')\<rparr>"

definition demo_script :: script where
  "demo_script n = (if n < 8 then (demo_env 90, []) else (demo_env 200, [Execute keeper_b 0]))"

definition demo_bot :: "(unit, ledger registry \<times> nat) bot_registry" where
  "demo_bot = registry_client demo_host registry_at demo_script (\<lambda>_. keeper_a) demo_bot_config demo_crypto"

abbreviation at_request :: "'w registry \<Rightarrow> nat \<Rightarrow> ('w registry \<times> nat) wire" where
  "at_request s n \<equiv> \<lparr>net = (s, n), sent = []\<rparr>"

lemma lawful_demo: "lawful_env registry_at (demo_env at) = demo_env at"
  by (simp add: lawful_env_def demo_env_def)

lemma demo_waits: "n < 8 \<Longrightarrow> advance demo_host registry_at demo_script (s, n) = (s, Suc n)"
  by (simp add: advance_def demo_script_def)

lemma demo_moment: "moment registry_at demo_script (s, n) = (if n < 8 then demo_env 90 else demo_env 200)"
  by (simp add: moment_def demo_script_def lawful_demo)

lemma demo_simulates:
  assumes "length f \<le> 32" "length xs \<le> 2" "Suc n < 8"
  shows "bot_simulate demo_bot f xs (at_request s n) =
    (Ok (case fst (registry_answer demo_host (demo_env 90) (\<lambda>_. keeper_a) f xs s) of
        Inl m \<Rightarrow> Inl (describe_error m)
      | Inr v \<Rightarrow> Inr (call_tx demo_bot_config demo_crypto f xs,
          simulation_of (Inr v) [\<lparr>auth_credentials = SourceAccount,
            root_invocation = Invocation (ContractFn (ScContract (registry_id demo_bot_config)) f xs) []\<rparr>], v)),
     at_request s (n + 2))"
  using assms by (simp add: demo_bot_def server_simulates demo_waits demo_moment Let_def)

lemma demo_counts:
  assumes "job_count s = (Ok m, t)" "Suc n < 8"
  shows "bot_job_count demo_bot (at_request s n) = (Ok m, at_request s (n + 2))"
  using assms
  by (simp add: bot_job_count_def bind_def demo_simulates registry_answer_def answered_def ok_def)

lemma demo_due:
  assumes "is_due demo_host (demo_env 90) i s = (Ok b, t)" "Suc n < 8"
  shows "bot_is_due demo_bot i (at_request s n) = (Ok b, at_request s (n + 2))"
  using assms
  by (simp add: bot_is_due_def bind_def demo_simulates registry_answer_def answered_def ok_def first_u64_def)

lemma demo_fees:
  assumes "Suc n < 8"
  shows "\<exists>m. total_fees demo_bot 0 [i] (at_request s n) = (Ok m, at_request s (n + 2))"
  using assms by (auto simp: bot_current_fee_def bind_def demo_simulates ok_def)

text \<open>A batch of one job that the registry refuses still goes through, with a no for its answer.\<close>

lemma refused_batch:
  assumes "s_config (storage s) = Some c" "\<not> paused c" "executor c = Some exec" "authorized e k"
    and "s_keepers (storage s) k = Some entry" "eligible c entry" "run_error h e c (storage s) k j \<noteq> None"
  shows "\<exists>t. execute_batch h e k [j] s = (Ok [False], t)"
proof -
  have refused: "wp (run_job h e c exec k acc j) (\<lambda>_ _. False) (\<lambda>_ _. True) False t"
    if "storage t = storage s" for acc t
    by (rule wp_mono [OF wp_run_job]) (use that assms(7) in \<open>auto simp: run_does_def run_stuck_def\<close>)
  have closing: "wp (settle h e c k no_payout) (\<lambda>_. Q) (\<lambda>_ _. False) False t" if "\<And>u. Q u"
    for Q and t :: "'a registry"
    using that by (simp add: settle_def only_if_def no_payout_def wps)
  have "wp (execute_batch h e k [j]) (\<lambda>did _. did = [False]) (\<lambda>_ _. False) False s"
    using assms(1-6)
    by (auto simp: execute_batch_def authorize_keeper_def load_record_def wps ensure_not_paused_def
        MAX_BATCH_def split: sum.split intro!: wp_mono [OF refused] closing [unfolded wp_ok])
  from wp_returns [OF this] show ?thesis by auto
qed

lemma late_batch:
  assumes "reachable demo_host registry_at s" "stage demo_store demo_funds s"
    and "execute demo_host (demo_env 200) keeper_b 0 s = (Ok (), t)"
  shows "\<exists>u. execute_batch demo_host (demo_env 200) keeper_a [0] t = (Ok [False], u)"
proof -
  have d: "storage s = demo_store" using assms(2) by (simp add: stage_def)
  have "bond_of (storage t) = bond_of (storage s)"
    using wp_OkD [OF wp_batch_bonds batch_of_one [OF assms(3)]] .
  then have "bond_of (storage t) keeper_a = Some (200, None, 0)"
    by (simp add: d bond_of_def demo_keeper_def fresh_keeper_def addresses)
  then obtain k where k: "s_keepers (storage t) keeper_a = Some k" "stake k = 200" "unbonding_at k = None"
    by (auto simp: bond_of_def)
  have c: "s_config (storage t) = Some demo_config"
    by (rule execute_effects [OF assms(3)]) (simp add: d)
  have "run_error demo_host (demo_env 200) demo_config (storage t) keeper_a 0 \<noteq> None"
    by (rule no_second_run_at_once [OF _ assms(3)]) (use assms(1) in simp_all)
  then show ?thesis
    by (intro refused_batch [where c = demo_config and exec = executor_at and entry = k])
      (use c k in \<open>simp_all add: ensure_active_keeper_def demo_defs addresses\<close>)
qed

text \<open>The bot's batch is answered with a yes, sent, and applied after keeper B's run.\<close>

lemma demo_sends:
  assumes "execute_batch demo_host (demo_env 90) keeper_a [0] s = (Ok [True], t0)"
    and "execute demo_host (demo_env 200) keeper_b 0 s = (Ok (), t)"
    and "execute_batch demo_host (demo_env 200) keeper_a [0] t = (Ok [False], u)"
  shows "\<exists>earned hash es. bot_execute_batch demo_bot [0] False (at_request s 4)
    = (Ok (BatchExecuted [0] earned hash), \<lparr>net = (u, 9), sent = es\<rparr>)"
proof -
  let ?xs = "[account_address demo_crypto (), ScVec (Some [ScU64 0])]"
  let ?sim = "simulation_of (Inr (ScVec (Some [ScBool True]))) [\<lparr>auth_credentials = SourceAccount,
         root_invocation = Invocation (ContractFn (ScContract (registry_id demo_bot_config)) ''execute_batch'' ?xs) []\<rparr>]"
  have answer: "registry_answer demo_host (demo_env 90) (\<lambda>_. keeper_a) ''execute_batch'' ?xs s
      = (Inr (ScVec (Some [ScBool True])), t0)"
    using assms(1) by (simp add: registry_answer_def answered_def transact_def ids_of_def)
  have applied: "registry_answer demo_host (demo_env 200) (\<lambda>_. keeper_a) ''execute_batch'' ?xs t
      = (Inr (ScVec (Some [ScBool False])), u)"
    using assms(3) by (simp add: registry_answer_def answered_def transact_def ids_of_def)
  have moves: "advance demo_host registry_at demo_script (s, 8) = (t, 9)"
    using assms(2) by (simp add: advance_def demo_moment demo_script_def void_def bind_def ok_def transact_def)
  have flags: "ran_jobs [0] (ran_flags (ScVec (Some [ScBool True])) (length [0 :: u64])) = [0]"
    by (simp add: ran_jobs_def ran_flags_def)
  have "wp (bot_send demo_bot (call_tx demo_bot_config demo_crypto ''execute_batch'' ?xs) ?sim)
      (\<lambda>_ v. net v = (u, 9)) (\<lambda>_ _. False) False (at_request s 8)"
    by (simp add: bot_send_def simulation_of_def wps tx_assemble_def call_tx_def demo_bot_config_def
        checked_add_def first_result_def tx_sign_def hex_hash_def demo_crypto_def demo_bot_def
        bot_submit_def wp_ask_case registry_server_def request_def invocation_of_def authorize_def Let_def
        demo_moment moves applied [unfolded demo_crypto_def])
  then obtain hash v where sent: "bot_send demo_bot (call_tx demo_bot_config demo_crypto ''execute_batch'' ?xs) ?sim
      (at_request s 8) = (Ok hash, v)" "net v = (u, 9)"
    by (auto simp: wp_def split: prod.splits outcome.splits)
  obtain earned where fees: "total_fees demo_bot 0 [0] (at_request s 6) = (Ok earned, at_request s 8)"
    using demo_fees [of 6 0 s] by auto
  have keeps: "\<not> dry_run demo_bot_config" "max_cost_per_job demo_bot_config = 0" "keeper_key demo_bot_config = ()"
    by (simp_all add: demo_bot_config_def)
  have bot: "bot_conf demo_bot = demo_bot_config" "bot_crypto demo_bot = demo_crypto"
    by (simp_all add: demo_bot_def)
  have "bot_simulate demo_bot ''execute_batch'' ?xs (at_request s 4) =
      (Ok (Inr (call_tx demo_bot_config demo_crypto ''execute_batch'' ?xs, ?sim, ScVec (Some [ScBool True]))), at_request s 6)"
    by (simp add: demo_simulates answer)
  then have "bot_execute_batch demo_bot [0] False (at_request s 4) = (Ok (BatchExecuted [0] earned hash), v)"
    using sent(1) fees flags keeps
    by (simp add: bot bot_execute_batch_def bind_def within_def ok_def lift_result_def
        simulation_of_def first_result_def expected_call_def bot_decide_def too_costly_def Let_def)
  then show ?thesis using sent(2) by (cases v) auto
qed

lemma demo_tick:
  assumes "reachable demo_host registry_at s" "stage demo_store demo_funds s"
  obtains x c t u where
    "tick demo_bot 5 False \<lparr>wire = at_request s 0, set_apart = \<lparr>until_tick = \<lambda>_. None, tick_no = 0\<rparr>\<rparr> = (Ok (Some x), c)"
    "ts_batches x = 1" "ts_executed x = 1" "ts_failed x = 0" "fst (net (wire c)) = u"
    "execute demo_host (demo_env 200) keeper_b 0 s = (Ok (), t)"
    "execute_batch demo_host (demo_env 200) keeper_a [0] t = (Ok [False], u)"
proof -
  obtain t0 t where t: "execute demo_host (demo_env 90) keeper_a 0 s = (Ok (), t0)"
    "execute demo_host (demo_env 200) keeper_b 0 s = (Ok (), t)"
    using demo_steps [OF assms] by blast
  obtain u where u: "execute_batch demo_host (demo_env 200) keeper_a [0] t = (Ok [False], u)"
    using late_batch [OF assms t(2)] by blast
  obtain earned hash es where run: "bot_execute_batch demo_bot [0] False (at_request s 4)
      = (Ok (BatchExecuted [0] earned hash), \<lparr>net = (u, 9), sent = es\<rparr>)"
    using demo_sends [OF batch_of_one [OF t(1)] t(2) u] by blast
  have "job_count s = (Ok 1, s)"
    using assms(2)
    by (simp add: job_count_def next_job_id_def load_def bind_def gets_def ok_def issued_def stage_def demo_store_def)
  then have n: "bot_job_count demo_bot (at_request s 0) = (Ok 1, at_request s 2)"
    using demo_counts [of s 1 s 0] by simp
  obtain v where "is_due demo_host (demo_env 90) 0 s = (Ok True, v)"
    using execute_is_due [OF t(1)] by auto
  then have due: "bot_is_due demo_bot 0 (at_request s 2) = (Ok True, at_request s 4)"
    using demo_due [of 0 s True v 2] by simp
  have all: "batches [0 :: u64] 5 = [[0]]" "map of_nat [0..<unat (1 :: u64)] = [0 :: u64]"
    by (simp_all add: batches_def chunks.simps)
  have "\<exists>x c. tick demo_bot 5 False \<lparr>wire = at_request s 0, set_apart = \<lparr>until_tick = \<lambda>_. None, tick_no = 0\<rparr>\<rparr>
    = (Ok (Some x), c) \<and> ts_batches x = 1 \<and> ts_executed x = 1 \<and> ts_failed x = 0 \<and> fst (net (wire c)) = u"
    using run
    by (simp add: tick_def andthen_def bind_def modify_def gets_def on_wire_def n due all ok_def drain_bot_def
        starting_work_def Let_def next_tick_def effort_def attempt_def no_summary_def len64_def)
  then show ?thesis using that t(2) u by blast
qed

section \<open>The bot and the registry\<close>

text \<open>
  C6. What the bot reports was sent and applied. On any server that runs the registry's code,
  whatever anybody else does between the bot's requests and however the clock moves, a tick that is
  not a dry run and returns leaves a history behind in which the registry carried out exactly as many of
  the bot's batches as the tick reports, in that order and no job in two of them. Each was simulated
  at an earlier state of that history and applied at a later one, where the jobs its own answer names
  count one run more and no other job changes; and the number of jobs the tick
  reports as executed is the number its simulations promised: not the number the registry ran when it
  applied them, which the history has beside it and which can differ. A failed or unanswered sending
  is not reported, whether or not it was applied.
\<close>

theorem a_tick_reports_what_was_applied:
  assumes "live_server r chain h a keeper" and "\<not> dry_run (bot_conf r)"
    and "tick r most native b = (Ok (Some s), t)"
  shows "\<exists>entries. history h a keeper entries (chain (net (wire b))) (chain (net (wire t)))
    \<and> length entries = unat (ts_batches s)
    \<and> sum_list (map (\<lambda>(ids, expected, did). length (ran_jobs ids expected)) entries) = unat (ts_executed s)
    \<and> distinct (concat (map fst entries))"
  using wp_OkD [OF live_server.tick_recorded [OF assms(1,2)] assms(3)] by (simp add: promised_def)

text \<open>
  At work on the chain above, where the report is wrong: every sending succeeded and the tick reports
  one batch and one executed job; the history has that batch, and the registry's own answer to it was
  that the job did not run.
\<close>

theorem a_tick_reports_what_was_applied_witness:
  "\<exists>s x c entries t u. reachable demo_host registry_at s
    \<and> tick demo_bot 5 False \<lparr>wire = at_request s 0, set_apart = \<lparr>until_tick = \<lambda>_. None, tick_no = 0\<rparr>\<rparr>
        = (Ok (Some x), c)
    \<and> history demo_host registry_at keeper_a entries s (fst (net (wire c)))
    \<and> length entries = (1 :: nat) \<and> ts_executed x = 1 \<and> ts_failed x = 0
    \<and> execute demo_host (demo_env 200) keeper_b 0 s = (Ok (), t)
    \<and> execute_batch demo_host (demo_env 200) keeper_a [0] t = (Ok [False], u)
    \<and> fst (net (wire c)) = u"
proof -
  obtain s where s: "reachable demo_host registry_at s" "stage demo_store demo_funds s"
    using demo_reachable by blast
  obtain x c t u where x:
    "tick demo_bot 5 False \<lparr>wire = at_request s 0, set_apart = \<lparr>until_tick = \<lambda>_. None, tick_no = 0\<rparr>\<rparr> = (Ok (Some x), c)"
    "ts_batches x = 1" "ts_executed x = 1" "ts_failed x = 0" "fst (net (wire c)) = u"
    "execute demo_host (demo_env 200) keeper_b 0 s = (Ok (), t)"
    "execute_batch demo_host (demo_env 200) keeper_a [0] t = (Ok [False], u)"
    by (rule demo_tick [OF s])
  have "\<not> dry_run (bot_conf demo_bot)"
    by (simp add: demo_bot_def demo_bot_config_def)
  from a_tick_reports_what_was_applied [OF registry_server.live_server_axioms [where crypto = demo_crypto and
      conf = demo_bot_config and h = demo_host and a = registry_at and script = demo_script
      and who = "\<lambda>_. keeper_a", folded demo_bot_def] this x(1)]
  have "\<exists>entries. history demo_host registry_at keeper_a entries s (fst (net (wire c))) \<and> length entries = 1"
    using x(2) by auto
  then show ?thesis using s(1) x by blast
qed

end
