(* ===== verification/Leaving.thy ===== *)
theory Leaving
  imports RunLaws StepLaws AdminLaws KeeperLaws
begin

text \<open>
  Keepers who leave, along a history: the release time a keeper got when it began to unbond stays
  with it, whatever anybody does, until its record is gone; and an upgrade waits for that time.
\<close>

section \<open>A release time stays\<close>

text \<open>The keeper is unbonding and has the release time, or it is gone.\<close>

definition leaving :: "address \<Rightarrow> u64 \<Rightarrow> reg_store \<Rightarrow> bool" where
  "leaving a w d \<longleftrightarrow> (\<forall>k. s_keepers d a = Some k \<longrightarrow> unbonding_at k = Some w)"


lemma leaving_same: "s_keepers d' a = s_keepers d a \<Longrightarrow> leaving a w d' \<longleftrightarrow> leaving a w d"
  by (simp add: leaving_def)




lemma inserted_keepers [simp]: "s_keepers (inserted e a p n d) = s_keepers d"
  by (simp add: inserted_def Let_def push_owner_job_def)









section \<open>Along a history\<close>










end
