(* ===== verification/Conservation.thy ===== *)
theory Conservation
  imports Demo
begin

text \<open>
  Conservation of money: beyond "the registry holds at least what it owes", no transaction
  changes by how much it holds more. Whatever comes in is owed to a job or a keeper, whatever
  leaves was owed to one, and nothing is stranded by rounding.
\<close>

section \<open>Who owns jobs, who keeps, who collects\<close>

text \<open>The treasury and the two tokens of a configuration.\<close>

type_synonym terms = "address option \<times> address \<times> address"

definition members :: "address set \<Rightarrow> address set \<Rightarrow> terms set \<Rightarrow> reg_store \<Rightarrow> bool" where
  "members O1 K T d \<longleftrightarrow>
     (\<forall>j spec. s_specs d j = Some spec \<longrightarrow> owner spec \<in> O1) \<and> dom (s_keepers d) \<subseteq> K
     \<and> (\<exists>c. s_config d = Some c \<and> (treasury c, fee_token c, stake_token c) \<in> T)"

text \<open>An operation that admits nobody new: creations, a new owner, a stake, a new treasury.\<close>

definition admits :: "env \<Rightarrow> address set \<Rightarrow> address set \<Rightarrow> terms set \<Rightarrow> op \<Rightarrow> bool" where
  "admits e O1 K T x \<longleftrightarrow>
     (\<forall>a. authorized e a \<longrightarrow> a \<in> O1) \<and> (\<forall>a n. x = Stake a n \<longrightarrow> authorized e a \<longrightarrow> a \<in> K)
     \<and> (\<forall>n y. x = SetProtocolFee n y \<longrightarrow> (\<forall>z u v. (z, u, v) \<in> T \<longrightarrow> (y, u, v) \<in> T))"

abbreviation keeps_members ::
  "address set \<Rightarrow> address set \<Rightarrow> terms set \<Rightarrow> ('w, 'a) reg \<Rightarrow> bool" where
  "keeps_members O1 K T m \<equiv> (\<forall>s. members O1 K T (storage s) \<longrightarrow>
     wp m (\<lambda>_ t. members O1 K T (storage t)) (\<lambda>_ _. True) True s)"

lemma members_frame:
  "s_specs d' = s_specs d \<Longrightarrow> s_keepers d' = s_keepers d \<Longrightarrow> s_config d' = s_config d \<Longrightarrow>
   members O1 K T d' \<longleftrightarrow> members O1 K T d"
  by (simp add: members_def)

lemma members_same: "same s t \<Longrightarrow> members O1 K T (storage t) \<longleftrightarrow> members O1 K T (storage s)"
  by (simp add: same_def)

lemma settings_keep_members:
  "keeps_members O1 K T (set_executor e x)" "keeps_members O1 K T (propose_admin e a)"
  "keeps_members O1 K T (accept_admin e)" "keeps_members O1 K T (cancel_admin_proposal e)"
  "keeps_members O1 K T (set_paused e b)" "keeps_members O1 K T (halt_target e a b)"
  "keeps_members O1 K T (set_min_stake e i)" "keeps_members O1 K T (set_min_interval e n)"
  "keeps_members O1 K T (set_max_args e m)"
  "(\<And>z u v. (z, u, v) \<in> T \<Longrightarrow> (y, u, v) \<in> T) \<Longrightarrow> keeps_members O1 K T (set_protocol_fee e m y)"
  "keeps_members O1 K T (set_max_failures e m)" "keeps_members O1 K T (set_keeper_windows e n)"
  "keeps_members O1 K T (set_unbonding_epoch e n)" "keeps_members O1 K T (propose_upgrade e w)"
  "keeps_members O1 K T (cancel_upgrade e)" "keeps_members O1 K T (change_upgrade_delay e n)"
  "keeps_members O1 K T (apply_upgrade h e)"
  by (auto simp: settings_defs accept_admin_def set_unbonding_epoch_def propose_upgrade_def
      cancel_upgrade_def change_upgrade_delay_def apply_upgrade_def wps Let_def members_def split: option.split)

lemma jobs_keep_members:
  "keeps_members O1 K T (fund_job h e a j n)" "keeps_members O1 K T (cancel_job h e j)"
  "keeps_members O1 K T (withdraw_job_balance h e j n)" "keeps_members O1 K T (set_job_active e j b)"
  "keeps_members O1 K T (propose_job_owner e j a)" "keeps_members O1 K T (begin_unbonding e a)"
  by (auto simp: fund_job_def cancel_job_def withdraw_job_balance_def set_job_active_def
      propose_job_owner_def begin_unbonding_def ensure_not_paused_def wps Let_def parts_def members_def
      split: option.splits if_splits)

lemma accept_keeps_members:
  "(\<And>a. authorized e a \<Longrightarrow> a \<in> O1) \<Longrightarrow> keeps_members O1 K T (accept_job_owner e j)"
  by (auto simp: accept_job_owner_def wps Let_def parts_def members_def split: option.splits if_splits)

lemma update_keeps_members: "keeps_members O1 K T (update_job e j u)"
  by (auto simp: update_job_def store_update_def leader_run_count_def ensure_not_paused_def wps
      Let_def parts_def members_def split: option.splits sum.splits if_splits)

lemma stake_keeps_members:
  "(authorized e a \<Longrightarrow> a \<in> K) \<Longrightarrow> keeps_members O1 K T (stake_tokens h e a n)"
  by (auto simp: stake_tokens_def ensure_not_paused_def wps Let_def members_def split: option.splits if_splits)

lemma inserted_members:
  "members O1 K T d \<Longrightarrow> a \<in> O1 \<Longrightarrow> members O1 K T (inserted e a p n d)"
  by (auto simp: members_def inserted_def Let_def new_spec_def)

lemma insert_keeps_members: "a \<in> O1 \<Longrightarrow> members O1 K T (storage s) \<Longrightarrow>
    wp (insert_job e a p n) (\<lambda>_ t. members O1 K T (storage t)) E True s"
  by (auto intro!: wp_insert_job inserted_members simp: became_def)

lemma creations_keep_members:
  assumes "\<And>a. authorized e a \<Longrightarrow> a \<in> O1"
  shows "keeps_members O1 K T (create_job h e a p n)" "keeps_members O1 K T (create_jobs h e a ps ns)"
proof -
  note one = insert_keeps_members [OF assms]
  show "keeps_members O1 K T (create_job h e a p n)"
    by (auto simp: create_job_def wps ensure_not_paused_def same_def split: option.split
        intro!: wp_validate_job one)
  have all: "wp (collect (\<lambda>(p, n). insert_job e a p n) xs) (\<lambda>_ t. members O1 K T (storage t))
      (\<lambda>_ _. True) True t" if "authorized e a" "members O1 K T (storage t)" for t :: "'a registry" and xs
    by (rule wp_mono [OF wp_collect [where I = "\<lambda>t. members O1 K T (storage t)"]])
      (use that in \<open>auto intro!: one\<close>)
  show "keeps_members O1 K T (create_jobs h e a ps ns)"
    unfolding create_jobs_def
    apply (simp add: wp_andthen wp_bind wp_load_config wp_lift_result ensure_not_paused_def
        wp_require_auth wp_fail_if split: option.split)
    apply (intro allI impI conjI wp_validate_all)
    by (auto simp: wp_andthen wp_transfer same_def intro!: all split: option.split)
qed

lemma without_keeper_members: "members O1 K T d \<Longrightarrow> members O1 K T (without_keeper a d)"
  by (auto simp: members_def split: if_splits)

lemma release_keeps_members:
  "members O1 K T (storage s) \<Longrightarrow>
   wp (release_stake h e c a) (\<lambda>_ t. members O1 K T (storage t)) (\<lambda>_ t. members O1 K T (storage t)) True s"
  by (auto simp: release_stake_def wps Let_def without_keeper_members split: option.split)

lemma exits_keep_members:
  "keeps_members O1 K T (withdraw_stake h e a)" "keeps_members O1 K T (withdraw_stakes h e as)"
proof -
  show "keeps_members O1 K T (withdraw_stake h e a)"
    by (auto simp: withdraw_stake_def wps split: option.split intro!: wp_mono [OF release_keeps_members])
  have all: "wp (collect (\<lambda>a. bind (attempt (release_stake h e c a)) (\<lambda>res.
      ok (case res of Inl _ \<Rightarrow> 0 | Inr n \<Rightarrow> n))) as) (\<lambda>_ t. members O1 K T (storage t)) (\<lambda>_ _. True) True t"
    if "members O1 K T (storage t)" for c and t :: "'a registry"
    by (rule wp_mono [OF wp_collect [where I = "\<lambda>t. members O1 K T (storage t)"]])
      (use that in \<open>auto simp: wp_bind wp_attempt wp_ok intro!: wp_mono [OF release_keeps_members]\<close>)
  show "keeps_members O1 K T (withdraw_stakes h e as)"
    by (auto simp: withdraw_stakes_def wp_andthen wp_fail_if wp_bind [of load_config] wp_load_config
        split: option.split intro!: all)
qed

lemma booked_members: "members O1 K T (booked e c jid spec st w b n d) \<longleftrightarrow> members O1 K T d"
  by (auto simp: members_def booked_def dom_def with_misses_keepers subset_iff)

lemma saved_members:
  "s_keepers d a \<noteq> None \<Longrightarrow> members O1 K T (saved_record a rec d) \<longleftrightarrow> members O1 K T d"
  by (auto simp: members_def saved_record_def)

lemma runs_keep_members:
  "keeps_members O1 K T (execute h e a j)" "keeps_members O1 K T (execute_batch h e a js)"
proof -
  show "keeps_members O1 K T (execute h e a j)"
    by (auto simp: wpT saved_members booked_members booked_self elim!: execute_effects)
  show "keeps_members O1 K T (execute_batch h e a js)"
  proof (intro allI impI)
    fix s :: "'a registry" assume s: "members O1 K T (storage s)"
    let ?I = "\<lambda>_ t. members O1 K T (storage t) \<and> s_keepers (storage t) a \<noteq> None"
    have loop: "wp (run_jobs h e c exec a acc js)
        (\<lambda>p. wp (case p of (did, rec', pay) \<Rightarrow>
            andthen (save_record a rec') (andthen (settle h e c a pay) (ok did)))
          (\<lambda>_ t. members O1 K T (storage t)) (\<lambda>_ _. True) True) (\<lambda>_ _. True) True t"
      if "storage t = storage s" "s_keepers (storage s) a \<noteq> None" for c exec acc t
      by (rule wp_mono [OF wp_run_jobs [where I = ?I and T = True]])
        (use that s in \<open>auto simp: run_does_def became_def run_refuses_frame booked_members booked_self
          saved_members wp_andthen [abs_def] wp_save_record wp_ok intro!: wp_settle_frame\<close>)
    show "wp (execute_batch h e a js) (\<lambda>_ t. members O1 K T (storage t)) (\<lambda>_ _. True) True s"
      by (auto simp: execute_batch_def authorize_keeper_def load_record_def wps
          split: option.split sum.split intro!: loop)
  qed
qed

lemma perform_keeps_members:
  assumes "admits e O1 K T x"
  shows "keeps_members O1 K T (perform h e x)"
  using assms
  by (cases x) (simp_all add: admits_def wp_void settings_keep_members jobs_keep_members
      accept_keeps_members update_keeps_members stake_keeps_members creations_keep_members
      exits_keep_members runs_keep_members)

text \<open>The registry is nobody's owner or keeper: it signs nothing.\<close>

lemma deployed_members:
  assumes "transact (constructor adm fees stakes least period)
      \<lparr>storage = empty_store, world = w, published = [], extensions = []\<rparr> = (Ok (), s)"
  shows "members {} {} {(None, fees, stakes)} (storage s)"
    and "covers (Some (\<lambda>u. token_balance h w u a)) h a 0 0 s"
proof -
  have "wp (constructor adm fees stakes least period)
      (\<lambda>_ t. members {} {} {(None, fees, stakes)} (storage t)
        \<and> covers (Some (\<lambda>u. token_balance h w u a)) h a 0 0 t)
      (\<lambda>_ _. True) True \<lparr>storage = empty_store, world = w, published = [], extensions = []\<rparr>"
    by (simp add: constructor_def wps members_def empty_store_def initial_config_def covers_def
        backed_def owed_def)
  from wp_OkD [OF this] assms
  show "members {} {} {(None, fees, stakes)} (storage s)"
    "covers (Some (\<lambda>u. token_balance h w u a)) h a 0 0 s" by auto
qed

lemma members_mono:
  "members O1 K T d \<Longrightarrow> O1 \<subseteq> O2 \<Longrightarrow> K \<subseteq> L \<Longrightarrow> T \<subseteq> U \<Longrightarrow> members O2 L U d"
  unfolding members_def by blast

lemma reachable_members:
  assumes "reachable h a s"
  shows "members (- {a}) (- {a}) UNIV (storage s)"
  using assms
proof (induction rule: reachable.induct)
  case (start s)
  then obtain w adm fees stakes least period where
    s: "transact (constructor adm fees stakes least period)
      \<lparr>storage = empty_store, world = w, published = [], extensions = []\<rparr> = (Ok (), s)"
    unfolding deployed_def by blast
  show ?case by (rule members_mono [OF deployed_members(1) [OF s]]) simp_all
next
  case (more s t)
  show ?case
  proof (rule step_keeps [OF more.hyps(2), where I = "\<lambda>s. members (- {a}) (- {a}) UNIV (storage s)"])
    fix e x t assume e: "me e = a" "\<not> authorized e a" "perform h e x s = (Ok (), t)"
    have "admits e (- {a}) (- {a}) UNIV x" using e(2) by (auto simp: admits_def)
    from wp_OkD [OF perform_keeps_members [OF this, rule_format, OF more.IH] e(3)]
    show "members (- {a}) (- {a}) UNIV (storage t)" .
  qed (simp_all add: more.IH)
qed

section \<open>Nothing is stranded\<close>

definition surplus_of :: "'w host \<Rightarrow> address \<Rightarrow> config \<Rightarrow> 'w registry \<Rightarrow> address \<Rightarrow> int" where
  "surplus_of h a c s u = token_balance h (world s) u a - owed c (storage s) u"

lemma covers_surplus:
  "s_config (storage s) = Some c \<Longrightarrow>
   covers (Some k) h a 0 0 s \<longleftrightarrow> (\<forall>u. surplus_of h a c s u = k u)"
  by (auto simp: covers_def backed_def surplus_of_def algebra_simps)

lemma members_aloof:
  assumes "members (- {a}) (- {a}) ((- {Some a}) \<times> UNIV) d" and "calls_ignore_funds h a"
  shows "aloof g h a d"
  using assms by (auto simp: members_def aloof_def)

text \<open>
  C4. No transaction strands money or touches what is not its own: when called contracts leave
  the registry's balances alone and the treasury is not the registry itself, every successful
  operation, of whatever kind and with whatever rounding of fees, leaves unchanged by how much
  the registry holds, of each token, more than it owes to jobs and keepers.
\<close>

theorem no_money_is_stranded:
  assumes "reachable h (me e) s" and "sound_host h (me e)" and "calls_ignore_funds h (me e)"
    and "\<not> authorized e (me e)" and "typed_op x"
    and "s_config (storage s) = Some c" and "treasury c \<noteq> Some (me e)"
    and "perform h e x s = (Ok (), t)"
  shows "\<exists>c'. s_config (storage t) = Some c'
    \<and> (\<forall>u. surplus_of h (me e) c' t u = surplus_of h (me e) c s u)"
proof -
  let ?k = "surplus_of h (me e) c s"
  have m: "members (- {me e}) (- {me e}) UNIV (storage s)" by (rule reachable_members [OF assms(1)])
  have "admits e (- {me e}) (- {me e}) UNIV x" using assms(4) by (auto simp: admits_def)
  from wp_OkD [OF perform_keeps_members [OF this, rule_format, OF m] assms(8)]
  obtain c' where c': "s_config (storage t) = Some c'" by (auto simp: members_def)
  have "aloof (Some ?k) h (me e) (storage s)"
    using m assms(3,6,7) by (intro members_aloof) (auto simp: members_def)
  moreover have "covers (Some ?k) h (me e) 0 0 s" by (simp add: covers_surplus [OF assms(6)])
  moreover have "fair_call h e" using assms(2,4) by (simp add: fair_call_def)
  ultimately have "covers (Some ?k) h (me e) 0 0 t"
    using wp_OkD [OF perform_custody [OF _ reachable_ok [OF assms(1)]] assms(8)] assms(5) by blast
  then show ?thesis using c' by (simp add: covers_surplus)
qed

theorem no_money_is_stranded_witness:
  "\<exists>s t c'. perform demo_host (demo_env 200) (Execute keeper_b 0) s = (Ok (), t)
    \<and> s_config (storage t) = Some c'
    \<and> (\<forall>u. surplus_of demo_host registry_at c' t u = surplus_of demo_host registry_at demo_config s u)"
proof -
  obtain s t where s: "reachable demo_host registry_at s" "stage demo_store demo_funds s"
    and t: "execute demo_host (demo_env 200) keeper_b 0 s = (Ok (), t)"
    using demo_runs(2) by blast
  have c: "s_config (storage s) = Some demo_config" "treasury demo_config \<noteq> Some registry_at"
    using s(2) by (simp_all add: stage_def demo_config_def initial_config_def addresses)
  have run: "perform demo_host (demo_env 200) (Execute keeper_b 0) s = (Ok (), t)"
    using t by (simp add: void_def bind_def ok_def)
  from no_money_is_stranded [OF _ _ _ _ _ c(1) _ run] s(1) c(2) run show ?thesis
    by (auto simp: demo_sound demo_ignores)
qed

end
