(* ===== verification/Spending.thy ===== *)
theory Spending
  imports StepLaws
begin

text \<open>
  What an operation can cost. The registry itself takes from an account at most the deposit or
  stake that account brings and signs for; whatever else an account loses, it loses inside the
  calls to resolvers and to the executor that a run makes, before the registry pays. Of the ids an
  operation uses at most one for each job it creates.
\<close>

definition due_from :: "address \<Rightarrow> int \<Rightarrow> address \<Rightarrow> int" where
  "due_from a n x = (if x = a then n else 0)"

fun cost :: "op \<Rightarrow> address \<Rightarrow> int" where
  "cost (CreateJob a p n) x = due_from a n x"
| "cost (CreateJobs a ps ns) x = due_from a (sum_list ns) x"
| "cost (FundJob a j n) x = due_from a n x"
| "cost (Stake a n) x = due_from a n x"
| "cost _ x = 0"

fun ids_taken :: "op \<Rightarrow> nat" where
  "ids_taken (CreateJob a p n) = Suc 0"
| "ids_taken (CreateJobs a ps ns) = length ps"
| "ids_taken _ = 0"

definition spends :: "'w host \<Rightarrow> address \<Rightarrow> int \<Rightarrow> nat \<Rightarrow> 'w registry \<Rightarrow> 'w registry \<Rightarrow> bool" where
  "spends h x k n s t \<longleftrightarrow>
     (\<forall>u. token_balance h (world s) u x - k \<le> token_balance h (world t) u x)
     \<and> unat (issued (storage t)) \<le> unat (issued (storage s)) + n"

abbreviation frugal :: "'w host \<Rightarrow> address \<Rightarrow> ('w, 'a) reg \<Rightarrow> bool" where
  "frugal h x m \<equiv> (\<forall>s. wp m (\<lambda>_ t. spends h x 0 0 s t) (\<lambda>_ t. spends h x 0 0 s t) True s)"

lemma spends_refl [simp]: "spends h x 0 0 s s"
  by (simp add: spends_def)

lemma spends_trans: "spends h x 0 0 s t \<Longrightarrow> spends h x 0 0 t u \<Longrightarrow> spends h x 0 0 s u"
  by (auto simp: spends_def intro: order_trans)

lemma spendsI:
  assumes "s_next_job_id (storage t) = s_next_job_id (storage s)"
    and "\<And>u. token_balance h (world s) u x \<le> token_balance h (world t) u x"
  shows "spends h x 0 0 s t"
  using assms by (simp add: spends_def issued_def)

text \<open>
  The accounts the claims are about, and what a payment by the registry does to them. Bystanders
  are the outsiders whose money called contracts leave alone as well.
\<close>

definition outsider :: "'w host \<Rightarrow> env \<Rightarrow> address \<Rightarrow> bool" where
  "outsider h e x \<longleftrightarrow> token_laws h \<and> install_keeps_funds h \<and> x \<noteq> me e"

definition bystander :: "'w host \<Rightarrow> env \<Rightarrow> address \<Rightarrow> bool" where
  "bystander h e x \<longleftrightarrow> outsider h e x \<and> calls_keep_funds h x"

lemma registry_pays:
  "outsider h e x \<Longrightarrow> token_transfer h v (me e) b n w = Some w' \<Longrightarrow>
   token_balance h w u x \<le> token_balance h w' u x"
  using transfer_balance [of h v "me e" b n w w' u x] transfer_nonneg [of h v "me e" b n w w']
  by (auto simp: outsider_def)

lemma caller_pays:
  "outsider h e x \<Longrightarrow> token_transfer h v a b n w = Some w' \<Longrightarrow>
   token_balance h w u x - (if x = a then n else 0) \<le> token_balance h w' u x"
  using transfer_balance [of h v a b n w w' u x] transfer_nonneg [of h v a b n w w']
  by (auto simp: outsider_def)

section \<open>Operations that cost nothing\<close>

lemma settings_cost_nothing:
  assumes "outsider h e x"
  shows "frugal h x (set_executor e y)" "frugal h x (propose_admin e a)" "frugal h x (accept_admin e)"
    "frugal h x (cancel_admin_proposal e)" "frugal h x (set_paused e b)" "frugal h x (halt_target e a b)"
    "frugal h x (set_min_stake e i)" "frugal h x (set_min_interval e n)" "frugal h x (set_max_args e m)"
    "frugal h x (set_protocol_fee e m r)" "frugal h x (set_max_failures e m)"
    "frugal h x (set_keeper_windows e n)" "frugal h x (set_unbonding_epoch e n)"
    "frugal h x (propose_upgrade e d)" "frugal h x (cancel_upgrade e)" "frugal h x (change_upgrade_delay e n)"
    "frugal h x (apply_upgrade h e)"
  using assms
  by (auto simp: settings_defs accept_admin_def set_unbonding_epoch_def propose_upgrade_def cancel_upgrade_def
      change_upgrade_delay_def apply_upgrade_def wps Let_def outsider_def install_keeps_funds_def
      split: option.split intro!: spendsI)

lemma jobs_cost_nothing:
  assumes "outsider h e x"
  shows "frugal h x (cancel_job h e j)" "frugal h x (withdraw_job_balance h e j n)"
    "frugal h x (set_job_active e j b)" "frugal h x (propose_job_owner e j a)"
    "frugal h x (accept_job_owner e j)" "frugal h x (begin_unbonding e a)" "frugal h x (release_stake h e c a)"
  using registry_pays [OF assms]
  by (auto simp: cancel_job_def withdraw_job_balance_def set_job_active_def propose_job_owner_def
      accept_job_owner_def begin_unbonding_def release_stake_def wps Let_def parts_def
      split: option.splits if_splits intro!: spendsI)

lemma update_costs_nothing: "frugal h x (update_job e j u)"
  by (auto simp: update_job_def store_update_def leader_run_count_def ensure_not_paused_def wps
      Let_def parts_def split: option.splits sum.splits if_splits intro!: spendsI)

lemma spends_same: "same s t \<Longrightarrow> spends h x 0 0 s t"
  by (simp add: same_def spends_def)

lemma exits_cost_nothing:
  assumes "outsider h e x"
  shows "frugal h x (withdraw_stake h e a)" "frugal h x (withdraw_stakes h e as)"
proof -
  note release = jobs_cost_nothing(7) [OF assms, rule_format]
  have one: "wp (release_stake h e c a) (\<lambda>_. spends h x 0 0 s) (\<lambda>_. spends h x 0 0 s) True t"
    if "spends h x 0 0 s t" for s c a and t :: "'a registry"
    by (rule wp_mono [OF release]) (use that in \<open>auto intro: spends_trans\<close>)
  have start: "spends h x 0 0 s (seen_instance s)" for s :: "'a registry"
    by (rule spendsI) simp_all
  show "frugal h x (withdraw_stake h e a)"
    by (auto simp: withdraw_stake_def wps split: option.split intro: one start)
  have "wp (collect (\<lambda>a. bind (attempt (release_stake h e c a)) (\<lambda>res.
      ok (case res of Inl _ \<Rightarrow> 0 | Inr n \<Rightarrow> n))) as :: ('a, int list) reg)
    (\<lambda>_. spends h x 0 0 s) (\<lambda>_. spends h x 0 0 s) True (seen_instance s)" for c s
    by (rule wp_collect) (auto simp: wps start intro!: wp_mono [OF one])
  then show "frugal h x (withdraw_stakes h e as)"
    by (auto simp: withdraw_stakes_def wps start split: option.split)
qed

section \<open>Runs\<close>

text \<open>
  The calls a run makes: each asks the resolver of one of the jobs \<open>J\<close> it was given, or asks the
  executor to run such a job. \<open>called h e d J\<close> relates two worlds when a sequence of such calls,
  and nothing else, leads from one to the other.
\<close>

inductive called :: "'w host \<Rightarrow> env \<Rightarrow> reg_store \<Rightarrow> u64 set \<Rightarrow> 'w \<Rightarrow> 'w \<Rightarrow> bool"
  for h e d J where
  nothing: "called h e d J w w"
| asked: "called h e d J w w1 \<Longrightarrow> j \<in> J \<Longrightarrow> s_specs d j = Some spec \<Longrightarrow> resolver spec = Some a
    \<Longrightarrow> call_contract h (me e) a RESOLVER_FN [ValU64 j] w1 = Some (answer, w2)
    \<Longrightarrow> called h e d J w w2"
| ran: "called h e d J w w1 \<Longrightarrow> j \<in> J \<Longrightarrow> s_specs d j = Some spec
    \<Longrightarrow> s_config d = Some c \<Longrightarrow> executor c = Some exec
    \<Longrightarrow> call_contract h (me e) exec EXECUTE_FN
        [ValAddress (target spec), ValSymbol (function_name spec), ValVec (args spec)] w1
      = Some (answer, w2)
    \<Longrightarrow> called h e d J w w2"

lemma no_jobs_no_calls: "called h e d {} w w' \<longleftrightarrow> w' = w"
  by (auto elim: called.cases intro: called.nothing)

lemma called_spares:
  "called h e d J w w' \<Longrightarrow> calls_keep_funds h x \<Longrightarrow> token_balance h w u x \<le> token_balance h w' u x"
  by (induction rule: called.induct) (auto simp: calls_keep_funds_def intro: order_trans)

lemma called_resolver:
  assumes "called h e d J w w1" and "j \<in> J" and "s_specs d j = Some spec"
    and "resolver_says h e j spec w1 = Some (b, w2)"
  shows "called h e d J w w2"
  using assms(1,4)
  by (auto simp: resolver_says_def split: option.splits intro: called.asked [OF assms(1-3)])

lemma called_target:
  assumes "called h e d J w w1" and "j \<in> J" and "s_specs d j = Some spec"
    and "s_config d = Some c" and "executor c = Some exec"
    and "target_says h e exec spec w1 = Some (r, w2)"
  shows "called h e d J w w2"
  using assms(6) by (auto simp: target_says_def intro: called.ran [OF assms(1-5)])

text \<open>While a run is under way, only such calls have touched the world.\<close>

definition only_called :: "'w host \<Rightarrow> env \<Rightarrow> u64 set \<Rightarrow> 'w registry \<Rightarrow> 'w registry \<Rightarrow> bool" where
  "only_called h e J s t \<longleftrightarrow>
     called h e (storage s) J (world s) (world t) \<and> s_specs (storage t) = s_specs (storage s)
     \<and> s_next_job_id (storage t) = s_next_job_id (storage s)"

lemma only_called_same: "storage t = storage s \<Longrightarrow> world t = world s \<Longrightarrow> only_called h e J s t"
  by (simp add: only_called_def called.nothing)

lemma run_does_only_calls:
  assumes "run_does h e c exec a j acc t r u" and "only_called h e J s t" and "j \<in> J"
    and "s_config (storage s) = Some c" and "executor c = Some exec"
  shows "only_called h e J s u"
proof -
  obtain spec w1 answer w2 where run: "s_specs (storage s) j = Some spec"
    "resolver_says h e j spec (world t) = Some (True, w1)"
    "target_says h e exec spec w1 = Some (answer, w2)" "world u = w2"
    and frame: "s_specs (storage u) = s_specs (storage t)"
      "s_next_job_id (storage u) = s_next_job_id (storage t)"
    using assms(1,2) by (auto simp: run_does_def became_def only_called_def parts_Some_iff)
  have "called h e (storage s) J (world s) (world t)" using assms(2) by (simp add: only_called_def)
  from called_target [OF called_resolver [OF this assms(3) run(1,2)] assms(3) run(1) assms(4,5) run(3)]
  show ?thesis using assms(2) frame run(4) by (simp add: only_called_def)
qed

lemma run_refuses_only_calls:
  assumes "run_refuses h e c a j t y u" and "only_called h e J s t" and "j \<in> J"
  shows "only_called h e J s u"
proof -
  have frame: "storage u = storage t" using run_refuses_frame [OF assms(1)] by simp
  have called: "called h e (storage s) J (world s) (world t)" using assms(2) by (simp add: only_called_def)
  have "called h e (storage s) J (world s) (world u)"
    using assms(1,2) called_resolver [OF called assms(3)] called
    by (auto simp: run_refuses_def same_def became_def only_called_def parts_Some_iff split: option.splits)
  then show ?thesis using assms(2) by (simp add: only_called_def frame)
qed

text \<open>
  What an operation takes: after the calls it makes, at most the amount, and for its jobs at most
  the ids.
\<close>

definition takes ::
  "'w host \<Rightarrow> env \<Rightarrow> address \<Rightarrow> u64 set \<Rightarrow> int \<Rightarrow> nat \<Rightarrow> 'w registry \<Rightarrow> 'w registry \<Rightarrow> bool" where
  "takes h e x J k n s t \<longleftrightarrow>
     (\<exists>w. called h e (storage s) J (world s) w
        \<and> (\<forall>u. token_balance h w u x - k \<le> token_balance h (world t) u x))
     \<and> unat (issued (storage t)) \<le> unat (issued (storage s)) + n"

lemma spends_takes: "spends h x k n s t \<Longrightarrow> takes h e x J k n s t"
  by (auto simp: takes_def spends_def intro: called.nothing)

lemma takes_spends:
  assumes "takes h e x J k n s t" and "calls_keep_funds h x"
  shows "spends h x k n s t"
proof -
  obtain w where w: "called h e (storage s) J (world s) w"
    "\<And>u. token_balance h w u x - k \<le> token_balance h (world t) u x"
    using assms(1) by (auto simp: takes_def)
  have "token_balance h (world s) u x - k \<le> token_balance h (world t) u x" for u
    using called_spares [OF w(1) assms(2), of u] w(2) [of u] by linarith
  then show ?thesis using assms(1) by (simp add: takes_def spends_def)
qed

lemma settled_spares:
  assumes "outsider h e x" and "settled h e c a pay w = Some w'"
  shows "token_balance h w u x \<le> token_balance h w' u x"
proof -
  note pays = registry_pays [OF assms(1)]
  obtain w1 where w1: "(if 0 < keeper_fees pay
      then token_transfer h (fee_token c) (me e) a (keeper_fees pay) w else Some w) = Some w1"
    and rest: "w' = w1 \<or> (\<exists>y. token_transfer h (fee_token c) (me e) y (protocol_fees pay) w1 = Some w')"
    using assms(2) by (auto simp: settled_def split: option.splits if_splits)
  have "token_balance h w u x \<le> token_balance h w1 u x"
    using w1 pays [of _ _ _ w w1 u] by (auto split: if_splits)
  also have "\<dots> \<le> token_balance h w' u x"
    using rest pays [of _ _ _ w1 w' u] by auto
  finally show ?thesis .
qed

lemma settling_takes:
  assumes "outsider h e x" and "only_called h e J s t" and "settled h e c a pay (world t) = Some (world u)"
    and "s_next_job_id (storage u) = s_next_job_id (storage t)"
  shows "takes h e x J 0 0 s u"
  using assms(2,4) settled_spares [OF assms(1,3)]
  by (auto simp: takes_def only_called_def issued_def)

lemma closing_takes:
  assumes "outsider h e x" and "only_called h e J s t"
  shows "wp (andthen (save_record a rec) (settle h e c a pay)) (\<lambda>_. takes h e x J 0 0 s) E True t"
    "wp (andthen (save_record a rec) (andthen (settle h e c a pay) (ok y))) (\<lambda>_. takes h e x J 0 0 s) E True t"
  by (auto simp: wp_andthen [abs_def] wp_save_record wp_ok [abs_def]
      intro!: wp_settle_frame settling_takes [OF assms])

lemma runs_take:
  assumes "outsider h e x"
  shows "wp (execute h e a j) (\<lambda>_. takes h e x {j} 0 0 s) (\<lambda>_ _. True) True s"
    "wp (execute_batch h e a js) (\<lambda>_. takes h e x (set js) 0 0 s) (\<lambda>_ _. True) True s"
proof -
  have run: "wp (run_job h e c exec a acc j)
      (\<lambda>p. wp (case p of (rec', pay) \<Rightarrow> andthen (save_record a rec') (settle h e c a pay))
        (\<lambda>_. takes h e x {j} 0 0 s) (\<lambda>_ _. True) True) (\<lambda>_ _. True) True t"
    if "only_called h e {j} s t" "s_config (storage s) = Some c" "executor c = Some exec"
    for c exec acc s and t :: "'a registry"
    by (rule wp_mono [OF wp_run_job])
      (use that in \<open>auto intro!: closing_takes [OF assms] elim!: run_does_only_calls split: prod.split\<close>)
  have start: "only_called h e J s (seen b k (seen True k' (seen_instance s)))"
    for J b k k' and s :: "'a registry"
    by (rule only_called_same) simp_all
  show "wp (execute h e a j) (\<lambda>_. takes h e x {j} 0 0 s) (\<lambda>_ _. True) True s"
    by (auto simp: execute_def authorize_keeper_def load_record_def wps
        split: option.split sum.split intro!: run start)
  have loop: "wp (run_jobs h e c exec a acc js)
      (\<lambda>p. wp (case p of (did, rec', pay) \<Rightarrow>
          andthen (save_record a rec') (andthen (settle h e c a pay) (ok did)))
        (\<lambda>_. takes h e x (set js) 0 0 s) (\<lambda>_ _. True) True) (\<lambda>_ _. True) True t"
    if "only_called h e (set js) s t" "s_config (storage s) = Some c" "executor c = Some exec"
    for c exec acc s and t :: "'a registry"
    by (rule wp_mono [OF wp_run_jobs [where I = "\<lambda>_. only_called h e (set js) s" and T = True, OF that(1)]])
      (use that in \<open>auto intro!: closing_takes [OF assms]
        intro: run_does_only_calls run_refuses_only_calls\<close>)
  show "wp (execute_batch h e a js) (\<lambda>_. takes h e x (set js) 0 0 s) (\<lambda>_ _. True) True s"
    by (auto simp: execute_batch_def authorize_keeper_def load_record_def wps
        split: option.split sum.split intro!: loop start)
qed

section \<open>Deposits and stakes\<close>

lemma spends_paid:
  assumes "outsider h e x" and "token_transfer h v a b n (world s) = Some (world t)"
    and "s_next_job_id (storage t) = s_next_job_id (storage s)"
  shows "spends h x (due_from a n x) 0 s t"
  unfolding spends_def issued_def assms(3) due_from_def using caller_pays [OF assms(1,2)] by simp

lemma deposits_cost:
  assumes "outsider h e x"
  shows "wp (fund_job h e a j n) (\<lambda>_ t. spends h x (due_from a n x) 0 s t) (\<lambda>_ _. True) True s"
    "wp (stake_tokens h e a n) (\<lambda>_ t. spends h x (due_from a n x) 0 s t) (\<lambda>_ _. True) True s"
  by (auto simp: fund_job_def stake_tokens_def ensure_not_paused_def wps Let_def
      split: option.split intro!: spends_paid [OF assms])

lemma sum_zip_second: "length ps = length ns \<Longrightarrow> (\<Sum>(p, n) \<leftarrow> zip ps ns. n) = sum_list ns"
  by (induction ps ns rule: list_induct2) simp_all

text \<open>Creations: one payment, and one id for each job.\<close>

lemma spends_inserted:
  assumes "spends h x k n s t" and "became (inserted e a p m (storage t)) (world t) vs t u"
    and "issued (storage t) \<noteq> - 1"
  shows "spends h x k (Suc n) s u"
proof -
  have "issued (storage u) = issued (storage t) + 1"
    using assms(2) by (simp add: became_def inserted_def Let_def issued_def [of "push_owner_job _ _ _"])
  moreover have "unat (issued (storage t) + 1) \<le> unat (issued (storage t)) + 1"
    by (simp add: unat_word_ariths)
  moreover have "world u = world t" using assms(2) by (simp add: became_def)
  ultimately show ?thesis using assms(1) by (simp add: spends_def)
qed

lemma insert_all_spends:
  "spends h x k n s t \<Longrightarrow> wp (collect (\<lambda>(p, m). insert_job e a p m) xs)
     (\<lambda>_ u. spends h x k (n + length xs) s u) (\<lambda>_ _. True) True t"
proof (induction xs arbitrary: n t)
  case Nil
  then show ?case by (simp add: wps)
next
  case (Cons y xs)
  obtain p m where y: "y = (p, m)" by (cases y)
  show ?case
    unfolding collect.simps wp_bind y prod.case
  proof (rule wp_insert_job)
    fix u assume "issued (storage t) \<noteq> - 1"
      and "became (inserted e a p m (storage t)) (world t)
        [JobEvent (JobCreated (issued (storage t)) a (p_target p) (interval (new_spec a p)) (p_fee_per_run p) m)] t u"
    from Cons.IH [OF spends_inserted [OF Cons.prems this(2,1)]]
    show "wp (collect (\<lambda>(p, m). insert_job e a p m) xs)
        (\<lambda>ys. wp (ok (issued (storage t) # ys)) (\<lambda>_ u. spends h x k (n + length ((p, m) # xs)) s u)
          (\<lambda>_ _. True) True) (\<lambda>_ _. True) True u"
      by (simp add: wp_ok [abs_def])
  qed simp
qed

lemma creations_cost:
  assumes "outsider h e x"
  shows "wp (create_job h e a p n) (\<lambda>_ t. spends h x (due_from a n x) (Suc 0) s t) (\<lambda>_ _. True) True s"
    "wp (create_jobs h e a ps ns) (\<lambda>_ t. spends h x (due_from a (sum_list ns) x) (length ps) s t)
       (\<lambda>_ _. True) True s"
proof -
  have paid: "spends h x (due_from a n x) 0 s (t\<lparr>world := w\<rparr>)"
    if "same (seen_instance s) t" "token_transfer h v a b n (world s) = Some w" for n t v b w
    by (rule spends_paid [OF assms, where v = v and b = b]) (use that in \<open>simp_all add: same_def\<close>)
  have one: "wp (insert_job e a p n) (\<lambda>_ u. spends h x (due_from a n x) (Suc 0) s u) (\<lambda>_ _. True) True (t\<lparr>world := w\<rparr>)"
    if "same (seen_instance s) t" "token_transfer h v a b n (world s) = Some w" for t v b w
    by (rule wp_insert_job)
      (use spends_inserted [OF paid [OF that]] in \<open>simp_all\<close>)
  show "wp (create_job h e a p n) (\<lambda>_ t. spends h x (due_from a n x) (Suc 0) s t) (\<lambda>_ _. True) True s"
    by (auto simp: create_job_def wps ensure_not_paused_def same_def split: option.split
        intro!: wp_validate_job one)
  have all: "wp (collect (\<lambda>(p, m). insert_job e a p m) (zip ps ns))
      (\<lambda>_ u. spends h x (due_from a (sum_list ns) x) (length ns) s u) (\<lambda>_ _. True) True (t\<lparr>world := w\<rparr>)"
    if "same (seen_instance s) t" "length ps = length ns"
      "token_transfer h v a b (\<Sum>(p, m) \<leftarrow> zip ps ns. m) (world s) = Some w" for t v b w
    using insert_all_spends [OF paid [OF that(1,3)], of e a "zip ps ns"]
    by (simp add: sum_zip_second [OF that(2)] that(2))
  show "wp (create_jobs h e a ps ns) (\<lambda>_ t. spends h x (due_from a (sum_list ns) x) (length ps) s t)
       (\<lambda>_ _. True) True s"
    unfolding create_jobs_def
    apply (simp add: wp_andthen wp_bind wp_load_config wp_lift_result ensure_not_paused_def
        wp_require_auth wp_fail_if split: option.split)
    apply (intro allI impI conjI wp_validate_all)
    apply (auto simp: wp_andthen wp_transfer same_def split: option.split intro!: all)
    done
qed

section \<open>Every operation\<close>

text \<open>The jobs an operation runs.\<close>

fun jobs_run :: "op \<Rightarrow> u64 list" where
  "jobs_run (Execute a j) = [j]"
| "jobs_run (ExecuteBatch a js) = js"
| "jobs_run _ = []"

lemma perform_takes:
  assumes "outsider h e x"
  shows "wp (perform h e y) (\<lambda>_. takes h e x (set (jobs_run y)) (cost y x) (ids_taken y) s) (\<lambda>_ _. True) True s"
proof -
  have loud: "wp m (\<lambda>_. takes h e x J k n s) (\<lambda>_ _. True) True s"
    if "wp m (\<lambda>_. spends h x k n s) (\<lambda>_ _. True) True s" for J k n and m :: "('a, 'b) reg"
    by (rule wp_mono [OF that]) (simp_all add: spends_takes)
  have quiet: "wp m (\<lambda>_. takes h e x J 0 0 s) (\<lambda>_ _. True) True s" if "frugal h x m"
    for J and m :: "('a, 'b) reg"
    by (rule wp_mono [OF that [rule_format]]) (simp_all add: spends_takes)
  note free = settings_cost_nothing [OF assms] jobs_cost_nothing [OF assms] update_costs_nothing
    exits_cost_nothing [OF assms]
  show ?thesis
    by (cases y) (simp_all add: wp_void quiet free runs_take [OF assms] loud [OF deposits_cost(1) [OF assms]]
        loud [OF deposits_cost(2) [OF assms]] loud [OF creations_cost(1) [OF assms]]
        loud [OF creations_cost(2) [OF assms]])
qed

lemma perform_spends:
  assumes "bystander h e x"
  shows "wp (perform h e y) (\<lambda>_ t. spends h x (cost y x) (ids_taken y) s t) (\<lambda>_ _. True) True s"
  by (rule wp_mono [OF perform_takes]) (use assms in \<open>auto simp: bystander_def intro: takes_spends\<close>)

lemma cost_signed: "cost y x \<noteq> 0 \<Longrightarrow> signer d y = Some x"
  by (cases y) (auto simp: due_from_def split: if_splits)

lemma cost_authorized: "signed e d y \<Longrightarrow> cost y x \<noteq> 0 \<Longrightarrow> authorized e x"
  using cost_signed [of y x d] by (auto simp: signed_def)

text \<open>
  C8. Nobody else pays the registry. Whatever an operation does, successful or not: it first makes
  calls to the resolvers of the jobs it was given and to the executor, for those jobs and with
  their own arguments, and only a run makes any. Compared with the world after these calls, an
  account other than the registry holds of every token at least as much when the operation ends;
  only an account that signed for a deposit or a stake has less, and not by more than the amount it
  signed for. So a keeper, an owner or a third party can lose money in a run only to the contracts
  called, never to the registry. Nothing is assumed of these contracts.
\<close>

theorem nobody_else_pays:
  assumes "token_laws h" and "install_keeps_funds h" and "x \<noteq> me e"
    and "transact (perform h e y) s = (r, t)"
  shows "\<exists>w. called h e (storage s) (set (jobs_run y)) (world s) w
    \<and> (\<forall>u. token_balance h w u x - (if authorized e x then max 0 (cost y x) else 0)
          \<le> token_balance h (world t) u x)"
proof (cases "r = Ok ()")
  case True
  then have p: "perform h e y s = (Ok (), t)" using assms(4) by simp
  have o: "outsider h e x" using assms by (simp add: outsider_def)
  obtain w where w: "called h e (storage s) (set (jobs_run y)) (world s) w"
    "\<And>u. token_balance h w u x - cost y x \<le> token_balance h (world t) u x"
    using wp_OkD [OF perform_takes [OF o] p] by (auto simp: takes_def)
  have free: "cost y x = 0" if "\<not> authorized e x"
    using wp_OkD [OF perform_signed p] cost_authorized that by blast
  have "token_balance h w u x - (if authorized e x then max 0 (cost y x) else 0)
      \<le> token_balance h (world t) u x" for u
    using w(2) [of u] free by auto
  then show ?thesis using w(1) by blast
next
  case False
  then have "t = s" using transact_not_Ok [OF assms(4)] by auto
  then show ?thesis by (intro exI [of _ "world s"]) (simp add: called.nothing)
qed

text \<open>
  At work twice: a keeper's stake is all it pays, and nobody else pays anything; and a keeper
  that runs a job on a deployment whose contracts move no money loses nothing.
\<close>

theorem nobody_else_pays_witness:
  "\<exists>r t. transact (perform demo_host (demo_env 60) (Stake keeper_a 5)) demo = (r, t)
    \<and> token_balance demo_host (world demo) bond keeper_a - 5 \<le> token_balance demo_host (world t) bond keeper_a
    \<and> token_balance demo_host (world demo) bond alice \<le> token_balance demo_host (world t) bond alice
    \<and> (\<exists>s t w. transact (perform demo_host (demo_env 90) (Execute keeper_a 0)) s = (Ok (), t)
        \<and> called demo_host (demo_env 90) (storage s) {0} (world s) w
        \<and> token_balance demo_host w xlm keeper_a \<le> token_balance demo_host (world t) xlm keeper_a)"
proof -
  obtain r t where t: "transact (perform demo_host (demo_env 60) (Stake keeper_a 5)) demo = (r, t)"
    by (cases "transact (perform demo_host (demo_env 60) (Stake keeper_a 5)) demo")
  have laws: "token_laws demo_host" "install_keeps_funds demo_host"
    using demo_sound by (simp_all add: sound_host_def)
  have pays: "token_balance demo_host (world demo) u x - (if x = keeper_a then 5 else 0)
      \<le> token_balance demo_host (world t) u x" if "x \<noteq> registry_at" for x u
  proof -
    have x: "x \<noteq> me (demo_env 60)" using that by simp
    obtain w where "called demo_host (demo_env 60) (storage demo) {} (world demo) w"
      and w: "token_balance demo_host w u x - (if authorized (demo_env 60) x
            then max 0 (cost (Stake keeper_a 5) x) else 0) \<le> token_balance demo_host (world t) u x"
      by (rule exE [OF nobody_else_pays [OF laws x t]]) auto
    then have "w = world demo" by (simp only: no_jobs_no_calls)
    then show ?thesis using w that by (simp add: due_from_def split: if_splits)
  qed
  have "token_balance demo_host (world demo) bond keeper_a - 5 \<le> token_balance demo_host (world t) bond keeper_a"
    using pays [of keeper_a bond] by (simp add: addresses)
  moreover have "token_balance demo_host (world demo) bond alice \<le> token_balance demo_host (world t) bond alice"
    using pays [of alice bond] by (simp add: addresses)
  moreover obtain s t' where s: "execute demo_host (demo_env 90) keeper_a 0 s = (Ok (), t')"
    using demo_runs(1) by blast
  then have run: "transact (perform demo_host (demo_env 90) (Execute keeper_a 0)) s = (Ok (), t')"
    by (simp add: void_def bind_def ok_def)
  moreover have "\<exists>w. called demo_host (demo_env 90) (storage s) {0} (world s) w
      \<and> token_balance demo_host w xlm keeper_a \<le> token_balance demo_host (world t') xlm keeper_a"
  proof -
    have "keeper_a \<noteq> me (demo_env 90)" by (simp add: addresses)
    from nobody_else_pays [OF laws this run] show ?thesis by (auto split: if_splits dest!: spec [of _ xlm])
  qed
  ultimately show ?thesis using t by blast
qed

end
