(* ===== verification/Panics.thy ===== *)
theory Panics
  imports Conservation Spending
begin

text \<open>
  The registry never panics. Every place where an entry point could (a checked sum, a missing
  entry, a refused signature, a token transfer, a called contract) is shown out of reach from a
  reachable state, given the signature the operation needs, a caller who can pay, and a token and
  a host that do what is documented.
\<close>

section \<open>Hosts that serve\<close>

text \<open>
  A transfer of what the sender holds succeeds (a token without further conditions, whose supply
  fits \<open>i128\<close>), and \<open>try_invoke_contract\<close> returns, with whatever the called contract did.
\<close>

definition obliging :: "'w host \<Rightarrow> bool" where
  "obliging h \<longleftrightarrow>
     (\<forall>token a b n w. 0 \<le> n \<longrightarrow> n \<le> token_balance h w token a \<longrightarrow> token_transfer h token a b n w \<noteq> None)
     \<and> (\<forall>caller callee f xs w. call_contract h caller callee f xs w \<noteq> None)"

lemma obligingD:
  assumes "obliging h"
  shows "0 \<le> n \<Longrightarrow> n \<le> token_balance h w token a \<Longrightarrow> token_transfer h token a b n w \<noteq> None"
    and "call_contract h caller callee f xs w \<noteq> None"
  using assms by (simp_all add: obliging_def)

text \<open>An action that returns or fails with an error, but does not panic.\<close>

abbreviation sure :: "('s, 'e, 'a) act \<Rightarrow> 's \<Rightarrow> bool" where
  "sure m s \<equiv> wp m (\<lambda>_ _. True) (\<lambda>_ _. True) False s"

lemma sure_iff: "sure m s \<longleftrightarrow> fst (m s) \<noteq> Trap"
  by (simp add: wp_def split: prod.split outcome.split)

lemma sure_void: "sure (void m) s \<longleftrightarrow> sure m s"
  by (simp add: void_def wp_bind wp_ok [abs_def])

text \<open>The books of a registry between two calls.\<close>

definition sound :: "'w host \<Rightarrow> address \<Rightarrow> config \<Rightarrow> 'w registry \<Rightarrow> bool" where
  "sound h a c s \<longleftrightarrow> registry_ok (storage s) \<and> s_config (storage s) = Some c \<and> covers None h a 0 0 s"

lemma soundD:
  assumes "sound h a c s"
  shows "registry_ok (storage s)" "s_config (storage s) = Some c" "covers None h a 0 0 s"
  using assms by (simp_all add: sound_def)

lemma sound_same: "same s t \<Longrightarrow> sound h a c t \<longleftrightarrow> sound h a c s"
  by (auto simp: sound_def same_def covers_def)

text \<open>What the books owe to one party is there, and what comes in fits.\<close>

lemma sound_held:
  assumes "sound h a c s"
  shows "s_states (storage s) j = Some st \<Longrightarrow>
      0 \<le> balance st \<and> balance st \<le> token_balance h (world s) (fee_token c) a"
    and "s_keepers (storage s) x = Some k \<Longrightarrow>
      0 \<le> stake k \<and> stake k \<le> token_balance h (world s) (stake_token c) a"
proof -
  note s = soundD [OF assms]
  have owed: "owed c (storage s) u \<le> token_balance h (world s) u a" for u
    using covers_at_least [OF s(3,2) refl, of u] by (simp split: if_splits)
  show "0 \<le> balance st \<and> balance st \<le> token_balance h (world s) (fee_token c) a"
    if "s_states (storage s) j = Some st"
    using owed [of "fee_token c"] balance_le_total [OF s(1) that] registry_okD(1) [OF s(1) that]
      total_stake_nonneg [OF s(1)] by (auto simp: owed_def split: if_splits)
  show "0 \<le> stake k \<and> stake k \<le> token_balance h (world s) (stake_token c) a"
    if "s_keepers (storage s) x = Some k"
    using owed [of "stake_token c"] stake_le_total [OF s(1) that] s(1) that
      total_balance_nonneg [OF s(1)]
    by (fastforce simp: owed_def registry_ok_def keepers_ok_def split: if_splits)
qed

lemma fee_fits:
  assumes "sound h (me e) c s" and "fair_call h e" and "authorized e a"
    and "token_transfer h (fee_token c) a (me e) n (world s) = Some w"
    and "s_states (storage s) j = Some st"
  shows "in_i128 (balance st + n)"
proof -
  note s = soundD [OF assms(1)] and f = fair_callD [OF assms(2)]
  have "covers None h (me e) (0 + n) 0 (s\<lparr>world := w\<rparr>)"
    by (rule covers_fee_in [OF f(1) s(3,2) assms(4) f(3) [OF assms(3)]])
  from covers_bound [OF f(1) this] s have "n + total balance (s_states (storage s)) < 2 ^ 127" by simp
  then show ?thesis
    using balance_le_total [OF s(1) assms(5)] registry_okD(1) [OF s(1) assms(5)]
      transfer_nonneg [OF f(1) assms(4)] by (simp add: in_i128_def)
qed

lemma stake_fits:
  assumes "sound h (me e) c s" and "fair_call h e" and "authorized e a"
    and "token_transfer h (stake_token c) a (me e) n (world s) = Some w"
  shows "in_i128 (at_key stake (s_keepers (storage s)) x + n)"
proof -
  note s = soundD [OF assms(1)] and f = fair_callD [OF assms(2)]
  have "covers None h (me e) 0 (0 + n) (s\<lparr>world := w\<rparr>)"
    by (rule covers_stake_in [OF f(1) s(3,2) assms(4) f(3) [OF assms(3)]])
  from covers_bound_stake [OF f(1) this] s have "n + total stake (s_keepers (storage s)) < 2 ^ 127" by simp
  moreover have "0 \<le> at_key stake (s_keepers (storage s)) x"
    "at_key stake (s_keepers (storage s)) x \<le> total stake (s_keepers (storage s))"
    using sound_held(2) [OF assms(1), of x] stake_le_total [OF s(1), of x] total_stake_nonneg [OF s(1)]
    by (auto simp: at_key_def split: option.split)
  ultimately show ?thesis
    using transfer_nonneg [OF f(1) assms(4)] by (simp add: in_i128_def)
qed

section \<open>Jobs\<close>

text \<open>What the caller must hold, and that there are ids left.\<close>

fun affords :: "'w host \<Rightarrow> 'w \<Rightarrow> config \<Rightarrow> op \<Rightarrow> bool" where
  "affords h w c (CreateJob a p n) \<longleftrightarrow> n \<le> token_balance h w (fee_token c) a"
| "affords h w c (CreateJobs a ps ns) \<longleftrightarrow> sum_list ns \<le> token_balance h w (fee_token c) a"
| "affords h w c (FundJob a j n) \<longleftrightarrow> n \<le> token_balance h w (fee_token c) a"
| "affords h w c (Stake a n) \<longleftrightarrow> n \<le> token_balance h w (stake_token c) a"
| "affords h w c _ \<longleftrightarrow> True"

fun ids_left :: "reg_store \<Rightarrow> op \<Rightarrow> bool" where
  "ids_left d (CreateJob a p n) \<longleftrightarrow> unat (issued d) + 1 < 2 ^ 64"
| "ids_left d (CreateJobs a ps ns) \<longleftrightarrow> unat (issued d) + length ps < 2 ^ 64"
| "ids_left d _ \<longleftrightarrow> True"

lemma validated_positive:
  assumes "validated e c d p n" and "typed_params p"
  shows "0 \<le> n"
  using assms by (auto simp: validated_def dest!: validate_schedule_Inr)

lemma last_id: "unat n + 1 < 2 ^ 64 \<Longrightarrow> n \<noteq> - 1" for n :: u64
  by (auto simp: unat_max_word)

lemma sure_create_job:
  assumes ob: "obliging h" and s: "sound h (me e) c s" and "authorized e a" and "typed_params p"
    and n: "n \<le> token_balance h (world s) (fee_token c) a" and "unat (issued (storage s)) + 1 < 2 ^ 64"
  shows "sure (create_job h e a p n) s"
  using soundD [OF s] assms(3) last_id [OF assms(6)]
  by (auto simp: create_job_def wps ensure_not_paused_def same_def
      obligingD(1) [OF ob validated_positive [OF _ assms(4)] n] split: option.split
      intro!: wp_validate_job wp_insert_job)

lemma sure_insert_all:
  assumes "unat (issued (storage s)) + length xs < 2 ^ 64"
  shows "sure (collect (\<lambda>(p, n). insert_job e a p n) xs) s"
  using assms
proof (induction xs arbitrary: s)
  case Nil
  then show ?case by (simp add: wps)
next
  case (Cons x xs)
  obtain p n where x: "x = (p, n)" by (cases x)
  have last: "issued (storage s) \<noteq> - 1" by (rule last_id) (use Cons.prems in simp)
  show ?case
    unfolding collect.simps wp_bind x prod.case
  proof (rule wp_insert_job)
    fix t assume "became (inserted e a p n (storage s)) (world s)
      [JobEvent (JobCreated (issued (storage s)) a (p_target p) (interval (new_spec a p)) (p_fee_per_run p) n)] s t"
    then have "issued (storage t) = issued (storage s) + 1"
      by (simp add: became_def inserted_def Let_def issued_def [of "push_owner_job _ _ _"])
    moreover have "unat (issued (storage s) + 1) = unat (issued (storage s)) + 1"
      using Cons.prems by (simp add: unat_word_ariths)
    ultimately have "sure (collect (\<lambda>(p, n). insert_job e a p n) xs) t"
      using Cons.prems by (intro Cons.IH) simp
    then show "wp (collect (\<lambda>(p, n). insert_job e a p n) xs) (\<lambda>ys. sure (ok (issued (storage s) # ys)))
        (\<lambda>_ _. True) False t"
      by (simp add: wp_ok [abs_def])
  qed (use last in simp)
qed

lemma sure_create_jobs:
  assumes ob: "obliging h" and s: "sound h (me e) c s" and "authorized e a" and "list_all typed_params ps"
    and n: "sum_list ns \<le> token_balance h (world s) (fee_token c) a"
    and "unat (issued (storage s)) + length ps < 2 ^ 64"
  shows "sure (create_jobs h e a ps ns) s"
proof -
  have "token_transfer h (fee_token c) a (me e) (0 + (\<Sum>(p, n) \<leftarrow> zip ps ns. n)) (world s) \<noteq> None"
    if "length ps = length ns" "\<And>p n. (p, n) \<in> set (zip ps ns) \<Longrightarrow> validated e c (storage s) p n"
  proof (rule obligingD(1) [OF ob])
    show "0 \<le> 0 + (\<Sum>(p, n) \<leftarrow> zip ps ns. n)"
      using validated_positive [OF that(2)] assms(4)
      by (fastforce simp: list_all_iff dest: set_zip_leftD intro!: sum_list_nonneg)
  qed (use n in \<open>simp add: sum_zip_second [OF that(1)]\<close>)
  then show ?thesis
    unfolding create_jobs_def using soundD(2) [OF s] assms(3,6)
    apply (simp add: wp_andthen wp_bind wp_load_config wp_lift_result ensure_not_paused_def
        wp_require_auth wp_fail_if)
    apply (intro impI wp_validate_all)
    apply (auto simp: wp_andthen wp_transfer same_def split: option.split intro!: sure_insert_all)
    done
qed

lemma sure_fund_job:
  assumes "obliging h" and "fair_call h e" and s: "sound h (me e) c s" and "authorized e a"
    and "n \<le> token_balance h (world s) (fee_token c) a"
  shows "sure (fund_job h e a j n) s"
  using soundD [OF s] assms(4,5) fee_fits [OF s assms(2,4)]
  by (auto simp: fund_job_def wps ensure_not_paused_def obligingD(1) [OF assms(1)] split: option.split)

lemma sure_cancel_job:
  assumes "obliging h" and s: "sound h (me e) c s"
    and "\<And>spec. s_specs (storage s) j = Some spec \<Longrightarrow> authorized e (owner spec)"
  shows "sure (cancel_job h e j) s"
  using soundD [OF s] assms(3) sound_held(1) [OF s]
  by (auto simp: cancel_job_def wps parts_Some_iff Let_def obligingD(1) [OF assms(1)] split: option.split)

lemma sure_withdraw_job_balance:
  assumes "obliging h" and "fair_call h e" and s: "sound h (me e) c s"
    and "\<And>spec. s_specs (storage s) j = Some spec \<Longrightarrow> authorized e (owner spec)"
  shows "sure (withdraw_job_balance h e j n) s"
proof -
  have fits: "in_i128 (balance st - n)" and pay: "token_transfer h (fee_token c) (me e) b n (world s) \<noteq> None"
    if "s_states (storage s) j = Some st" "0 < n" "n \<le> balance st" for st b
    using that sound_held(1) [OF s that(1)]
      balance_range [OF fair_callD(1) [OF assms(2)], of "world s" "fee_token c" "me e"]
    by (auto simp: in_i128_def obligingD(1) [OF assms(1)])
  then show ?thesis
    using soundD(2) [OF s] assms(4)
    by (auto simp: withdraw_job_balance_def wps parts_Some_iff Let_def pay split: option.split)
qed

lemma sure_owner_ops:
  assumes "s_config (storage s) \<noteq> None"
    and "\<And>spec. s_specs (storage s) j = Some spec \<Longrightarrow> authorized e (owner spec)"
  shows "sure (set_job_active e j b) s" "sure (propose_job_owner e j a) s" "sure (update_job e j u) s"
  using assms
  by (auto simp: set_job_active_def propose_job_owner_def update_job_def store_update_def leader_run_count_def
      wps parts_Some_iff Let_def ensure_not_paused_def split: option.split sum.split)

lemma sure_accept_job_owner:
  assumes "\<And>x. s_pending_owners (storage s) j = Some x \<Longrightarrow> authorized e x"
  shows "sure (accept_job_owner e j) s"
  using assms by (auto simp: accept_job_owner_def wps Let_def split: option.split)

section \<open>Stakes\<close>

lemma sure_stake_tokens:
  assumes "obliging h" and "fair_call h e" and s: "sound h (me e) c s" and "authorized e a"
    and "n \<le> token_balance h (world s) (stake_token c) a"
  shows "sure (stake_tokens h e a n) s"
  using soundD [OF s] assms(4,5) stake_fits [OF s assms(2,4), of _ _ a]
  by (auto simp: stake_tokens_def wps ensure_not_paused_def Let_def at_key_def fresh_keeper_simps
      obligingD(1) [OF assms(1)] split: option.split)

lemma sure_begin_unbonding:
  assumes "s_config (storage s) \<noteq> None" and "authorized e a"
  shows "sure (begin_unbonding e a) s"
  using assms by (auto simp: begin_unbonding_def wps Let_def split: option.split)

lemma sure_release_stake:
  assumes "obliging h" and "sound h (me e) c s"
  shows "sure (release_stake h e c a) s"
  using sound_held(2) [OF assms(2), of a]
  by (auto simp: wp_release_stake Let_def wps obligingD(1) [OF assms(1)] split: option.split)

lemma sure_withdraw_stake:
  assumes "obliging h" and "sound h (me e) c s" and "authorized e a"
  shows "sure (withdraw_stake h e a) s"
  using soundD(2) [OF assms(2)] assms sound_same [of s "seen_instance s"]
  by (auto simp: withdraw_stake_def wps split: option.split intro!: sure_release_stake)

lemma sure_withdraw_stakes:
  assumes "obliging h" and f: "fair_call h e" and s: "sound h (me e) c s"
  shows "sure (withdraw_stakes h e as) s"
proof -
  have keeps: "wp (release_stake h e c a) (\<lambda>_. sound h (me e) c) (\<lambda>_. sound h (me e) c) False t"
    if t: "sound h (me e) c t" for a t
  proof -
    have "wp (release_stake h e c a) (\<lambda>_. sound h (me e) c) (\<lambda>_. sound h (me e) c) True t"
      by (rule wp_mono [OF release_stake_custody [OF f, where g = None]])
        (use soundD [OF t] in \<open>auto simp: sound_def\<close>)
    with sure_release_stake [OF assms(1) t, of a] show ?thesis
      by (auto simp: wp_def split: prod.split outcome.split)
  qed
  have "wp (collect (\<lambda>a. bind (attempt (release_stake h e c a)) (\<lambda>res.
      ok (case res of Inl _ \<Rightarrow> 0 | Inr n \<Rightarrow> n))) as :: ('a, int list) reg)
    (\<lambda>_. sound h (me e) c) (\<lambda>_. sound h (me e) c) False (seen_instance s)"
    by (rule wp_collect)
      (use s sound_same [of s "seen_instance s"] in \<open>auto simp: wps intro!: wp_mono [OF keeps]\<close>)
  then show ?thesis
    using soundD(2) [OF s]
    by (auto simp: withdraw_stakes_def wps split: option.split elim!: wp_mono)
qed

section \<open>Runs\<close>

lemma covered_payable:
  assumes "obliging h" and f: "fair_call h e" and inv: "batch_inv None h e c a (rec, pay) s"
  shows "payable h e c b pay (world s)"
proof -
  have cov: "covers None h (me e) (keeper_fees pay + protocol_fees pay) 0 s"
    and ok: "registry_ok (storage s)" and c: "s_config (storage s) = Some c"
    and pos: "0 \<le> keeper_fees pay" "0 \<le> protocol_fees pay"
    using inv by (simp_all add: batch_inv_def)
  have held: "keeper_fees pay + protocol_fees pay \<le> token_balance h (world s) (fee_token c) (me e)"
    using covers_at_least [OF cov c refl, of "fee_token c"] total_balance_nonneg [OF ok]
      total_stake_nonneg [OF ok] by (simp add: owed_def split: if_splits)
  then have "token_transfer h (fee_token c) (me e) b (keeper_fees pay) (world s) \<noteq> None"
    using pos by (intro obligingD(1) [OF assms(1)]) simp_all
  then obtain w where w: "token_transfer h (fee_token c) (me e) b (keeper_fees pay) (world s) = Some w"
    by blast
  have "protocol_fees pay \<le> token_balance h w (fee_token c) (me e)"
    using transfer_balance [OF fair_callD(1) [OF f] w, of "fee_token c" "me e"] held pos
    by (simp split: if_splits)
  then show ?thesis
    using held pos w
    by (auto simp: settled_def obligingD(1) [OF assms(1)] split: option.split simp del: not_None_eq)
qed

lemma never_stuck:
  assumes "obliging h" and "fair_call h e" and "batch_inv None h e c a acc s" and "now e \<noteq> - 1"
  shows "\<not> run_stuck h e c exec a j acc s"
proof
  assume "run_stuck h e c exec a j acc s"
  then obtain spec st where
    r: "run_error h e c (storage s) a j = None" "parts (storage s) j = Some (spec, st)"
      "resolver_says h e j spec (world s) = None \<or> (\<exists>w. target_says h e exec spec w = None)
        \<or> \<not> books_ok e c spec st (snd acc)"
    by (auto simp: run_stuck_def)
  have "books_ok e c spec st (snd acc)"
    by (rule books_ok_covered [OF assms(2,3) r(2) _ assms(4)])
      (use run_error_None(1) [OF r(1,2)] in \<open>simp add: ensure_due_Inr\<close>)
  then show False
    using r(3) by (auto simp: resolver_says_def target_says_def obligingD(2) [OF assms(1)] split: option.splits)
qed

lemma sure_close:
  assumes "obliging h" and "fair_call h e" and "batch_inv None h e c a (rec, pay) s"
  shows "sure (andthen (save_record a rec) (andthen (settle h e c a pay) (ok x))) s"
    "sure (andthen (save_record a rec) (settle h e c a pay)) s"
  by (auto simp: wp_andthen wp_save_record wp_ok [abs_def]
      intro!: payable_settles covered_payable [OF assms, simplified])

lemma sure_execute:
  assumes ob: "obliging h" and f: "fair_call h e" and s: "sound h (me e) c s" and "authorized e a"
    and t: "now e \<noteq> - 1"
  shows "sure (execute h e a j) s"
proof -
  have "sure (bind (authorize_keeper e c a) (\<lambda>(exec, k).
        bind (load_record a k) (\<lambda>rec.
        bind (run_job h e c exec a (rec, no_payout) j) (\<lambda>(rec', pay).
        andthen (save_record a rec') (settle h e c a pay))))) (seen_instance s)"
  proof (rule wp_open_books [where g = None and h = h])
    fix exec rec and t :: "'a registry"
    assume inv: "batch_inv None h e c a (rec, no_payout) t"
    show "sure (bind (run_job h e c exec a (rec, no_payout) j) (\<lambda>(rec', pay).
        andthen (save_record a rec') (settle h e c a pay))) t"
      unfolding wp_bind
    proof (rule wp_mono [OF wp_run_job])
      fix r t' assume "run_does h e c exec a j (rec, no_payout) t r t'"
      from run_does_inv [OF f inv this]
      show "sure (case r of (rec', pay) \<Rightarrow> andthen (save_record a rec') (settle h e c a pay)) t'"
        by (cases r) (simp add: sure_close [OF ob f])
    next
      show "run_stuck h e c exec a j (rec, no_payout) t \<Longrightarrow> False"
        using never_stuck [OF ob f inv \<open>now e \<noteq> - 1\<close>] by blast
    qed simp_all
  qed (use soundD [OF s] assms(4) in simp_all)
  then show ?thesis
    using soundD(2) [OF s] by (auto simp: execute_def wp_bind [of load_config] wp_load_config split: option.split)
qed

lemma sure_execute_batch:
  assumes ob: "obliging h" and f: "fair_call h e" and s: "sound h (me e) c s" and "authorized e a"
    and t: "now e \<noteq> - 1"
  shows "sure (execute_batch h e a js) s"
proof -
  have runs: "wp (run_jobs h e c exec a acc js) (\<lambda>(did, acc') t. batch_inv None h e c a acc' t) (\<lambda>_ _. False) False t"
    if "batch_inv None h e c a acc t" for exec acc t
    by (rule wp_mono [OF wp_run_jobs [where I = "batch_inv None h e c a" and T = False, OF that]])
      (auto intro: run_does_inv [OF f] run_refuses_inv [OF f] dest: never_stuck [OF ob f _ t])
  have "sure (bind (authorize_keeper e c a) (\<lambda>(exec, k).
        bind (load_record a k) (\<lambda>rec.
        bind (run_jobs h e c exec a (rec, no_payout) js) (\<lambda>(did, rec', pay).
        andthen (save_record a rec') (andthen (settle h e c a pay) (ok did)))))) (seen_instance s)"
  proof (rule wp_open_books [where g = None and h = h])
    fix exec rec and t :: "'a registry"
    assume inv: "batch_inv None h e c a (rec, no_payout) t"
    show "sure (bind (run_jobs h e c exec a (rec, no_payout) js) (\<lambda>(did, rec', pay).
        andthen (save_record a rec') (andthen (settle h e c a pay) (ok did)))) t"
      unfolding wp_bind by (rule wp_mono [OF runs [OF inv]]) (auto intro!: sure_close [OF ob f])
  qed (use soundD [OF s] assms(4) in simp_all)
  then show ?thesis
    using soundD(2) [OF s]
    by (auto simp: execute_batch_def wp_andthen wp_fail_if wp_bind [of load_config] wp_load_config
        split: option.split)
qed

section \<open>Settings\<close>

lemma sure_admin:
  assumes "s_config (storage s) = Some c" and "authorized e (admin c)"
  shows "sure (set_executor e x) s" "sure (propose_admin e a) s"
    "sure (cancel_admin_proposal e) s" "sure (set_paused e b) s"
    "sure (halt_target e a b) s" "sure (set_min_stake e i) s"
    "sure (set_min_interval e n) s" "sure (set_max_args e m) s"
    "sure (set_protocol_fee e m r) s" "sure (set_max_failures e m) s"
    "sure (set_keeper_windows e n) s" "sure (set_unbonding_epoch e n) s" "sure (propose_upgrade e d) s"
    "sure (cancel_upgrade e) s" "sure (change_upgrade_delay e n) s" "sure (apply_upgrade h e) s"
  unfolding settings_defs set_unbonding_epoch_def propose_upgrade_def apply_upgrade_def cancel_upgrade_def
    change_upgrade_delay_def
  using assms by (simp_all add: wps Let_def split: option.split)

lemma sure_accept_admin:
  assumes "s_config (storage s) = Some c" and "\<And>x. s_pending_admin (storage s) = Some x \<Longrightarrow> authorized e x"
  shows "sure (accept_admin e) s"
  using assms by (auto simp: accept_admin_def wps Let_def split: option.split)

section \<open>Every operation\<close>

lemma sure_perform:
  assumes "obliging h" and "fair_call h e" and "sound h (me e) c s" and "typed_op x"
    and "\<And>p. signer (storage s) x = Some p \<Longrightarrow> authorized e p"
    and "affords h (world s) c x" and "ids_left (storage s) x" and "now e \<noteq> - 1"
  shows "sure (perform h e x) s"
  using assms soundD(2) [OF assms(3)]
  by (cases x) (simp_all add: sure_void sure_admin sure_accept_admin sure_create_job sure_create_jobs sure_fund_job
      sure_cancel_job sure_withdraw_job_balance sure_owner_ops sure_accept_job_owner sure_stake_tokens
      sure_begin_unbonding sure_withdraw_stake sure_withdraw_stakes sure_execute sure_execute_batch)

text \<open>
  C7. The registry never panics. In any reachable state, before the last second of \<open>u64\<close>, every
  entry point, called with the signature it needs, with a deposit or stake the caller holds and
  with job ids left, returns or fails with an error of the registry: no entry it unwraps is missing,
  no sum or difference overflows, and no payment lacks funds, whatever the resolvers and targets
  of the jobs answer. Tokens are assumed to accept transfers of what the sender holds.
\<close>

theorem the_registry_never_panics:
  assumes "sound_host h (me e)" and "obliging h" and "reachable h (me e) s" and "\<not> authorized e (me e)"
    and "typed_op x" and "\<forall>p. signer (storage s) x = Some p \<longrightarrow> authorized e p" and "s_config (storage s) = Some c"
    and "affords h (world s) c x" and "ids_left (storage s) x" and "now e \<noteq> - 1"
  shows "fst (perform h e x s) \<noteq> Trap"
proof -
  have "sure (perform h e x) s"
    by (rule sure_perform [where c = c])
      (use assms reachable_ok [OF assms(3)] reachable_covers [OF assms(1,3)] in \<open>simp_all add: fair_call_def sound_def\<close>)
  then show ?thesis by (simp add: sure_iff)
qed

section \<open>A host with coins\<close>

text \<open>
  Hosts as assumed exist: a token is a list of coins, each with its holder, of which the first
  ten billion count, and a transfer hands over the first coins found.
\<close>

type_synonym coins = "address \<Rightarrow> address list"

fun hand_over :: "nat \<Rightarrow> address \<Rightarrow> address \<Rightarrow> address list \<Rightarrow> address list" where
  "hand_over 0 a b xs = xs"
| "hand_over (Suc n) a b [] = []"
| "hand_over (Suc n) a b (x # xs) =
     (if x = a then b # hand_over n a b xs else x # hand_over (Suc n) a b xs)"

definition COINS :: nat where "COINS = 10 ^ 10"

definition coin_count :: "coins \<Rightarrow> address \<Rightarrow> address \<Rightarrow> int" where
  "coin_count w u a = int (count_list (take COINS (w u)) a)"

definition coin_host :: "coins host" where
  "coin_host =
     \<lparr>token_balance = coin_count,
      token_transfer = (\<lambda>u a b n w.
        if 0 \<le> n \<and> n \<le> coin_count w u a
        then Some (w(u := hand_over (nat n) a b (take COINS (w u)))) else None),
      call_contract = (\<lambda>caller callee f xs w. Some (Returned (ValBool True), w)),
      install_code = (\<lambda>c w. w),
      sha256 = (\<lambda>b. b),
      val_xdr = (\<lambda>v. [0]),
      error_xdr = (\<lambda>x. [1])\<rparr>"

lemma length_hand_over [simp]: "length (hand_over n a b xs) = length xs"
  by (induction n a b xs rule: hand_over.induct) simp_all

lemma count_hand_over:
  "n \<le> count_list xs a \<Longrightarrow> int (count_list (hand_over n a b xs) c) =
     int (count_list xs c) - (if c = a then int n else 0) + (if c = b then int n else 0)"
  by (induction n a b xs rule: hand_over.induct) auto

lemma coin_transfer:
  assumes "token_transfer coin_host u a b n w = Some w'"
  shows "0 \<le> n" and "coin_count w' v x = coin_count w v x - (if v = u \<and> x = a then n else 0)
    + (if v = u \<and> x = b then n else 0)"
proof -
  have n: "0 \<le> n" "n \<le> coin_count w u a" "w' = w(u := hand_over (nat n) a b (take COINS (w u)))"
    using assms by (auto simp: coin_host_def split: if_splits)
  then show "0 \<le> n" by simp
  have "nat n \<le> count_list (take COINS (w u)) a" using n by (simp add: coin_count_def)
  note moved = count_hand_over [OF this, of b x]
  show "coin_count w' v x = coin_count w v x - (if v = u \<and> x = a then n else 0)
    + (if v = u \<and> x = b then n else 0)"
  proof (cases "v = u")
    case True
    have "coin_count w' u x = int (count_list (hand_over (nat n) a b (take COINS (w u))) x)"
      by (simp add: n(3) coin_count_def)
    then show ?thesis unfolding moved using True n(1) by (simp add: coin_count_def)
  qed (simp add: n(3) coin_count_def)
qed

lemma coin_count_range: "0 \<le> coin_count w u a \<and> coin_count w u a \<le> int COINS"
  using count_le_length [of "take COINS (w u)" a] by (simp add: coin_count_def)

lemma coin_sound: "sound_host coin_host a" and coin_obliging: "obliging coin_host"
proof -
  have sel: "token_balance coin_host = coin_count"
    "call_contract coin_host caller callee f xs w = Some (Returned (ValBool True), w)"
    "install_code coin_host c w = w" for caller callee f xs w c
    by (simp_all add: coin_host_def)
  have "token_laws coin_host"
    unfolding token_laws_def sel
  proof (intro conjI allI impI)
    fix u a b n w w' v x assume m: "token_transfer coin_host u a b n w = Some w'"
    show "0 \<le> n" by (rule coin_transfer(1) [OF m])
    show "coin_count w' v x = coin_count w v x - (if v = u \<and> x = a then n else 0)
      + (if v = u \<and> x = b then n else 0)" by (rule coin_transfer(2) [OF m])
  next
    fix w u x
    show "0 \<le> coin_count w u x" "in_i128 (coin_count w u x)"
      using coin_count_range [of w u x] by (simp_all add: in_i128_def COINS_def)
  qed
  then show "sound_host coin_host a"
    by (simp add: sound_host_def calls_keep_funds_def install_keeps_funds_def sel)
  show "obliging coin_host"
    by (simp add: obliging_def sel) (simp add: coin_host_def)
qed

definition coin_purse :: coins where
  "coin_purse = (\<lambda>u. replicate 100 keeper_a)"

definition new_store :: reg_store where
  "new_store = empty_store\<lparr>s_config := Some (initial_config root_admin xlm bond 10 1000)\<rparr>"

lemma count_replicate: "count_list (replicate n x) x = n"
  by (induction n) simp_all

lemma coins_deployed: "\<exists>s. reachable coin_host registry_at s \<and>
    storage s = new_store \<and> world s = coin_purse"
proof -
  let ?s = "\<lparr>storage = empty_store, world = coin_purse, published = [], extensions = []\<rparr>"
  have "wp (constructor root_admin xlm bond 10 1000)
      (\<lambda>_ t. storage t = new_store \<and> world t = coin_purse) (\<lambda>_ _. False) False ?s"
    by (simp add: constructor_def wps new_store_def)
  then obtain t where t: "constructor root_admin xlm bond 10 1000 ?s = (Ok (), t)"
    "storage t = new_store \<and> world t = coin_purse"
    by (auto simp: wp_def split: prod.splits outcome.splits)
  then have "deployed coin_host registry_at t" unfolding deployed_def transact_Ok_iff by blast
  then show ?thesis using t(2) reachable.start by blast
qed

theorem the_registry_never_panics_witness:
  "\<exists>s. reachable coin_host registry_at s
    \<and> fst (perform coin_host (demo_env 60) (Stake keeper_a 40) s) \<noteq> Trap
    \<and> fst (perform coin_host (demo_env 60) (Stake keeper_a 101) s) = Trap"
proof -
  obtain s where s: "reachable coin_host registry_at s"
    "storage s = new_store \<and> world s = coin_purse"
    using coins_deployed by blast
  have c: "s_config (storage s) = Some (initial_config root_admin xlm bond 10 1000)" "world s = coin_purse"
    using s(2) by (simp_all add: new_store_def)
  have held: "token_balance coin_host coin_purse u keeper_a = 100" for u
    by (simp add: coin_host_def coin_count_def coin_purse_def COINS_def count_replicate)
  have "fst (perform coin_host (demo_env 60) (Stake keeper_a 40) s) \<noteq> Trap"
    by (rule the_registry_never_panics [OF _ coin_obliging _ _ _ _ c(1)])
      (use s(1) held c coin_sound in \<open>simp_all add: initial_config_def addresses\<close>)
  moreover have "token_transfer coin_host bond keeper_a registry_at 101 coin_purse = None"
    using held [of bond] by (simp add: coin_host_def)
  then have "wp (perform coin_host (demo_env 60) (Stake keeper_a 101)) (\<lambda>_ _. False) (\<lambda>_ _. False) True s"
    using c s(2) by (simp add: stake_tokens_def wp_void wps ensure_not_paused_def initial_config_def
        new_store_def empty_store_def fresh_keeper_def addresses)
  then have "fst (perform coin_host (demo_env 60) (Stake keeper_a 101) s) = Trap"
    by (simp add: wp_def del: perform.simps split: prod.splits outcome.splits)
  ultimately show ?thesis using s(1) by blast
qed

end
