(* ===== verification/Fuzz.thy ===== *)
theory Fuzz
  imports Panics
begin

text \<open>
  The registry's own fuzz test (\<open>contracts/registry/src/invariants.rs\<close>), as a program over the
  model: its random operations, the world it sets up, the check it makes after every step, and
  its demand that a call fails with an error of the registry or not at all. The test is proved to
  pass for every sequence of operations it can draw.
\<close>

section \<open>The test's world\<close>

definition START :: u64 where "START = 1700000000"
definition FUZZ_MIN_STAKE :: int where "FUZZ_MIN_STAKE = 1000"
definition FUZZ_FUNDS :: int where "FUZZ_FUNDS = 1000000000"
definition OWNERS :: nat where "OWNERS = 3"
definition KEEPERS :: nat where "KEEPERS = 3"

datatype fuzz_op =
    FuzzCreate nat int int bool bool
  | FuzzFund nat int
  | FuzzWithdraw nat int
  | FuzzCancel nat
  | FuzzPause nat bool
  | FuzzExecute nat nat
  | FuzzBatch nat "nat list"
  | FuzzStake nat int
  | FuzzUnbond nat
  | FuzzWithdrawStake nat
  | FuzzSettleAll
  | FuzzAdvance u64

text \<open>What the strategy draws.\<close>

fun drawn :: "fuzz_op \<Rightarrow> bool" where
  "drawn (FuzzCreate i fee n failing ramp) \<longleftrightarrow> i < OWNERS \<and> 1 \<le> fee \<and> fee \<le> 500 \<and> 1 \<le> n \<and> n \<le> 20"
| "drawn (FuzzFund j n) \<longleftrightarrow> j < 12 \<and> 1 \<le> n \<and> n \<le> 5000"
| "drawn (FuzzWithdraw j n) \<longleftrightarrow> j < 12 \<and> 1 \<le> n \<and> n \<le> 5000"
| "drawn (FuzzCancel j) \<longleftrightarrow> j < 12"
| "drawn (FuzzPause j b) \<longleftrightarrow> j < 12"
| "drawn (FuzzExecute k j) \<longleftrightarrow> k < KEEPERS \<and> j < 12"
| "drawn (FuzzBatch k js) \<longleftrightarrow> k < KEEPERS \<and> list_all (\<lambda>j. j < 12) js \<and> 1 \<le> length js \<and> length js < 6"
| "drawn (FuzzStake k n) \<longleftrightarrow> k < KEEPERS \<and> 1 \<le> n \<and> n \<le> 3000"
| "drawn (FuzzUnbond k) \<longleftrightarrow> k < KEEPERS"
| "drawn (FuzzWithdrawStake k) \<longleftrightarrow> k < KEEPERS"
| "drawn FuzzSettleAll \<longleftrightarrow> True"
| "drawn (FuzzAdvance n) \<longleftrightarrow> (1 \<le> n \<and> n \<le> 90) \<or> (1000 \<le> n \<and> n \<le> 5000)"

record fuzz_world =
  cron :: address
  fuzz_token :: address
  fuzz_target :: address
  fuzz_owners :: "address list"
  fuzz_keepers :: "address list"
  fuzz_ledger :: u32

text \<open>\<open>mock_all_auths\<close>: everybody signs, except the contract itself.\<close>

definition fuzz_env :: "fuzz_world \<Rightarrow> u64 \<Rightarrow> env" where
  "fuzz_env f t = \<lparr>now = t, ledger = fuzz_ledger f, me = cron f, authorized = (\<lambda>a. a \<noteq> cron f)\<rparr>"

text \<open>A call that fails is rolled back.\<close>

definition call :: "'w host \<Rightarrow> fuzz_world \<Rightarrow> u64 \<Rightarrow> op \<Rightarrow> 'w registry \<Rightarrow> 'w registry" where
  "call h f t x s = snd (transact (perform h (fuzz_env f t) x) s)"

text \<open>
  The two ways the test calls: a client's method panics unless the call succeeds, and \<open>allowed!\<close>
  accepts an error of the registry as well, but no failure of another kind.
\<close>

definition must :: "'w host \<Rightarrow> fuzz_world \<Rightarrow> u64 \<Rightarrow> op \<Rightarrow> 'w registry \<Rightarrow> 'w registry option" where
  "must h f t x s = (if fst (perform h (fuzz_env f t) x s) = Ok () then Some (call h f t x s) else None)"

definition allowed :: "'w host \<Rightarrow> fuzz_world \<Rightarrow> u64 \<Rightarrow> op \<Rightarrow> 'w registry \<Rightarrow> 'w registry option" where
  "allowed h f t x s = (if fst (perform h (fuzz_env f t) x s) = Trap then None else Some (call h f t x s))"

definition fuzz_setup :: "address \<Rightarrow> address \<Rightarrow> u32 \<Rightarrow> u64 \<Rightarrow> address list \<Rightarrow> op list" where
  "fuzz_setup exec collector bps grace crew =
     [SetExecutor exec, SetProtocolFee bps (Some collector), SetKeeperWindows grace, SetUnbondingEpoch 1800]
     @ map (\<lambda>k. Stake k FUZZ_MIN_STAKE) crew"

fun musts :: "'w host \<Rightarrow> fuzz_world \<Rightarrow> op list \<Rightarrow> 'w registry \<Rightarrow> 'w registry option" where
  "musts h f [] s = Some s"
| "musts h f (x # xs) s = (case must h f START x s of None \<Rightarrow> None | Some s' \<Rightarrow> musts h f xs s')"

definition set_up ::
  "'w host \<Rightarrow> fuzz_world \<Rightarrow> address \<Rightarrow> address \<Rightarrow> address \<Rightarrow> u32 \<Rightarrow> u64 \<Rightarrow> 'w \<Rightarrow> 'w registry option" where
  "set_up h f adm exec collector bps grace w =
     (case transact (constructor adm (fuzz_token f) (fuzz_token f) FUZZ_MIN_STAKE 3600)
        \<lparr>storage = empty_store, world = w, published = [], extensions = []\<rparr> of
        (Ok _, s) \<Rightarrow> musts h f (fuzz_setup exec collector bps grace (fuzz_keepers f)) s
      | _ \<Rightarrow> None)"

section \<open>Its operations\<close>

definition live_count :: "'w registry \<Rightarrow> u64" where
  "live_count s = (case job_count s of (Ok n, _) \<Rightarrow> n | _ \<Rightarrow> 0)"

definition job_id :: "'w registry \<Rightarrow> nat \<Rightarrow> u64" where
  "job_id s pick = (if live_count s = 0 then 0 else of_nat pick mod live_count s)"

definition fuzz_params :: "fuzz_world \<Rightarrow> int \<Rightarrow> bool \<Rightarrow> bool \<Rightarrow> job_params" where
  "fuzz_params f fee failing ramp =
     \<lparr>p_target = fuzz_target f, p_function = (if failing then ''fail'' else ''bump''),
      p_args = (if failing then [] else [ValU32 1]), p_interval = 60, p_schedule = Interval,
      p_start_at = 0, p_fee_per_run = fee, p_max_fee_per_run = (if ramp then fee * 3 else 0),
      p_max_runs = 0, p_end_at = 0, p_resolver = None, p_keepers = None, p_after = None\<rparr>"

fun fuzz_apply :: "'w host \<Rightarrow> fuzz_world \<Rightarrow> fuzz_op \<Rightarrow> u64 \<times> 'w registry \<Rightarrow> (u64 \<times> 'w registry) option" where
  "fuzz_apply h f (FuzzCreate i fee n failing ramp) (t, s) =
     map_option (Pair t) (allowed h f t (CreateJob (fuzz_owners f ! i) (fuzz_params f fee failing ramp) (fee * n)) s)"
| "fuzz_apply h f (FuzzFund j n) (t, s) = map_option (Pair t) (allowed h f t (FundJob (fuzz_owners f ! 0) (job_id s j) n) s)"
| "fuzz_apply h f (FuzzWithdraw j n) (t, s) = map_option (Pair t) (allowed h f t (WithdrawJobBalance (job_id s j) n) s)"
| "fuzz_apply h f (FuzzCancel j) (t, s) = map_option (Pair t) (allowed h f t (CancelJob (job_id s j)) s)"
| "fuzz_apply h f (FuzzPause j b) (t, s) = map_option (Pair t) (allowed h f t (SetJobActive (job_id s j) b) s)"
| "fuzz_apply h f (FuzzExecute k j) (t, s) = map_option (Pair t) (allowed h f t (Execute (fuzz_keepers f ! k) (job_id s j)) s)"
| "fuzz_apply h f (FuzzBatch k js) (t, s) =
     map_option (Pair t) (allowed h f t (ExecuteBatch (fuzz_keepers f ! k) (map (job_id s) js)) s)"
| "fuzz_apply h f (FuzzStake k n) (t, s) = map_option (Pair t) (allowed h f t (Stake (fuzz_keepers f ! k) n) s)"
| "fuzz_apply h f (FuzzUnbond k) (t, s) = map_option (Pair t) (allowed h f t (BeginUnbonding (fuzz_keepers f ! k)) s)"
| "fuzz_apply h f (FuzzWithdrawStake k) (t, s) = map_option (Pair t) (allowed h f t (WithdrawStake (fuzz_keepers f ! k)) s)"
| "fuzz_apply h f FuzzSettleAll (t, s) = map_option (Pair t) (allowed h f t (WithdrawStakes (fuzz_keepers f)) s)"
| "fuzz_apply h f (FuzzAdvance n) (t, s) = map_option (\<lambda>t. (t, s)) (checked_add t n)"

section \<open>Its check\<close>

definition job_balances :: "'w registry \<Rightarrow> int list" where
  "job_balances s = concat (map (\<lambda>i. case get_job_view (of_nat i) s of
     (Ok (Some j), _) \<Rightarrow> [j_balance j] | _ \<Rightarrow> []) [0..<unat (live_count s)])"

definition keeper_stakes :: "fuzz_world \<Rightarrow> 'w registry \<Rightarrow> int list" where
  "keeper_stakes f s = concat (map (\<lambda>a. case get_keeper_view a s of
     (Ok (Some k), _) \<Rightarrow> [stake k] | _ \<Rightarrow> []) (fuzz_keepers f))"

definition check_invariant :: "'w host \<Rightarrow> fuzz_world \<Rightarrow> 'w registry \<Rightarrow> bool" where
  "check_invariant h f s \<longleftrightarrow>
     list_all (\<lambda>n. 0 \<le> n) (job_balances s) \<and> list_all (\<lambda>n. 0 \<le> n) (keeper_stakes f s)
     \<and> token_balance h (world s) (fuzz_token f) (cron f) = sum_list (job_balances s) + sum_list (keeper_stakes f s)"

text \<open>A whole case: after the set-up and after every operation the check holds, and every call is allowed.\<close>

fun fuzz_case :: "'w host \<Rightarrow> fuzz_world \<Rightarrow> fuzz_op list \<Rightarrow> u64 \<times> 'w registry \<Rightarrow> bool" where
  "fuzz_case h f [] ts = check_invariant h f (snd ts)"
| "fuzz_case h f (x # xs) ts =
     (check_invariant h f (snd ts)
      \<and> (case fuzz_apply h f x ts of None \<Rightarrow> False | Some ts' \<Rightarrow> fuzz_case h f xs ts'))"

definition fuzz_test ::
  "'w host \<Rightarrow> fuzz_world \<Rightarrow> address \<Rightarrow> address \<Rightarrow> address \<Rightarrow> u32 \<Rightarrow> u64 \<Rightarrow> fuzz_op list \<Rightarrow> 'w \<Rightarrow> bool" where
  "fuzz_test h f adm exec collector bps grace ops w =
     (case set_up h f adm exec collector bps grace w of None \<Rightarrow> False | Some s \<Rightarrow> fuzz_case h f ops (START, s))"

section \<open>The check never fails\<close>

lemma sum_entries:
  fixes f :: "'v \<Rightarrow> int"
  assumes "distinct xs" and "dom m \<subseteq> set xs"
  shows "sum_list (concat (map (\<lambda>k. case m k of None \<Rightarrow> [] | Some v \<Rightarrow> [f v]) xs)) = total f m"
proof -
  have "sum_list (concat (map (\<lambda>k. case m k of None \<Rightarrow> [] | Some v \<Rightarrow> [f v]) xs)) = (\<Sum>k\<leftarrow>xs. at_key f m k)"
    by (induction xs) (simp_all add: at_key_def split: option.split)
  also have "\<dots> = (\<Sum>k\<in>set xs. at_key f m k)" by (rule sum_list_distinct_conv_sum_set [OF assms(1)])
  also have "\<dots> = (\<Sum>k\<in>dom m. at_key f m k)"
    by (rule sum.mono_neutral_right) (use assms(2) in \<open>auto simp: at_key_def split: option.split\<close>)
  also have "\<dots> = total f m" by (auto simp: total_def at_key_def intro!: sum.cong split: option.split)
  finally show ?thesis .
qed

lemma viewed:
  "(case get_job_view i s of (Ok (Some j), _) \<Rightarrow> [j_balance j] | _ \<Rightarrow> [])
     = (case parts (storage s) i of None \<Rightarrow> [] | Some (spec, st) \<Rightarrow> [balance st])"
  "(case get_keeper_view a s of (Ok (Some k), _) \<Rightarrow> [stake k] | _ \<Rightarrow> [])
     = (case s_keepers (storage s) a of None \<Rightarrow> [] | Some k \<Rightarrow> [stake k])"
  "live_count s = issued (storage s)"
proof -
  have "wp (get_job_view i) (\<lambda>r _. r = map_option (\<lambda>(spec, st). job_view i spec st) (parts (storage s) i))
      (\<lambda>_ _. False) False s"
    by (simp add: get_job_view_def wps)
  then show "(case get_job_view i s of (Ok (Some j), _) \<Rightarrow> [j_balance j] | _ \<Rightarrow> [])
     = (case parts (storage s) i of None \<Rightarrow> [] | Some (spec, st) \<Rightarrow> [balance st])"
    by (auto simp: wp_def job_view_def split: prod.splits outcome.splits option.splits)
  have "wp (get_keeper_view a) (\<lambda>r _. r = s_keepers (storage s) a) (\<lambda>_ _. False) False s"
    by (simp add: get_keeper_view_def wps)
  then show "(case get_keeper_view a s of (Ok (Some k), _) \<Rightarrow> [stake k] | _ \<Rightarrow> [])
     = (case s_keepers (storage s) a of None \<Rightarrow> [] | Some k \<Rightarrow> [stake k])"
    by (auto simp: wp_def split: prod.splits outcome.splits option.splits)
  have "wp job_count (\<lambda>r _. r = issued (storage s)) (\<lambda>_ _. False) False s"
    by (simp add: job_count_def wps)
  then show "live_count s = issued (storage s)"
    by (auto simp: live_count_def wp_def split: prod.splits outcome.splits)
qed

definition fuzz_ok :: "'w host \<Rightarrow> fuzz_world \<Rightarrow> address option set \<Rightarrow> (address \<Rightarrow> int) \<Rightarrow> 'w registry \<Rightarrow> bool" where
  "fuzz_ok h f T k s \<longleftrightarrow>
     reachable h (cron f) s \<and> covers (Some k) h (cron f) 0 0 s
     \<and> members (- {cron f}) (set (fuzz_keepers f)) (T \<times> {fuzz_token f} \<times> {fuzz_token f}) (storage s)"

lemma fuzz_ok_checks:
  assumes ok: "fuzz_ok h f T k s" and "k (fuzz_token f) = 0" and "distinct (fuzz_keepers f)"
  shows "check_invariant h f s"
proof -
  let ?d = "storage s"
  have r: "registry_ok ?d" using ok reachable_ok by (auto simp: fuzz_ok_def)
  obtain c where c: "s_config ?d = Some c" "fee_token c = fuzz_token f" "stake_token c = fuzz_token f"
    using ok by (auto simp: fuzz_ok_def members_def)
  have keepers: "dom (s_keepers ?d) \<subseteq> set (fuzz_keepers f)" using ok by (simp add: fuzz_ok_def members_def)
  have doms: "dom (s_states ?d) = dom (s_specs ?d)" "\<forall>j \<in> dom (s_specs ?d). j < issued ?d"
    using r by (auto simp: registry_ok_def jobs_ok_def issued_count)
  have parts: "(case parts ?d i of None \<Rightarrow> [] | Some (spec, st) \<Rightarrow> [balance st])
      = (case s_states ?d i of None \<Rightarrow> [] | Some st \<Rightarrow> [balance st])" for i
    using doms(1) by (cases "s_states ?d i"; cases "s_specs ?d i") (auto simp: parts_def)
  have jobs: "job_balances s = concat (map (\<lambda>i. case s_states ?d i of None \<Rightarrow> [] | Some st \<Rightarrow> [balance st])
      (map of_nat [0..<unat (issued ?d)]))"
    by (simp add: job_balances_def viewed parts comp_def)
  have stakes: "keeper_stakes f s = concat (map (\<lambda>a. case s_keepers ?d a of None \<Rightarrow> [] | Some k \<Rightarrow> [stake k])
      (fuzz_keepers f))"
    by (simp add: keeper_stakes_def viewed)
  have sums: "sum_list (job_balances s) = total balance (s_states ?d)"
    "sum_list (keeper_stakes f s) = total stake (s_keepers ?d)"
    unfolding jobs stakes
    by (rule sum_entries [OF distinct_u64s], use doms in \<open>auto simp: set_u64s simp del: set_map\<close>)
      (rule sum_entries [OF assms(3) keepers])
  have "surplus_of h (cron f) c s (fuzz_token f) = 0"
    using ok assms(2) by (simp add: fuzz_ok_def covers_surplus [OF c(1)])
  then have held: "token_balance h (world s) (fuzz_token f) (cron f)
      = total balance (s_states ?d) + total stake (s_keepers ?d)"
    by (simp add: surplus_of_def owed_def c)
  have "list_all (\<lambda>n. 0 \<le> n) (job_balances s)"
    unfolding jobs using registry_okD(1) [OF r] by (auto simp: list_all_iff split: option.splits)
  moreover have "list_all (\<lambda>n. 0 \<le> n) (keeper_stakes f s)"
    unfolding stakes using r
    by (force simp: list_all_iff registry_ok_def keepers_ok_def less_imp_le split: option.splits)
  ultimately show ?thesis using held sums by (simp add: check_invariant_def)
qed

lemma call_keeps:
  assumes ok: "fuzz_ok h f T k s" and h: "sound_host h (cron f)" "calls_ignore_funds h (cron f)"
    and T: "Some (cron f) \<notin> T" and x: "typed_op x"
    and K: "\<And>a n. x = Stake a n \<Longrightarrow> a \<in> set (fuzz_keepers f)"
    and P: "\<And>n y. x = SetProtocolFee n y \<Longrightarrow> y \<in> T" and "cron f \<notin> set (fuzz_keepers f)"
  shows "fuzz_ok h f T k (call h f t x s)"
proof -
  let ?e = "fuzz_env f t"
  obtain r s' where run: "transact (perform h ?e x) s = (r, s')" by (cases "transact (perform h ?e x) s")
  have e: "me ?e = cron f" "\<not> authorized ?e (cron f)" "fair_call h ?e"
    using h(1) by (simp_all add: fuzz_env_def fair_call_def)
  show ?thesis
  proof (cases "\<exists>y. r = Ok y")
    case False
    then have "s' = s" using transact_not_Ok [OF run] by blast
    then show ?thesis using ok run by (simp add: call_def)
  next
    case True
    then have p: "perform h ?e x s = (Ok (), s')" using run by auto
    let ?O = "- {cron f}" and ?K = "set (fuzz_keepers f)" and ?T = "T \<times> {fuzz_token f} \<times> {fuzz_token f}"
    have m: "members ?O ?K ?T (storage s)" and cov: "covers (Some k) h (cron f) 0 0 s"
      and r: "reachable h (cron f) s"
      using ok by (simp_all add: fuzz_ok_def)
    have "reachable h (cron f) s'" by (rule reachable.more [OF r step.call [OF e(1,2) x run]])
    moreover have "members ?O ?K ?T (storage s')"
    proof (rule wp_OkD [OF perform_keeps_members [rule_format, OF _ m] p])
      show "admits ?e ?O ?K ?T x" using K P by (auto simp: admits_def fuzz_env_def)
    qed
    moreover have "covers (Some k) h (cron f) 0 0 s'"
    proof -
      have "aloof (Some k) h (cron f) (storage s)"
        by (rule members_aloof [OF members_mono [OF m]]) (use T assms(8) h(2) in auto)
      then show ?thesis
        using wp_OkD [OF perform_custody [OF e(3) reachable_ok [OF r], unfolded e(1)] p] cov x by blast
    qed
    ultimately show ?thesis using run by (simp add: call_def fuzz_ok_def)
  qed
qed


section \<open>No call fails outside the registry\<close>

text \<open>
  What is left, for the operations to come: money in every purse, ids, and time. No operation of
  the test asks for more than ten thousand, or waits longer than five thousand seconds.
\<close>

definition purses :: "fuzz_world \<Rightarrow> address set" where
  "purses f = set (fuzz_owners f) \<union> set (fuzz_keepers f)"

definition stocked :: "'w host \<Rightarrow> fuzz_world \<Rightarrow> int \<Rightarrow> nat \<Rightarrow> 'w registry \<Rightarrow> bool" where
  "stocked h f m n s \<longleftrightarrow>
     (\<forall>a \<in> purses f. m \<le> token_balance h (world s) (fuzz_token f) a) \<and> unat (issued (storage s)) + n < 2 ^ 64"

text \<open>The hosts of the test: the called contracts leave the purses alone.\<close>

definition test_host :: "'w host \<Rightarrow> fuzz_world \<Rightarrow> bool" where
  "test_host h f \<longleftrightarrow> sound_host h (cron f) \<and> calls_ignore_funds h (cron f) \<and> obliging h
     \<and> (\<forall>a \<in> purses f. calls_keep_funds h a)"

lemma call_stocked:
  assumes "test_host h f" and "cron f \<notin> purses f" and "who \<in> purses f" and "stocked h f m n s"
    and cost: "\<And>a. cost x a \<le> k" and "0 \<le> k" and "ids_taken x \<le> i" and "i \<le> n"
  shows "stocked h f (m - k) (n - i) (call h f t x s)"
proof -
  obtain r u where run: "transact (perform h (fuzz_env f t) x) s = (r, u)" by fastforce
  show ?thesis
  proof (cases "r = Ok ()")
    case True
    have spent: "spends h a (cost x a) (ids_taken x) s u" if "a \<in> purses f" for a
    proof (rule wp_OkD [OF perform_spends])
      show "bystander h (fuzz_env f t) a"
        using assms(1,2) that by (auto simp: bystander_def outsider_def test_host_def sound_host_def fuzz_env_def)
      show "perform h (fuzz_env f t) x s = (Ok (), u)" using run True by simp
    qed
    have left: "m - k \<le> token_balance h (world u) (fuzz_token f) a" if "a \<in> purses f" for a
    proof -
      have "token_balance h (world s) (fuzz_token f) a - cost x a \<le> token_balance h (world u) (fuzz_token f) a"
        using spent [OF that] by (simp add: spends_def)
      moreover have "m \<le> token_balance h (world s) (fuzz_token f) a"
        using assms(4) that by (simp add: stocked_def)
      ultimately show ?thesis using cost [of a] by linarith
    qed
    have "unat (issued (storage u)) \<le> unat (issued (storage s)) + ids_taken x"
      using spent [OF assms(3)] by (simp add: spends_def)
    moreover have "unat (issued (storage s)) + n < 2 ^ 64" using assms(4) by (simp add: stocked_def)
    ultimately have "unat (issued (storage u)) + (n - i) < 2 ^ 64" using assms(7,8) by linarith
    with left show ?thesis using run by (simp add: call_def stocked_def)
  next
    case False
    then have "u = s" using transact_not_Ok [OF run] by auto
    then show ?thesis using assms(4,6,8) run by (force simp: call_def stocked_def)
  qed
qed

lemma never_trapped:
  assumes "test_host h f" and ok: "fuzz_ok h f T k s" and "typed_op x"
    and "\<And>p. signer (storage s) x = Some p \<Longrightarrow> p \<noteq> cron f"
    and "\<And>c. fee_token c = fuzz_token f \<Longrightarrow> stake_token c = fuzz_token f \<Longrightarrow> affords h (world s) c x"
    and "ids_left (storage s) x" and "t \<noteq> - 1"
  shows "fst (perform h (fuzz_env f t) x s) \<noteq> Trap"
proof -
  obtain c where c: "s_config (storage s) = Some c" "fee_token c = fuzz_token f" "stake_token c = fuzz_token f"
    using ok by (auto simp: fuzz_ok_def members_def)
  have r: "reachable h (cron f) s" using ok by (simp add: fuzz_ok_def)
  have h: "sound_host h (cron f)" "obliging h" using assms(1) by (simp_all add: test_host_def)
  have "sure (perform h (fuzz_env f t) x) s"
    by (rule sure_perform [OF h(2), where c = c])
      (use assms c h reachable_ok [OF r] reachable_covers [OF h(1) r]
        in \<open>auto simp: fair_call_def sound_def fuzz_env_def\<close>)
  then show ?thesis by (simp add: sure_iff)
qed

text \<open>A call of the test's, by what it asks for.\<close>

definition modest :: "'w host \<Rightarrow> fuzz_world \<Rightarrow> 'w registry \<Rightarrow> op \<Rightarrow> bool" where
  "modest h f s y \<longleftrightarrow> typed_op y
     \<and> (\<forall>a n. y = Stake a n \<longrightarrow> a \<in> set (fuzz_keepers f)) \<and> (\<forall>n z. y \<noteq> SetProtocolFee n z)
     \<and> (\<forall>p. signer (storage s) y = Some p \<longrightarrow> p \<noteq> cron f)
     \<and> (\<forall>c. fee_token c = fuzz_token f \<longrightarrow> stake_token c = fuzz_token f \<longrightarrow> affords h (world s) c y)
     \<and> ids_left (storage s) y \<and> (\<forall>a. cost y a \<le> 10000) \<and> ids_taken y \<le> 1"

text \<open>The call an operation makes, if it makes one.\<close>

fun request :: "fuzz_world \<Rightarrow> 'w registry \<Rightarrow> fuzz_op \<Rightarrow> op option" where
  "request f s (FuzzCreate i fee n failing ramp) =
     Some (CreateJob (fuzz_owners f ! i) (fuzz_params f fee failing ramp) (fee * n))"
| "request f s (FuzzFund j n) = Some (FundJob (fuzz_owners f ! 0) (job_id s j) n)"
| "request f s (FuzzWithdraw j n) = Some (WithdrawJobBalance (job_id s j) n)"
| "request f s (FuzzCancel j) = Some (CancelJob (job_id s j))"
| "request f s (FuzzPause j b) = Some (SetJobActive (job_id s j) b)"
| "request f s (FuzzExecute k j) = Some (Execute (fuzz_keepers f ! k) (job_id s j))"
| "request f s (FuzzBatch k js) = Some (ExecuteBatch (fuzz_keepers f ! k) (map (job_id s) js))"
| "request f s (FuzzStake k n) = Some (Stake (fuzz_keepers f ! k) n)"
| "request f s (FuzzUnbond k) = Some (BeginUnbonding (fuzz_keepers f ! k))"
| "request f s (FuzzWithdrawStake k) = Some (WithdrawStake (fuzz_keepers f ! k))"
| "request f s FuzzSettleAll = Some (WithdrawStakes (fuzz_keepers f))"
| "request f s (FuzzAdvance n) = None"

lemma apply_request:
  "fuzz_apply h f x (t, s) = (case request f s x of
     Some y \<Rightarrow> map_option (Pair t) (allowed h f t y s)
   | None \<Rightarrow> (case x of FuzzAdvance n \<Rightarrow> map_option (\<lambda>t. (t, s)) (checked_add t n) | _ \<Rightarrow> None))"
  by (cases x) simp_all

lemma requests_are_modest:
  assumes "drawn x" and "request f s x = Some y" and "stocked h f m (Suc n) s" and "10000 \<le> m"
    and "fuzz_ok h f T k s" and "cron f \<notin> purses f"
    and "length (fuzz_owners f) = OWNERS" and "length (fuzz_keepers f) = KEEPERS"
  shows "modest h f s y"
proof -
  have owners: "fuzz_owners f ! i \<in> purses f" if "i < OWNERS" for i
    using assms(7) that by (simp add: purses_def)
  have keepers: "fuzz_keepers f ! i \<in> purses f" "fuzz_keepers f ! i \<in> set (fuzz_keepers f)" if "i < KEEPERS" for i
    using assms(8) that by (simp_all add: purses_def)
  have rich: "v \<le> token_balance h (world s) (fuzz_token f) a" if "a \<in> purses f" "v \<le> 10000" for a v
    using assms(3,4) that by (force simp: stocked_def)
  have others: "a \<noteq> cron f" if "a \<in> purses f" for a using assms(6) that by auto
  have mine: "owner spec \<noteq> cron f" if "s_specs (storage s) j = Some spec" for j spec
    using assms(5) that by (auto simp: fuzz_ok_def members_def)
  have ids: "unat (issued (storage s)) + 1 < 2 ^ 64" using assms(3) by (simp add: stocked_def)
  have deposit: "fee * v \<le> 10000" if "1 \<le> fee" "fee \<le> 500" "1 \<le> v" "v \<le> 20" for fee v :: int
    using mult_mono [of fee 500 v 20] that by simp
  have typed: "1 \<le> fee \<Longrightarrow> fee \<le> 500 \<Longrightarrow> typed_params (fuzz_params f fee failing ramp)" for fee failing ramp
    by (simp add: fuzz_params_def typed_params_def in_i128_def)
  have first: "fuzz_owners f ! 0 \<in> purses f" by (rule owners) (simp add: OWNERS_def)
  show ?thesis
    using assms(1,2) ids
    by (cases x) (auto simp: modest_def due_from_def typed deposit rich owners keepers others first
        dest: mine)
qed

definition ready :: "'w host \<Rightarrow> fuzz_world \<Rightarrow> address option set \<Rightarrow> (address \<Rightarrow> int) \<Rightarrow> nat \<Rightarrow> u64 \<times> 'w registry \<Rightarrow> bool" where
  "ready h f T k n ts \<longleftrightarrow> fuzz_ok h f T k (snd ts) \<and> stocked h f (10000 * int n) n (snd ts)
     \<and> unat (fst ts) + 5000 * n < 2 ^ 64"

lemma apply_goes_on:
  assumes h: "test_host h f" and T: "Some (cron f) \<notin> T" and p: "cron f \<notin> purses f"
    and len: "length (fuzz_owners f) = OWNERS" "length (fuzz_keepers f) = KEEPERS"
    and x: "drawn x" and r: "ready h f T k (Suc n) (t, s)"
  shows "\<exists>ts. fuzz_apply h f x (t, s) = Some ts \<and> ready h f T k n ts"
proof (cases "request f s x")
  case None
  then obtain v where v: "x = FuzzAdvance v" by (cases x) simp_all
  have "unat v \<le> 5000" using x by (auto simp: v word_le_nat_alt)
  then have "checked_add t v = Some (t + v)" "unat (t + v) + 5000 * n < 2 ^ 64"
    using r by (simp_all add: checked_add_def ready_def unat_word_ariths)
  moreover have "stocked h f (10000 * int n) n s"
    using r by (force simp: ready_def stocked_def)
  ultimately show ?thesis using r by (auto simp: v ready_def)
next
  case (Some y)
  have ok: "fuzz_ok h f T k s" and st: "stocked h f (10000 * int (Suc n)) (Suc n) s"
    and time: "unat t + 5000 * Suc n < 2 ^ 64"
    using r by (simp_all add: ready_def del: of_nat_Suc)
  have y: "modest h f s y"
    by (rule requests_are_modest [OF x Some st _ ok p len]) simp
  have "t \<noteq> - 1" using time by (auto simp: unat_max_word)
  then have "fst (perform h (fuzz_env f t) y s) \<noteq> Trap"
    using y by (intro never_trapped [OF h ok]) (simp_all add: modest_def)
  then have "fuzz_apply h f x (t, s) = Some (t, call h f t y s)"
    by (simp add: apply_request Some allowed_def)
  moreover have "fuzz_ok h f T k (call h f t y s)"
    using y h p T by (intro call_keeps [OF ok]) (auto simp: modest_def test_host_def purses_def)
  moreover have "stocked h f (10000 * int (Suc n) - 10000) (Suc n - 1) (call h f t y s)"
    using y len(2) by (intro call_stocked [OF h p _ st, where who = "fuzz_keepers f ! 0"])
      (auto simp: modest_def purses_def KEEPERS_def)
  ultimately show ?thesis using time by (simp add: ready_def algebra_simps)
qed

lemma case_passes:
  assumes h: "test_host h f" and T: "Some (cron f) \<notin> T" and p: "cron f \<notin> purses f"
    and len: "length (fuzz_owners f) = OWNERS" "length (fuzz_keepers f) = KEEPERS"
    and K: "distinct (fuzz_keepers f)" and k: "k (fuzz_token f) = 0"
    and "list_all drawn ops" and "ready h f T k (length ops) ts"
  shows "fuzz_case h f ops ts"
  using assms(8,9)
proof (induction ops arbitrary: ts)
  case Nil
  then show ?case using fuzz_ok_checks [where h = h and k = k and T = T, OF _ k K] by (simp add: ready_def)
next
  case (Cons x xs)
  obtain t s where ts: "ts = (t, s)" by (cases ts)
  have x: "drawn x" "ready h f T k (Suc (length xs)) (t, s)" using Cons.prems ts by simp_all
  obtain ts' where ts': "fuzz_apply h f x (t, s) = Some ts'" "ready h f T k (length xs) ts'"
    using apply_goes_on [OF h T p len x] by blast
  have "check_invariant h f s" using fuzz_ok_checks [where h = h and k = k and T = T, OF _ k K] x(2) by (simp add: ready_def)
  then show ?case using Cons.IH [OF _ ts'(2)] Cons.prems(1) ts ts'(1) by simp
qed

section \<open>The set-up succeeds\<close>

lemma must_returns:
  assumes "wp (perform h (fuzz_env f START) x) (\<lambda>_. P) (\<lambda>_ _. False) False s"
  shows "must h f START x s = Some (call h f START x s)" and "P (call h f START x s)"
  using assms by (auto simp: must_def call_def wp_def transact_def split: prod.splits outcome.splits)

definition fuzz_config :: "fuzz_world \<Rightarrow> address \<Rightarrow> config" where
  "fuzz_config f adm = initial_config adm (fuzz_token f) (fuzz_token f) FUZZ_MIN_STAKE 3600"

text \<open>Before anybody staked: the configuration, no keepers, and the world as it was.\<close>

definition at_terms :: "config \<Rightarrow> 'w \<Rightarrow> 'w registry \<Rightarrow> bool" where
  "at_terms c w s \<longleftrightarrow> s_config (storage s) = Some c \<and> s_keepers (storage s) = Map.empty
     \<and> s_next_job_id (storage s) = None \<and> world s = w"

lemma settings_return:
  assumes "at_terms c w s" and "admin c \<noteq> cron f"
  shows "executor c = None \<Longrightarrow>
      wp (perform h (fuzz_env f START) (SetExecutor x)) (\<lambda>_. at_terms (c\<lparr>executor := Some x\<rparr>) w) (\<lambda>_ _. False) False s"
    and "bps \<le> 1000 \<Longrightarrow> wp (perform h (fuzz_env f START) (SetProtocolFee bps (Some y)))
      (\<lambda>_. at_terms (c\<lparr>protocol_fee_bps := bps, treasury := Some y\<rparr>) w) (\<lambda>_ _. False) False s"
    and "grace \<le> 60 \<Longrightarrow> wp (perform h (fuzz_env f START) (SetKeeperWindows grace))
      (\<lambda>_. at_terms (c\<lparr>grace_period := grace, slash_bps := 0\<rparr>) w) (\<lambda>_ _. False) False s"
    and "wp (perform h (fuzz_env f START) (SetUnbondingEpoch 1800))
      (\<lambda>_. at_terms (c\<lparr>unbonding_epoch := 1800\<rparr>) w) (\<lambda>_ _. False) False s"
  using assms
  by (auto simp: at_terms_def wp_void set_executor_def set_protocol_fee_def set_keeper_windows_def
      set_unbonding_epoch_def wps fuzz_env_def MAX_BPS_def MAX_GRACE_PERIOD_def MAX_UNBONDING_EPOCH_def Let_def
      word_le_nat_alt word_less_nat_alt split: option.split)

lemma settings_succeed:
  assumes s: "at_terms c w s" and c: "admin c \<noteq> cron f" "executor c = None" "\<not> paused c"
    and "bps \<le> 1000" and "grace \<le> 60"
  obtains t c' where "at_terms c' w t" and "\<not> paused c'"
    and "musts h f [SetExecutor exec, SetProtocolFee bps (Some collector), SetKeeperWindows grace,
      SetUnbondingEpoch 1800] s = Some t"
proof -
  note 1 = must_returns [OF settings_return(1) [where h = h and x = exec, OF s c(1,2)]]
  note 2 = must_returns [OF settings_return(2) [where h = h and y = collector, OF 1(2) _ assms(5)]]
  note 3 = must_returns [OF settings_return(3) [where h = h, OF 2(2) _ assms(6)]]
  note 4 = must_returns [OF settings_return(4) [where h = h, OF 3(2)]]
  show ?thesis
    by (rule that [OF 4(2)]) (use c 1 2 3 4 in simp_all)
qed

lemma musts_append: "musts h f (xs @ ys) s = (case musts h f xs s of None \<Rightarrow> None | Some t \<Rightarrow> musts h f ys t)"
  by (induction xs arbitrary: s) (simp_all split: option.split)

lemma musts_keep:
  assumes "musts h f xs s = Some t" and "fuzz_ok h f T k s" and "test_host h f" and "cron f \<notin> purses f"
    and "Some (cron f) \<notin> T"
    and "\<And>x. x \<in> set xs \<Longrightarrow> typed_op x \<and> (\<forall>a n. x \<noteq> Stake a n) \<and> (\<forall>n y. x = SetProtocolFee n y \<longrightarrow> y \<in> T)"
  shows "fuzz_ok h f T k t"
  using assms(1,2,6)
proof (induction xs arbitrary: s)
  case (Cons x xs)
  have "musts h f xs (call h f START x s) = Some t"
    using Cons.prems(1) by (auto simp: must_def split: if_splits)
  moreover have "fuzz_ok h f T k (call h f START x s)"
    by (rule call_keeps [OF Cons.prems(2)])
      (use Cons.prems(3) [of x] assms(3-5) in \<open>auto simp: test_host_def purses_def\<close>)
  ultimately show ?case by (rule Cons.IH) (rule Cons.prems(3) [OF list.set_intros(2)])
qed simp

lemma stakes_succeed:
  assumes h: "test_host h f" and p: "cron f \<notin> purses f" and T: "Some (cron f) \<notin> T" and "\<not> paused c"
    and "set ks \<subseteq> set (fuzz_keepers f)" and "distinct ks" and "\<And>a. a \<in> set ks \<Longrightarrow> s_keepers (storage s) a = None"
    and "s_config (storage s) = Some c" and "fuzz_ok h f T k s"
    and "stocked h f (m + 1000 * int (length ks)) n s" and "0 \<le> m"
  shows "\<exists>t. musts h f (map (\<lambda>k. Stake k FUZZ_MIN_STAKE) ks) s = Some t \<and> fuzz_ok h f T k t \<and> stocked h f m n t"
  using assms(5-)
proof (induction ks arbitrary: s)
  case Nil
  then show ?case by simp
next
  case (Cons a ks)
  let ?t = "call h f START (Stake a FUZZ_MIN_STAKE) s"
  have a: "a \<in> purses f" "a \<in> set (fuzz_keepers f)" "a \<noteq> cron f"
    using Cons.prems(1) p by (auto simp: purses_def)
  have tokens: "stake_token c = fuzz_token f"
    using Cons.prems(4,5) by (auto simp: fuzz_ok_def members_def)
  have "1000 \<le> token_balance h (world s) (fuzz_token f) a"
    using Cons.prems(6,7) a(1) by (force simp: stocked_def)
  then have "token_transfer h (fuzz_token f) a (cron f) 1000 (world s) \<noteq> None"
    using h by (intro obligingD(1)) (simp_all add: test_host_def)
  then have "wp (perform h (fuzz_env f START) (Stake a FUZZ_MIN_STAKE))
      (\<lambda>_ t. s_config (storage t) = Some c \<and> (\<forall>b. b \<noteq> a \<longrightarrow> s_keepers (storage t) b = s_keepers (storage s) b))
      (\<lambda>_ _. False) False s"
    using Cons.prems(3) [of a] Cons.prems(4) assms(4) a(3) tokens
    by (auto simp: wp_void stake_tokens_def wps ensure_not_paused_def fuzz_env_def Let_def fresh_keeper_def
        FUZZ_MIN_STAKE_def in_i128_def split: option.split)
  note staked = must_returns [OF this]
  have "stocked h f (m + 1000 * int (length (a # ks)) - 1000) (n - 0) ?t"
    by (rule call_stocked [OF h p a(1) Cons.prems(6)])
      (simp_all add: due_from_def FUZZ_MIN_STAKE_def)
  then have "stocked h f (m + 1000 * int (length ks)) n ?t" by (simp add: algebra_simps)
  moreover have "fuzz_ok h f T k ?t"
    by (rule call_keeps [OF Cons.prems(5)]) (use h T a(2) p in \<open>auto simp: test_host_def purses_def\<close>)
  moreover have "s_keepers (storage ?t) b = None" if "b \<in> set ks" for b
    using that Cons.prems(2,3) staked(2) by (metis distinct.simps(2) list.set_intros(2))
  ultimately obtain t where "musts h f (map (\<lambda>k. Stake k FUZZ_MIN_STAKE) ks) ?t = Some t"
    "fuzz_ok h f T k t" "stocked h f m n t"
    using Cons.IH [of ?t] Cons.prems(1,2,7) staked(2) by auto
  then show ?case using staked(1) by auto
qed

text \<open>
  C5. The registry's fuzz test passes. In the world it sets up, with any protocol fee, grace period
  and sequence of the operations it draws, the set-up succeeds; every later call succeeds or fails
  with an error of the registry, never with a panic or a failed transfer; and after each step the
  registry's token balance equals the jobs' balances and the keepers' stakes as its views report
  them, none of which is negative. Assumed are what the test's environment provides: funded
  accounts, a token that serves, and contracts called by jobs that move no money.
\<close>

theorem fuzz_test_passes:
  fixes h :: "'w host" and w :: 'w
  assumes "test_host h f" and "\<forall>a \<in> purses f. FUZZ_FUNDS \<le> token_balance h w (fuzz_token f) a"
    and "token_balance h w (fuzz_token f) (cron f) = 0"
    and "cron f \<notin> purses f" and "adm \<noteq> cron f" and "collector \<noteq> cron f"
    and "length (fuzz_owners f) = OWNERS" and "length (fuzz_keepers f) = KEEPERS" and "distinct (fuzz_keepers f)"
    and "bps \<le> 1000" and "grace \<le> 60" and "list_all drawn ops" and "length ops < 40"
  shows "fuzz_test h f adm exec collector bps grace ops w"
proof -
  let ?s0 = "\<lparr>storage = empty_store, world = w, published = [], extensions = []\<rparr>"
  let ?c = "initial_config adm (fuzz_token f) (fuzz_token f) FUZZ_MIN_STAKE 3600"
  let ?k = "\<lambda>u. token_balance h w u (cron f)" and ?T = "{None, Some collector}"
  have "wp (constructor adm (fuzz_token f) (fuzz_token f) FUZZ_MIN_STAKE 3600)
      (\<lambda>_ t. at_terms ?c w t) (\<lambda>_ _. False) False ?s0"
    by (simp add: constructor_def wps at_terms_def FUZZ_MIN_STAKE_def empty_store_def)
  from wp_returns [OF this] obtain s where
    run: "constructor adm (fuzz_token f) (fuzz_token f) FUZZ_MIN_STAKE 3600 ?s0 = (Ok (), s)"
    and s: "at_terms ?c w s" by auto
  obtain t c' where t: "at_terms c' w t" "\<not> paused c'"
    "musts h f [SetExecutor exec, SetProtocolFee bps (Some collector), SetKeeperWindows grace,
      SetUnbondingEpoch 1800] s = Some t"
    by (rule settings_succeed [OF s _ _ _ assms(10,11), where f = f and h = h and exec = exec
        and collector = collector]) (use assms(5) in \<open>auto simp: initial_config_def\<close>)
  have dep: "transact (constructor adm (fuzz_token f) (fuzz_token f) FUZZ_MIN_STAKE 3600) ?s0 = (Ok (), s)"
    using run by simp
  have "reachable h (cron f) s"
    by (rule reachable.start) (use dep in \<open>unfold deployed_def, blast\<close>)
  moreover have "members (- {cron f}) (set (fuzz_keepers f)) (?T \<times> {fuzz_token f} \<times> {fuzz_token f}) (storage s)"
    by (rule members_mono [OF deployed_members(1) [OF dep]]) simp_all
  moreover have "covers (Some ?k) h (cron f) 0 0 s"
    by (rule deployed_members(2) [OF dep])
  ultimately have "fuzz_ok h f ?T ?k s" by (simp add: fuzz_ok_def)
  then have ok: "fuzz_ok h f ?T ?k t"
    by (rule musts_keep [OF t(3)]) (use assms(1,4,6) in auto)
  have "stocked h f (FUZZ_FUNDS - 3000 + 1000 * int (length (fuzz_keepers f))) 40 t"
    using t(1) assms(2,8) by (simp add: stocked_def at_terms_def issued_def KEEPERS_def)
  then have "\<exists>u. musts h f (map (\<lambda>k. Stake k FUZZ_MIN_STAKE) (fuzz_keepers f)) t = Some u \<and>
      fuzz_ok h f ?T ?k u \<and> stocked h f (FUZZ_FUNDS - 3000) 40 u"
    by (intro stakes_succeed [OF assms(1,4) _ t(2) subset_refl assms(9) _ _ ok])
      (use t(1) assms(6) in \<open>auto simp: at_terms_def FUZZ_FUNDS_def\<close>)
  then obtain u where u: "musts h f (map (\<lambda>k. Stake k FUZZ_MIN_STAKE) (fuzz_keepers f)) t = Some u"
    "fuzz_ok h f ?T ?k u" "stocked h f (FUZZ_FUNDS - 3000) 40 u" by blast
  have "ready h f ?T ?k (length ops) (START, u)"
    using u(2,3) assms(13) by (force simp: ready_def stocked_def START_def FUZZ_FUNDS_def)
  then have "fuzz_case h f ops (START, u)"
    by (intro case_passes [OF assms(1) _ assms(4,7,8,9) _ assms(12)]) (use assms(3,6) in auto)
  moreover have "musts h f (fuzz_setup exec collector bps grace (fuzz_keepers f)) s = Some u"
    unfolding fuzz_setup_def musts_append t(3) option.case by (rule u(1))
  ultimately show ?thesis unfolding fuzz_test_def set_up_def dep by simp
qed

definition demo_fuzz :: fuzz_world where
  "demo_fuzz = \<lparr>cron = registry_at, fuzz_token = xlm, fuzz_target = target_at,
     fuzz_owners = [alice, root_admin, bond], fuzz_keepers = [keeper_a, keeper_b, executor_at], fuzz_ledger = 100\<rparr>"

definition purse :: "address \<Rightarrow> address list" where
  "purse a = replicate (nat FUZZ_FUNDS) a"

definition minted :: coins where
  "minted u = purse alice @ purse root_admin @ purse bond @ purse keeper_a @ purse keeper_b @ purse executor_at"

lemma minted_balance:
  "coin_count minted u a = (if a \<in> purses demo_fuzz then FUZZ_FUNDS else 0)"
proof -
  have "length (minted u) \<le> COINS"
    by (simp add: minted_def purse_def FUZZ_FUNDS_def COINS_def)
  then have all: "take COINS (minted u) = minted u" by simp
  have one: "int (count_list (purse b) a) = (if a = b then FUZZ_FUNDS else 0)" for b
    by (cases "a = b") (simp_all add: purse_def FUZZ_FUNDS_def count_replicate)
  show ?thesis
    unfolding coin_count_def all
    by (simp add: minted_def one purses_def demo_fuzz_def addresses)
qed

theorem fuzz_test_passes_witness:
  "fuzz_test coin_host demo_fuzz root_admin executor_at treasury_at 250 30
     [FuzzCreate 0 7 3 False True, FuzzAdvance 61, FuzzExecute 1 0, FuzzUnbond 2, FuzzSettleAll] minted"
proof (rule fuzz_test_passes)
  show "test_host coin_host demo_fuzz"
    using coin_sound coin_obliging
    by (simp add: test_host_def calls_ignore_funds_def calls_keep_funds_def) (simp add: coin_host_def)
  have b: "token_balance coin_host minted u a = (if a \<in> purses demo_fuzz then FUZZ_FUNDS else 0)" for u a
    by (simp add: coin_host_def minted_balance)
  show "\<forall>a \<in> purses demo_fuzz. FUZZ_FUNDS \<le> token_balance coin_host minted (fuzz_token demo_fuzz) a"
    by (simp add: b)
  show "token_balance coin_host minted (fuzz_token demo_fuzz) (cron demo_fuzz) = 0"
    by (simp add: b) (simp add: purses_def demo_fuzz_def addresses)
qed (simp_all add: purses_def demo_fuzz_def OWNERS_def KEEPERS_def addresses)

end
