(* ===== verification/Proptests.thy ===== *)
theory Proptests
  imports Execution
begin

text \<open>
  The registry's property tests (\<open>contracts/registry/src/proptests.rs\<close>): one definition per test,
  with its own arithmetic checked as the test build checks it, and the inputs its strategies draw.
  The theorem says on exactly which drawn inputs a test fails.
\<close>

section \<open>Strategies and helpers\<close>

text \<open>The job every test starts from; the tests overlay the fields they are about.\<close>

definition test_spec :: job_spec where
  "test_spec =
     \<lparr>owner = Address 0, target = Address 1, function_name = ''fuzz'', args = [], interval = 1,
      schedule = Interval, fee_per_run = 1, max_fee_per_run = 0, max_runs = 0, end_at = 0,
      resolver = None, keepers = None, after = None\<rparr>"

definition test_state :: job_state where
  "test_state =
     \<lparr>next_run = 0, balance = 2 ^ 127 - 1, runs = 0, failures = 0, active = True, leader_runs = 0\<rparr>"

text \<open>A scenario of \<open>ensure_due\<close>, as its strategy draws it.\<close>

record due_case =
  dc_active :: bool
  dc_runs :: u32
  dc_max_runs :: u32
  dc_end_at :: u64
  dc_balance :: int
  dc_fee :: int
  dc_next_run :: u64
  dc_now :: u64

definition case_spec :: "due_case \<Rightarrow> job_spec" where
  "case_spec d = test_spec\<lparr>max_runs := dc_max_runs d, end_at := dc_end_at d, fee_per_run := dc_fee d\<rparr>"

definition case_state :: "due_case \<Rightarrow> job_state" where
  "case_state d =
     test_state\<lparr>active := dc_active d, runs := dc_runs d, balance := dc_balance d, next_run := dc_next_run d\<rparr>"

definition calendar_of :: "u32 option \<Rightarrow> u32 \<Rightarrow> u32 \<Rightarrow> schedule" where
  "calendar_of weekday hour minute =
     (case weekday of None \<Rightarrow> Daily hour minute | Some d \<Rightarrow> Weekly d hour minute)"

text \<open>\<open>u64\<close> arithmetic of the tests: an overflow fails the test.\<close>

definition sum_then :: "u64 \<Rightarrow> u64 \<Rightarrow> (u64 \<Rightarrow> bool) \<Rightarrow> bool" where
  "sum_then a b p = (case checked_add a b of None \<Rightarrow> False | Some n \<Rightarrow> p n)"

definition sat_add_signed :: "u64 \<Rightarrow> int \<Rightarrow> u64" where
  "sat_add_signed a d = word_of_int (max 0 (min (2 ^ 64 - 1) (uint a + d)))"

section \<open>The tests\<close>

definition next_run_after_never_regresses_or_panics :: "u64 \<Rightarrow> u64 \<Rightarrow> u64 \<Rightarrow> bool" where
  "next_run_after_never_regresses_or_panics scheduled period at =
     (case next_run_after scheduled period at of
        None \<Rightarrow> False
      | Some n \<Rightarrow> scheduled \<le> n \<and> at \<le> n
          \<and> (case checked_add scheduled period of
               Some exact \<Rightarrow> at < exact \<longrightarrow> n = exact
             | None \<Rightarrow> n = - 1))"

definition zero_interval_never_goes_backwards :: "u64 \<Rightarrow> u64 \<Rightarrow> bool" where
  "zero_interval_never_goes_backwards scheduled at =
     (next_run_after scheduled 0 at = Some (max scheduled at))"

fun advances :: "nat \<Rightarrow> u64 \<Rightarrow> u64 \<Rightarrow> u64 \<Rightarrow> bool" where
  "advances 0 next period skip = True"
| "advances (Suc k) next period skip =
     (let at = sat_add next skip
      in case next_run_after next period at of
           None \<Rightarrow> False
         | Some advanced \<Rightarrow> (next < advanced \<or> next = - 1) \<and> at \<le> advanced \<and> advances k advanced period skip)"

definition schedule_always_advances_until_ceiling :: "u64 \<Rightarrow> u64 \<Rightarrow> u64 \<Rightarrow> bool" where
  "schedule_always_advances_until_ceiling first period skip = advances 64 first period skip"

definition next_run_after_is_total_at_timestamp_ceiling :: bool where
  "next_run_after_is_total_at_timestamp_ceiling =
     list_all (\<lambda>period. list_all (\<lambda>at. next_run_after (- 1) period at = Some (- 1)) [0, 1, - 2, - 1])
       [0, 1, 60, - 1]"

definition ensure_due_matches_gate_specification :: "due_case \<Rightarrow> bool" where
  "ensure_due_matches_gate_specification d =
     (ensure_due (case_spec d) (case_state d) (dc_now d) =
       (if \<not> dc_active d then Inl JobPaused
        else if dc_max_runs d \<noteq> 0 \<and> dc_max_runs d \<le> dc_runs d then Inl MaxRunsReached
        else if dc_end_at d \<noteq> 0 \<and> dc_end_at d \<le> dc_now d then Inl JobExpired
        else if dc_balance d < dc_fee d then Inl InsufficientJobBalance
        else if dc_now d < dc_next_run d then Inl JobNotDue
        else Inr ()))"

definition admitted_jobs_can_pay_their_fee :: "due_case \<Rightarrow> int \<Rightarrow> bool" where
  "admitted_jobs_can_pay_their_fee d fee =
     (let spec = (case_spec d)\<lparr>fee_per_run := fee\<rparr>; st = case_state d
      in case ensure_due spec st (dc_now d) of
           Inl _ \<Rightarrow> True
         | Inr _ \<Rightarrow> in_i128 (balance st - fee_per_run spec) \<and> 0 \<le> balance st - fee_per_run spec)"

definition due_boundary_is_inclusive :: "u64 \<Rightarrow> int \<Rightarrow> bool" where
  "due_boundary_is_inclusive next delta =
     ((ensure_due test_spec (test_state\<lparr>next_run := next\<rparr>) (sat_add_signed next delta) = Inr ())
        = (0 \<le> delta))"

definition expiry_boundary_is_exclusive :: "u64 \<Rightarrow> int \<Rightarrow> bool" where
  "expiry_boundary_is_exclusive last_at delta =
     ((ensure_due (test_spec\<lparr>end_at := last_at\<rparr>) test_state (sat_add_signed last_at delta) = Inr ())
        = (delta < 0))"

definition first_calendar_run_is_the_next_matching_time :: "u32 option \<Rightarrow> u32 \<Rightarrow> u32 \<Rightarrow> u64 \<Rightarrow> bool" where
  "first_calendar_run_is_the_next_matching_time weekday hour minute start =
     (let cal = calendar_of weekday hour minute; t = first_calendar_run cal start
      in case calendar_period cal of
           None \<Rightarrow> False
         | Some period \<Rightarrow> start \<le> t \<and> t - start < period
             \<and> (t mod 86400) div 3600 = ucast hour \<and> (t mod 3600) div 60 = ucast minute \<and> t mod 60 = 0
             \<and> (case weekday of None \<Rightarrow> True | Some d \<Rightarrow> (t div 86400 + 3) mod 7 = ucast d))"

definition calendar_jobs_never_drift :: "u32 option \<Rightarrow> u32 \<Rightarrow> u32 \<Rightarrow> u64 \<Rightarrow> u64 \<Rightarrow> bool" where
  "calendar_jobs_never_drift weekday hour minute start delay =
     (let cal = calendar_of weekday hour minute; t = first_calendar_run cal start
      in case calendar_period cal of
           None \<Rightarrow> False
         | Some period \<Rightarrow> sum_then t delay (\<lambda>at.
             case next_run_after t period at of
               None \<Rightarrow> False
             | Some n \<Rightarrow> at < n \<and> t \<le> n \<and> (n - t) mod period = 0))"

definition ramped_fee_stays_within_bounds :: "int \<Rightarrow> int \<Rightarrow> u64 \<Rightarrow> u64 \<Rightarrow> int \<Rightarrow> bool" where
  "ramped_fee_stays_within_bounds base extra period late slack =
     (let spec = test_spec\<lparr>fee_per_run := base, max_fee_per_run := base + extra, interval := period\<rparr>;
          st = test_state\<lparr>next_run := 1000, balance := base + slack\<rparr>
      in sum_then 1000 late (\<lambda>at. sum_then at 1 (\<lambda>then_at.
         case (ramped_fee spec st at, ramped_fee spec st then_at) of
           (Some fee, Some later_fee) \<Rightarrow>
             base \<le> fee \<and> fee \<le> max_fee_per_run spec \<and> fee \<le> balance st \<and> fee \<le> later_fee
         | _ \<Rightarrow> False)))"

definition split_fee_conserves_amount :: "int \<Rightarrow> u32 \<Rightarrow> bool" where
  "split_fee_conserves_amount amount bps =
     (case split_fee amount bps of
        None \<Rightarrow> False
      | Some (rest, share) \<Rightarrow>
          in_i128 (rest + share) \<and> rest + share = amount \<and> 0 \<le> share \<and> 0 \<le> rest
          \<and> (let bound = trunc_div amount 10000 * uint bps
             in in_i128 bound \<and> in_i128 (bound + uint bps) \<and> share \<le> bound + uint bps))"

definition unbonding_epochs_release_together :: "u64 \<Rightarrow> u64 \<Rightarrow> u64 \<Rightarrow> u64 \<Rightarrow> u64 \<Rightarrow> bool" where
  "unbonding_epochs_release_together epoch period start a b =
     (let epoch_start = start div epoch * epoch
      in sum_then epoch_start (a mod epoch) (\<lambda>t1. sum_then epoch_start (b mod epoch) (\<lambda>t2.
         unbonding_release t1 period epoch = unbonding_release t2 period epoch
         \<and> sum_then t1 period (\<lambda>least. least \<le> unbonding_release t1 period epoch))))"

section \<open>What is drawn, and what passes\<close>

datatype prop_case =
    NeverRegresses u64 u64 u64
  | ZeroInterval u64 u64
  | AlwaysAdvances u64 u64 u64
  | AtTheCeiling
  | GateOrder due_case
  | CanPay due_case int
  | DueBoundary u64 int
  | ExpiryBoundary u64 int
  | NextMatch "u32 option" u32 u32 u64
  | NoDrift "u32 option" u32 u32 u64 u64
  | RampBounds int int u64 u64 int
  | SplitConserves int u32
  | ReleasedTogether u64 u64 u64 u64 u64

definition calendar_fields :: "u32 option \<Rightarrow> u32 \<Rightarrow> u32 \<Rightarrow> bool" where
  "calendar_fields weekday hour minute \<longleftrightarrow>
     (case weekday of None \<Rightarrow> True | Some d \<Rightarrow> d < 7) \<and> hour < 24 \<and> minute < 60"

fun generated :: "prop_case \<Rightarrow> bool" where
  "generated (AlwaysAdvances first period skip) \<longleftrightarrow> 1 \<le> period"
| "generated (GateOrder d) \<longleftrightarrow> in_i128 (dc_balance d) \<and> in_i128 (dc_fee d)"
| "generated (CanPay d fee) \<longleftrightarrow> in_i128 (dc_balance d) \<and> in_i128 (dc_fee d) \<and> in_i128 fee \<and> 1 \<le> fee"
| "generated (DueBoundary next delta) \<longleftrightarrow> 1 \<le> next \<and> - 1 \<le> delta \<and> delta \<le> 1"
| "generated (ExpiryBoundary last_at delta) \<longleftrightarrow> 1 \<le> last_at \<and> - 1 \<le> delta \<and> delta \<le> 1"
| "generated (NextMatch d h m start) \<longleftrightarrow> calendar_fields d h m \<and> start \<le> 4000000000"
| "generated (NoDrift d h m start delay) \<longleftrightarrow>
     calendar_fields d h m \<and> start \<le> 4000000000 \<and> delay \<le> 10000000"
| "generated (RampBounds base extra period late slack) \<longleftrightarrow>
     1 \<le> base \<and> base \<le> 1000000000 \<and> 0 \<le> extra \<and> extra \<le> 1000000000 \<and> 1 \<le> period \<and> period \<le> 1000000
     \<and> late \<le> 2000000 \<and> 0 \<le> slack \<and> slack \<le> 2000000000"
| "generated (SplitConserves amount bps) \<longleftrightarrow> 0 \<le> amount \<and> in_i128 amount \<and> bps \<le> 10000"
| "generated (ReleasedTogether epoch period start a b) \<longleftrightarrow>
     1 \<le> epoch \<and> epoch \<le> 1000000 \<and> period \<le> 1000000 \<and> start \<le> 1000000000 \<and> a \<le> 1000000 \<and> b \<le> 1000000"
| "generated _ \<longleftrightarrow> True"

fun passes :: "prop_case \<Rightarrow> bool" where
  "passes (NeverRegresses scheduled period at) = next_run_after_never_regresses_or_panics scheduled period at"
| "passes (ZeroInterval scheduled at) = zero_interval_never_goes_backwards scheduled at"
| "passes (AlwaysAdvances first period skip) = schedule_always_advances_until_ceiling first period skip"
| "passes AtTheCeiling = next_run_after_is_total_at_timestamp_ceiling"
| "passes (GateOrder d) = ensure_due_matches_gate_specification d"
| "passes (CanPay d fee) = admitted_jobs_can_pay_their_fee d fee"
| "passes (DueBoundary next delta) = due_boundary_is_inclusive next delta"
| "passes (ExpiryBoundary last_at delta) = expiry_boundary_is_exclusive last_at delta"
| "passes (NextMatch d h m start) = first_calendar_run_is_the_next_matching_time d h m start"
| "passes (NoDrift d h m start delay) = calendar_jobs_never_drift d h m start delay"
| "passes (RampBounds base extra period late slack) = ramped_fee_stays_within_bounds base extra period late slack"
| "passes (SplitConserves amount bps) = split_fee_conserves_amount amount bps"
| "passes (ReleasedTogether epoch period start a b) = unbonding_epochs_release_together epoch period start a b"

text \<open>The inputs on which the code, or the test's own arithmetic, overflows.\<close>

fun overflows :: "prop_case \<Rightarrow> bool" where
  "overflows (NeverRegresses scheduled period at) \<longleftrightarrow> scheduled = 0 \<and> period = 1 \<and> at = - 1"
| "overflows (AlwaysAdvances first period skip) \<longleftrightarrow> first = 0 \<and> period = 1 \<and> skip = - 1"
| "overflows (SplitConserves amount bps) \<longleftrightarrow> 2 ^ 127 \<le> (amount div 10000 + 1) * uint bps"
| "overflows _ \<longleftrightarrow> False"

section \<open>Why they pass\<close>

lemma sum_thenI: "unat a + unat b < 2 ^ 64 \<Longrightarrow> (\<And>n. unat n = unat a + unat b \<Longrightarrow> p n) \<Longrightarrow> sum_then a b p"
  by (simp add: sum_then_def checked_add_def unat_word_ariths)

lemma never_regresses_iff:
  "next_run_after_never_regresses_or_panics scheduled period at
     \<longleftrightarrow> \<not> (scheduled = 0 \<and> period = 1 \<and> at = - 1)"
proof (cases "next_run_after scheduled period at")
  case None
  then show ?thesis
    by (simp add: next_run_after_never_regresses_or_panics_def next_run_after_None_iff [symmetric])
next
  case (Some n)
  note ge = next_run_after_ge [OF Some]
  have kept: "n = exact" if "checked_add scheduled period = Some exact" "at < exact" for exact
  proof (cases "period = 0")
    case True
    then show ?thesis using Some that by (auto simp: next_run_after_def checked_add_def max_def split: if_splits)
  next
    case False
    have exact: "unat exact = unat scheduled + unat period" "unat at < unat scheduled + unat period"
      using that by (auto simp: checked_add_def unat_word_ariths word_less_nat_alt split: if_splits)
    moreover have "0 < unat period" using False by (simp add: unat_gt_0)
    ultimately have "unat at - unat scheduled < unat period" by linarith
    then have "(unat at - unat scheduled) div unat period = 0" by simp
    then have "n = of_nat (unat exact)"
      using Some exact(1) unat_u64_bound [of exact]
      by (simp add: unat_next_run_after [OF False] Let_def min_def split: if_splits)
    then show ?thesis by simp
  qed
  have pinned: "n = - 1" if "checked_add scheduled period = None"
  proof -
    have p: "period \<noteq> 0" and big: "2 ^ 64 \<le> unat scheduled + unat period"
      using that unat_lt_two_power [of scheduled] by (auto simp: checked_add_def split: if_splits)
    show ?thesis
    proof (rule ccontr)
      assume "n \<noteq> - 1"
      then obtain k where "unat n = unat scheduled + Suc k * unat period"
        using next_run_after_grid [OF p Some] by blast
      then show False using big unat_lt_two_power [of n] by simp
    qed
  qed
  have "next_run_after scheduled period at \<noteq> None" using Some by simp
  then have "\<not> (scheduled = 0 \<and> period = 1 \<and> at = - 1)" using next_run_after_None_iff by metis
  moreover have "next_run_after_never_regresses_or_panics scheduled period at"
    using Some ge kept pinned
    by (auto simp: next_run_after_never_regresses_or_panics_def split: option.split)
  ultimately show ?thesis by simp
qed

lemma advances_when:
  "period \<noteq> 0 \<Longrightarrow> \<not> (first = 0 \<and> period = 1 \<and> skip = - 1) \<Longrightarrow> advances k first period skip"
proof (induction k arbitrary: first)
  case (Suc k)
  let ?at = "sat_add first skip"
  have "\<not> (first = 0 \<and> period = 1 \<and> ?at = - 1)" using Suc.prems(2) unat_u64_bound [of skip]
    by (auto simp: sat_add_def split: if_splits)
  then obtain n where n: "next_run_after first period ?at = Some n"
    using next_run_after_None_iff by fastforce
  have le: "first \<le> n" "?at \<le> n" using next_run_after_ge [OF n] by auto
  have "n = - 1 \<or> first < n" using next_run_after_grid [OF Suc.prems(1) n] by blast
  then have up: "first < n \<or> first = - 1" and "n \<noteq> 0"
    using le by (auto simp: order_less_le word_order.extremum)
  then have "advances k n period skip" by (intro Suc.IH [OF Suc.prems(1)]) simp
  then show ?case using n up le by simp
qed simp

lemma always_advances_iff:
  assumes "period \<noteq> 0"
  shows "schedule_always_advances_until_ceiling first period skip
    \<longleftrightarrow> \<not> (first = 0 \<and> period = 1 \<and> skip = - 1)"
proof -
  have "next_run_after 0 1 (- 1) = None" by (simp add: next_run_after_None_iff)
  then have "\<not> advances (Suc k) 0 1 (- 1)" for k by (simp add: sat_add_def)
  from this [of 63] show ?thesis
    using advances_when [OF assms] by (auto simp: schedule_always_advances_until_ceiling_def)
qed

lemma ceiling_passes: "next_run_after_is_total_at_timestamp_ceiling"
proof -
  have "next_run_after (- 1) period at = Some (- 1)" for period at
  proof -
    obtain n where n: "next_run_after (- 1) period at = Some n"
      using next_run_after_None_iff [of "- 1" period at] by fastforce
    then show ?thesis using next_run_after_ge [OF n] by (simp add: word_order.extremum_unique)
  qed
  then show ?thesis by (simp add: next_run_after_is_total_at_timestamp_ceiling_def)
qed

lemma gates_pass: "ensure_due_matches_gate_specification d"
  by (simp add: ensure_due_matches_gate_specification_def ensure_due_def case_spec_def case_state_def
      test_spec_def test_state_def)

lemma can_pay_passes:
  "in_i128 (dc_balance d) \<Longrightarrow> 1 \<le> fee \<Longrightarrow> admitted_jobs_can_pay_their_fee d fee"
  by (auto simp: admitted_jobs_can_pay_their_fee_def ensure_due_def case_spec_def case_state_def
      test_spec_def test_state_def in_i128_def split: sum.split if_splits)

lemma uint_sat_add_signed: "uint (sat_add_signed a d) = max 0 (min (2 ^ 64 - 1) (uint a + d))"
  by (simp add: sat_add_signed_def uint_word_of_int)

lemma due_boundary_passes:
  assumes "1 \<le> next" and "- 1 \<le> delta" and "delta \<le> 1"
  shows "due_boundary_is_inclusive next delta"
proof -
  have "1 \<le> uint next" using assms(1) by (simp add: word_le_def)
  moreover have "uint next \<le> 2 ^ 64 - 1" using uint_bounded [of "next"] by simp
  ultimately have "(sat_add_signed next delta < next) = (delta < 0)"
    unfolding word_less_def uint_sat_add_signed using assms(2,3) by (auto simp: max_def min_def)
  then show ?thesis
    by (auto simp: due_boundary_is_inclusive_def ensure_due_def test_spec_def test_state_def)
qed

lemma expiry_boundary_passes:
  assumes "1 \<le> last_at" and "- 1 \<le> delta" and "delta \<le> 1"
  shows "expiry_boundary_is_exclusive last_at delta"
proof -
  have "1 \<le> uint last_at" using assms(1) by (simp add: word_le_def)
  moreover have "uint last_at \<le> 2 ^ 64 - 1" using uint_bounded [of last_at] by simp
  ultimately have "(last_at \<le> sat_add_signed last_at delta) = (0 \<le> delta)" and "last_at \<noteq> 0"
    unfolding word_le_def uint_sat_add_signed using assms(2,3) by (auto simp: max_def min_def)
  then show ?thesis
    by (auto simp: expiry_boundary_is_exclusive_def ensure_due_def test_spec_def test_state_def)
qed

text \<open>Calendars: the digits of a matching time.\<close>

lemma calendar_of_valid:
  "calendar_fields d h m \<Longrightarrow> schedule_is_valid (calendar_of d h m)"
  by (auto simp: calendar_fields_def calendar_of_def split: option.splits)

lemma calendar_of_period:
  "calendar_period (calendar_of d h m) = Some (if d = None then DAY else WEEK)"
  "period_nat (calendar_of d h m) \<le> 604800"
  by (auto simp: calendar_of_def split: option.split)

lemma time_digits:
  assumes "t mod 86400 = h * 3600 + m * 60" and "m < (60 :: nat)"
  shows "t mod 86400 div 3600 = h" and "t mod 3600 div 60 = m" and "t mod 60 = 0"
proof -
  obtain q where q: "t = 86400 * q + h * 3600 + m * 60"
    using assms(1) mult_div_mod_eq [of 86400 t] by (metis add.assoc)
  have sec: "t mod 3600 = m * 60"
  proof -
    have "t = m * 60 + (24 * q + h) * 3600" using q by simp
    then have "t mod 3600 = m * 60 mod 3600" by (simp only: mod_mult_self1)
    then show ?thesis using assms(2) by simp
  qed
  then show "t mod 3600 div 60 = m" by simp
  have "t = (1440 * q + h * 60 + m) * 60" using q by simp
  then show "t mod 60 = 0" by (simp only: mod_mult_self2_is_0)
  show "t mod 86400 div 3600 = h" using assms by simp
qed

lemma match_digits:
  assumes "calendar_match (calendar_of d h m) t" and "m < 60"
  shows "t mod 86400 div 3600 = unat h" and "t mod 3600 div 60 = unat m" and "t mod 60 = 0"
    and "d = Some w \<Longrightarrow> (t div 86400 + 3) mod 7 = unat w"
  using assms time_digits [of t "unat h" "unat m"]
  by (auto simp: calendar_of_def word_less_nat_alt split: option.splits)

lemma next_match_passes:
  assumes f: "calendar_fields d h m" and "start \<le> 4000000000"
  shows "first_calendar_run_is_the_next_matching_time d h m start"
proof -
  let ?cal = "calendar_of d h m"
  obtain p where p: "calendar_period ?cal = Some p" using calendar_of_period by blast
  have "unat start + 2 * period_nat ?cal < 2 ^ 64"
    using assms(2) calendar_of_period(2) [of d h m] by (simp add: word_le_nat_alt)
  note run = first_calendar_run_next [OF calendar_of_valid [OF f] _ this]
  define t where "t = first_calendar_run ?cal start"
  have le: "start \<le> t" and lt: "unat t < unat start + period_nat ?cal" and match: "calendar_match ?cal (unat t)"
    using run p by (auto simp: t_def)
  have "unat (t - start) = unat t - unat start" using le by (simp add: unat_sub word_le_nat_alt)
  then have "t - start < p"
    using lt le calendar_period_nat [OF p] by (simp add: word_less_nat_alt word_le_nat_alt)
  moreover have m: "m < 60" using f by (simp add: calendar_fields_def)
  note digits = match_digits [OF match m]
  have "(t mod 86400) div 3600 = ucast h" "(t mod 3600) div 60 = ucast m" "t mod 60 = 0"
    using digits by (simp_all add: word_unat_eq_iff unat_mod unat_div)
  moreover have "(t div 86400 + 3) mod 7 = ucast w" if "d = Some w" for w
  proof -
    have "unat t div 86400 \<le> 18446744073709551615 div 86400" by (rule div_le_mono [OF unat_u64_bound])
    then have small: "unat t div 86400 + 3 < 2 ^ 64" by simp
    have d: "unat (t div 86400) = unat t div 86400" by (simp add: unat_div)
    then have "unat (t div 86400) + unat (3 :: u64) < 2 ^ LENGTH(64)" using small by simp
    then have "unat (t div 86400 + 3) = unat t div 86400 + 3"
      by (simp only: unat_add_lem [THEN iffD1] d) simp
    then show ?thesis using digits(4) [OF that] by (simp add: word_unat_eq_iff unat_mod)
  qed
  ultimately show ?thesis using p le
    unfolding first_calendar_run_is_the_next_matching_time_def Let_def t_def [symmetric]
    by (simp split: option.split)
qed

lemma next_run_after_le:
  assumes "period \<noteq> 0" and "next_run_after scheduled period at = Some n"
  shows "unat n \<le> max (unat scheduled) (unat at) + unat period"
proof -
  define x where "x = ((unat at - unat scheduled) div unat period + 1) * unat period"
  have "x \<le> unat at - unat scheduled + unat period"
    by (simp add: x_def algebra_simps)
  moreover have "n = of_nat (min (unat scheduled + x) (2 ^ 64 - 1))"
    using assms unfolding unat_next_run_after [OF assms(1)] Let_def x_def [symmetric]
    by (simp only: option.inject split: if_splits) simp
  then have "unat n \<le> min (unat scheduled + x) (2 ^ 64 - 1)"
    by (simp only: unat_of_nat mod_less_eq_dividend)
  then have "unat n \<le> unat scheduled + x" by simp
  ultimately show ?thesis by linarith
qed

lemma no_drift_passes:
  assumes f: "calendar_fields d h m" and "start \<le> 4000000000" and "delay \<le> 10000000"
  shows "calendar_jobs_never_drift d h m start delay"
proof -
  let ?cal = "calendar_of d h m"
  obtain p where p: "calendar_period ?cal = Some p" using calendar_of_period by blast
  have small: "unat start \<le> 4000000000" "unat delay \<le> 10000000" "period_nat ?cal \<le> 604800"
    using assms(2,3) calendar_of_period(2) by (simp_all add: word_le_nat_alt)
  then have "unat start + 2 * period_nat ?cal < 2 ^ 64" by simp
  note run = first_calendar_run_next [OF calendar_of_valid [OF f] _ this]
  define t where "t = first_calendar_run ?cal start"
  have t: "unat t < 4000604800" using run p small by (auto simp: t_def)
  have pp: "unat p = period_nat ?cal" by (rule calendar_period_nat [OF p])
  then have p0: "p \<noteq> 0" using period_nat_pos [of ?cal] by (metis less_irrefl unat_0)
  have "sum_then t delay (\<lambda>at. case next_run_after t p at of
      None \<Rightarrow> False | Some n \<Rightarrow> at < n \<and> t \<le> n \<and> (n - t) mod p = 0)"
  proof (rule sum_thenI)
    show "unat t + unat delay < 2 ^ 64" using t small by simp
    fix at :: u64 assume at: "unat at = unat t + unat delay"
    then have "at \<noteq> - 1" using t small by (auto simp: unat_max_word)
    then obtain n where n: "next_run_after t p at = Some n"
      using next_run_after_None_iff [of t p at] by fastforce
    have "unat n \<le> unat at + unat p" using next_run_after_le [OF p0 n] at by simp
    then have "n \<noteq> - 1" using t small at pp by (auto simp: unat_max_word)
    note grid = next_run_after_grid [OF p0 n this]
    then obtain k where k: "unat n = unat t + Suc k * unat p" by blast
    have le: "t \<le> n" using grid less_imp_le by blast
    then have "unat (n - t) = Suc k * unat p" using k by (simp add: unat_sub word_le_nat_alt)
    then have "(n - t) mod p = 0" by (simp add: word_unat_eq_iff unat_mod)
    then show "case next_run_after t p at of
        None \<Rightarrow> False | Some n \<Rightarrow> at < n \<and> t \<le> n \<and> (n - t) mod p = 0"
      using n grid le by simp
  qed
  then show ?thesis using p
    unfolding calendar_jobs_never_drift_def Let_def t_def [symmetric] by simp
qed

lemma ramp_passes:
  assumes "1 \<le> base" "base \<le> 1000000000" "0 \<le> extra" "extra \<le> 1000000000" "late \<le> 2000000" "0 \<le> slack"
  shows "ramped_fee_stays_within_bounds base extra period late slack"
proof -
  define spec where
    "spec = test_spec\<lparr>fee_per_run := base, max_fee_per_run := base + extra, interval := period\<rparr>"
  define st where "st = test_state\<lparr>next_run := 1000, balance := base + slack\<rparr>"
  have late: "unat late \<le> 2000000" using assms(5) by (simp add: word_le_nat_alt)
  have "case (ramped_fee spec st at, ramped_fee spec st later) of
      (Some fee, Some later_fee) \<Rightarrow>
        base \<le> fee \<and> fee \<le> max_fee_per_run spec \<and> fee \<le> balance st \<and> fee \<le> later_fee
    | _ \<Rightarrow> False" if "unat later = unat at + unat (1 :: u64)" for at later
  proof -
    have "at \<le> later" using that by (simp add: word_le_nat_alt)
    then obtain f g where "ramped_fee spec st at = Some f" "ramped_fee spec st later = Some g"
      "base \<le> f" "f \<le> g" "g \<le> balance st" "g \<le> max base (max_fee_per_run spec)"
      using ramped_fee_bounds [of spec st at later] assms
      by (auto simp: spec_def st_def in_i128_def)
    then show ?thesis using assms(3) by (simp add: spec_def)
  qed
  then show ?thesis
    unfolding ramped_fee_stays_within_bounds_def Let_def spec_def [symmetric] st_def [symmetric]
    by (intro sum_thenI) (use late in simp_all)
qed

lemma split_passes_iff:
  assumes "0 \<le> amount" and "in_i128 amount" and "bps \<le> 10000"
  shows "split_fee_conserves_amount amount bps \<longleftrightarrow> (amount div 10000 + 1) * uint bps < 2 ^ 127"
proof -
  define b where "b = uint bps"
  have b: "0 \<le> b" "b \<le> 10000" using assms(3) by (simp_all add: b_def word_le_def)
  define q where "q = amount div 10000"
  have q: "0 \<le> q" using assms(1) by (simp add: q_def pos_imp_zdiv_nonneg_iff)
  have "amount * b div 10000 \<le> amount * 10000 div 10000"
    using b assms(1) by (intro zdiv_mono1 mult_left_mono) auto
  then have le: "amount * b div 10000 \<le> amount" by simp
  have "amount * b \<le> (q * 10000 + 10000) * b"
    using b by (intro mult_right_mono) (auto simp: q_def)
  then have "amount * b div 10000 \<le> ((q * b + b) * 10000) div 10000"
    by (intro zdiv_mono1) (simp_all add: algebra_simps)
  then have share: "amount * b div 10000 \<le> q * b + b" by simp
  have "0 \<le> amount * b div 10000" using assms(1) b by (simp add: pos_imp_zdiv_nonneg_iff)
  moreover have "0 \<le> q * b" using q b by simp
  moreover have "in_i128 (q * b) \<and> in_i128 (q * b + b) \<longleftrightarrow> (q + 1) * b < 2 ^ 127"
    using \<open>0 \<le> q * b\<close> b by (auto simp: in_i128_def algebra_simps)
  ultimately show ?thesis
    using share le assms(1,2) split_fee_eq [OF assms]
    by (auto simp: split_fee_conserves_amount_def Let_def trunc_div_nonneg b_def [symmetric]
        q_def [symmetric])
qed

lemma together_passes:
  assumes "1 \<le> epoch" "epoch \<le> 1000000" "period \<le> 1000000" "start \<le> 1000000000"
  shows "unbonding_epochs_release_together epoch period start a b"
proof -
  have e: "0 < unat epoch" "unat epoch \<le> 1000000" "epoch \<noteq> 0"
    using assms(1,2) by (auto simp: word_le_nat_alt)
  define x where "x = unat start div unat epoch"
  have x: "x * unat epoch \<le> 1000000000"
    using assms(4) by (simp add: x_def word_le_nat_alt order_trans [OF div_times_less_eq_dividend])
  have at: "unat (start div epoch * epoch) = x * unat epoch"
  proof -
    have "unat (start div epoch) = x" by (simp only: unat_div x_def)
    then have "unat (start div epoch * epoch) = x * unat epoch mod 2 ^ 64"
      by (simp only: unat_word_ariths) simp
    also have "\<dots> = x * unat epoch" by (rule mod_less) (use x in simp)
    finally show ?thesis .
  qed
  have small: "unat (y mod epoch) < unat epoch" for y using e(1) by (simp add: unat_mod)
  have fits: "unat (start div epoch * epoch) + unat (y mod epoch) < 2 ^ 64" for y
    using at x small [of y] e(2) by simp
  show ?thesis
    unfolding unbonding_epochs_release_together_def Let_def
  proof (intro sum_thenI)
    fix t1 t2 :: u64
    assume t: "unat t1 = unat (start div epoch * epoch) + unat (a mod epoch)"
      "unat t2 = unat (start div epoch * epoch) + unat (b mod epoch)"
    have "unat t1 div unat epoch = unat t2 div unat epoch"
      unfolding t at using small [of a] small [of b] by (simp add: div_plus_div_distrib_dvd_left)
    note same = unbonding_release_epoch [OF e(3) this, of period]
    have "sum_then t1 period (\<lambda>least. least \<le> unbonding_release t1 period epoch)"
    proof (rule sum_thenI)
      show small: "unat t1 + unat period < 2 ^ 64"
        using t(1) at x small [of a] e(2) assms(3) by (simp add: word_le_nat_alt)
      show "least \<le> unbonding_release t1 period epoch" if "unat least = unat t1 + unat period" for least
      proof -
        have "min (2 ^ 64 - 1) (unat t1 + unat period) = unat least" using that small by simp
        then show ?thesis using same [THEN conjunct2] by (simp only: word_le_nat_alt)
      qed
    qed
    with same show "unbonding_release t1 period epoch = unbonding_release t2 period epoch
      \<and> sum_then t1 period (\<lambda>least. least \<le> unbonding_release t1 period epoch)" by blast
  qed (simp_all only: fits)
qed

text \<open>
  C28. The property tests of the arithmetic pass, but for overflow: of the inputs the strategies
  draw, each test passes on exactly those where nothing overflows. The code overflows on one
  (\<open>next_run_after\<close> of 0, 1 and the last second), the test of the fee split in its own bound, for
  amounts next to the largest and high rates; all other tests pass on everything drawn.
\<close>

theorem tests_fail_only_on_overflow:
  assumes "generated c"
  shows "passes c \<longleftrightarrow> \<not> overflows c"
  using assms
proof (cases c)
  case (AlwaysAdvances first period skip)
  then have "period \<noteq> 0" using assms by (auto simp: word_le_nat_alt)
  then show ?thesis using AlwaysAdvances by (simp add: always_advances_iff)
next
  case (ZeroInterval scheduled at)
  then show ?thesis by (simp add: zero_interval_never_goes_backwards_def next_run_after_def)
next
  case (ReleasedTogether epoch period start a b)
  then show ?thesis using assms by (simp add: together_passes)
qed (auto simp: never_regresses_iff ceiling_passes gates_pass can_pay_passes due_boundary_passes
    expiry_boundary_passes next_match_passes no_drift_passes ramp_passes split_passes_iff)

theorem tests_fail_only_on_overflow_witness:
  "passes (NoDrift (Some 0) 9 30 1000000 5000) \<and> \<not> passes (NeverRegresses 0 1 (- 1))
   \<and> \<not> passes (SplitConserves (2 ^ 127 - 1) 10000)"
  using tests_fail_only_on_overflow [of "NoDrift (Some 0) 9 30 1000000 5000"]
    tests_fail_only_on_overflow [of "NeverRegresses 0 1 (- 1)"]
    tests_fail_only_on_overflow [of "SplitConserves (2 ^ 127 - 1) 10000"]
  by (simp add: calendar_fields_def in_i128_def)

end
