(* ===== verification/Testkit.thy ===== *)
theory Testkit
  imports Dca
begin

text \<open>
  \<open>contracts/testkit\<close>: the contracts with which the integration tests stand in for real ones. The router
  stand-in is shown to keep the laws the trading contracts rely on, and a vault trading through it
  to get exactly its rate.
\<close>

section \<open>The probe\<close>

record probe_store =
  probe_hits :: "u32 option"

type_synonym ('w, 'a) probe = "((probe_store, 'w, unit, unit) ctx, unit, 'a) act"

definition hits :: "('w, u32) probe" where
  "hits = load (\<lambda>d. case probe_hits d of None \<Rightarrow> 0 | Some n \<Rightarrow> n)"

definition hit :: "('w, u32) probe" where
  "hit =
     bind hits (\<lambda>n.
     bind (unwrap (checked_add n 1)) (\<lambda>n.
     andthen (save (probe_hits_update (\<lambda>_. Some n)))
     (ok n)))"

section \<open>The re-entrant target\<close>

text \<open>A job target and resolver that makes one call of its own, meant for the registry that called it.\<close>

record reentrant_store =
  armed_call :: "(address \<times> symbol \<times> val list) option"

type_synonym ('w, 'a) reentrant = "((reentrant_store, 'w, unit, unit) ctx, unit, 'a) act"

definition arm :: "address \<Rightarrow> symbol \<Rightarrow> val list \<Rightarrow> ('w, unit) reentrant" where
  "arm registry f xs = save (armed_call_update (\<lambda>_. Some (registry, f, xs)))"

definition call_back :: "'w host \<Rightarrow> env \<Rightarrow> ('w, unit) reentrant" where
  "call_back h e =
     bind (stored armed_call) (\<lambda>(registry, f, xs).
     bind (invoke h (me e) registry f xs) (\<lambda>_. ok ()))"

definition reentrant_run :: "'w host \<Rightarrow> env \<Rightarrow> ('w, unit) reentrant" where
  "reentrant_run h e = call_back h e"

definition reentrant_should_run :: "'w host \<Rightarrow> env \<Rightarrow> u64 \<Rightarrow> ('w, bool) reentrant" where
  "reentrant_should_run h e jid = andthen (call_back h e) (ok True)"

text \<open>Where the host refuses the call, the target fails and its resolver never says yes.\<close>

lemma refused_re_entry:
  assumes "armed_call (storage s) = Some (registry, f, xs)"
    and "\<And>v w. call_contract h (me e) registry f xs (world s) \<noteq> Some (Returned v, w)"
  shows "fst (reentrant_run h e s) = Trap" and "fst (reentrant_should_run h e jid s) = Trap"
proof -
  have refused: "wp (call_back h e) (\<lambda>_ _. False) (\<lambda>_ _. False) True s"
    using assms(2) by (auto simp: call_back_def wps assms(1) split: option.split call_result.split)
  then show "fst (reentrant_run h e s) = Trap"
    by (auto simp: reentrant_run_def wp_def split: prod.splits outcome.splits)
  from refused show "fst (reentrant_should_run h e jid s) = Trap"
    by (auto simp: reentrant_should_run_def andthen_def bind_def wp_def split: prod.splits outcome.splits)
qed

section \<open>The router\<close>

definition ROUTER_SCALE :: int where "ROUTER_SCALE = 10000000"

record router_store =
  router_rate :: "int option"

type_synonym ('w, 'a) router = "((router_store, 'w, unit, unit) ctx, unit, 'a) act"

definition set_rate :: "int \<Rightarrow> ('w, unit) router" where
  "set_rate rate = save (router_rate_update (\<lambda>_. Some rate))"

definition router_pair_for :: "env \<Rightarrow> address \<Rightarrow> address \<Rightarrow> ('w, address) router" where
  "router_pair_for e token_a token_b = ok (me e)"

definition router_get_amounts_out :: "int \<Rightarrow> address list \<Rightarrow> ('w, int list) router" where
  "router_get_amounts_out amount_in path =
     bind (load (\<lambda>d. case router_rate d of None \<Rightarrow> ROUTER_SCALE | Some r \<Rightarrow> r)) (\<lambda>rate.
     bind (i128 (amount_in * rate)) (\<lambda>scaled.
     bind (i128 (trunc_div scaled ROUTER_SCALE)) (\<lambda>out.
     ok [amount_in, out])))"

definition nth_opt :: "'a list \<Rightarrow> nat \<Rightarrow> 'a option" where
  "nth_opt xs i = (if i < length xs then Some (xs ! i) else None)"

definition swap_exact_tokens_for_tokens ::
  "'w host \<Rightarrow> env \<Rightarrow> int \<Rightarrow> int \<Rightarrow> address list \<Rightarrow> address \<Rightarrow> u64 \<Rightarrow> ('w, int list) router" where
  "swap_exact_tokens_for_tokens h e amount_in amount_out_min path receiver deadline =
     andthen (require_auth e receiver)
     (andthen (require (\<not> deadline < now e))
     (bind (router_get_amounts_out amount_in path) (\<lambda>amounts.
     bind (unwrap (nth_opt amounts 1)) (\<lambda>out.
     andthen (require (\<not> out < amount_out_min))
     (bind (unwrap (nth_opt path 0)) (\<lambda>sell.
     andthen (transfer h sell receiver (me e) amount_in)
     (bind (unwrap (nth_opt path (length path - 1))) (\<lambda>buy.
     andthen (transfer h buy (me e) receiver out)
     (ok [amount_in, out])))))))))"

section \<open>The host around it\<close>

text \<open>
  Under a grant the router moves the caller's tokens only as granted; its own it moves freely.
  A caller's own signature covers the call itself.
\<close>

definition limited :: "grant list \<Rightarrow> address \<Rightarrow> 'w host \<Rightarrow> 'w host" where
  "limited gs own h =
     h\<lparr>token_transfer := (\<lambda>u a b n w.
        if a = own \<or> gs = [\<lparr>grant_contract = u, grant_function = ''transfer'',
            grant_args = [ValAddress a, ValAddress b, ValI128 n]\<rparr>]
        then token_transfer h u a b n w else None)\<rparr>"

definition as_addresses :: "val \<Rightarrow> address list option" where
  "as_addresses v = (case v of ValVec vs \<Rightarrow> those (map as_address vs) | _ \<Rightarrow> None)"

definition swap_args :: "val list \<Rightarrow> (int \<times> int \<times> address list \<times> address \<times> u64) option" where
  "swap_args xs = (case xs of
     [a, b, c, d, t] \<Rightarrow>
       (case (as_i128 a, as_i128 b, as_addresses c, as_address d, as_u64 t) of
          (Some n, Some least, Some path, Some receiver, Some deadline) \<Rightarrow> Some (n, least, path, receiver, deadline)
        | _ \<Rightarrow> None)
   | _ \<Rightarrow> None)"

text \<open>A failing call is rolled back and fails its caller, who does not catch it; nobody calls itself.\<close>

definition mock_call ::
  "'w host \<Rightarrow> address \<Rightarrow> router_store \<Rightarrow> u64 \<Rightarrow> grant list \<Rightarrow> address \<Rightarrow> address \<Rightarrow> symbol \<Rightarrow> val list \<Rightarrow>
   'w \<Rightarrow> (call_result \<times> 'w) option" where
  "mock_call h router d at gs caller callee f xs w =
     (case swap_args xs of
        Some (n, least, path, receiver, deadline) \<Rightarrow>
          if callee = router \<and> caller \<noteq> router \<and> f = ''swap_exact_tokens_for_tokens'' then
            (case swap_exact_tokens_for_tokens (limited gs router h)
                \<lparr>now = at, ledger = 0, me = router, authorized = (\<lambda>a. a = caller)\<rparr>
                n least path receiver deadline
                \<lparr>storage = d, world = w, published = [], extensions = []\<rparr> of
              (Ok amounts, t) \<Rightarrow> Some (Returned (ValVec (map ValI128 amounts)), world t)
            | _ \<Rightarrow> None)
          else None
      | None \<Rightarrow> None)"

definition mock_exchange :: "'w host \<Rightarrow> address \<Rightarrow> router_store \<Rightarrow> u64 \<Rightarrow> 'w authority" where
  "mock_exchange h router d at = \<lparr>granted_call = mock_call h router d at\<rparr>"

definition rate_of :: "router_store \<Rightarrow> int" where
  "rate_of d = (case router_rate d of None \<Rightarrow> ROUTER_SCALE | Some r \<Rightarrow> r)"

section \<open>It keeps the router's laws\<close>

lemma limited_sel [simp]: "token_balance (limited gs own h) = token_balance h"
  by (simp add: limited_def)

lemma those_as_amounts [simp]: "those (map as_i128 (map ValI128 ns)) = Some ns"
  by (induction ns) (simp_all add: as_i128_def)

lemma wp_mock_swap:
  "wp (swap_exact_tokens_for_tokens h e n least path receiver deadline) (\<lambda>amounts t.
      let out = trunc_div (n * rate_of (storage s)) ROUTER_SCALE
      in amounts = [n, out] \<and> least \<le> out \<and> authorized e receiver \<and> path \<noteq> []
         \<and> (\<exists>w. token_transfer h (hd path) receiver (me e) n (world s) = Some w
              \<and> token_transfer h (last path) (me e) receiver out w = Some (world t)))
    (\<lambda>_ _. True) True s"
  by (auto simp: swap_exact_tokens_for_tokens_def router_get_amounts_out_def wps nth_opt_def rate_of_def
      Let_def hd_conv_nth last_conv_nth split: option.split)

lemma mock_call_moves:
  assumes "mock_call h router d at gs caller callee f xs w = Some (r, w')"
  obtains n least path receiver deadline out v where
    "swap_args xs = Some (n, least, path, receiver, deadline)" "caller \<noteq> router" "receiver = caller"
    "gs = [\<lparr>grant_contract = hd path, grant_function = ''transfer'',
        grant_args = [ValAddress caller, ValAddress router, ValI128 n]\<rparr>]"
    "out = trunc_div (n * rate_of d) ROUTER_SCALE" "least \<le> out"
    "token_transfer h (hd path) caller router n w = Some v"
    "token_transfer h (last path) router caller out v = Some w'"
    "r = Returned (ValVec [ValI128 n, ValI128 out])"
proof -
  let ?e = "\<lparr>now = at, ledger = 0, me = router, authorized = (\<lambda>a. a = caller)\<rparr>"
  let ?s = "\<lparr>storage = d, world = w, published = [], extensions = []\<rparr>"
  obtain n least path receiver deadline amounts t where
    xs: "swap_args xs = Some (n, least, path, receiver, deadline)" "caller \<noteq> router"
    and run: "swap_exact_tokens_for_tokens (limited gs router h) ?e n least path receiver deadline ?s
      = (Ok amounts, t)"
    and r: "r = Returned (ValVec (map ValI128 amounts))" "w' = world t"
    using assms
    by (auto simp: mock_call_def split: option.splits prod.splits outcome.splits if_splits)
  let ?out = "trunc_div (n * rate_of d) ROUTER_SCALE"
  from wp_OkD [OF wp_mock_swap run] obtain v where
    amounts: "amounts = [n, ?out]" "least \<le> ?out" "receiver = caller"
    and moves: "token_transfer (limited gs router h) (hd path) receiver router n w = Some v"
      "token_transfer (limited gs router h) (last path) router receiver ?out v = Some (world t)"
    by (auto simp: Let_def)
  show thesis
    by (rule that [OF xs amounts(3)])
      (use moves amounts r xs in \<open>auto simp: limited_def split: if_splits\<close>)
qed

lemma mock_grants_bound:
  assumes "token_laws h"
  shows "grants_bound h (mock_exchange h router d at)"
  unfolding grants_bound_def
proof (intro allI impI)
  fix gs caller callee f xs w r w' u
  assume "granted_call (mock_exchange h router d at) gs caller callee f xs w = Some (r, w')"
  then have "mock_call h router d at gs caller callee f xs w = Some (r, w')"
    by (simp add: mock_exchange_def)
  then show "token_balance h w u caller - (\<Sum>x\<leftarrow>gs. granted_transfer u caller x) \<le> token_balance h w' u caller"
  proof (rule mock_call_moves)
    fix n least path receiver deadline out v
    assume gs: "gs = [\<lparr>grant_contract = hd path, grant_function = ''transfer'',
        grant_args = [ValAddress caller, ValAddress router, ValI128 n]\<rparr>]" and "caller \<noteq> router"
      and t1: "token_transfer h (hd path) caller router n w = Some v"
      and t2: "token_transfer h (last path) router caller out v = Some w'"
    then show ?thesis
      using transfer_balance [OF assms t1, of u caller] transfer_balance [OF assms t2, of u caller]
        transfer_nonneg [OF assms t2]
      by (auto simp: gs granted_transfer_def)
  qed
qed

lemma swap_args_Some:
  "swap_args xs = Some (n, least, path, receiver, deadline) \<longleftrightarrow>
     (\<exists>vs. xs = [ValI128 n, ValI128 least, ValVec vs, ValAddress receiver, ValU64 deadline]
        \<and> those (map as_address vs) = Some path)"
  by (auto simp: swap_args_def as_addresses_def as_address_def as_i128_def as_u64_def
      split: list.splits val.splits option.splits)

lemma mock_router_laws: "router_laws (mock_exchange h router d at) router"
  unfolding router_laws_def
proof (intro allI impI)
  fix gs caller n least p a t w v w' outs
  assume "granted_call (mock_exchange h router d at) gs caller router ''swap_exact_tokens_for_tokens''
      [ValI128 n, ValI128 least, p, a, t] w = Some (Returned v, w')" and outs: "as_amounts v = Some outs"
  then have "mock_call h router d at gs caller router ''swap_exact_tokens_for_tokens''
      [ValI128 n, ValI128 least, p, a, t] w = Some (Returned v, w')"
    by (simp add: mock_exchange_def)
  then show "outs \<noteq> [] \<and> least \<le> last outs"
    by (rule mock_call_moves) (use outs in \<open>auto simp: as_amounts_def as_i128_def swap_args_Some\<close>)
qed

interpretation mock: router_venue "ledger_host answers" "mock_exchange (ledger_host answers) router d at" router
  for answers router d at
  by (rule router_venue.intro [OF mock_grants_bound [OF ledger_token_laws] mock_router_laws])

section \<open>A vault on it\<close>

lemma wp_mock_swap_for:
  "wp (swap_for (mock_exchange h router d at) e router pair sell buy n least) (\<lambda>amounts t.
      let out = trunc_div (n * rate_of d) ROUTER_SCALE
      in amounts = [n, out] \<and> least \<le> out \<and> me e \<noteq> router
         \<and> (\<exists>v. token_transfer h sell (me e) router n (world s) = Some v
              \<and> token_transfer h buy router (me e) out v = Some (world t))) E True s"
proof -
  let ?gs = "[\<lparr>grant_contract = sell, grant_function = ''transfer'',
    grant_args = [ValAddress (me e), ValAddress pair, ValI128 n]\<rparr>]"
  let ?xs = "[ValI128 n, ValI128 least, ValVec [ValAddress sell, ValAddress buy], ValAddress (me e), ValU64 (now e)]"
  let ?out = "trunc_div (n * rate_of d) ROUTER_SCALE"
  have "r = Returned (ValVec [ValI128 n, ValI128 ?out]) \<and> least \<le> ?out \<and> me e \<noteq> router
      \<and> (\<exists>v. token_transfer h sell (me e) router n (world s) = Some v
           \<and> token_transfer h buy router (me e) ?out v = Some w)"
    if "mock_call h router d at ?gs (me e) router ''swap_exact_tokens_for_tokens'' ?xs (world s) = Some (r, w)"
    for r w
    using that
    by (rule mock_call_moves)
      (auto simp: swap_args_Some as_address_def, metis last_ConsL last_ConsR list.distinct(1))
  then show ?thesis
    unfolding swap_for_def wp_invoke_with
    by (fastforce simp: mock_exchange_def Let_def as_amounts_def as_i128_def split: option.split call_result.split)
qed

definition paid_over :: "'w host \<Rightarrow> dca_plan \<Rightarrow> address \<Rightarrow> int \<Rightarrow> 'w \<Rightarrow> 'w \<Rightarrow> bool" where
  "paid_over h p vault n w w' \<longleftrightarrow>
     token_balance h w' (dca_sell p) vault = token_balance h w (dca_sell p) vault - amount_per_swap p
     \<and> token_balance h w' (dca_buy p) vault = token_balance h w (dca_buy p) vault
     \<and> token_balance h w' (dca_buy p) (dca_owner p) = token_balance h w (dca_buy p) (dca_owner p) + n
     \<and> token_balance h w' (dca_buy p) (dca_router p) = token_balance h w (dca_buy p) (dca_router p) - n"

lemma three_transfers:
  assumes "token_laws h" and "dca_sell p \<noteq> dca_buy p"
    and "distinct [vault, dca_owner p, dca_router p]"
    and "token_transfer h (dca_sell p) vault (dca_router p) (amount_per_swap p) w = Some w1"
    and "token_transfer h (dca_buy p) (dca_router p) vault n w1 = Some w2"
    and "token_transfer h (dca_buy p) vault (dca_owner p) n w2 = Some w3"
  shows "paid_over h p vault n w w3"
  using assms(2,3)
  by (auto simp: paid_over_def transfer_balance [OF assms(1,6)] transfer_balance [OF assms(1,5)]
      transfer_balance [OF assms(1,4)])

lemma wp_swap_on_mock:
  fixes h :: "'w host"
  assumes "token_laws h" and "\<And>a. calls_ignore_funds h a" and "dca_plan_entry (storage s) = Some p"
    and "dca_sell p \<noteq> dca_buy p" and "distinct [me e, dca_owner p, dca_router p]"
  shows "wp (swap_tranche h (mock_exchange h (dca_router p) d (now e)) e) (\<lambda>n t.
      n = trunc_div (amount_per_swap p * rate_of d) ROUTER_SCALE
      \<and> trunc_div (amount_per_swap p * min_price p) PRICE_SCALE \<le> n
      \<and> paid_over h p (me e) n (world s) (world t)) (\<lambda>_ _. True) True s"
proof (cases "spend_tranche e p")
  case None
  then show ?thesis using assms(3) by (auto simp: swap_tranche_def wps split: sum.split)
next
  case (Some q)
  let ?n = "amount_per_swap p" and ?r = "dca_router p" and ?g = "mock_exchange h (dca_router p) d (now e)"
  let ?out = "trunc_div (?n * rate_of d) ROUTER_SCALE" and ?least = "trunc_div (?n * min_price p) PRICE_SCALE"
  have same: "dca_sell q = dca_sell p" "dca_buy q = dca_buy p" "dca_router q = dca_router p"
    "amount_per_swap q = amount_per_swap p" "min_price q = min_price p" "dca_owner q = dca_owner p"
    using Some by (auto simp: spend_tranche_def split: option.splits)
  let ?Q = "\<lambda>n t. n = ?out \<and> ?least \<le> n \<and> paid_over h p (me e) n (world s) (world t)"
  have over: "paid_over h p (me e) ?out (world s) w"
    if "\<forall>u a. token_balance h (world v) u a = token_balance h (world s) u a"
      "paid_over h p (me e) ?out (world v) w" for v :: "(dca_store, 'w, unit, unit) ctx" and w
    using that by (simp add: paid_over_def)
  have swap: "wp (swap_for ?g e ?r pair (dca_sell p) (dca_buy p) ?n ?least)
      (\<lambda>amounts. wp (transfer h (dca_buy p) (me e) (dca_owner p) (last_amount amounts))
         (\<lambda>_. ?Q (last_amount amounts)) (\<lambda>_ _. True) True) (\<lambda>_ _. True) True u"
    if "\<forall>x a. token_balance h (world u) x a = token_balance h (world s) x a"
    for pair and u :: "(dca_store, 'w, unit, unit) ctx"
    by (rule wp_mono [OF wp_mock_swap_for])
      (auto simp: Let_def wps last_amount_def split: option.split
        intro!: over [OF that] three_transfers [OF assms(1,4,5)])
  have ignored: "token_balance h w' x a = token_balance h w x a"
    if "call_contract h b c f xs w = Some (r, w')" for b c f xs w r w' x a
    using assms(2) [of a] that unfolding calls_ignore_funds_def by blast
  have "wp (pair_for h e ?r (dca_sell p) (dca_buy p)) (\<lambda>pair.
      wp (i128 (?n * min_price p)) (\<lambda>scaled.
      wp (swap_for ?g e ?r pair (dca_sell p) (dca_buy p) ?n (trunc_div scaled PRICE_SCALE))
      (\<lambda>amounts. wp (transfer h (dca_buy p) (me e) (dca_owner p) (last_amount amounts))
         (\<lambda>_. ?Q (last_amount amounts)) (\<lambda>_ _. True) True) (\<lambda>_ _. True) True)
      (\<lambda>_ _. True) True) (\<lambda>_ _. True) True v" if "world v = world s"
    for v :: "(dca_store, 'w, unit, unit) ctx"
    using that
    by (auto simp: pair_for_def wps ignored split: option.split call_result.split intro!: swap)
  note trade = this
  show ?thesis
    using Some assms(3) by (auto simp: swap_tranche_def wps wp_funs same split: sum.split intro!: trade)
qed

text \<open>
  C30. On the stand-in router a vault gets exactly the rate: when called contracts move nobody's
  tokens, a successful \<open>swap_tranche\<close> sells exactly the tranche, pays the owner exactly the tranche
  at the router's rate, rounded towards zero and at least the minimum price, out of the router's own
  liquidity, and leaves nothing bought in the vault.
\<close>

theorem vault_trades_at_the_router_rate:
  assumes "token_laws h" and "\<And>a. calls_ignore_funds h a" and "dca_plan_entry (storage s) = Some p"
    and "dca_sell p \<noteq> dca_buy p" and "distinct [me e, dca_owner p, dca_router p]"
    and "swap_tranche h (mock_exchange h (dca_router p) d (now e)) e s = (Ok n, t)"
  shows "n = trunc_div (amount_per_swap p * rate_of d) ROUTER_SCALE
    \<and> trunc_div (amount_per_swap p * min_price p) PRICE_SCALE \<le> n
    \<and> paid_over h p (me e) n (world s) (world t)"
  using wp_OkD [OF wp_swap_on_mock [OF assms(1-5)] assms(6)] .

definition funded_plan :: dca_plan where
  "funded_plan = \<lparr>dca_owner = Address 1, dca_router = Address 9, dca_sell = Address 4, dca_buy = Address 5,
     amount_per_swap = 100, dca_interval = 100, max_swaps = 3, min_price = 5000000,
     executed_swaps = 0, next_swap_at = 10, dca_active = True\<rparr>"

definition funded_vault :: "(dca_store, ledger, unit, unit) ctx" where
  "funded_vault = \<lparr>storage = \<lparr>dca_plan_entry = Some funded_plan\<rparr>,
     world = (\<lambda>token a. if token = Address 4 \<and> a = Address 2 then 1000
       else if token = Address 5 \<and> a = Address 9 then 1000 else 0, []),
     published = [], extensions = []\<rparr>"

lemma funded_trade:
  "\<exists>w. mock_call (ledger_host answers) (Address 9) \<lparr>router_rate = Some 7500000\<rparr> 60
     [\<lparr>grant_contract = Address 4, grant_function = ''transfer'',
       grant_args = [ValAddress (Address 2), ValAddress (Address 9), ValI128 100]\<rparr>]
     (Address 2) (Address 9) ''swap_exact_tokens_for_tokens''
     [ValI128 100, ValI128 50, ValVec [ValAddress (Address 4), ValAddress (Address 5)],
      ValAddress (Address 2), ValU64 60] (world funded_vault) = Some (Returned (ValVec [ValI128 100, ValI128 75]), w)
   \<and> ledger_transfer (Address 5) (Address 2) (Address 1) 75 w \<noteq> None"
  by (simp add: mock_call_def swap_args_def as_addresses_def as_address_def as_i128_def as_u64_def
      swap_exact_tokens_for_tokens_def router_get_amounts_out_def andthen_def bind_def ok_def
      require_def require_auth_def load_def gets_def i128_def in_i128_def unwrap_def nth_opt_def
      trunc_div_def ROUTER_SCALE_def transfer_def limited_def funded_vault_def ledger_transfer_def
      ledger_balance_def ledger_set_def)

theorem vault_trades_at_the_router_rate_witness:
  "\<exists>t. swap_tranche (ledger_host (\<lambda>_ _ _. Some (Returned (ValAddress (Address 9)))))
       (mock_exchange (ledger_host (\<lambda>_ _ _. Some (Returned (ValAddress (Address 9))))) (Address 9)
         \<lparr>router_rate = Some 7500000\<rparr> 60)
       \<lparr>now = 60, ledger = 0, me = Address 2, authorized = (\<lambda>_. False)\<rparr> funded_vault = (Ok 75, t)
     \<and> paid_over (ledger_host (\<lambda>_ _ _. Some (Returned (ValAddress (Address 9))))) funded_plan (Address 2) 75
         (world funded_vault) (world t)"
proof -
  let ?h = "ledger_host (\<lambda>_ _ _. Some (Returned (ValAddress (Address 9))))"
  let ?d = "\<lparr>router_rate = Some 7500000\<rparr>"
  let ?e = "\<lparr>now = 60, ledger = 0, me = Address 2, authorized = (\<lambda>_. False)\<rparr>"
  have held: "ledger_balance (world funded_vault) (Address 4) (Address 2) = 1000"
    by (simp add: funded_vault_def ledger_balance_def)
  have pair: "call_contract ?h a c f xs w = Some (Returned (ValAddress (Address 9)), w)" for a c f xs w
    by (simp add: ledger_host_def)
  have plan: "dca_plan_entry (storage funded_vault) = Some funded_plan" by (simp add: funded_vault_def)
  have "wp (swap_tranche ?h (mock_exchange ?h (Address 9) ?d 60) ?e) (\<lambda>_ _. True) (\<lambda>_ _. False) False funded_vault"
    using funded_trade [of "\<lambda>_ _ _. Some (Returned (ValAddress (Address 9)))"]
    by (auto simp: swap_tranche_def plan held pair funded_plan_def dca_ensure_due_def spend_tranche_def
        checked_add_def wps pair_for_def swap_for_def mock_exchange_def as_address_def in_i128_def
        trunc_div_def PRICE_SCALE_def as_amounts_def as_i128_def last_amount_def)
  from wp_returns [OF this] obtain n t where
    t: "swap_tranche ?h (mock_exchange ?h (dca_router funded_plan) ?d (now ?e)) ?e funded_vault = (Ok n, t)"
    by (auto simp: funded_plan_def)
  have law: "n = trunc_div (amount_per_swap funded_plan * rate_of ?d) ROUTER_SCALE
      \<and> trunc_div (amount_per_swap funded_plan * min_price funded_plan) PRICE_SCALE \<le> n
      \<and> paid_over ?h funded_plan (me ?e) n (world funded_vault) (world t)"
    by (rule vault_trades_at_the_router_rate [OF ledger_token_laws ledger_calls_ignore_funds plan _ _ t])
      (simp_all add: funded_plan_def)
  moreover have "n = 75"
    using law [THEN conjunct1] by (simp add: funded_plan_def rate_of_def ROUTER_SCALE_def trunc_div_def)
  ultimately have "paid_over ?h funded_plan (Address 2) 75 (world funded_vault) (world t)" by simp
  then show ?thesis using t \<open>n = 75\<close> by (auto simp: funded_plan_def)
qed

end
