(* ===== verification/Harness.thy ===== *)
theory Harness
  imports Batches
begin

text \<open>
  The harness of \<open>contracts/testkit\<close>, with which the tests of the example contracts deploy and
  drive a registry. It makes a whole story of the contract: deployment, staking, a job for a
  hundred runs, and the hundred runs. Generated addresses, and minting by the asset contract of
  the test environment, are parameters; contract names given as text are symbols already.
\<close>

section \<open>The harness\<close>

definition HARNESS_START :: u64 where "HARNESS_START = 1700000000"
definition HARNESS_FEE :: int where "HARNESS_FEE = 1000"
definition HARNESS_MIN_STAKE :: int where "HARNESS_MIN_STAKE = 100000"
definition HARNESS_FUNDS :: int where "HARNESS_FUNDS = 1000000000"

text \<open>What \<open>new\<close> registers and generates, and what changes while a test runs.\<close>

record cast =
  hn_cron :: address
  hn_executor :: address
  hn_token :: address
  hn_admin :: address
  hn_owner :: address
  hn_keeper :: address
  hn_sequence :: u32

record 'w harness =
  hn_now :: u64
  hn_registry :: "'w registry"

type_synonym ('w, 'a) testing = "('w harness, unit, 'a) act"

type_synonym 'w minting = "address \<Rightarrow> address \<Rightarrow> int \<Rightarrow> 'w \<Rightarrow> 'w"

text \<open>A client's method: the transaction is rolled back, and the test panics, if it fails.\<close>

definition harness_env :: "cast \<Rightarrow> (address \<Rightarrow> bool) \<Rightarrow> u64 \<Rightarrow> env" where
  "harness_env c signs t = \<lparr>now = t, ledger = hn_sequence c, me = hn_cron c, authorized = signs\<rparr>"

definition on_cron :: "cast \<Rightarrow> (address \<Rightarrow> bool) \<Rightarrow> (env \<Rightarrow> ('w, 'a) reg) \<Rightarrow> ('w, 'a) testing" where
  "on_cron c signs m s =
     (case transact (m (harness_env c signs (hn_now s))) (hn_registry s) of
        (Ok x, t) \<Rightarrow> (Ok x, s\<lparr>hn_registry := t\<rparr>)
      | (_, t) \<Rightarrow> (Trap, s\<lparr>hn_registry := t\<rparr>))"

definition mocked :: "cast \<Rightarrow> address \<Rightarrow> bool" where
  "mocked c a \<longleftrightarrow> a \<noteq> hn_cron c"

definition harness_mint :: "'w minting \<Rightarrow> cast \<Rightarrow> address \<Rightarrow> ('w, unit) testing" where
  "harness_mint mint c a =
     modify (\<lambda>s. s\<lparr>hn_registry := (hn_registry s)
       \<lparr>world := mint (hn_token c) a HARNESS_FUNDS (world (hn_registry s))\<rparr>\<rparr>)"

definition harness_new :: "'w host \<Rightarrow> 'w minting \<Rightarrow> cast \<Rightarrow> ('w, unit) testing" where
  "harness_new h mint c =
     andthen (modify (hn_now_update (\<lambda>_. HARNESS_START)))
     (andthen (on_cron c (mocked c)
       (\<lambda>e. constructor (hn_admin c) (hn_token c) (hn_token c) HARNESS_MIN_STAKE 3600))
     (andthen (on_cron c (mocked c) (\<lambda>e. set_executor e (hn_executor c)))
     (andthen (harness_mint mint c (hn_owner c))
     (andthen (harness_mint mint c (hn_keeper c))
     (bind (on_cron c (mocked c) (\<lambda>e. stake_tokens h e (hn_keeper c) HARNESS_MIN_STAKE)) (\<lambda>_. ok ()))))))"

definition harness_params :: "address \<Rightarrow> symbol \<Rightarrow> val list \<Rightarrow> u64 \<Rightarrow> job_params" where
  "harness_params x f xs every =
     \<lparr>p_target = x, p_function = f, p_args = xs, p_interval = every, p_schedule = Interval,
      p_start_at = 0, p_fee_per_run = HARNESS_FEE, p_max_fee_per_run = 0, p_max_runs = 0, p_end_at = 0,
      p_resolver = None, p_keepers = None, p_after = None\<rparr>"

definition harness_create :: "'w host \<Rightarrow> cast \<Rightarrow> job_params \<Rightarrow> ('w, u64) testing" where
  "harness_create h c p =
     bind (i128 (p_fee_per_run p * 100)) (\<lambda>deposit.
     on_cron c (mocked c) (\<lambda>e. create_job h e (hn_owner c) p deposit))"

definition harness_schedule ::
  "'w host \<Rightarrow> cast \<Rightarrow> address \<Rightarrow> symbol \<Rightarrow> val list \<Rightarrow> u64 \<Rightarrow> ('w, u64) testing" where
  "harness_schedule h c x f xs every = harness_create h c (harness_params x f xs every)"

definition harness_run :: "'w host \<Rightarrow> cast \<Rightarrow> u64 \<Rightarrow> ('w, unit) testing" where
  "harness_run h c j = on_cron c (mocked c) (\<lambda>e. execute h e (hn_keeper c) j)"

text \<open>Only the keeper's own signature, on this one call.\<close>

definition harness_run_strict :: "'w host \<Rightarrow> cast \<Rightarrow> u64 \<Rightarrow> ('w, unit) testing" where
  "harness_run_strict h c j = on_cron c (\<lambda>a. a = hn_keeper c) (\<lambda>e. execute h e (hn_keeper c) j)"

definition harness_is_due :: "'w host \<Rightarrow> cast \<Rightarrow> u64 \<Rightarrow> ('w, bool) testing" where
  "harness_is_due h c j = on_cron c (mocked c) (\<lambda>e. is_due h e j)"

definition harness_job :: "cast \<Rightarrow> u64 \<Rightarrow> ('w, job) testing" where
  "harness_job c j = bind (on_cron c (mocked c) (\<lambda>_. get_job_view j)) unwrap"

definition harness_advance :: "u64 \<Rightarrow> ('w, unit) testing" where
  "harness_advance seconds =
     bind (gets hn_now) (\<lambda>t.
     bind (unwrap (checked_add t seconds)) (\<lambda>t.
     modify (hn_now_update (\<lambda>_. t))))"

definition harness_funded :: "'w minting \<Rightarrow> cast \<Rightarrow> address \<Rightarrow> ('w, address) testing" where
  "harness_funded mint c who = andthen (harness_mint mint c who) (ok who)"

section \<open>Its story\<close>

text \<open>The loop a test writes: run the job, and wait for the next time.\<close>

fun rounds :: "'w host \<Rightarrow> cast \<Rightarrow> u64 \<Rightarrow> u64 \<Rightarrow> nat \<Rightarrow> ('w, unit) testing" where
  "rounds h c j every 0 = ok ()"
| "rounds h c j every (Suc n) =
     andthen (harness_run h c j) (andthen (harness_advance every) (rounds h c j every n))"

lemma wp_on_cron [wps]:
  "wp (on_cron c g m) Q E T s =
     wp (transact (m (harness_env c g (hn_now s)))) (\<lambda>x t. Q x (s\<lparr>hn_registry := t\<rparr>)) (\<lambda>_ _. T) T (hn_registry s)"
  by (auto simp: wp_def on_cron_def split: prod.split outcome.split)

text \<open>A call that succeeds, and keeps the registry reachable.\<close>

lemma on_cron_reaches:
  assumes "reachable h (hn_cron c) (hn_registry s)" and "\<not> g (hn_cron c)" and "typed_op x"
    and "\<And>e. perform h e x = void (m e)"
    and "wp (m (harness_env c g (hn_now s))) Q (\<lambda>_ _. False) False (hn_registry s)"
  obtains y t where "on_cron c g m s = (Ok y, s\<lparr>hn_registry := t\<rparr>)" and "Q y t"
    and "reachable h (hn_cron c) t"
proof -
  let ?e = "harness_env c g (hn_now s)"
  obtain y t where y: "m ?e (hn_registry s) = (Ok y, t)" "Q y t"
    using assms(5) by (auto simp: wp_def split: prod.splits outcome.splits)
  have "step h (hn_cron c) (hn_registry s) t"
  proof (rule step.call [where e = ?e])
    show "transact (perform h ?e x) (hn_registry s) = (Ok (), t)"
      using y(1) by (simp add: assms(4) void_def bind_def ok_def)
  qed (use assms(2,3) in \<open>simp_all add: harness_env_def\<close>)
  then have "reachable h (hn_cron c) t" by (rule reachable.more [OF assms(1)])
  moreover have "on_cron c g m s = (Ok y, s\<lparr>hn_registry := t\<rparr>)"
    using y(1) by (simp add: on_cron_def transact_def)
  ultimately show ?thesis using that y(2) by blast
qed

text \<open>A ledger on which the asset contract mints.\<close>

definition ledger_mint :: "ledger minting" where
  "ledger_mint u a n w = ledger_set u a (ledger_balance w u a + n) w"

definition no_ledger :: ledger where
  "no_ledger = (\<lambda>_ _. 0, [])"

definition blank :: "ledger harness" where
  "blank = \<lparr>hn_now = 0, hn_registry = \<lparr>storage = empty_store, world = no_ledger, published = [], extensions = []\<rparr>\<rparr>"

abbreviation proper :: "cast \<Rightarrow> bool" where
  "proper c \<equiv> distinct [hn_cron c, hn_executor c, hn_token c, hn_admin c, hn_owner c, hn_keeper c]"

lemma proper_rev: "proper c \<Longrightarrow>
    distinct [hn_keeper c, hn_owner c, hn_admin c, hn_token c, hn_executor c, hn_cron c]"
  by auto

definition harness_config :: "cast \<Rightarrow> config" where
  "harness_config c =
     (initial_config (hn_admin c) (hn_token c) (hn_token c) HARNESS_MIN_STAKE 3600)
       \<lparr>executor := Some (hn_executor c)\<rparr>"

definition ready_store :: "cast \<Rightarrow> reg_store" where
  "ready_store c = empty_store\<lparr>s_config := Some (harness_config c),
     s_keepers := [hn_keeper c \<mapsto> fresh_keeper\<lparr>stake := HARNESS_MIN_STAKE\<rparr>],
     s_active_keepers := Some [hn_keeper c], s_windows_reset := Some HARNESS_START\<rparr>"

definition holds :: "cast \<Rightarrow> int \<Rightarrow> int \<Rightarrow> int \<Rightarrow> ledger \<Rightarrow> bool" where
  "holds c r o1 k w \<longleftrightarrow>
     ledger_balance w (hn_token c) (hn_cron c) = r \<and> ledger_balance w (hn_token c) (hn_owner c) = o1
     \<and> ledger_balance w (hn_token c) (hn_keeper c) = k"

definition ready :: "(address \<Rightarrow> symbol \<Rightarrow> val list \<Rightarrow> call_result option) \<Rightarrow> cast \<Rightarrow> ledger harness \<Rightarrow> bool" where
  "ready table c s \<longleftrightarrow>
     hn_now s = HARNESS_START \<and> reachable (ledger_host table) (hn_cron c) (hn_registry s)
     \<and> storage (hn_registry s) = ready_store c
     \<and> holds c HARNESS_MIN_STAKE HARNESS_FUNDS (HARNESS_FUNDS - HARNESS_MIN_STAKE) (world (hn_registry s))"

lemma harness_env_simps [simp]:
  "now (harness_env c g t) = t" "ledger (harness_env c g t) = hn_sequence c"
  "me (harness_env c g t) = hn_cron c" "authorized (harness_env c g t) = g"
  by (simp_all add: harness_env_def)

lemmas harness_numbers = HARNESS_START_def HARNESS_FEE_def HARNESS_MIN_STAKE_def HARNESS_FUNDS_def

lemma mocked_simps [simp]:
  "\<not> mocked c (hn_cron c)" "proper c \<Longrightarrow> mocked c (hn_admin c)" "proper c \<Longrightarrow> mocked c (hn_owner c)"
  "proper c \<Longrightarrow> mocked c (hn_keeper c)"
  by (auto simp: mocked_def)

text \<open>The calls of \<open>new\<close>, one by one.\<close>

abbreviation connected :: "cast \<Rightarrow> ledger harness \<Rightarrow> bool" where
  "connected c s \<equiv> hn_now s = HARNESS_START
     \<and> stage (empty_store\<lparr>s_config := Some (harness_config c)\<rparr>) no_ledger (hn_registry s)"

lemma harness_connects:
  assumes "proper c"
  obtains s where "andthen (modify (hn_now_update (\<lambda>_. HARNESS_START)))
      (andthen (on_cron c (mocked c) (\<lambda>e. constructor (hn_admin c) (hn_token c) (hn_token c) HARNESS_MIN_STAKE 3600))
      (on_cron c (mocked c) (\<lambda>e. set_executor e (hn_executor c)))) blank = (Ok (), s)"
    and "connected c s" and "reachable (ledger_host table) (hn_cron c) (hn_registry s)"
proof -
  let ?i = "initial_config (hn_admin c) (hn_token c) (hn_token c) HARNESS_MIN_STAKE 3600"
  let ?Q = "\<lambda>_. stage (empty_store\<lparr>s_config := Some (harness_config c)\<rparr>) no_ledger"
  let ?s = "\<lparr>storage = empty_store, world = no_ledger, published = [], extensions = []\<rparr>"
  have "wp (constructor (hn_admin c) (hn_token c) (hn_token c) HARNESS_MIN_STAKE 3600)
      (\<lambda>_ t. stage (empty_store\<lparr>s_config := Some ?i\<rparr>) no_ledger t) (\<lambda>_ _. False) False ?s"
    by (simp add: constructor_def wps stage_def harness_numbers)
  then obtain t where t: "constructor (hn_admin c) (hn_token c) (hn_token c) HARNESS_MIN_STAKE 3600 ?s = (Ok (), t)"
    "stage (empty_store\<lparr>s_config := Some ?i\<rparr>) no_ledger t"
    by (auto simp: wp_def split: prod.splits outcome.splits)
  let ?b = "\<lparr>hn_now = HARNESS_START, hn_registry = t\<rparr>"
  have "reachable (ledger_host table) (hn_cron c) t"
    by (rule reachable.start) (use t(1) in \<open>unfold deployed_def transact_Ok_iff, blast\<close>)
  moreover have "wp (set_executor (harness_env c (mocked c) (hn_now ?b)) (hn_executor c)) ?Q (\<lambda>_ _. False) False (hn_registry ?b)"
    using t(2) assms by (simp add: set_executor_def wps stage_def initial_config_def harness_config_def)
  ultimately obtain y u where u: "on_cron c (mocked c) (\<lambda>e. set_executor e (hn_executor c)) ?b = (Ok y, ?b\<lparr>hn_registry := u\<rparr>)"
    "?Q y u" "reachable (ledger_host table) (hn_cron c) u"
    using on_cron_reaches [where s = ?b and g = "mocked c" and x = "SetExecutor (hn_executor c)" and Q = ?Q
        and m = "\<lambda>e. set_executor e (hn_executor c)" and h = "ledger_host table" and c = c]
    by auto
  show ?thesis
    by (rule that [of "?b\<lparr>hn_registry := u\<rparr>"])
      (use t(1) u in \<open>simp_all add: andthen_def bind_def modify_def on_cron_def [of _ _ "\<lambda>_. constructor _ _ _ _ _"]
        transact_def blank_def\<close>)
qed

lemma harness_stakes:
  assumes "proper c" and "hn_now s = HARNESS_START"
    and "storage (hn_registry s) = empty_store\<lparr>s_config := Some (harness_config c)\<rparr>"
    and "reachable (ledger_host table) (hn_cron c) (hn_registry s)"
    and "holds c 0 HARNESS_FUNDS HARNESS_FUNDS (world (hn_registry s))"
  obtains y t where "on_cron c (mocked c) (\<lambda>e. stake_tokens (ledger_host table) e (hn_keeper c) HARNESS_MIN_STAKE) s = (Ok y, t)"
    and "ready table c t"
proof -
  let ?Q = "\<lambda>_ t. storage t = ready_store c
      \<and> holds c HARNESS_MIN_STAKE HARNESS_FUNDS (HARNESS_FUNDS - HARNESS_MIN_STAKE) (world t)"
  have "wp (stake_tokens (ledger_host table) (harness_env c (mocked c) (hn_now s)) (hn_keeper c) HARNESS_MIN_STAKE)
      ?Q (\<lambda>_ _. False) False (hn_registry s)"
    using assms proper_rev [OF assms(1)]
    by (simp add: stake_tokens_def wps Let_def ensure_not_paused_def harness_config_def
        initial_config_def empty_store_def fresh_keeper_def ensure_active_keeper_def ledger_transfer_def
        in_i128_def push_active_def joins_def rotation_def MAX_ACTIVE_KEEPERS_def holds_def ready_store_def harness_numbers)
  then obtain y u where u: "on_cron c (mocked c) (\<lambda>e. stake_tokens (ledger_host table) e (hn_keeper c) HARNESS_MIN_STAKE) s
      = (Ok y, s\<lparr>hn_registry := u\<rparr>)" "?Q y u" "reachable (ledger_host table) (hn_cron c) u"
    using on_cron_reaches [where s = s and g = "mocked c" and x = "Stake (hn_keeper c) HARNESS_MIN_STAKE" and Q = ?Q
        and m = "\<lambda>e. stake_tokens (ledger_host table) e (hn_keeper c) HARNESS_MIN_STAKE" and h = "ledger_host table" and c = c]
      assms(4) by auto
  show ?thesis
    by (rule that [OF u(1)]) (use u(2,3) assms(2) in \<open>simp add: ready_def\<close>)
qed

lemma andthen_assoc: "andthen (andthen a b) m = andthen a (andthen b m)"
  by (rule ext) (simp add: andthen_def bind_def split: prod.split outcome.split)

lemma andthen_Ok: "a s = (Ok x, t) \<Longrightarrow> andthen a m s = m t"
  by (simp add: andthen_def bind_def)

lemma harness_starts:
  assumes "proper c"
  obtains s where "harness_new (ledger_host table) ledger_mint c blank = (Ok (), s)" and "ready table c s"
proof -
  let ?connect = "andthen (modify (hn_now_update (\<lambda>_. HARNESS_START)))
      (andthen (on_cron c (mocked c) (\<lambda>e. constructor (hn_admin c) (hn_token c) (hn_token c) HARNESS_MIN_STAKE 3600))
      (on_cron c (mocked c) (\<lambda>e. set_executor e (hn_executor c))))"
  obtain s where s: "?connect blank = (Ok (), s)"
    "connected c s" "reachable (ledger_host table) (hn_cron c) (hn_registry s)"
    by (rule harness_connects [OF assms])
  let ?mint = "\<lambda>a s. s\<lparr>world := ledger_mint (hn_token c) a HARNESS_FUNDS (world s)\<rparr>"
  let ?u = "?mint (hn_keeper c) (?mint (hn_owner c) (hn_registry s))"
  have "holds c 0 HARNESS_FUNDS HARNESS_FUNDS (world ?u)"
    using s(2) assms proper_rev [OF assms]
    by (simp add: holds_def stage_def ledger_mint_def no_ledger_def ledger_balance_def ledger_set_def harness_numbers)
  moreover have "reachable (ledger_host table) (hn_cron c) ?u"
    using assms
    by (intro reachable.more [OF reachable.more [OF s(3)] step.elsewhere] step.elsewhere) (simp_all add: ledger_mint_def)
  ultimately obtain y t where t: "on_cron c (mocked c) (\<lambda>e. stake_tokens (ledger_host table) e (hn_keeper c) HARNESS_MIN_STAKE)
      (s\<lparr>hn_registry := ?u\<rparr>) = (Ok y, t)" "ready table c t"
    using harness_stakes [OF assms, where s = "s\<lparr>hn_registry := ?u\<rparr>"] s(2) by (auto simp: stage_def)
  have "harness_new (ledger_host table) ledger_mint c = andthen ?connect (andthen (harness_mint ledger_mint c (hn_owner c))
      (andthen (harness_mint ledger_mint c (hn_keeper c))
      (bind (on_cron c (mocked c) (\<lambda>e. stake_tokens (ledger_host table) e (hn_keeper c) HARNESS_MIN_STAKE)) (\<lambda>_. ok ()))))"
    by (simp only: harness_new_def andthen_assoc)
  then have "harness_new (ledger_host table) ledger_mint c blank = (Ok (), t)"
    using t(1) by (simp add: andthen_Ok [where a = ?connect, OF s(1)])
      (simp add: andthen_def bind_def harness_mint_def modify_def ok_def)
  then show ?thesis by (rule that) (rule t(2))
qed

text \<open>A job under way, before its next run.\<close>

definition harness_spec :: "cast \<Rightarrow> address \<Rightarrow> symbol \<Rightarrow> val list \<Rightarrow> u64 \<Rightarrow> job_spec" where
  "harness_spec c x f xs every = new_spec (hn_owner c) (harness_params x f xs every)"

definition state_of :: "u64 \<Rightarrow> nat \<Rightarrow> job_state" where
  "state_of every n =
     \<lparr>next_run = HARNESS_START + of_nat n * every, balance = HARNESS_FEE * (100 - int n), runs = of_nat n,
      failures = 0, active = True, leader_runs = 0\<rparr>"

definition underway ::
  "(address \<Rightarrow> symbol \<Rightarrow> val list \<Rightarrow> call_result option) \<Rightarrow> cast \<Rightarrow> job_spec \<Rightarrow> nat \<Rightarrow> ledger harness \<Rightarrow> bool" where
  "underway table c spec n s \<longleftrightarrow>
     hn_now s = HARNESS_START + of_nat n * interval spec
     \<and> reachable (ledger_host table) (hn_cron c) (hn_registry s)
     \<and> s_config (storage (hn_registry s)) = Some (harness_config c)
     \<and> s_halted (storage (hn_registry s)) = Map.empty
     \<and> parts (storage (hn_registry s)) 0 = Some (spec, state_of (interval spec) n)
     \<and> (\<exists>k. s_keepers (storage (hn_registry s)) (hn_keeper c) = Some k \<and> eligible (harness_config c) k)
     \<and> holds c (HARNESS_MIN_STAKE + HARNESS_FEE * (100 - int n)) (HARNESS_FUNDS - HARNESS_FEE * 100)
         (HARNESS_FUNDS - HARNESS_MIN_STAKE + HARNESS_FEE * int n) (world (hn_registry s))"

lemma harness_schedules:
  assumes "proper c" and "ready table c s" and "every \<noteq> 0" and "x \<notin> {hn_cron c, hn_executor c, hn_token c}"
  obtains t where "harness_schedule (ledger_host table) c x f xs every s = (Ok 0, t)"
    and "underway table c (harness_spec c x f xs every) 0 t"
proof -
  let ?p = "harness_params x f xs every" and ?h = "ledger_host table"
  let ?Q = "\<lambda>y t. y = 0 \<and> s_config (storage t) = Some (harness_config c) \<and> s_halted (storage t) = Map.empty
     \<and> parts (storage t) 0 = Some (harness_spec c x f xs every, state_of every 0)
     \<and> s_keepers (storage t) = s_keepers (ready_store c)
     \<and> holds c (HARNESS_MIN_STAKE + HARNESS_FEE * 100) (HARNESS_FUNDS - HARNESS_FEE * 100)
         (HARNESS_FUNDS - HARNESS_MIN_STAKE) (world t)"
  have s: "hn_now s = HARNESS_START" "reachable ?h (hn_cron c) (hn_registry s)" "storage (hn_registry s) = ready_store c"
    "holds c HARNESS_MIN_STAKE HARNESS_FUNDS (HARNESS_FUNDS - HARNESS_MIN_STAKE) (world (hn_registry s))"
    using assms(2) by (simp_all add: ready_def)
  have x: "hn_executor c \<noteq> x" "hn_cron c \<noteq> x" "hn_token c \<noteq> x" using assms(4) by auto
  have run: "wp (create_job ?h (harness_env c (mocked c) (hn_now s)) (hn_owner c) ?p (HARNESS_FEE * 100))
      ?Q (\<lambda>_ _. False) False (hn_registry s)"
    using assms(1,3,4) proper_rev [OF assms(1)] s(3,4) x
    by (simp add: create_job_def validate_job_def validate_schedule_def insert_job_def wps s(1)
        harness_config_def ready_store_def initial_config_def empty_store_def Let_def ensure_not_paused_def
        is_forbidden_target_def issued_def ledger_transfer_def in_i128_def push_owner_job_def owner_ids_def
        new_state_def first_calendar_run_def parts_def harness_params_def harness_spec_def state_of_def
        holds_def harness_numbers)
  have typed: "typed_op (CreateJob (hn_owner c) ?p (HARNESS_FEE * 100))"
    by (simp add: typed_params_def harness_params_def in_i128_def harness_numbers)
  obtain y u where u: "on_cron c (mocked c) (\<lambda>e. create_job ?h e (hn_owner c) ?p (HARNESS_FEE * 100)) s
      = (Ok y, s\<lparr>hn_registry := u\<rparr>)" "?Q y u" "reachable ?h (hn_cron c) u"
    by (rule on_cron_reaches [where m = "\<lambda>e. create_job ?h e (hn_owner c) ?p (HARNESS_FEE * 100)" and Q = ?Q,
          OF s(2) mocked_simps(1) typed perform.simps(1) run]) (rule that)
  have "eligible (harness_config c) (fresh_keeper\<lparr>stake := HARNESS_MIN_STAKE\<rparr>)"
    by (simp add: ensure_active_keeper_def harness_config_def initial_config_def fresh_keeper_def)
  then have "underway table c (harness_spec c x f xs every) 0 (s\<lparr>hn_registry := u\<rparr>)"
    using u(2,3) s(1) by (simp add: underway_def ready_store_def harness_spec_def new_spec_def harness_params_def)
  then show ?thesis
    by (rule that [rotated])
      (use u(1,2) in \<open>simp add: harness_schedule_def harness_create_def bind_def i128_def harness_params_def
        in_i128_def harness_numbers ok_def\<close>)
qed

text \<open>One run, and the wait after it.\<close>

lemma next_on_time:
  assumes "0 < unat every" and "unat t + unat every < 2 ^ 64"
  shows "next_run_after t every t = Some (t + every)"
proof -
  have "every \<noteq> 0" using assms(1) by auto
  moreover have "sat_add t every = t + every" using assms(2) by (simp add: sat_add_def)
  moreover have "unat every < 18446744073709551616" using assms(2) by simp
  ultimately show ?thesis by (simp add: next_run_after_def sat_sub_def checked_add_def checked_mul_def Let_def)
qed

lemma on_schedule:
  assumes "unat HARNESS_START + 100 * unat every < 2 ^ 64" and "n \<le> 100"
  shows "unat (HARNESS_START + of_nat n * every) = unat HARNESS_START + n * unat every"
proof -
  have "n * unat every \<le> 100 * unat every" using assms(2) by simp
  then have "(unat HARNESS_START + n * unat every) mod 2 ^ 64 = unat HARNESS_START + n * unat every"
    using assms(1) by (intro mod_less) linarith
  then show ?thesis
    by (simp only: unat_word_ariths unat_of_nat len_num1 len_bit0 len_bit1 mod_simps) simp
qed

lemma harness_fees:
  assumes "n < 100"
  shows "run_split e (harness_config c) (harness_spec c x f xs every) (state_of every n) = (HARNESS_FEE, 0)"
    and "run_fee e (harness_spec c x f xs every) (state_of every n) = HARNESS_FEE"
proof -
  have "HARNESS_FEE \<le> HARNESS_FEE * (100 - int n)" using assms by (simp add: HARNESS_FEE_def)
  then show fee: "run_fee e (harness_spec c x f xs every) (state_of every n) = HARNESS_FEE"
    by (simp add: run_fee_def ramped_fee_def Let_def harness_spec_def new_spec_def harness_params_def state_of_def HARNESS_FEE_def)
  show "run_split e (harness_config c) (harness_spec c x f xs every) (state_of every n) = (HARNESS_FEE, 0)"
    by (simp add: run_split_def fee) (simp add: harness_config_def initial_config_def split_fee_def HARNESS_FEE_def Let_def in_i128_def trunc_div_def trunc_mod_def)
qed

lemma harness_spec_sel [simp]:
  "interval (harness_spec c x f xs every) = every" "max_runs (harness_spec c x f xs every) = 0"
  "end_at (harness_spec c x f xs every) = 0" "fee_per_run (harness_spec c x f xs every) = HARNESS_FEE"
  "target (harness_spec c x f xs every) = x" "keepers (harness_spec c x f xs every) = None"
  "after (harness_spec c x f xs every) = None" "resolver (harness_spec c x f xs every) = None"
  "function_name (harness_spec c x f xs every) = f" "args (harness_spec c x f xs every) = xs"
  by (simp_all add: harness_spec_def new_spec_def harness_params_def)

lemma harness_config_sel [simp]:
  "\<not> paused (harness_config c)" "executor (harness_config c) = Some (hn_executor c)"
  "fee_token (harness_config c) = hn_token c" "stake_token (harness_config c) = hn_token c"
  "treasury (harness_config c) = None" "grace_period (harness_config c) = 0"
  by (simp_all add: harness_config_def initial_config_def)

lemma state_of_sel [simp]:
  "next_run (state_of every n) = HARNESS_START + of_nat n * every" "leader_runs (state_of every n) = 0"
  by (simp_all add: state_of_def)

text \<open>The assumptions of the story, and what a run of the job finds.\<close>

definition story ::
  "(address \<Rightarrow> symbol \<Rightarrow> val list \<Rightarrow> call_result option) \<Rightarrow> cast \<Rightarrow> address \<Rightarrow> symbol \<Rightarrow> val list \<Rightarrow> u64 \<Rightarrow> bool" where
  "story table c x f xs every \<longleftrightarrow>
     proper c \<and> x \<notin> {hn_cron c, hn_executor c, hn_token c}
     \<and> 0 < unat every \<and> unat HARNESS_START + 100 * unat every < 2 ^ 64
     \<and> (\<exists>v. table (hn_executor c) EXECUTE_FN [ValAddress x, ValSymbol f, ValVec xs] = Some (Returned v))"

lemma story_admits:
  assumes "story table c x f xs every" and "n < 100" and "s_halted d = Map.empty"
    and "parts d 0 = Some (harness_spec c x f xs every, state_of every n)" and "now e = HARNESS_START + of_nat n * every"
    and "me e = hn_cron c"
  shows "run_error (ledger_host table) e (harness_config c) d (hn_keeper c) 0 = None"
    and "other_keeper (ledger_host table) (harness_config c) d a 0 (harness_spec c x f xs every) (state_of every n) = None"
    and "dependency d (harness_spec c x f xs every) (state_of every n) = Inr 0"
    and "resolver_says (ledger_host table) e 0 (harness_spec c x f xs every) w = Some (True, w)"
    and "target_says (ledger_host table) e (hn_executor c) (harness_spec c x f xs every) w = Some ((True, [0]), w)"
proof -
  show other: "other_keeper (ledger_host table) (harness_config c) d a 0 (harness_spec c x f xs every) (state_of every n) = None" for a
    by (simp add: other_keeper_def chosen_keeper_def)
  show dep: "dependency d (harness_spec c x f xs every) (state_of every n) = Inr 0"
    by (simp add: dependency_def)
  have x: "hn_executor c \<noteq> x" "hn_cron c \<noteq> x" "hn_token c \<noteq> x" using assms(1) by (auto simp: story_def)
  show "run_error (ledger_host table) e (harness_config c) d (hn_keeper c) 0 = None"
    using assms(2-6) x not_sym [OF x(1)] not_sym [OF x(2)] not_sym [OF x(3)]
    by (simp add: run_error_def ensure_due_def is_forbidden_target_def other dep)
      (simp add: state_of_def HARNESS_FEE_def)
  show "resolver_says (ledger_host table) e 0 (harness_spec c x f xs every) w = Some (True, w)"
    by (simp add: resolver_says_def)
  show "target_says (ledger_host table) e (hn_executor c) (harness_spec c x f xs every) w = Some ((True, [0]), w)"
  proof -
    obtain v where "table (hn_executor c) EXECUTE_FN [ValAddress x, ValSymbol f, ValVec xs] = Some (Returned v)"
      using assms(1) by (auto simp: story_def)
    then show ?thesis by (simp add: target_says_def ledger_host_def)
  qed
qed

lemma story_pays:
  assumes "story table c x f xs every" and "n < 100" and "me e = hn_cron c"
    and "holds c (HARNESS_MIN_STAKE + HARNESS_FEE * (100 - int n)) (HARNESS_FUNDS - HARNESS_FEE * 100)
         (HARNESS_FUNDS - HARNESS_MIN_STAKE + HARNESS_FEE * int n) w"
  obtains w' where "settled (ledger_host table) e (harness_config c) (hn_keeper c)
      (paid e (harness_config c) (harness_spec c x f xs every) (state_of every n) no_payout) w = Some w'"
    and "holds c (HARNESS_MIN_STAKE + HARNESS_FEE * (100 - int (Suc n))) (HARNESS_FUNDS - HARNESS_FEE * 100)
         (HARNESS_FUNDS - HARNESS_MIN_STAKE + HARNESS_FEE * int (Suc n)) w'"
proof -
  have "proper c" using assms(1) by (simp add: story_def)
  then obtain w' where w: "ledger_transfer (hn_token c) (hn_cron c) (hn_keeper c) HARNESS_FEE w = Some w'"
    "holds c (HARNESS_MIN_STAKE + HARNESS_FEE * (100 - int (Suc n))) (HARNESS_FUNDS - HARNESS_FEE * 100)
         (HARNESS_FUNDS - HARNESS_MIN_STAKE + HARNESS_FEE * int (Suc n)) w'"
    using assms(2,4) proper_rev [of c] by (simp add: ledger_transfer_def holds_def harness_numbers)
  then show ?thesis
    using assms(3) that
    by (simp add: settled_def paid_def no_payout_def harness_fees [OF assms(2)] HARNESS_FEE_def)
qed

lemma story_clock:
  assumes "story table c x f xs every" and "n < 100"
  shows "unat (HARNESS_START + of_nat n * every) + unat every < 2 ^ 64"
    and "HARNESS_START + of_nat n * every \<noteq> - 1"
proof -
  have "unat (HARNESS_START + of_nat n * every) = unat HARNESS_START + n * unat every"
    using assms by (intro on_schedule) (simp_all add: story_def)
  moreover have "n * unat every + unat every \<le> 100 * unat every"
    using assms(2) mult_right_mono [of "Suc n" 100 "unat every"] by simp
  ultimately show sum: "unat (HARNESS_START + of_nat n * every) + unat every < 2 ^ 64"
    using assms(1) by (simp only: story_def) linarith
  show "HARNESS_START + of_nat n * every \<noteq> - 1"
    using sum assms(1) by (auto simp: unat_max_word story_def)
qed

lemma story_counts:
  assumes "story table c x f xs every" and "n < 100" and "now e = HARNESS_START + of_nat n * every"
  shows "state_after e (harness_config c) (harness_spec c x f xs every) (state_of every n) True 0 = state_of every (Suc n)"
proof -
  have "sat_add (of_nat n) 1 = (of_nat (Suc n) :: u32)"
    using assms(2) by (simp add: sat_add_def unat_of_nat)
  moreover have "next_run_after (now e) every (now e) = Some (now e + every)"
    by (rule next_on_time) (use assms story_clock [OF assms(1,2)] in \<open>simp_all add: story_def\<close>)
  ultimately show ?thesis
    using assms(3)
    by (simp add: state_after_def ran_state_def harness_fees [OF assms(2)] run_failures_def deactivates_def)
      (simp add: state_of_def algebra_simps)
qed

text \<open>One run, from call to books.\<close>

lemma story_executes:
  assumes "underway table c (harness_spec c x f xs every) n s" and "story table c x f xs every" and "n < 100"
  obtains u where "execute (ledger_host table) (harness_env c (mocked c) (hn_now s)) (hn_keeper c) 0 (hn_registry s) = (Ok (), u)"
    and "\<And>t. hn_registry t = u \<Longrightarrow> hn_now t = hn_now s + every \<Longrightarrow> reachable (ledger_host table) (hn_cron c) u \<Longrightarrow>
      underway table c (harness_spec c x f xs every) (Suc n) t"
proof -
  let ?h = "ledger_host table" and ?c = "harness_config c" and ?e = "harness_env c (mocked c) (hn_now s)"
  let ?d = "storage (hn_registry s)" and ?w = "world (hn_registry s)" and ?st = "state_of every n" and ?k = "hn_keeper c"
  let ?spec = "harness_spec c x f xs every"
  obtain k where s: "reachable ?h (hn_cron c) (hn_registry s)" "s_config ?d = Some ?c" "s_halted ?d = Map.empty"
    "parts ?d 0 = Some (?spec, ?st)" "s_keepers ?d ?k = Some k" "eligible ?c k" "hn_now s = HARNESS_START + of_nat n * every"
    using assms(1) by (auto simp: underway_def)
  have proper: "proper c" using assms(2) by (simp add: story_def)
  have e: "now ?e = HARNESS_START + of_nat n * every" "me ?e = hn_cron c" by (simp_all add: s(7))
  note admits = story_admits [OF assms(2,3) s(3,4) e]
  obtain w where w: "settled ?h ?e ?c ?k (paid ?e ?c ?spec ?st no_payout) ?w = Some w"
    "holds c (HARNESS_MIN_STAKE + HARNESS_FEE * (100 - int (Suc n))) (HARNESS_FUNDS - HARNESS_FEE * 100)
         (HARNESS_FUNDS - HARNESS_MIN_STAKE + HARNESS_FEE * int (Suc n)) w"
    by (rule story_pays [OF assms(2,3), of ?e ?w]) (use assms(1) in \<open>simp_all add: underway_def\<close>)
  have "sound_host ?h (hn_cron c)"
    by (simp add: sound_host_def ledger_token_laws ledger_install_keeps_funds ledger_calls_ignore_funds calls_ignore_imp_keep)
  then have fair: "fair_call ?h ?e" and cov: "covers None ?h (hn_cron c) 0 0 (hn_registry s)"
    using reachable_covers [OF _ s(1)] by (simp_all add: fair_call_def)
  have "\<exists>u. execute ?h ?e ?k 0 (hn_registry s) = (Ok (), u)"
    by (rule execute_returns [OF fair reachable_ok [OF s(1)], where c = ?c and exec = "hn_executor c" and spec = ?spec
          and st = ?st and k = k and x = "(True, [0])" and ?w1.0 = ?w and ?w2.0 = ?w])
      (use cov s admits w(1) proper story_clock [OF assms(2,3)] in simp_all)
  then obtain u where u: "execute ?h ?e ?k 0 (hn_registry s) = (Ok (), u)" by blast
  obtain spec st where eq: "spec = ?spec" "st = ?st" by blast
  have after: "storage u = saved_record ?k (credit_run (sat_sub (hn_now s) (next_run st)) \<lparr>info = k, recent = recent_of ?d ?k\<rparr>)
      (booked ?e ?c 0 spec st None True 0 ?d)" "world u = w"
    using s(2,4,5) admits(1-3) admits(4,5) [of ?w] w(1) unfolding eq [symmetric]
    by (auto intro: execute_effects [OF u])
  have kept: "s_config (storage u) = Some ?c" "s_halted (storage u) = Map.empty"
    "parts (storage u) 0 = Some (?spec, state_of every (Suc n))"
    "\<exists>k. s_keepers (storage u) ?k = Some k \<and> eligible ?c k"
    using s(6)
    by (simp_all add: after(1) eq parts_booked [OF s(4)] story_counts [OF assms(2,3) e(1)] del: of_nat_Suc)
      (simp_all add: saved_record_def booked_def with_misses_def missed_by_def s(2,3) ensure_active_keeper_def credit_run_def
        split: if_splits)
  show ?thesis
    by (rule that [OF u])
      (use kept w(2) s(7) in \<open>simp add: underway_def after(2) algebra_simps del: of_nat_Suc\<close>, simp add: algebra_simps)
qed

lemma runs_underway:
  assumes "underway table c (harness_spec c x f xs every) n s" and "story table c x f xs every" and "n < 100"
  obtains t where "harness_run (ledger_host table) c 0 s = (Ok (), t)" and "hn_now t = hn_now s"
    and "underway table c (harness_spec c x f xs every) (Suc n) (t\<lparr>hn_now := hn_now t + every\<rparr>)"
proof -
  let ?h = "ledger_host table" and ?k = "hn_keeper c"
  obtain u where u: "execute ?h (harness_env c (mocked c) (hn_now s)) ?k 0 (hn_registry s) = (Ok (), u)"
    "\<And>t. hn_registry t = u \<Longrightarrow> hn_now t = hn_now s + every \<Longrightarrow> reachable ?h (hn_cron c) u \<Longrightarrow>
      underway table c (harness_spec c x f xs every) (Suc n) t"
    by (rule story_executes [OF assms]) blast
  have "reachable ?h (hn_cron c) (hn_registry s)" using assms(1) by (simp add: underway_def)
  then obtain y where run: "harness_run ?h c 0 s = (Ok y, s\<lparr>hn_registry := u\<rparr>)" "reachable ?h (hn_cron c) u"
    unfolding harness_run_def
    by (rule on_cron_reaches [where m = "\<lambda>e. execute ?h e ?k 0" and Q = "\<lambda>_ t. t = u"
          and x = "Execute ?k 0" and h = ?h and s = s and g = "mocked c" and c = c]) (use u(1) that in \<open>auto simp: wp_def\<close>)
  show ?thesis by (rule that [of "s\<lparr>hn_registry := u\<rparr>"]) (use run u(2) in simp_all)
qed

lemma exhausted:
  assumes "underway table c spec 100 s" and "fee_per_run spec = HARNESS_FEE" "max_runs spec = 0" "end_at spec = 0"
  shows "fst (harness_run (ledger_host table) c 0 s) = Trap"
proof -
  have "parts (storage (hn_registry s)) 0 = Some (spec, state_of (interval spec) 100)"
    using assms(1) by (simp add: underway_def)
  then have no: "run_error h e conf (storage (hn_registry s)) a 0 \<noteq> None" for h e conf a
    using assms by (simp add: run_error_def ensure_due_def state_of_def HARNESS_FEE_def)
  have "execute (ledger_host table) e a 0 (hn_registry s) \<noteq> (Ok (), t)" for e a t
    by (rule notI, erule execute_effects) (simp add: no)
  then show ?thesis
    by (auto simp: harness_run_def on_cron_def transact_def split: prod.split outcome.split)
qed

lemma rounds_underway:
  assumes "story table c x f xs every"
  shows "underway table c (harness_spec c x f xs every) m s \<Longrightarrow> m + n \<le> 100 \<Longrightarrow>
    \<exists>t. rounds (ledger_host table) c 0 every n s = (Ok (), t) \<and> underway table c (harness_spec c x f xs every) (m + n) t"
proof (induction n arbitrary: m s)
  case 0
  then show ?case by (simp add: ok_def)
next
  case (Suc n)
  then have m: "m < 100" by simp
  obtain t where t: "harness_run (ledger_host table) c 0 s = (Ok (), t)" "hn_now t = hn_now s"
    "underway table c (harness_spec c x f xs every) (Suc m) (t\<lparr>hn_now := hn_now t + every\<rparr>)"
    by (rule runs_underway [OF Suc.prems(1) assms m])
  have "unat (hn_now t) + unat every < 2 ^ 64"
    using story_clock(1) [OF assms m] Suc.prems(1) by (simp add: t(2) underway_def)
  then have "checked_add (hn_now t) every = Some (hn_now t + every)"
    by (simp add: checked_add_def)
  then have "harness_advance every t = (Ok (), t\<lparr>hn_now := hn_now t + every\<rparr>)"
    by (simp add: harness_advance_def bind_def gets_def unwrap_def ok_def modify_def)
  then show ?case
    using Suc.IH [OF t(3)] Suc.prems(2) t(1) by (simp add: andthen_def bind_def)
qed

text \<open>
  C29. The harness keeps its word, and with it the registry: a job scheduled through it is funded
  for exactly a hundred runs. For every interval (that the clock can hold a hundred times) and every
  target that returns, after deployment, staking and scheduling, running the job and waiting for
  its interval \<open>n\<close> times succeeds for every \<open>n\<close> up to a hundred; the job then shows \<open>n\<close> runs, the
  remaining money and the next time on the grid, the keeper has earned \<open>n\<close> fees, and one more run
  succeeds exactly if \<open>n\<close> is below a hundred.
\<close>

theorem a_scheduled_job_runs_a_hundred_times:
  assumes "proper c" and "x \<notin> {hn_cron c, hn_executor c, hn_token c}"
    and "0 < unat every" and "unat HARNESS_START + 100 * unat every < 2 ^ 64" and "n \<le> 100"
    and "table (hn_executor c) EXECUTE_FN [ValAddress x, ValSymbol f, ValVec xs] = Some (Returned v)"
  shows "\<exists>t j. andthen (harness_new (ledger_host table) ledger_mint c)
        (bind (harness_schedule (ledger_host table) c x f xs every) (\<lambda>i. rounds (ledger_host table) c i every n)) blank = (Ok (), t)
    \<and> fst (harness_job c 0 t) = Ok j
    \<and> j_runs j = of_nat n \<and> j_balance j = HARNESS_FEE * (100 - int n)
    \<and> j_next_run j = HARNESS_START + of_nat n * every \<and> hn_now t = j_next_run j
    \<and> ledger_balance (world (hn_registry t)) (hn_token c) (hn_keeper c)
        = HARNESS_FUNDS - HARNESS_MIN_STAKE + HARNESS_FEE * int n
    \<and> (fst (harness_run (ledger_host table) c 0 t) = Ok () \<longleftrightarrow> n < 100)"
proof -
  let ?h = "ledger_host table" and ?spec = "harness_spec c x f xs every"
  have story: "story table c x f xs every" using assms by (simp add: story_def)
  obtain s where s: "harness_new ?h ledger_mint c blank = (Ok (), s)" "ready table c s"
    by (rule harness_starts [OF assms(1)])
  have "every \<noteq> 0" using assms(3) by auto
  then obtain u where u: "harness_schedule ?h c x f xs every s = (Ok 0, u)" "underway table c ?spec 0 u"
    using harness_schedules [OF assms(1) s(2) _ assms(2)] by blast
  obtain t where t: "rounds ?h c 0 every n u = (Ok (), t)" "underway table c ?spec n t"
    using rounds_underway [OF story u(2)] assms(5) by auto
  have "wp (get_job_view 0) (\<lambda>j _. j = Some (job_view 0 ?spec (state_of every n))) (\<lambda>_ _. False) False (hn_registry t)"
    using t(2) by (simp add: get_job_view_def wps underway_def)
  then have job: "fst (harness_job c 0 t) = Ok (job_view 0 ?spec (state_of every n))"
    by (auto simp: wp_def harness_job_def bind_def on_cron_def transact_def unwrap_def ok_def split: prod.splits outcome.splits)
  have "fst (harness_run ?h c 0 t) = Ok () \<longleftrightarrow> n < 100"
  proof (cases "n < 100")
    case True
    obtain u' where "harness_run ?h c 0 t = (Ok (), u')"
      by (rule runs_underway [OF t(2) story True])
    then show ?thesis using True by simp
  next
    case False
    then show ?thesis using exhausted [of table c ?spec t] t(2) assms(5) by simp
  qed
  then show ?thesis
    using s(1) u(1) t job
    by (intro exI [of _ t] exI [of _ "job_view 0 ?spec (state_of every n)"])
      (simp add: andthen_def bind_def underway_def holds_def job_view_def state_of_def)
qed

definition demo_cast :: cast where
  "demo_cast = \<lparr>hn_cron = Address 0, hn_executor = Address 1, hn_token = Address 2, hn_admin = Address 3,
     hn_owner = Address 4, hn_keeper = Address 5, hn_sequence = 0\<rparr>"

theorem a_scheduled_job_runs_a_hundred_times_witness:
  "\<exists>t. andthen (harness_new (ledger_host (\<lambda>_ _ _. Some (Returned (ValBool True)))) ledger_mint demo_cast)
      (bind (harness_schedule (ledger_host (\<lambda>_ _ _. Some (Returned (ValBool True)))) demo_cast (Address 9) ''hit'' [] 60)
        (\<lambda>i. rounds (ledger_host (\<lambda>_ _ _. Some (Returned (ValBool True)))) demo_cast i 60 100)) blank = (Ok (), t)
    \<and> ledger_balance (world (hn_registry t)) (Address 2) (Address 5) = 1000000000
    \<and> fst (harness_run (ledger_host (\<lambda>_ _ _. Some (Returned (ValBool True)))) demo_cast 0 t) \<noteq> Ok ()"
  using a_scheduled_job_runs_a_hundred_times [of demo_cast "Address 9" 60 100 "\<lambda>_ _ _. Some (Returned (ValBool True))" "''hit''" "[]"]
  by (auto simp: demo_cast_def harness_numbers)

end
