(* ===== verification/Spec2Isabelle.thy ===== *)
theory Spec2Isabelle
  imports RunLaws JobLaws KeeperLaws AdminLaws StepLaws Executor TtlGuardian PriceResolvers
    Resolvers TimelockResolver SelfExtending Subscription Timelock Vesting Dca LimitOrder KeeperMain
    KeeperChain Leaving Fuzz Proptests Testkit Harness Panics
begin

text \<open>
  SoroCron is a job scheduler for the Soroban smart contract platform, written in Rust. Users
  escrow fees in a registry contract for calls they want made on a schedule; staked keepers make
  them and are paid. This development models the contracts and the keeper bot as HOL functions,
  translated from the files under \<open>src/contracts\<close> and \<open>src/keeper-rs\<close>, and proves what makes them
  correct.

  How the parts interact. The registry (\<open>contracts/registry\<close>) keeps the configuration, the jobs,
  the keepers and the rotation. To run a job it asks the job's resolver, a contract with a function
  \<open>should_run\<close>, and calls the job's target through the executor (\<open>contracts/executor\<close>), so that no
  target ever sees the registry as its caller. The example contracts are targets, resolvers or
  both. The keeper bot (\<open>keeper-rs\<close>) polls the registry over RPC, simulates \<open>execute_batch\<close> over
  the due jobs, and signs and sends the batches that pay. The TTL guardian extends the lifetime of
  contracts.

  Foundations.
  \<^item> \<open>Prelude\<close>: machine integers (\<open>u32\<close>, \<open>u64\<close> are words; an \<open>i128\<close> is an \<open>int\<close>, with every
    operation of the source that checks, saturates, wraps or panics written as such), the outcome of
    a call (\<open>Ok\<close>, \<open>Err\<close>, or \<open>Trap\<close> for a panic), the state-passing actions \<open>act\<close> with
    \<open>bind\<close>, \<open>attempt\<close> and \<open>transact\<close> (an error or a panic rolls back), their weakest preconditions
    \<open>wp\<close> with the rule collection \<open>wps\<close>, and the interface \<open>id_list\<close>.
  \<^item> \<open>Host\<close>: the Soroban host. A contract's state is its storage, the events it published and the
    lifetime extensions it asked for. Tokens, targets, resolvers and hashing are a record of functions
    on an abstract world, with the documented behaviour of tokens as named predicates
    (\<open>token_laws\<close>, \<open>calls_keep_funds\<close> and others) and a concrete host, a ledger of balances, that
    has them.
  \<^item> \<open>Types\<close>: \<open>types.rs\<close>, \<open>errors.rs\<close>, \<open>events.rs\<close>, field for field.

  The registry (\<open>contracts/registry/src\<close>).
  \<^item> \<open>Schedule\<close>: \<open>schedule.rs\<close>, with the calendar compared to an independent definition of dates,
    the interval grid, the fee ramp, the fee split and the unbonding release.
  \<^item> \<open>Storage\<close>: \<open>storage.rs\<close>; one field of \<open>reg_store\<close> per kind of key. The lists of an owner's jobs
    and of active keepers are instances of \<open>id_list\<close>.
  \<^item> \<open>Jobs\<close>, \<open>Execution\<close>, \<open>Keepers\<close>, \<open>Admin\<close>, \<open>Views\<close>: \<open>lib.rs\<close>, one definition per entry point and
    per private function, in the order of its sections, with every guard and early return.
  \<^item> \<open>Registry\<close>: the entry points as a state machine. A step is one transaction, or anything that
    happens elsewhere; \<open>reachable\<close> states are those after a deployment and any number of steps.
  \<^item> \<open>Invariants\<close>, \<open>Escrow\<close>: the agreement of the entries, and custody, each as a predicate that every
    operation keeps. Custody has two readings of one proof: the registry holds at least what it owes,
    and what it holds beyond that never changes.
  \<^item> \<open>Runs\<close>, \<open>RunFacts\<close>: the exact effect of one run, of a refusal, and of the payout.
  \<^item> \<open>RunLaws\<close>, \<open>JobLaws\<close>, \<open>KeeperLaws\<close>, \<open>AdminLaws\<close>, \<open>StepLaws\<close>, \<open>Conservation\<close>, \<open>Batches\<close>: the
    theorems. Due jobs run, stakes and balances always come back, windows are exclusive, misses are
    fair, upgrades wait, only signers act, ids are never reused, the registry is solvent and no money
    is stranded, a batch answers truly which jobs ran.
  \<^item> \<open>Leaving\<close>: keepers who leave, along a history: a release time stays what it was, and an upgrade
    waits for it.
  \<^item> \<open>Spending\<close>, \<open>Panics\<close>: an operation takes from nobody more than the deposit or stake they signed
    for, and what an account loses besides it loses in the calls a run makes; no entry point panics from a reachable state, given the signature it needs, a caller who can pay
    and tokens that serve; with a concrete host, coins, that serves.
  \<^item> \<open>Demo\<close>: a deployment in which all of this happens, for the instances.
  \<^item> \<open>Fuzz\<close>, \<open>Proptests\<close>: the repository's fuzz test (\<open>invariants.rs\<close>) and property tests
    (\<open>proptests.rs\<close>) as programs over the model. The fuzz test passes whatever it draws, the
    property tests on every input but for the overflows the theorem names.

  The other contracts.
  \<^item> \<open>Executor\<close>, \<open>TtlGuardian\<close>: the two companion contracts; the executor composed with the registry.
  \<^item> \<open>Clients\<close>: what small contracts share, and three interfaces: \<open>kept_along\<close> and \<open>kept_by\<close> (an
    invariant along any history of a contract) and \<open>self_resolver\<close> (a contract whose resolver says yes
    exactly when its action succeeds), instantiated by the contracts that promise them.
  \<^item> \<open>Triggers\<close> (counter, flag resolver, oracle trigger, NFT floor trigger), \<open>PriceResolvers\<close>
    (rebalance, price), \<open>Resolvers\<close> (composite), \<open>TimelockResolver\<close>, \<open>SelfExtending\<close>,
    \<open>Subscription\<close>, \<open>Timelock\<close>, \<open>Vesting\<close>: the examples of \<open>contracts/examples\<close>.
  \<^item> \<open>Router\<close>, \<open>Dca\<close>, \<open>LimitOrder\<close>: the trading contracts. Calls under
    \<open>authorize_as_current_contract\<close> carry the grants they were given; the laws of a router are the
    interface \<open>router_venue\<close>, interpreted on a sample and, in \<open>Testkit\<close>, on the repository's own
    \<open>MockRouter\<close>.
  \<^item> \<open>Harness\<close>: the rest of \<open>contracts/testkit\<close>, a registry deployed and driven the way the example
    contracts' tests do it.

  The keeper bot (\<open>keeper-rs/src\<close>).
  \<^item> \<open>KeeperText\<close>: decimal output and parsing, splitting text. \<open>KeeperConfig\<close>: \<open>config.rs\<close>.
  \<^item> \<open>KeeperCalls\<close>, \<open>KeeperTx\<close>: \<open>registry.rs\<close> and \<open>tx.rs\<close>; the RPC server is a record of functions
    with a state of its own, cryptography is a parameter, every envelope sent is recorded.
  \<^item> \<open>KeeperBot\<close>: a tick of \<open>main.rs\<close>, the quarantine and the queue of batches, whose loop relies on
    the interface \<open>batch_runner\<close>. \<open>KeeperMetrics\<close>: \<open>metrics.rs\<close>. \<open>KeeperMain\<close>: \<open>main\<close> and \<open>serve\<close>.
  \<^item> \<open>KeeperChain\<close>: bot and registry together. The interface \<open>live_server\<close> is an RPC server on a
    chain where others act and time passes between the bot's requests; a server that runs the
    registry's own code, with a script of foreign transactions, provides it. The batches a tick
    reports were applied; the jobs it reports are those the simulations promised, and one tick is shown
    whose report is wrong.

  Bounds. The loop over a tick's queue takes fuel \<open>efforts\<close>, the sum of twice a batch's size less
  one; \<open>every_tick_finishes\<close> proves it enough (a batch that is split or retried job by job always
  leaves less). The bot's endless loop runs over a list of passes, as long as wanted. All other
  recursion is over the arguments or has a proved measure.

  Not modelled, and why.
  \<^item> Archival of ledger entries whose lifetime ended: extensions are recorded, entries never vanish.
    The resource limits and fees of a transaction: the host may trap at any call it is asked for.
  \<^item> XDR encoding, signatures, hashing, address encodings, JSON, the file system and the clock are
    parameters of the bot; so are floating-point metrics. Log lines on the terminal, sockets and
    timers are inputs and outputs of the definitions at most.
  \<^item> \<open>contracts/interfaces\<close> (generated declarations without bodies), \<open>contracts/bench\<close> (prints costs),
    the unit tests, and the test kit's methods that only register a contract.
  \<^item> The TypeScript keeper, the client packages and the web application.
\<close>

end
